(* ===== verification/Prelude.thy ===== *)
theory Prelude
  imports Main "HOL-Library.AList" "HOL-Library.Multiset" "HOL-Library.Word"
begin

text \<open>
  What every component of the development shares: the machine types of the Rust source, its
  \<open>HashMap\<close> and \<open>HashSet\<close>, its \<open>Result\<close>, a few string functions of its standard library,
  and the lemmas and collections the component proofs use.

  A \<open>HashMap\<close> is an association list with one entry for each key (\<open>hm_wf\<close>) and a
  \<open>HashSet\<close> a list without duplicates; \<open>get\<close>, \<open>insert\<close> and \<open>remove\<close> are
  \<open>map_of\<close>, \<open>AList.update\<close> and \<open>AList.delete\<close>. Rust leaves the iteration order of
  both unspecified, so every loop over one takes it from a parameter \<open>\<pi>\<close>
  (\<open>hash_order\<close>): the loop visits the keys in the order \<open>\<pi> ks\<close>, where \<open>ks\<close> are the
  keys of the table. All that is ever assumed of \<open>\<pi>\<close> is \<open>is_hash_order\<close>, that it
  permutes the keys it is given.
\<close>

section \<open>Machine types\<close>

type_synonym u64 = "64 word"
type_synonym i32 = "32 word"
type_synonym usize = nat
type_synonym f64 = "64 word" \<comment> \<open>a double, as the bits \<open>f64::to_bits\<close> gives\<close>

section \<open>Results\<close>

text \<open>\<open>Result<T, E>\<close> is \<open>'e + 'a\<close>, an error on the left.\<close>

definition is_ok :: "'e + 'a \<Rightarrow> bool" where
  "is_ok r = (case r of Inl _ \<Rightarrow> False | Inr _ \<Rightarrow> True)"

lemma is_ok_simps [simp]: "is_ok (Inr x)" "\<not> is_ok (Inl e)"
  by (simp_all add: is_ok_def)

lemma is_ok_iff: "is_ok r \<longleftrightarrow> (\<exists>x. r = Inr x)"
  by (cases r) simp_all

lemma not_is_ok_iff: "\<not> is_ok r \<longleftrightarrow> (\<exists>e. r = Inl e)"
  by (cases r) simp_all

lemma is_ok_if: "is_ok (if b then x else y) \<longleftrightarrow> (if b then is_ok x else is_ok y)"
  by simp

section \<open>Hash tables\<close>

type_synonym ('k, 'v) hmap = "('k \<times> 'v) list"
type_synonym 'a hset = "'a list"
type_synonym hash_order = "string list \<Rightarrow> string list"

named_theorems hash_simps

definition is_hash_order :: "hash_order \<Rightarrow> bool" where
  "is_hash_order \<pi> \<longleftrightarrow> (\<forall>ks. mset (\<pi> ks) = mset ks)"

definition hm_wf :: "('k, 'v) hmap \<Rightarrow> bool" where
  "hm_wf m \<longleftrightarrow> distinct (map fst m)"

definition hm_contains :: "('k, 'v) hmap \<Rightarrow> 'k \<Rightarrow> bool" where
  "hm_contains m k = (map_of m k \<noteq> None)"

definition hm_keys :: "('k, 'v) hmap \<Rightarrow> 'k list" where
  "hm_keys m = map fst m"

text \<open>The entries in the order a loop over the map meets them.\<close>

definition hm_iter :: "hash_order \<Rightarrow> (string, 'v) hmap \<Rightarrow> (string \<times> 'v) list" where
  "hm_iter \<pi> m = List.map_filter (\<lambda>k. map_option (Pair k) (map_of m k)) (\<pi> (hm_keys m))"

lemma hash_order_set [hash_simps]: "is_hash_order \<pi> \<Longrightarrow> set (\<pi> ks) = set ks"
  unfolding is_hash_order_def by (metis set_mset_mset)

lemma hash_order_length [hash_simps]: "is_hash_order \<pi> \<Longrightarrow> length (\<pi> ks) = length ks"
  unfolding is_hash_order_def by (metis size_mset)

lemma hash_order_distinct [hash_simps]: "is_hash_order \<pi> \<Longrightarrow> distinct (\<pi> ks) = distinct ks"
  unfolding is_hash_order_def by (metis mset_eq_imp_distinct_iff)

lemma hash_order_id: "is_hash_order (\<lambda>ks. ks)"
  by (simp add: is_hash_order_def)

lemma hash_order_rev: "is_hash_order rev"
  by (simp add: is_hash_order_def)

lemma hm_contains_iff [hash_simps]: "hm_contains m k \<longleftrightarrow> k \<in> set (map fst m)"
  by (auto simp: hm_contains_def map_of_eq_None_iff)

lemma map_of_update [hash_simps]: "map_of (AList.update k v m) k' = (if k' = k then Some v else map_of m k')"
  by (simp add: update_conv')

lemma map_of_delete [hash_simps]: "map_of (AList.delete k m) k' = (if k' = k then None else map_of m k')"
  by (simp add: delete_conv')

lemma hm_wf_Nil [simp]: "hm_wf []"
  by (simp add: hm_wf_def)

lemma hm_wf_update [simp]: "hm_wf m \<Longrightarrow> hm_wf (AList.update k v m)"
  by (simp add: hm_wf_def distinct_update)

lemma hm_wf_delete [simp]: "hm_wf m \<Longrightarrow> hm_wf (AList.delete k m)"
  by (simp add: hm_wf_def distinct_delete)

lemma mem_map_filter_iff: "y \<in> set (List.map_filter f xs) \<longleftrightarrow> (\<exists>x \<in> set xs. f x = Some y)"
  by (induction xs) (auto simp: List.map_filter_def split: option.splits)

lemma hm_iter_mem [hash_simps]:
  assumes "is_hash_order \<pi>"
  shows "(k, v) \<in> set (hm_iter \<pi> m) \<longleftrightarrow> map_of m k = Some v"
proof -
  have "k \<in> fst ` set m" if "map_of m k = Some v"
    using that by (metis fst_conv image_eqI map_of_SomeD)
  with assms show ?thesis
    by (auto simp: hm_iter_def hm_keys_def mem_map_filter_iff hash_order_set)
qed

lemma hm_iter_set: "is_hash_order \<pi> \<Longrightarrow> set (hm_iter \<pi> m) = {(k, v). map_of m k = Some v}"
  by (auto simp: hm_iter_mem)

lemma update_fresh: "k \<notin> fst ` set m \<Longrightarrow> AList.update k v m = m @ [(k, v)]"
  by (induction m) auto

lemma hm_iter_keys:
  assumes "is_hash_order \<pi>"
  shows "map fst (hm_iter \<pi> m) = \<pi> (hm_keys m)"
proof -
  have "\<forall>k \<in> set (\<pi> (hm_keys m)). map_of m k \<noteq> None"
    using assms by (auto simp: hash_order_set hm_keys_def map_of_eq_None_iff)
  then have "map fst (List.map_filter (\<lambda>k. map_option (Pair k) (map_of m k)) ks) = ks"
    if "set ks \<subseteq> set (\<pi> (hm_keys m))" for ks
    using that by (induction ks) (auto simp: List.map_filter_def)
  then show ?thesis
    by (simp add: hm_iter_def)
qed

lemma hm_iter_distinct [hash_simps]:
  "is_hash_order \<pi> \<Longrightarrow> hm_wf m \<Longrightarrow> distinct (map fst (hm_iter \<pi> m))"
  by (simp add: hm_iter_keys hash_order_distinct hm_keys_def hm_wf_def)

section \<open>Strings\<close>

text \<open>\<open>'{}'\<close> in a format string, \<open>join\<close> on a vector of strings, decimal printing.\<close>

definition squote :: "string \<Rightarrow> string" where
  "squote s = CHR 0x27 # s @ [CHR 0x27]"

fun join_with :: "string \<Rightarrow> string list \<Rightarrow> string" where
  "join_with sep [] = []"
| "join_with sep [s] = s"
| "join_with sep (s # t # ss) = s @ sep @ join_with sep (t # ss)"

definition show_digit :: "nat \<Rightarrow> char" where
  "show_digit d = char_of (48 + d)"

fun show_nat :: "nat \<Rightarrow> string" where
  "show_nat n = (if n < 10 then [show_digit n] else show_nat (n div 10) @ [show_digit (n mod 10)])"

declare show_nat.simps [simp del]

text \<open>The UTF-8 bytes of a \<open>char\<close>, as \<open>char::to_string\<close> gives them.\<close>

definition utf8_encode :: "nat \<Rightarrow> string" where
  "utf8_encode c =
     (if c < 0x80 then [char_of c]
      else if c < 0x800 then [char_of (0xC0 + c div 64), char_of (0x80 + c mod 64)]
      else if c < 0x10000 then
        [char_of (0xE0 + c div 4096), char_of (0x80 + c div 64 mod 64), char_of (0x80 + c mod 64)]
      else [char_of (0xF0 + c div 262144), char_of (0x80 + c div 4096 mod 64),
            char_of (0x80 + c div 64 mod 64), char_of (0x80 + c mod 64)])"

section \<open>Lists\<close>

lemma find_Some_set: "List.find P xs = Some x \<Longrightarrow> x \<in> set xs \<and> P x"
  by (induction xs) (auto split: if_splits)

lemma find_None_set: "List.find P xs = None \<longleftrightarrow> (\<forall>x \<in> set xs. \<not> P x)"
  by (auto simp: find_None_iff)

end
