(* ===== verification/Ast.thy ===== *)
theory Ast
  imports Prelude
begin

text \<open>
  The syntax tree of \<open>src/ast.rs\<close>. A type of the source that takes part in the recursion between
  expressions and statements is a \<open>datatype\<close> over the types \<open>'e\<close> of its expressions and
  \<open>'s\<close> of its statements, so that only \<open>expression\<close> and \<open>statement\<close> are mutually
  recursive; the source's types are the instances at those two. A field map of the
  source (\<open>HashMap<String, _>\<close>) is a list of entries.
\<close>

section \<open>Operators, accesses, literals\<close>

datatype int_suffix = I8 | I16 | I32 | I64 | U8 | U16 | U32 | U64

fun suffix_type_name :: "int_suffix \<Rightarrow> string" where
  "suffix_type_name I8 = ''i8''"
| "suffix_type_name I16 = ''i16''"
| "suffix_type_name I32 = ''i32''"
| "suffix_type_name I64 = ''i64''"
| "suffix_type_name U8 = ''u8''"
| "suffix_type_name U16 = ''u16''"
| "suffix_type_name U32 = ''u32''"
| "suffix_type_name U64 = ''u64''"

fun suffix_bit_width :: "int_suffix \<Rightarrow> nat" where
  "suffix_bit_width I8 = 8" | "suffix_bit_width U8 = 8"
| "suffix_bit_width I16 = 16" | "suffix_bit_width U16 = 16"
| "suffix_bit_width I32 = 32" | "suffix_bit_width U32 = 32"
| "suffix_bit_width I64 = 64" | "suffix_bit_width U64 = 64"

fun suffix_is_signed :: "int_suffix \<Rightarrow> bool" where
  "suffix_is_signed I8 = True" | "suffix_is_signed I16 = True"
| "suffix_is_signed I32 = True" | "suffix_is_signed I64 = True"
| "suffix_is_signed U8 = False" | "suffix_is_signed U16 = False"
| "suffix_is_signed U32 = False" | "suffix_is_signed U64 = False"

datatype integer_literal =
  IntegerLiteral (lit_raw: string) (lit_value: "128 word") (lit_suffix: "int_suffix option")

definition literal_type_name :: "integer_literal \<Rightarrow> string" where
  "literal_type_name l = (case lit_suffix l of None \<Rightarrow> ''i64'' | Some s \<Rightarrow> suffix_type_name s)"

definition literal_bit_width :: "integer_literal \<Rightarrow> nat" where
  "literal_bit_width l = (case lit_suffix l of None \<Rightarrow> 64 | Some s \<Rightarrow> suffix_bit_width s)"

definition literal_is_signed :: "integer_literal \<Rightarrow> bool" where
  "literal_is_signed l = (case lit_suffix l of None \<Rightarrow> True | Some s \<Rightarrow> suffix_is_signed s)"

datatype literal = LInteger integer_literal | LFloat f64 | LString string | LBoolean bool | LChar nat

definition integer_from_parts :: "string \<Rightarrow> 128 word \<Rightarrow> int_suffix option \<Rightarrow> literal" where
  "integer_from_parts raw v suffix = LInteger (IntegerLiteral raw v suffix)"

definition integer_zero :: literal where
  "integer_zero = integer_from_parts ''0'' 0 None"

datatype assignment_op = Assign | AddAssign | SubAssign | MulAssign | DivAssign
  | ElementMulAssign | ElementDivAssign | ModAssign

datatype binary_operator = Add | Sub | Mul | Div | Mod | ElementMul | ElementDiv | ElementMod
  | ShiftLeft | ShiftRight | And | Or | Xor
  | Equal | NotEqual | Less | Greater | LessEqual | GreaterEqual

datatype unary_operator = Negate | Not | BitwiseNot | Deref | AddressOf | MutAddressOf

datatype resource_access = Immutable | Mutable | Owned

datatype ast_join_type = JInner | JLeft | JRight | JFull

datatype shader_type = Vertex | Fragment | Compute

section \<open>Types\<close>

datatype type =
    TNone
  | TIdentifier (type_name: string) (type_args: "type list")
  | TPointer bool type
  | TRawPointer type bool
  | TOptional type
  | TResult type
  | TTuple "type list"
  | TMatrix type "usize list"
  | TFunction "type list" type
  | TStruct "(string \<times> type) list"
  | TEnum "(string \<times> type option) list" "string list"
  | TTrait "string list" "(string \<times> type) list"
  | TReference bool type

datatype type_param = TypeParam (tp_name: string) (tp_bounds: "type list")
datatype shader_field = ShaderField (sf_name: string) (sf_type: type)
datatype binding_pattern = BIdentifier string | BTuple "binding_pattern list" | BDiscard

section \<open>Pieces of expressions and statements\<close>

datatype 'e attribute = Attribute (attr_name: string) (attr_arguments: "'e list")
datatype 'e match_arm = MatchArm (arm_pattern: 'e) (arm_body: 'e)
datatype ('e, 's) function_body = FExpression 'e | FBlock "'s list"
datatype 'e parameter =
  Parameter (param_name: string) (param_type: "type option") (param_default: "'e option")
datatype 'e argument = Argument (arg_name: "string option") (arg_value: 'e)

datatype field_projection =
  FieldProjection (fp_name: string) (fp_type: "type option") (fp_access: "resource_access option")
datatype 'e join_clause =
  JoinClause (jc_join_type: ast_join_type) (jc_table: string) (jc_condition: 'e)
datatype 'e query_spec =
  QuerySpec (qs_projections: "field_projection list") (qs_from_table: string)
    (qs_where_clause: "'e option") (qs_joins: "'e join_clause list")

datatype 'e table_annotation = TableAnnotation (ann_name: string) (ann_args: "'e list")
datatype 'e table_column =
  TableColumn (col_name: string) (column_type: type) (col_annotations: "'e table_annotation list")
    (default_value: "'e option") (is_computed: bool) (computed_expression: "'e option")
datatype 'e table_def = TableDef (table_name: string) (columns: "'e table_column list")

datatype 'e system_parameter =
    PQuery string "'e query_spec"
  | PResource (res_param_type: string) (res_name: string) (res_type: type) (res_access: resource_access)
  | PRegular string string type "'e option"
datatype ('e, 's) system_def =
  SystemDef (sd_name: string) (sd_parameters: "'e system_parameter list")
    (sd_return_type: "type option") (sd_body: "'s list") (sd_is_async: bool)

datatype compose_node = CSingle string | CTuple "string list" | CVector "string list"
datatype compose_edge_kind = Sequential | OptionalEdge
datatype compose_edge = ComposeEdge (ce_kind: compose_edge_kind) (ce_target: compose_node)
datatype compose_entry = ComposeEntry (ce_source: compose_node) (ce_edges: "compose_edge list")
datatype compose_def = ComposeDef (compose_entries: "compose_entry list")
datatype database_entry = DatabaseEntry (de_name: string) (de_table_type: "string option")
datatype database_def = DatabaseDef (db_entries: "database_entry list")

datatype ('e, 's) const_value =
    CType type
  | CExpression 'e
  | CTableDef "'e table_def"
  | CSystemDef "('e, 's) system_def"
  | CComposeDef compose_def
  | CDatabaseDef database_def

section \<open>Expressions and statements\<close>

datatype (plugins del: quickcheck_random quickcheck_exhaustive quickcheck_bounded_forall quickcheck_full_exhaustive quickcheck_narrowing) expression =
    ELiteral literal
  | EIdentifier string
  | EBinaryOp expression binary_operator expression
  | EUnaryOp unary_operator expression
  | ECast expression type
  | ECall expression "type list" "expression argument list"
  | EFieldAccess expression string
  | EIndex expression "expression list"
  | EIf expression "statement list" "statement list option"
  | EIfExpr expression expression "expression option"
  | ELoop "statement list"
  | EBlock "statement list"
  | EUnsafeBlock "statement list"
  | EFunction bool "type_param list" "expression parameter list" "type option"
      "(expression, statement) function_body" "expression attribute list"
  | ETuple "expression list"
  | EMatch expression "expression match_arm list"
  | EStructLiteral "string option" "(string \<times> expression) list"
  | EVecLiteral "expression list"
  | EVecNew type "expression option" "expression option" "expression list"
  | EMatrix "expression list list"
  | ERange expression expression "expression option"
  | EQuestion expression
  | EUnwrap expression
  | EQuery "expression query_spec"
  | EShader shader_type "shader_field list" "statement list"
  | EStaticPath "string list" "type list"
and statement =
    SVariableDecl binding_pattern "type option" expression
  | SConstDecl "expression attribute list" string "type_param list" "type option"
      "(expression, statement) const_value" "string option"
  | SAssignment expression assignment_op expression
  | SExpression expression
  | SReturn "expression option"
  | SBreak "expression option"
  | SContinue
  | SUse bool "string list" "string option"
  | SImplBlock "type_param list" "string option" string type "statement list"
  | SImplMethod string "type_param list" "expression parameter list" "type option"
      "(expression, statement) function_body"
  | SForLoop string "type option" expression "statement list"
  | SModuleDecl bool string "statement list option"
  | SIfDef string "statement list" "statement list option"

type_synonym program = "statement list"
type_synonym sysdef = "(expression, statement) system_def"
type_synonym sysparam = "expression system_parameter"
type_synonym tabledef = "expression table_def"
type_synonym tablecol = "expression table_column"

end
