(* ===== verification/Tracker.thy ===== *)
theory Tracker
  imports Ast
begin

text \<open>
  The borrow checker of the runtime: \<open>ResourceTracker\<close> and \<open>SchedulerState\<close> of
  \<open>src/scheduler.rs\<close>, with the scheduler's error type. The tracker is shown to implement an
  abstract set of accesses \<open>(resource, system, access)\<close> under the rule that two systems may
  share a resource only when both read it. The locale \<open>borrow_tracker\<close> is the interface the
  scheduler and the asynchronous runtime use.
\<close>

section \<open>Errors\<close>

datatype conflict_type = NoConflict | ReadWrite | WriteRead | WriteWrite

datatype scheduler_error =
    ResourceConflict string string string conflict_type \<comment> \<open>system1, system2, resource\<close>
  | DeadlockDetected "string list"
  | InvalidResourceAccess string string string \<comment> \<open>system, resource, reason\<close>
  | DuplicateMutableBorrow string string string \<comment> \<open>system1, system2, resource\<close>
  | SchedulingFailure string

fun conflict_type_debug :: "conflict_type \<Rightarrow> string" where
  "conflict_type_debug NoConflict = ''None''"
| "conflict_type_debug ReadWrite = ''ReadWrite''"
| "conflict_type_debug WriteRead = ''WriteRead''"
| "conflict_type_debug WriteWrite = ''WriteWrite''"

fun scheduler_error_display :: "scheduler_error \<Rightarrow> string" where
  "scheduler_error_display (ResourceConflict s1 s2 r c) =
     ''Resource conflict between systems '' @ squote s1 @ '' and '' @ squote s2 @
     '' on resource '' @ squote r @ '': '' @ conflict_type_debug c"
| "scheduler_error_display (DeadlockDetected cycle) =
     ''Deadlock detected in systems: '' @ join_with '' -> '' cycle"
| "scheduler_error_display (InvalidResourceAccess s r reason) =
     ''Invalid resource access in system '' @ squote s @ '' on resource '' @ squote r @
     '': '' @ reason"
| "scheduler_error_display (DuplicateMutableBorrow s1 s2 r) =
     ''Multiple mutable borrows of resource '' @ squote r @ '' by systems '' @ squote s1 @
     '' and '' @ squote s2"
| "scheduler_error_display (SchedulingFailure reason) = ''Scheduling failure: '' @ reason"

section \<open>The resource tracker\<close>

record resource_tracker =
  immutable_borrows :: "(string, string hset) hmap"
  mutable_borrows :: "(string, string) hmap"
  owned_resources :: "(string, string) hmap"

definition tracker_new :: resource_tracker where
  "tracker_new = \<lparr>immutable_borrows = [], mutable_borrows = [], owned_resources = []\<rparr>"

text \<open>The three guards of \<open>can_access_resource\<close>, in the order of its \<open>match\<close>.\<close>

definition check_mutable_borrower ::
  "resource_tracker \<Rightarrow> string \<Rightarrow> (string \<Rightarrow> scheduler_error) \<Rightarrow> string \<Rightarrow> scheduler_error + unit" where
  "check_mutable_borrower t resource err system =
     (case map_of (mutable_borrows t) resource of
        Some borrower \<Rightarrow> if borrower \<noteq> system then Inl (err borrower) else Inr ()
      | None \<Rightarrow> Inr ())"

definition check_owner ::
  "resource_tracker \<Rightarrow> string \<Rightarrow> string \<Rightarrow> string \<Rightarrow> scheduler_error + unit" where
  "check_owner t resource msg system =
     (case map_of (owned_resources t) resource of
        Some own \<Rightarrow>
          if own \<noteq> system then Inl (InvalidResourceAccess system resource (msg @ squote own))
          else Inr ()
      | None \<Rightarrow> Inr ())"

fun can_access_resource ::
  "hash_order \<Rightarrow> resource_tracker \<Rightarrow> string \<Rightarrow> string \<Rightarrow> resource_access \<Rightarrow> scheduler_error + unit" where
  "can_access_resource \<pi> t resource system Immutable =
     (case check_mutable_borrower t resource
             (\<lambda>borrower. ResourceConflict system borrower resource ReadWrite) system of
        Inl e \<Rightarrow> Inl e
      | Inr _ \<Rightarrow> check_owner t resource ''Resource is owned by system '' system)"
| "can_access_resource \<pi> t resource system Mutable =
     (case map_of (immutable_borrows t) resource of
        Some borrowers \<Rightarrow>
          if borrowers \<noteq> [] \<and> (1 < length borrowers \<or> system \<notin> set borrowers) then
            Inl (ResourceConflict system
              (case List.find (\<lambda>s. s \<noteq> system) (\<pi> borrowers) of
                 Some s \<Rightarrow> s | None \<Rightarrow> ''unknown'') resource WriteRead)
          else
            (case check_mutable_borrower t resource
                    (\<lambda>borrower. DuplicateMutableBorrow system borrower resource) system of
               Inl e \<Rightarrow> Inl e
             | Inr _ \<Rightarrow> check_owner t resource ''Resource is owned by system '' system)
      | None \<Rightarrow>
          (case check_mutable_borrower t resource
                  (\<lambda>borrower. DuplicateMutableBorrow system borrower resource) system of
             Inl e \<Rightarrow> Inl e
           | Inr _ \<Rightarrow> check_owner t resource ''Resource is owned by system '' system))"
| "can_access_resource \<pi> t resource system Owned =
     (case map_of (immutable_borrows t) resource of
        Some (b # bs) \<Rightarrow> Inl (ResourceConflict system (hd (\<pi> (b # bs))) resource WriteRead)
      | _ \<Rightarrow>
          (case map_of (mutable_borrows t) resource of
             Some borrower \<Rightarrow> Inl (ResourceConflict system borrower resource WriteWrite)
           | None \<Rightarrow> check_owner t resource ''Resource is already owned by system '' system))"

text \<open>\<open>entry(resource).or_insert_with(HashSet::new).insert(system)\<close>\<close>

definition insert_borrower ::
  "string \<Rightarrow> string \<Rightarrow> (string, string hset) hmap \<Rightarrow> (string, string hset) hmap" where
  "insert_borrower resource system m =
     AList.update resource
       (List.insert system (case map_of m resource of None \<Rightarrow> [] | Some bs \<Rightarrow> bs)) m"

fun record_access ::
  "resource_tracker \<Rightarrow> string \<Rightarrow> string \<Rightarrow> resource_access \<Rightarrow> resource_tracker" where
  "record_access t resource system Immutable =
     t\<lparr>immutable_borrows := insert_borrower resource system (immutable_borrows t)\<rparr>"
| "record_access t resource system Mutable =
     t\<lparr>mutable_borrows := AList.update resource system (mutable_borrows t)\<rparr>"
| "record_access t resource system Owned =
     t\<lparr>owned_resources := AList.update resource system (owned_resources t)\<rparr>"

definition add_access ::
  "hash_order \<Rightarrow> resource_tracker \<Rightarrow> string \<Rightarrow> string \<Rightarrow> resource_access \<Rightarrow>
     scheduler_error + resource_tracker" where
  "add_access \<pi> t resource system acc =
     (case can_access_resource \<pi> t resource system acc of
        Inl e \<Rightarrow> Inl e
      | Inr _ \<Rightarrow> Inr (record_access t resource system acc))"

fun remove_access ::
  "resource_tracker \<Rightarrow> string \<Rightarrow> string \<Rightarrow> resource_access \<Rightarrow> resource_tracker" where
  "remove_access t resource system Immutable =
     (case map_of (immutable_borrows t) resource of
        None \<Rightarrow> t
      | Some borrowers \<Rightarrow>
          let rest = removeAll system borrowers in
          if rest = [] then t\<lparr>immutable_borrows := AList.delete resource (immutable_borrows t)\<rparr>
          else t\<lparr>immutable_borrows := AList.update resource rest (immutable_borrows t)\<rparr>)"
| "remove_access t resource system Mutable =
     (if map_of (mutable_borrows t) resource = Some system
      then t\<lparr>mutable_borrows := AList.delete resource (mutable_borrows t)\<rparr> else t)"
| "remove_access t resource system Owned =
     (if map_of (owned_resources t) resource = Some system
      then t\<lparr>owned_resources := AList.delete resource (owned_resources t)\<rparr> else t)"

definition get_active_resources :: "resource_tracker \<Rightarrow> string hset" where
  "get_active_resources t =
     remdups (hm_keys (immutable_borrows t) @ hm_keys (mutable_borrows t) @
              hm_keys (owned_resources t))"

definition get_immutable_borrowers :: "resource_tracker \<Rightarrow> string \<Rightarrow> string hset option" where
  "get_immutable_borrowers t resource = map_of (immutable_borrows t) resource"

definition get_mutable_borrower :: "resource_tracker \<Rightarrow> string \<Rightarrow> string option" where
  "get_mutable_borrower t resource = map_of (mutable_borrows t) resource"

definition get_resource_owner :: "resource_tracker \<Rightarrow> string \<Rightarrow> string option" where
  "get_resource_owner t resource = map_of (owned_resources t) resource"

definition is_resource_available :: "resource_tracker \<Rightarrow> string \<Rightarrow> bool" where
  "is_resource_available t resource \<longleftrightarrow>
     \<not> hm_contains (immutable_borrows t) resource \<and>
     \<not> hm_contains (mutable_borrows t) resource \<and>
     \<not> hm_contains (owned_resources t) resource"

record resource_usage_summary =
  total_resources :: usize
  summary_immutable_borrows :: usize
  summary_mutable_borrows :: usize
  summary_owned_resources :: usize

definition get_resource_summary :: "resource_tracker \<Rightarrow> resource_usage_summary" where
  "get_resource_summary t =
     \<lparr>total_resources = length (get_active_resources t),
      summary_immutable_borrows = length (immutable_borrows t),
      summary_mutable_borrows = length (mutable_borrows t),
      summary_owned_resources = length (owned_resources t)\<rparr>"

section \<open>The abstract contract\<close>

type_synonym access_triple = "string \<times> string \<times> resource_access"

text \<open>What the tracker records, as a set of triples \<open>(resource, system, access)\<close>.\<close>

fun holds :: "resource_tracker \<Rightarrow> string \<Rightarrow> string \<Rightarrow> resource_access \<Rightarrow> bool" where
  "holds t r s Immutable = (case map_of (immutable_borrows t) r of None \<Rightarrow> False | Some bs \<Rightarrow> s \<in> set bs)"
| "holds t r s Mutable = (map_of (mutable_borrows t) r = Some s)"
| "holds t r s Owned = (map_of (owned_resources t) r = Some s)"

definition held :: "resource_tracker \<Rightarrow> access_triple set" where
  "held t = {(r, s, a). holds t r s a}"

text \<open>Borrower sets have no duplicates and no table has two entries for one resource.\<close>

definition borrowers_distinct :: "(string, string hset) hmap \<Rightarrow> bool" where
  "borrowers_distinct m \<longleftrightarrow> (\<forall>r. case map_of m r of None \<Rightarrow> True | Some bs \<Rightarrow> distinct bs)"

definition tracker_wf :: "resource_tracker \<Rightarrow> bool" where
  "tracker_wf t \<longleftrightarrow>
     hm_wf (immutable_borrows t) \<and> hm_wf (mutable_borrows t) \<and> hm_wf (owned_resources t) \<and>
     borrowers_distinct (immutable_borrows t)"

text \<open>
  The borrow rule. A reader tolerates other readers, a writer no one else; an owner no one else
  and no borrow of its own.
\<close>

fun compatible :: "access_triple set \<Rightarrow> string \<Rightarrow> string \<Rightarrow> resource_access \<Rightarrow> bool" where
  "compatible A r s Immutable \<longleftrightarrow> (\<forall>s' a'. (r, s', a') \<in> A \<and> s' \<noteq> s \<longrightarrow> a' = Immutable)"
| "compatible A r s Mutable \<longleftrightarrow> (\<forall>s' a'. (r, s', a') \<in> A \<longrightarrow> s' = s)"
| "compatible A r s Owned \<longleftrightarrow> (\<forall>s' a'. (r, s', a') \<in> A \<longrightarrow> s' = s \<and> a' = Owned)"

definition exclusive :: "access_triple set \<Rightarrow> bool" where
  "exclusive A \<longleftrightarrow>
     (\<forall>r s a s' a'. (r, s, a) \<in> A \<and> (r, s', a') \<in> A \<and> s \<noteq> s' \<longrightarrow> a = Immutable \<and> a' = Immutable)"

lemma held_iff [simp]: "(r, s, a) \<in> held t \<longleftrightarrow> holds t r s a"
  by (simp add: held_def)

lemma all_access: "(\<forall>a. P a) \<longleftrightarrow> P Immutable \<and> P Mutable \<and> P Owned"
  by (metis resource_access.exhaust)

lemma ex_access: "(\<exists>a. P a) \<longleftrightarrow> P Immutable \<or> P Mutable \<or> P Owned"
  by (metis resource_access.exhaust)

lemma borrowers_distinctD: "borrowers_distinct m \<Longrightarrow> map_of m r = Some bs \<Longrightarrow> distinct bs"
  unfolding borrowers_distinct_def by (metis option.simps(5))

lemma borrowers_distinct_update:
  "borrowers_distinct m \<Longrightarrow> distinct bs \<Longrightarrow> borrowers_distinct (AList.update r bs m)"
  unfolding borrowers_distinct_def by (simp add: map_of_update)

lemma borrowers_distinct_delete: "borrowers_distinct m \<Longrightarrow> borrowers_distinct (AList.delete r m)"
  unfolding borrowers_distinct_def by (simp add: map_of_delete)

lemma tracker_wf_new: "tracker_wf tracker_new"
  by (simp add: tracker_wf_def tracker_new_def borrowers_distinct_def)

lemma held_new: "held tracker_new = {}"
proof -
  have "\<not> holds tracker_new r s a" for r s a
    by (cases a) (simp_all add: tracker_new_def)
  then show ?thesis by (auto simp: held_def)
qed

lemma check_mutable_borrower_ok:
  "is_ok (check_mutable_borrower t r f s) \<longleftrightarrow> (\<forall>s'. holds t r s' Mutable \<longrightarrow> s' = s)"
  by (auto simp: check_mutable_borrower_def split: option.splits)

lemma check_owner_ok: "is_ok (check_owner t r msg s) \<longleftrightarrow> (\<forall>s'. holds t r s' Owned \<longrightarrow> s' = s)"
  by (auto simp: check_owner_def split: option.splits)

lemma is_ok_seq: "is_ok (case x of Inl e \<Rightarrow> Inl e | Inr _ \<Rightarrow> y) \<longleftrightarrow> is_ok x \<and> is_ok y"
  by (cases x) simp_all

lemma only_borrower:
  assumes "distinct bs"
  shows "\<not> (bs \<noteq> [] \<and> (1 < length bs \<or> s \<notin> set bs)) \<longleftrightarrow> (\<forall>s' \<in> set bs. s' = s)"
proof (cases bs)
  case (Cons b cs)
  with assms show ?thesis by (cases cs) auto
qed simp

lemma can_access_resource_compatible:
  assumes "tracker_wf t"
  shows "is_ok (can_access_resource \<pi> t r s a) \<longleftrightarrow> compatible (held t) r s a"
proof (cases a)
  case Immutable
  then show ?thesis
    by (simp add: is_ok_seq check_mutable_borrower_ok check_owner_ok all_access ex_access) blast
next
  case Mutable
  show ?thesis
  proof (cases "map_of (immutable_borrows t) r")
    case None
    with Mutable show ?thesis
      by (simp add: is_ok_seq check_mutable_borrower_ok check_owner_ok all_access ex_access) blast
  next
    case (Some bs)
    with assms have "distinct bs" by (auto simp: tracker_wf_def dest: borrowers_distinctD)
    note ob = only_borrower [OF this, of s]
    from Mutable Some ob show ?thesis
      by (simp add: is_ok_seq check_mutable_borrower_ok check_owner_ok all_access ex_access) blast
  qed
next
  case Owned
  have all: "compatible (held t) r s Owned \<longleftrightarrow>
      (\<forall>s'. \<not> holds t r s' Immutable) \<and> (\<forall>s'. \<not> holds t r s' Mutable) \<and>
      (\<forall>s'. holds t r s' Owned \<longrightarrow> s' = s)"
    by (simp add: all_access del: holds.simps) blast
  show ?thesis
  proof (cases "map_of (immutable_borrows t) r")
    case None
    with Owned show ?thesis
      by (cases "map_of (mutable_borrows t) r")
        (simp_all add: all check_owner_ok del: compatible.simps)
  next
    case (Some bs)
    with Owned show ?thesis
      by (cases bs; cases "map_of (mutable_borrows t) r")
        (auto simp add: all check_owner_ok simp del: compatible.simps)
  qed
qed


section \<open>The tracker refines the set of accesses\<close>

lemma insert_borrower_map:
  "map_of (insert_borrower r s m) r' =
     (if r' = r then Some (List.insert s (case map_of m r of None \<Rightarrow> [] | Some bs \<Rightarrow> bs))
      else map_of m r')"
  by (simp add: insert_borrower_def hash_simps)

lemma insert_borrower_wf:
  assumes "borrowers_distinct m"
  shows "borrowers_distinct (insert_borrower r s m)"
proof -
  have "distinct (List.insert s (case map_of m r of None \<Rightarrow> [] | Some bs \<Rightarrow> bs))"
    using borrowers_distinctD [OF assms, of r] by (cases "map_of m r") simp_all
  with assms show ?thesis unfolding insert_borrower_def by (rule borrowers_distinct_update)
qed

lemma record_access_wf: "tracker_wf t \<Longrightarrow> tracker_wf (record_access t r s a)"
  by (cases a) (simp_all add: tracker_wf_def insert_borrower_wf, simp add: insert_borrower_def)

lemma holds_record_access:
  assumes "compatible (held t) r s a"
  shows "holds (record_access t r s a) r' s' a' \<longleftrightarrow> (r', s', a') = (r, s, a) \<or> holds t r' s' a'"
proof (cases a)
  case Immutable
  then show ?thesis
    by (cases a'; cases "map_of (immutable_borrows t) r") (simp_all add: insert_borrower_map)
next
  case Mutable
  with assms have "holds t r s'' Mutable \<Longrightarrow> s'' = s" for s'' by (auto simp del: holds.simps)
  with Mutable show ?thesis by (cases a') (auto simp: map_of_update)
next
  case Owned
  with assms have "holds t r s'' Owned \<Longrightarrow> s'' = s" for s'' by (auto simp del: holds.simps)
  with Owned show ?thesis by (cases a') (auto simp: map_of_update)
qed

lemma remove_access_wf:
  assumes wf: "tracker_wf t"
  shows "tracker_wf (remove_access t r s a)"
proof (cases a)
  case Immutable
  show ?thesis
  proof (cases "map_of (immutable_borrows t) r")
    case (Some bs)
    with wf have "distinct (removeAll s bs)"
      by (auto simp: tracker_wf_def intro: distinct_removeAll dest: borrowers_distinctD)
    with wf Immutable Some show ?thesis
      by (simp add: tracker_wf_def Let_def borrowers_distinct_update borrowers_distinct_delete)
  qed (use Immutable wf in simp)
qed (use wf in \<open>simp_all add: tracker_wf_def\<close>)

lemma removeAll_Nil_iff: "removeAll s bs = [] \<longleftrightarrow> set bs \<subseteq> {s}"
  by (induction bs) auto

lemma holds_remove_access:
  "holds (remove_access t r s a) r' s' a' \<longleftrightarrow> (r', s', a') \<noteq> (r, s, a) \<and> holds t r' s' a'"
proof (cases a)
  case Immutable
  show ?thesis
  proof (cases "map_of (immutable_borrows t) r")
    case (Some bs)
    with Immutable show ?thesis
      by (cases a') (auto simp: Let_def hash_simps removeAll_Nil_iff)
  qed (use Immutable in \<open>cases a'; auto\<close>)
qed (cases a'; auto simp: hash_simps)+

lemma add_access_ok:
  "tracker_wf t \<Longrightarrow> is_ok (add_access \<pi> t r s a) \<longleftrightarrow> compatible (held t) r s a"
  unfolding add_access_def
  by (subst can_access_resource_compatible [symmetric, where \<pi> = \<pi>])
    (auto simp: is_ok_def split: sum.splits)

lemma add_access_Inr:
  assumes "tracker_wf t" and "add_access \<pi> t r s a = Inr t'"
  shows "tracker_wf t' \<and> held t' = insert (r, s, a) (held t)"
proof -
  from assms(2) have t': "t' = record_access t r s a"
    by (auto simp: add_access_def split: sum.splits)
  from assms have "compatible (held t) r s a"
    using add_access_ok [OF assms(1), of \<pi> r s a] by simp
  with t' assms(1) show ?thesis
    by (auto simp: record_access_wf held_def holds_record_access)
qed

lemma held_remove_access: "held (remove_access t r s a) = held t - {(r, s, a)}"
  by (auto simp: held_def holds_remove_access)

lemma exclusive_insert:
  assumes "exclusive A" and "compatible A r s a"
  shows "exclusive (insert (r, s, a) A)"
  using assms by (cases a) (auto simp: exclusive_def)

lemma exclusive_subset: "exclusive A \<Longrightarrow> B \<subseteq> A \<Longrightarrow> exclusive B"
  by (meson exclusive_def subsetD)

section \<open>The interface of a borrow tracker\<close>

text \<open>
  The loops of the clients: take every access of a list, stopping at the first refusal
  (\<open>add_access(..)?\<close> in a \<open>for\<close>), and give every access of a list back.
\<close>

fun acquire_all ::
  "('t \<Rightarrow> string \<Rightarrow> string \<Rightarrow> resource_access \<Rightarrow> 'e + 't) \<Rightarrow> string \<Rightarrow>
     (string \<times> resource_access) list \<Rightarrow> 't \<Rightarrow> ('e + unit) \<times> 't" where
  "acquire_all add system [] t = (Inr (), t)"
| "acquire_all add system ((r, a) # accs) t =
     (case add t r system a of
        Inl e \<Rightarrow> (Inl e, t)
      | Inr t' \<Rightarrow> acquire_all add system accs t')"

fun release_all ::
  "('t \<Rightarrow> string \<Rightarrow> string \<Rightarrow> resource_access \<Rightarrow> 't) \<Rightarrow> string \<Rightarrow>
     (string \<times> resource_access) list \<Rightarrow> 't \<Rightarrow> 't" where
  "release_all remove system [] t = t"
| "release_all remove system ((r, a) # accs) t = release_all remove system accs (remove t r system a)"

definition triples_of :: "string \<Rightarrow> (string \<times> resource_access) list \<Rightarrow> access_triple set" where
  "triples_of system accs = {(r, s, a). s = system \<and> (r, a) \<in> set accs}"

lemma triples_of_Nil [simp]: "triples_of s [] = {}"
  by (simp add: triples_of_def)

lemma triples_of_Cons [simp]: "triples_of s ((r, a) # accs) = insert (r, s, a) (triples_of s accs)"
  by (auto simp: triples_of_def)

lemma mem_triples_of [simp]: "(r, s', a) \<in> triples_of s accs \<longleftrightarrow> s' = s \<and> (r, a) \<in> set accs"
  by (auto simp: triples_of_def)

lemma compatible_insert_other:
  "r' \<noteq> r \<Longrightarrow> compatible (insert (r', s', a') A) r s a \<longleftrightarrow> compatible A r s a"
  by (cases a) auto

locale borrow_tracker =
  fixes add :: "'t \<Rightarrow> string \<Rightarrow> string \<Rightarrow> resource_access \<Rightarrow> 'e + 't"
    and remove :: "'t \<Rightarrow> string \<Rightarrow> string \<Rightarrow> resource_access \<Rightarrow> 't"
    and recorded :: "'t \<Rightarrow> access_triple set"
    and invar :: "'t \<Rightarrow> bool"
  assumes add_accepts: "invar t \<Longrightarrow> is_ok (add t r s a) \<longleftrightarrow> compatible (recorded t) r s a"
    and add_records: "invar t \<Longrightarrow> add t r s a = Inr t' \<Longrightarrow> recorded t' = insert (r, s, a) (recorded t)"
    and add_invar: "invar t \<Longrightarrow> add t r s a = Inr t' \<Longrightarrow> invar t'"
    and remove_records: "invar t \<Longrightarrow> recorded (remove t r s a) = recorded t - {(r, s, a)}"
    and remove_invar: "invar t \<Longrightarrow> invar (remove t r s a)"
begin

lemma add_exclusive:
  assumes "invar t" and "exclusive (recorded t)" and "add t r s a = Inr t'"
  shows "exclusive (recorded t')"
proof -
  from assms have "compatible (recorded t) r s a"
    using add_accepts [of t r s a] by simp
  with assms show ?thesis by (simp add: add_records exclusive_insert)
qed

text \<open>Accesses to different resources do not get in each other's way.\<close>

lemma acquire_all_succeeds:
  assumes "invar t" and "distinct (map fst accs)"
    and "\<forall>(r, a) \<in> set accs. compatible (recorded t) r s a"
  shows "\<exists>t'. acquire_all add s accs t = (Inr (), t') \<and> invar t' \<and>
           recorded t' = recorded t \<union> triples_of s accs"
  using assms
proof (induction accs arbitrary: t)
  case (Cons x accs)
  obtain r a where x: "x = (r, a)" by (cases x)
  with Cons.prems obtain t1 where t1: "add t r s a = Inr t1"
    using add_accepts [of t r s a] by (auto simp: is_ok_iff)
  from add_invar [OF Cons.prems(1) t1] add_records [OF Cons.prems(1) t1]
  have inv: "invar t1" and rec: "recorded t1 = insert (r, s, a) (recorded t)" .
  have "\<forall>(r', a') \<in> set accs. compatible (recorded t1) r' s a'"
  proof clarify
    fix r' a' assume m: "(r', a') \<in> set accs"
    with Cons.prems(2) x have "r' \<noteq> r" by force
    with m Cons.prems(3) rec show "compatible (recorded t1) r' s a'"
      by (auto simp: compatible_insert_other)
  qed
  from Cons.IH [OF inv _ this] Cons.prems(2) x t1 rec show ?case by auto
qed simp

text \<open>Whatever the outcome, the loop keeps the borrow rule and only adds accesses of its system.\<close>

lemma acquire_all_safe:
  assumes "invar t" and "exclusive (recorded t)" and "acquire_all add s accs t = (res, t')"
  shows "invar t' \<and> exclusive (recorded t') \<and> recorded t \<subseteq> recorded t' \<and>
         recorded t' \<subseteq> recorded t \<union> triples_of s accs"
  using assms
proof (induction accs arbitrary: t)
  case (Cons x accs)
  obtain r a where x: "x = (r, a)" by (cases x)
  show ?case
  proof (cases "add t r s a")
    case (Inr t1)
    from add_invar [OF Cons.prems(1) Inr] add_exclusive [OF Cons.prems(1,2) Inr]
      add_records [OF Cons.prems(1) Inr]
    have t1: "invar t1" "exclusive (recorded t1)" "recorded t1 = insert (r, s, a) (recorded t)" .
    from Inr Cons.prems x have "acquire_all add s accs t1 = (res, t')" by simp
    from Cons.IH [OF t1(1,2) this] x t1(3) show ?thesis by auto
  qed (use Cons.prems x in auto)
qed simp

lemma release_all_records:
  "invar t \<Longrightarrow> invar (release_all remove s accs t) \<and>
     recorded (release_all remove s accs t) = recorded t - triples_of s accs"
proof (induction accs arbitrary: t)
  case (Cons x accs)
  then show ?case by (cases x) (auto simp: remove_records remove_invar)
qed simp

text \<open>Giving back what was taken restores the tracker, when none of it was held before.\<close>

lemma acquire_release_restores:
  assumes "invar t" and "distinct (map fst accs)"
    and "\<forall>(r, a) \<in> set accs. compatible (recorded t) r s a"
    and "recorded t \<inter> triples_of s accs = {}"
  shows "recorded (release_all remove s accs (snd (acquire_all add s accs t))) = recorded t"
proof -
  from acquire_all_succeeds [OF assms(1-3)] obtain t' where
    "acquire_all add s accs t = (Inr (), t')" "invar t'" "recorded t' = recorded t \<union> triples_of s accs"
    by blast
  with assms(4) show ?thesis by (auto simp: release_all_records)
qed

end

interpretation tracker: borrow_tracker "add_access \<pi>" remove_access held tracker_wf for \<pi>
  by unfold_locales
    (auto simp: add_access_ok held_remove_access remove_access_wf dest: add_access_Inr)

section \<open>The state of the scheduler\<close>

record scheduler_state =
  resource_tracker :: resource_tracker
  executing_systems :: "string hset"
  pending_systems :: "string list"
  completed_systems :: "string hset"

definition state_new :: scheduler_state where
  "state_new = \<lparr>resource_tracker = tracker_new, executing_systems = [],
     pending_systems = [], completed_systems = []\<rparr>"

definition state_enqueue_system :: "scheduler_state \<Rightarrow> string \<Rightarrow> scheduler_state" where
  "state_enqueue_system st name =
     (if name \<notin> set (completed_systems st) \<and> name \<notin> set (executing_systems st)
      then st\<lparr>pending_systems := pending_systems st @ [name]\<rparr> else st)"

definition state_complete_system :: "scheduler_state \<Rightarrow> string \<Rightarrow> scheduler_state" where
  "state_complete_system st name =
     st\<lparr>executing_systems := removeAll name (executing_systems st),
        completed_systems := List.insert name (completed_systems st)\<rparr>"

definition state_is_complete :: "scheduler_state \<Rightarrow> bool" where
  "state_is_complete st \<longleftrightarrow> executing_systems st = [] \<and> pending_systems st = []"

definition try_acquire_resource ::
  "hash_order \<Rightarrow> scheduler_state \<Rightarrow> string \<Rightarrow> string \<Rightarrow> resource_access \<Rightarrow>
     scheduler_error + scheduler_state" where
  "try_acquire_resource \<pi> st resource system acc =
     (case add_access \<pi> (resource_tracker st) resource system acc of
        Inl e \<Rightarrow> Inl e
      | Inr t \<Rightarrow> Inr (st\<lparr>resource_tracker := t\<rparr>))"

definition release_resource ::
  "scheduler_state \<Rightarrow> string \<Rightarrow> string \<Rightarrow> resource_access \<Rightarrow> scheduler_state" where
  "release_resource st resource system acc =
     st\<lparr>resource_tracker := remove_access (resource_tracker st) resource system acc\<rparr>"

definition can_system_access_resource ::
  "hash_order \<Rightarrow> scheduler_state \<Rightarrow> string \<Rightarrow> string \<Rightarrow> resource_access \<Rightarrow> scheduler_error + unit" where
  "can_system_access_resource \<pi> st resource system acc =
     can_access_resource \<pi> (resource_tracker st) resource system acc"

section \<open>Properties\<close>

text \<open>A tracker in which systems \<open>a\<close> and \<open>b\<close> read \<open>gui\<close> and \<open>c\<close> writes \<open>db\<close>.\<close>

definition demo_tracker :: resource_tracker where
  "demo_tracker = \<lparr>immutable_borrows = [(''gui'', [''a'', ''b''])],
     mutable_borrows = [(''db'', ''c'')], owned_resources = []\<rparr>"

lemma demo_tracker_wf: "tracker_wf demo_tracker"
  by (simp add: tracker_wf_def demo_tracker_def hm_wf_def borrowers_distinct_def)

lemma demo_tracker_held:
  "held demo_tracker = {(''gui'', ''a'', Immutable), (''gui'', ''b'', Immutable), (''db'', ''c'', Mutable)}"
proof -
  have "holds demo_tracker r s a \<longleftrightarrow>
      (r, s, a) \<in> {(''gui'', ''a'', Immutable), (''gui'', ''b'', Immutable), (''db'', ''c'', Mutable)}" for r s a
    by (cases a) (auto simp: demo_tracker_def)
  then show ?thesis by (auto simp: held_def)
qed

text \<open>
  The tracker accepts an access exactly when the borrow rule allows it next to what is
  recorded: a reader beside readers only, a writer beside no other system, an owner beside no one
  and beside no borrow of its own.
\<close>

theorem tracker_grants_exactly:
  assumes "tracker_wf t"
  shows "is_ok (add_access \<pi> t r s a) \<longleftrightarrow> compatible (held t) r s a"
  using assms by (rule add_access_ok)

theorem tracker_grants_exactly_witness:
  "is_ok (add_access rev demo_tracker ''gui'' ''c'' Immutable) \<and>
   \<not> is_ok (add_access rev demo_tracker ''gui'' ''a'' Mutable)"
  using tracker_grants_exactly [OF demo_tracker_wf, of rev "''gui''" "''c''" Immutable]
    tracker_grants_exactly [OF demo_tracker_wf, of rev "''gui''" "''a''" Mutable]
  by (simp add: demo_tracker_held del: held_iff) blast

text \<open>
  C14: A granted access refines insertion into the set of accesses and keeps it exclusive: two
  different systems share a resource only when both read it. The tables stay well formed.
\<close>

theorem tracker_refines_access_set:
  assumes "tracker_wf t" and "exclusive (held t)" and "add_access \<pi> t r s a = Inr t'"
  shows "tracker_wf t' \<and> held t' = insert (r, s, a) (held t) \<and> exclusive (held t')"
  using add_access_Inr [OF assms(1,3)] tracker.add_exclusive [OF assms] by blast

theorem tracker_refines_access_set_witness:
  "\<exists>t'. add_access rev demo_tracker ''gui'' ''c'' Immutable = Inr t' \<and>
     held t' = insert (''gui'', ''c'', Immutable) (held demo_tracker) \<and> exclusive (held t')"
proof -
  have excl: "exclusive (held demo_tracker)"
    unfolding demo_tracker_held by (auto simp: exclusive_def)
  have "is_ok (add_access rev demo_tracker ''gui'' ''c'' Immutable)"
    by code_simp
  then obtain t' where t': "add_access rev demo_tracker ''gui'' ''c'' Immutable = Inr t'"
    by (auto simp: is_ok_iff)
  from tracker_refines_access_set [OF demo_tracker_wf excl t'] t' show ?thesis by blast
qed

text \<open>
  Giving an access back after it was granted leaves exactly the accesses recorded before.
\<close>

theorem access_round_trip:
  assumes "tracker_wf t" and "(r, s, a) \<notin> held t" and "add_access \<pi> t r s a = Inr t'"
  shows "held (remove_access t' r s a) = held t"
  using add_access_Inr [OF assms(1,3)] assms(2) by (simp add: held_remove_access)

theorem access_round_trip_witness:
  "\<exists>t'. add_access rev demo_tracker ''db'' ''d'' Owned = Inl (ResourceConflict ''d'' ''c'' ''db'' WriteWrite) \<and>
     add_access rev demo_tracker ''gui'' ''c'' Immutable = Inr t' \<and>
     held (remove_access t' ''gui'' ''c'' Immutable) = held demo_tracker"
proof -
  have "add_access rev demo_tracker ''db'' ''d'' Owned = Inl (ResourceConflict ''d'' ''c'' ''db'' WriteWrite)"
    by (simp add: add_access_def demo_tracker_def)
  moreover have "is_ok (add_access rev demo_tracker ''gui'' ''c'' Immutable)"
    by code_simp
  then obtain t' where t': "add_access rev demo_tracker ''gui'' ''c'' Immutable = Inr t'"
    by (auto simp: is_ok_iff)
  moreover have "(''gui'', ''c'', Immutable) \<notin> held demo_tracker"
    by (simp add: demo_tracker_held del: held_iff)
  ultimately show ?thesis using access_round_trip [OF demo_tracker_wf _ t'] by blast
qed

end
