(* ===== verification/Conflict.thy ===== *)
theory Conflict
  imports Tracker
begin

text \<open>
  The static side of the scheduler (\<open>src/scheduler.rs\<close>): resource identifiers of types, the
  validation of a system's resource parameters, the conflict check between two systems, the
  conflict graph, and the cycle search \<open>detect_deadlocks\<close> runs on it.
\<close>

section \<open>Resource identifiers\<close>

fun type_to_resource_id :: "hash_order \<Rightarrow> type \<Rightarrow> string" where
  "type_to_resource_id \<pi> (TIdentifier name args) =
     (if args = [] then name
      else name @ ''['' @ join_with '', '' (map (type_to_resource_id \<pi>) args) @ '']'')"
| "type_to_resource_id \<pi> (TPointer is_mutable pointee) =
     (if is_mutable then ''mut '' else '''') @ ''*'' @ type_to_resource_id \<pi> pointee"
| "type_to_resource_id \<pi> (TRawPointer pointee is_raw) =
     (if is_raw then ''raw*'' @ type_to_resource_id \<pi> pointee
      else ''*'' @ type_to_resource_id \<pi> pointee)"
| "type_to_resource_id \<pi> (TOptional inner) = ''Option['' @ type_to_resource_id \<pi> inner @ '']''"
| "type_to_resource_id \<pi> (TResult inner) = ''Result['' @ type_to_resource_id \<pi> inner @ '']''"
| "type_to_resource_id \<pi> (TTuple types) =
     ''('' @ join_with '', '' (map (type_to_resource_id \<pi>) types) @ '')''"
| "type_to_resource_id \<pi> (TMatrix element dims) =
     ''Matrix['' @ type_to_resource_id \<pi> element @ ''; '' @ join_with '', '' (map show_nat dims) @ '']''"
| "type_to_resource_id \<pi> (TFunction params ret) =
     ''fn('' @ join_with '', '' (map (type_to_resource_id \<pi>) params) @ '') -> '' @
     type_to_resource_id \<pi> ret"
| "type_to_resource_id \<pi> (TStruct flds) =
     ''struct {'' @ join_with '', ''
       (map (\<lambda>(n, s). n @ '': '' @ s)
         (hm_iter \<pi> (map (\<lambda>(n, t). (n, type_to_resource_id \<pi> t)) flds))) @ ''}''"
| "type_to_resource_id \<pi> (TEnum variants order) =
     ''enum {'' @ join_with '', ''
       (map (\<lambda>(n, os). case os of Some s \<Rightarrow> n @ ''('' @ s @ '')'' | None \<Rightarrow> n)
         (hm_iter \<pi> (map (\<lambda>(n, ot). (n, map_option (type_to_resource_id \<pi>) ot)) variants))) @ ''}''"
| "type_to_resource_id \<pi> (TTrait assoc methods) =
     ''trait {types: ['' @ join_with '', '' assoc @ '']; methods: ['' @ join_with '', ''
       (map (\<lambda>(n, s). n @ '': '' @ s)
         (hm_iter \<pi> (map (\<lambda>(n, t). (n, type_to_resource_id \<pi> t)) methods))) @ '']}''"
| "type_to_resource_id \<pi> (TReference is_mutable inner) =
     ''&'' @ (if is_mutable then ''mut '' else '''') @ type_to_resource_id \<pi> inner"
| "type_to_resource_id \<pi> TNone = ''()''"

section \<open>Resource parameters of a system\<close>

fun access_debug :: "resource_access \<Rightarrow> string" where
  "access_debug Immutable = ''Immutable''"
| "access_debug Mutable = ''Mutable''"
| "access_debug Owned = ''Owned''"

text \<open>The loop of \<open>validate_system_resources\<close>; \<open>seen\<close> is its map \<open>resource_accesses\<close>.\<close>

fun validate_params ::
  "hash_order \<Rightarrow> string \<Rightarrow> (string, resource_access \<times> string) hmap \<Rightarrow> sysparam list \<Rightarrow>
     scheduler_error + unit" where
  "validate_params \<pi> sysname seen [] = Inr ()"
| "validate_params \<pi> sysname seen (PResource _ name rtype access # params) =
     (let type_signature = type_to_resource_id \<pi> rtype in
      case map_of seen name of
        Some (existing_access, existing_type) \<Rightarrow>
          if existing_type \<noteq> type_signature then
            Inl (InvalidResourceAccess sysname name
              (''Resource '' @ squote name @ '' declared with conflicting types: '' @
               squote existing_type @ '' vs '' @ squote type_signature))
          else if existing_access \<noteq> access then
            Inl (InvalidResourceAccess sysname name
              (''System has conflicting access patterns to resource '' @ squote name @
               '': previously declared as '' @ access_debug existing_access @ '', now '' @
               access_debug access))
          else validate_params \<pi> sysname seen params
      | None \<Rightarrow>
          validate_params \<pi> sysname (AList.update name (access, type_signature) seen) params)"
| "validate_params \<pi> sysname seen (PQuery _ _ # params) = validate_params \<pi> sysname seen params"
| "validate_params \<pi> sysname seen (PRegular _ _ _ _ # params) = validate_params \<pi> sysname seen params"

definition validate_system_resources :: "hash_order \<Rightarrow> sysdef \<Rightarrow> scheduler_error + unit" where
  "validate_system_resources \<pi> system = validate_params \<pi> (sd_name system) [] (sd_parameters system)"

fun extract_params ::
  "(string, resource_access) hmap \<Rightarrow> sysparam list \<Rightarrow> (string, resource_access) hmap" where
  "extract_params accs [] = accs"
| "extract_params accs (PResource _ name _ access # params) =
     extract_params (AList.update name access accs) params"
| "extract_params accs (PQuery _ _ # params) = extract_params accs params"
| "extract_params accs (PRegular _ _ _ _ # params) = extract_params accs params"

definition extract_resource_accesses :: "sysdef \<Rightarrow> (string, resource_access) hmap" where
  "extract_resource_accesses system = extract_params [] (sd_parameters system)"

lemma extract_params_wf: "hm_wf accs \<Longrightarrow> hm_wf (extract_params accs params)"
  by (induction accs params rule: extract_params.induct) simp_all

lemma extract_wf [simp]: "hm_wf (extract_resource_accesses system)"
  by (simp add: extract_resource_accesses_def extract_params_wf)

text \<open>The resource parameters, with their access and their type's identifier.\<close>

fun resource_params :: "hash_order \<Rightarrow> sysparam list \<Rightarrow> (string \<times> resource_access \<times> string) list" where
  "resource_params \<pi> [] = []"
| "resource_params \<pi> (PResource _ name rtype access # params) =
     (name, access, type_to_resource_id \<pi> rtype) # resource_params \<pi> params"
| "resource_params \<pi> (PQuery _ _ # params) = resource_params \<pi> params"
| "resource_params \<pi> (PRegular _ _ _ _ # params) = resource_params \<pi> params"

definition consistent_params :: "(string \<times> resource_access \<times> string) set \<Rightarrow> bool" where
  "consistent_params P \<longleftrightarrow> (\<forall>n x y. (n, x) \<in> P \<and> (n, y) \<in> P \<longrightarrow> x = y)"

lemma validate_params_ok:
  assumes "consistent_params (set seen)" and "hm_wf seen"
  shows "is_ok (validate_params \<pi> s seen params) \<longleftrightarrow>
           consistent_params (set seen \<union> set (resource_params \<pi> params))"
  using assms
proof (induction \<pi> s seen params rule: validate_params.induct)
  case (2 \<pi> s seen pt name rtype access params)
  let ?x = "(access, type_to_resource_id \<pi> rtype)"
  show ?case
  proof (cases "map_of seen name")
    case None
    then have fresh: "name \<notin> fst ` set seen" by (simp add: map_of_eq_None_iff)
    then have upd: "set (AList.update name ?x seen) = insert (name, ?x) (set seen)"
      by (simp add: update_fresh)
    from fresh 2(3) have "consistent_params (insert (name, ?x) (set seen))"
      by (force simp: consistent_params_def)
    with 2(1)[OF refl None] 2(4) None upd show ?thesis by simp
  next
    case (Some e)
    obtain ea et where e: "e = (ea, et)" by (cases e)
    from Some have mem: "(name, e) \<in> set seen" by (rule map_of_SomeD)
    show ?thesis
    proof (cases "e = ?x")
      case True
      with mem have "set seen \<union> set (resource_params \<pi> (PResource pt name rtype access # params)) =
          set seen \<union> set (resource_params \<pi> params)" by auto
      with 2(2)[OF refl Some e [symmetric]] 2(3,4) Some e True show ?thesis by simp
    next
      case False
      have "(name, ?x) \<in> set (resource_params \<pi> (PResource pt name rtype access # params))"
        by simp
      with mem False have "\<not> consistent_params (set seen \<union>
          set (resource_params \<pi> (PResource pt name rtype access # params)))"
        unfolding consistent_params_def by blast
      with Some e False show ?thesis by (auto simp: Let_def)
    qed
  qed
qed simp_all

lemma validate_ok_iff:
  "is_ok (validate_system_resources \<pi> system) \<longleftrightarrow>
     consistent_params (set (resource_params \<pi> (sd_parameters system)))"
  by (simp add: validate_system_resources_def validate_params_ok consistent_params_def)

text \<open>What a validated system declares is what \<open>extract_resource_accesses\<close> keeps.\<close>

lemma map_of_extract_params:
  "map_of (extract_params accs params) r =
     (case map_of (rev (map (\<lambda>(n, a, _). (n, a)) (resource_params \<pi> params))) r of
        Some a \<Rightarrow> Some a | None \<Rightarrow> map_of accs r)"
  by (induction accs params rule: extract_params.induct)
    (auto simp: map_of_update map_add_def split: option.splits)

section \<open>Conflicts between two systems\<close>

fun first_conflict ::
  "(string, resource_access) hmap \<Rightarrow> (string \<times> resource_access) list \<Rightarrow> conflict_type" where
  "first_conflict resources2 [] = NoConflict"
| "first_conflict resources2 ((r, access1) # rest) =
     (case map_of resources2 r of
        None \<Rightarrow> first_conflict resources2 rest
      | Some access2 \<Rightarrow>
          (case (access1, access2) of
             (Immutable, Immutable) \<Rightarrow> first_conflict resources2 rest
           | (Immutable, Mutable) \<Rightarrow> ReadWrite
           | (Immutable, Owned) \<Rightarrow> ReadWrite
           | (Mutable, Immutable) \<Rightarrow> WriteRead
           | (Owned, Immutable) \<Rightarrow> WriteRead
           | (Mutable, Mutable) \<Rightarrow> WriteWrite
           | (Mutable, Owned) \<Rightarrow> WriteWrite
           | (Owned, Mutable) \<Rightarrow> WriteWrite
           | (Owned, Owned) \<Rightarrow> WriteWrite))"

definition check_system_conflict :: "hash_order \<Rightarrow> sysdef \<Rightarrow> sysdef \<Rightarrow> conflict_type" where
  "check_system_conflict \<pi> system1 system2 =
     first_conflict (extract_resource_accesses system2) (hm_iter \<pi> (extract_resource_accesses system1))"

text \<open>The specification: some shared resource is not merely read by both.\<close>

definition systems_conflict :: "sysdef \<Rightarrow> sysdef \<Rightarrow> bool" where
  "systems_conflict d1 d2 \<longleftrightarrow>
     (\<exists>r a1 a2. map_of (extract_resource_accesses d1) r = Some a1 \<and>
        map_of (extract_resource_accesses d2) r = Some a2 \<and>
        \<not> (a1 = Immutable \<and> a2 = Immutable))"

lemma systems_conflict_sym: "systems_conflict d1 d2 = systems_conflict d2 d1"
  unfolding systems_conflict_def by blast

lemma first_conflict_iff:
  "first_conflict m xs = NoConflict \<longleftrightarrow>
     (\<forall>(r, a1) \<in> set xs. \<forall>a2. map_of m r = Some a2 \<longrightarrow> a1 = Immutable \<and> a2 = Immutable)"
  by (induction m xs rule: first_conflict.induct) (auto split: option.splits resource_access.splits)

lemma check_system_conflict_iff:
  assumes "is_hash_order \<pi>"
  shows "check_system_conflict \<pi> d1 d2 \<noteq> NoConflict \<longleftrightarrow> systems_conflict d1 d2"
  using assms
  by (auto simp: check_system_conflict_def first_conflict_iff systems_conflict_def hm_iter_set)

text \<open>The kind of the conflict is that of a shared resource, seen from the first system.\<close>

fun conflict_kind :: "resource_access \<Rightarrow> resource_access \<Rightarrow> conflict_type" where
  "conflict_kind Immutable Immutable = NoConflict"
| "conflict_kind Immutable _ = ReadWrite"
| "conflict_kind _ Immutable = WriteRead"
| "conflict_kind _ _ = WriteWrite"

lemma first_conflict_kind:
  "first_conflict m xs = k \<Longrightarrow> k \<noteq> NoConflict \<Longrightarrow>
     \<exists>r a1 a2. (r, a1) \<in> set xs \<and> map_of m r = Some a2 \<and> conflict_kind a1 a2 = k"
  by (induction m xs rule: first_conflict.induct)
    (fastforce split: option.splits resource_access.splits)+

text \<open>
  The static check agrees with the run-time tracker: two systems of different names do not
  conflict exactly when, with one holding all it declares, the tracker grants the other
  everything it declares.
\<close>

lemma no_conflict_compatible:
  assumes "n1 \<noteq> n2"
  shows "\<not> systems_conflict d1 d2 \<longleftrightarrow>
     (\<forall>(r, a) \<in> set (extract_resource_accesses d1).
        compatible (triples_of n2 (extract_resource_accesses d2)) r n1 a)"
proof -
  have "compatible (triples_of n2 B) r n1 a \<longleftrightarrow>
      (\<forall>a2. (r, a2) \<in> set B \<longrightarrow> a = Immutable \<and> a2 = Immutable)" for B r a
    using assms by (cases a) auto
  then show ?thesis
    by (force simp: systems_conflict_def map_of_eq_Some_iff [OF extract_wf [unfolded hm_wf_def]])
qed

section \<open>The conflict graph\<close>

record conflict_graph =
  edges :: "(string, (string \<times> conflict_type) list) hmap"
  graph_systems :: "string hset"

definition graph_new :: conflict_graph where
  "graph_new = \<lparr>edges = [], graph_systems = []\<rparr>"

definition graph_add_system :: "conflict_graph \<Rightarrow> string \<Rightarrow> conflict_graph" where
  "graph_add_system g name =
     g\<lparr>graph_systems := List.insert name (graph_systems g),
       edges := (if hm_contains (edges g) name then edges g else AList.update name [] (edges g))\<rparr>"

text \<open>\<open>entry(from).or_insert_with(Vec::new).push((to, kind))\<close>\<close>

definition push_edge ::
  "string \<Rightarrow> string \<Rightarrow> conflict_type \<Rightarrow> (string, (string \<times> conflict_type) list) hmap \<Rightarrow>
     (string, (string \<times> conflict_type) list) hmap" where
  "push_edge from to kind m =
     AList.update from ((case map_of m from of None \<Rightarrow> [] | Some es \<Rightarrow> es) @ [(to, kind)]) m"

definition add_conflict ::
  "conflict_graph \<Rightarrow> string \<Rightarrow> string \<Rightarrow> conflict_type \<Rightarrow> conflict_graph" where
  "add_conflict g system1 system2 kind =
     (if kind \<noteq> NoConflict
      then g\<lparr>edges := push_edge system2 system1 kind (push_edge system1 system2 kind (edges g))\<rparr>
      else g)"

definition get_conflicts :: "conflict_graph \<Rightarrow> string \<Rightarrow> string list" where
  "get_conflicts g system = (case map_of (edges g) system of None \<Rightarrow> [] | Some es \<Rightarrow> map fst es)"

definition has_conflict :: "conflict_graph \<Rightarrow> string \<Rightarrow> string \<Rightarrow> bool" where
  "has_conflict g system1 system2 =
     (case map_of (edges g) system1 of None \<Rightarrow> False | Some es \<Rightarrow> \<exists>(s, _) \<in> set es. s = system2)"

definition graph_symmetric :: "conflict_graph \<Rightarrow> bool" where
  "graph_symmetric g \<longleftrightarrow> (\<forall>a b. has_conflict g a b \<longrightarrow> has_conflict g b a)"

lemma has_conflict_get: "has_conflict g a b \<longleftrightarrow> b \<in> set (get_conflicts g a)"
  by (force simp: has_conflict_def get_conflicts_def split: option.splits)

lemma get_conflicts_push:
  "get_conflicts (g\<lparr>edges := push_edge a b k (edges g)\<rparr>) c =
     (if c = a then get_conflicts g a @ [b] else get_conflicts g c)"
  by (simp add: get_conflicts_def push_edge_def map_of_update split: option.splits)

lemma has_conflict_push:
  "has_conflict (g\<lparr>edges := push_edge a b k (edges g)\<rparr>) x y \<longleftrightarrow> has_conflict g x y \<or> (x, y) = (a, b)"
  by (auto simp: has_conflict_get get_conflicts_push)

lemma has_conflict_add:
  "has_conflict (add_conflict g a b k) x y \<longleftrightarrow>
     has_conflict g x y \<or> k \<noteq> NoConflict \<and> ((x, y) = (a, b) \<or> (x, y) = (b, a))"
proof (cases "k = NoConflict")
  case False
  let ?g = "g\<lparr>edges := push_edge a b k (edges g)\<rparr>"
  from False have "add_conflict g a b k = ?g\<lparr>edges := push_edge b a k (edges ?g)\<rparr>"
    by (simp add: add_conflict_def)
  with False show ?thesis
    by (simp only: has_conflict_push) blast
qed (simp add: add_conflict_def)

lemma has_conflict_add_system [simp]: "has_conflict (graph_add_system g n) a b = has_conflict g a b"
  by (auto simp: has_conflict_def graph_add_system_def map_of_update hm_contains_def)

lemma graph_symmetric_new: "graph_symmetric graph_new"
  by (simp add: graph_symmetric_def has_conflict_def graph_new_def)

lemma graph_symmetric_add: "graph_symmetric g \<Longrightarrow> graph_symmetric (add_conflict g a b k)"
  by (auto simp: graph_symmetric_def has_conflict_add)

text \<open>
  The double loop of \<open>build_conflict_graph\<close> over all pairs \<open>i < j\<close> of the systems, in the
  order the map of systems gives them.
\<close>

fun add_row ::
  "hash_order \<Rightarrow> string \<times> sysdef \<Rightarrow> (string \<times> sysdef) list \<Rightarrow> conflict_graph \<Rightarrow> conflict_graph" where
  "add_row \<pi> (n1, d1) [] g = g"
| "add_row \<pi> (n1, d1) ((n2, d2) # rest) g =
     add_row \<pi> (n1, d1) rest
       (let kind = check_system_conflict \<pi> d1 d2
        in if kind \<noteq> NoConflict then add_conflict g n1 n2 kind else g)"

fun add_pairs :: "hash_order \<Rightarrow> (string \<times> sysdef) list \<Rightarrow> conflict_graph \<Rightarrow> conflict_graph" where
  "add_pairs \<pi> [] g = g"
| "add_pairs \<pi> (x # rest) g = add_pairs \<pi> rest (add_row \<pi> x rest g)"

lemma add_row_conflicts:
  assumes "is_hash_order \<pi>"
  shows "has_conflict (add_row \<pi> (n1, d1) rest g) x y \<longleftrightarrow> has_conflict g x y \<or>
     (\<exists>(n2, d2) \<in> set rest. systems_conflict d1 d2 \<and> ((x, y) = (n1, n2) \<or> (x, y) = (n2, n1)))"
proof (induction rest arbitrary: g)
  case (Cons z rest)
  obtain n2 d2 where z: "z = (n2, d2)" by (cases z)
  show ?case
    using check_system_conflict_iff [OF assms, of d1 d2]
    by (auto simp: z Cons.IH Let_def has_conflict_add)
qed simp

lemma add_pairs_conflicts:
  assumes "is_hash_order \<pi>" and "distinct (map fst xs)"
  shows "has_conflict (add_pairs \<pi> xs g) x y \<longleftrightarrow> has_conflict g x y \<or>
     (x \<noteq> y \<and> (\<exists>d1 d2. (x, d1) \<in> set xs \<and> (y, d2) \<in> set xs \<and> systems_conflict d1 d2))"
  using assms(2)
proof (induction xs arbitrary: g)
  case (Cons z xs)
  obtain n d where z: "z = (n, d)" by (cases z)
  with Cons.prems have fresh: "(n, d') \<notin> set xs" for d' by force
  have IH: "has_conflict (add_pairs \<pi> (z # xs) g) x y \<longleftrightarrow> has_conflict (add_row \<pi> (n, d) xs g) x y \<or>
     (x \<noteq> y \<and> (\<exists>d1 d2. (x, d1) \<in> set xs \<and> (y, d2) \<in> set xs \<and> systems_conflict d1 d2))"
    using Cons by (simp add: z)
  show ?case
    unfolding IH add_row_conflicts [OF assms(1)]
    using fresh systems_conflict_sym by (fastforce simp: z)
qed simp

lemma add_row_symmetric: "graph_symmetric g \<Longrightarrow> graph_symmetric (add_row \<pi> x rest g)"
  by (induction \<pi> x rest g rule: add_row.induct) (simp_all add: Let_def graph_symmetric_add)

lemma add_pairs_symmetric: "graph_symmetric g \<Longrightarrow> graph_symmetric (add_pairs \<pi> xs g)"
  by (induction \<pi> xs g rule: add_pairs.induct) (simp_all add: add_row_symmetric)

lemma add_row_systems [simp]: "graph_systems (add_row \<pi> x rest g) = graph_systems g"
  by (induction \<pi> x rest g rule: add_row.induct) (simp_all add: Let_def add_conflict_def)

lemma add_pairs_systems [simp]: "graph_systems (add_pairs \<pi> xs g) = graph_systems g"
  by (induction \<pi> xs g rule: add_pairs.induct) simp_all

section \<open>Cycle search\<close>

text \<open>\<open>path.iter().position(|s| s == neighbor)\<close>\<close>

definition position :: "'a \<Rightarrow> 'a list \<Rightarrow> nat option" where
  "position x xs = (if x \<in> set xs then Some (length (takeWhile (\<lambda>y. y \<noteq> x) xs)) else None)"

text \<open>
  The search carries \<open>visited\<close>, \<open>rec_stack\<close> and \<open>path\<close> through the recursion, as the
  source does by mutable reference; \<open>dfs_conflicts\<close> is its loop over the edges of a system.
\<close>

type_synonym dfs_state = "string hset \<times> string hset \<times> string list"

function dfs_cycle_detection :: "conflict_graph \<Rightarrow> string \<Rightarrow> dfs_state \<Rightarrow> bool \<times> dfs_state"
  and dfs_conflicts :: "conflict_graph \<Rightarrow> (string \<times> conflict_type) list \<Rightarrow> dfs_state \<Rightarrow> bool \<times> dfs_state"
where
  "dfs_cycle_detection g system (visited, rec_stack, path) =
     (case (case map_of (edges g) system of
              Some conflicts \<Rightarrow>
                dfs_conflicts g conflicts
                  (List.insert system visited, List.insert system rec_stack, path @ [system])
            | None \<Rightarrow>
                (False, List.insert system visited, List.insert system rec_stack, path @ [system])) of
        (found, visited', rec_stack', path') \<Rightarrow>
          if found then (True, visited', rec_stack', path')
          else (False, visited', removeAll system rec_stack', butlast path'))"
| "dfs_conflicts g [] st = (False, st)"
| "dfs_conflicts g ((neighbor, kind) # rest) (visited, rec_stack, path) =
     (if neighbor \<notin> set visited then
        (case dfs_cycle_detection g neighbor (visited, rec_stack, path) of
           (found, st') \<Rightarrow> if found then (True, st') else dfs_conflicts g rest st')
      else if neighbor \<in> set rec_stack then
        (True, visited, rec_stack,
          (case position neighbor path of
             Some cycle_start \<Rightarrow> drop cycle_start path @ [neighbor]
           | None \<Rightarrow> path))
      else dfs_conflicts g rest (visited, rec_stack, path))"
  by pat_completeness auto

definition unvisited :: "conflict_graph \<Rightarrow> string list \<Rightarrow> nat" where
  "unvisited g visited = card (fst ` set (edges g) - set visited)"

lemma dfs_visited_grows:
  "dfs_cycle_detection_dfs_conflicts_dom (Inl (g, system, st)) \<Longrightarrow>
     set (fst st) \<subseteq> set (fst (snd (dfs_cycle_detection g system st)))"
  "dfs_cycle_detection_dfs_conflicts_dom (Inr (g, es, st)) \<Longrightarrow>
     set (fst st) \<subseteq> set (fst (snd (dfs_conflicts g es st)))"
proof (induction g system st and g es st rule: dfs_cycle_detection_dfs_conflicts.pinduct)
  case (1 g system visited rec_stack path)
  then show ?case
    by (force simp: dfs_cycle_detection.psimps split: prod.splits option.splits if_splits)
next
  case (2 g st)
  then show ?case by (simp add: dfs_conflicts.psimps)
next
  case (3 g neighbor kind rest visited rec_stack path)
  then show ?case
    by (force simp: dfs_conflicts.psimps split: prod.splits if_splits)
qed

lemma unvisited_less:
  assumes "n \<notin> set v" and "n \<in> fst ` set (edges g)"
  shows "unvisited g (List.insert n v) < unvisited g v"
  unfolding unvisited_def using assms by (intro psubset_card_mono) auto

lemma unvisited_mono: "set v \<subseteq> set v' \<Longrightarrow> unvisited g v' \<le> unvisited g v"
  unfolding unvisited_def by (intro card_mono) auto

fun dfs_measure ::
  "(conflict_graph \<times> string \<times> dfs_state) + (conflict_graph \<times> (string \<times> conflict_type) list \<times> dfs_state) \<Rightarrow>
     nat \<times> nat" where
  "dfs_measure (Inl (g, n, v, r, p)) =
     (unvisited g (List.insert n v),
      case map_of (edges g) n of None \<Rightarrow> 0 | Some es \<Rightarrow> Suc (length es))"
| "dfs_measure (Inr (g, es, v, r, p)) = (unvisited g v, length es)"

lemma unvisited_outside:
  "map_of (edges g) n = None \<Longrightarrow> unvisited g (List.insert n v) = unvisited g v"
  unfolding unvisited_def map_of_eq_None_iff by (intro arg_cong [where f = card]) auto

termination dfs_cycle_detection
proof (relation "inv_image (less_than <*lex*> less_than) dfs_measure", goal_cases)
  case 1
  then show ?case by auto
next
  case (2 g system visited rec_stack path conflicts)
  then show ?case by simp
next
  case (3 g neighbor kind rest visited rec_stack path)
  show ?case
  proof (cases "map_of (edges g) neighbor")
    case None
    then show ?thesis by (simp add: unvisited_outside)
  next
    case (Some es)
    then have "neighbor \<in> fst ` set (edges g)" by (force dest: map_of_SomeD)
    from unvisited_less [OF 3 this] show ?thesis by simp
  qed
next
  case prems: (4 g neighbor kind rest visited rec_stack path x y)
  obtain v r p where y: "y = (v, r, p)" by (cases y)
  from dfs_visited_grows(1) [OF prems(4)] prems(2) [symmetric] y have "set visited \<subseteq> set v" by simp
  then have "unvisited g v \<le> unvisited g visited" by (rule unvisited_mono)
  with y show ?case by simp linarith
next
  case (5 g neighbor kind rest visited rec_stack path)
  then show ?case by simp
qed

declare dfs_cycle_detection.simps [simp del] dfs_conflicts.simps(2) [simp del]

text \<open>The loop of \<open>detect_deadlocks\<close> over the systems of the graph.\<close>

fun detect_from :: "conflict_graph \<Rightarrow> string list \<Rightarrow> dfs_state \<Rightarrow> scheduler_error + unit" where
  "detect_from g [] st = Inr ()"
| "detect_from g (s # ss) st =
     (if s \<notin> set (fst st) then
        (case dfs_cycle_detection g s st of
           (found, st') \<Rightarrow>
             if found then Inl (DeadlockDetected (snd (snd st'))) else detect_from g ss st')
      else detect_from g ss st)"

definition detect_deadlocks :: "hash_order \<Rightarrow> conflict_graph \<Rightarrow> scheduler_error + unit" where
  "detect_deadlocks \<pi> g = detect_from g (\<pi> (graph_systems g)) ([], [], [])"

text \<open>A closed walk in the graph: what a reported cycle is.\<close>

definition closed_walk :: "conflict_graph \<Rightarrow> string list \<Rightarrow> bool" where
  "closed_walk g p \<longleftrightarrow> 2 \<le> length p \<and> hd p = last p \<and> successively (has_conflict g) p"

definition on_path :: "conflict_graph \<Rightarrow> dfs_state \<Rightarrow> bool" where
  "on_path g st = (case st of (v, r, p) \<Rightarrow>
     set r = set p \<and> set p \<subseteq> set v \<and> successively (has_conflict g) p)"

lemma successively_drop: "successively P xs \<Longrightarrow> successively P (drop n xs)"
  by (metis append_take_drop_id successively_append_iff)

lemma position_cycle:
  assumes "n \<in> set p" and "successively (has_conflict g) p" and "has_conflict g (last p) n"
  shows "\<exists>i. position n p = Some i \<and> closed_walk g (drop i p @ [n])"
proof -
  let ?i = "length (takeWhile (\<lambda>y. y \<noteq> n) p)"
  from assms(1) have d: "drop ?i p = dropWhile (\<lambda>y. y \<noteq> n) p"
    by (simp add: dropWhile_eq_drop)
  with assms(1) have ne: "drop ?i p \<noteq> []" by (auto simp: dropWhile_eq_Nil_conv)
  then obtain y zs where "drop ?i p = y # zs" by (cases "drop ?i p") auto
  moreover from ne d hd_dropWhile [of "\<lambda>y. y \<noteq> n" p] have "hd (drop ?i p) = n" by simp
  ultimately have zs: "drop ?i p = n # zs" by simp
  from ne have "last (drop ?i p) = last p" by simp
  then have "last (n # zs) = last p" by (simp only: zs)
  moreover from successively_drop [OF assms(2), of ?i] have "successively (has_conflict g) (n # zs)"
    by (simp only: zs)
  ultimately have "closed_walk g ((n # zs) @ [n])"
    using assms(3) by (simp add: closed_walk_def successively_append_iff del: append_Cons)
  with assms(1) zs show ?thesis by (auto simp: position_def)
qed

lemma dfs_walk:
  "on_path g st \<Longrightarrow> system \<notin> set (fst st) \<Longrightarrow>
     snd (snd st) = [] \<or> has_conflict g (last (snd (snd st))) system \<Longrightarrow>
     dfs_cycle_detection g system st = (found, st') \<Longrightarrow>
     (if found then closed_walk g (snd (snd st'))
      else on_path g st' \<and> snd (snd st') = snd (snd st) \<and> set (fst st) \<subseteq> set (fst st'))"
  "on_path g st \<Longrightarrow> snd (snd st) \<noteq> [] \<Longrightarrow>
     \<forall>(n, _) \<in> set es. has_conflict g (last (snd (snd st))) n \<Longrightarrow>
     dfs_conflicts g es st = (found, st') \<Longrightarrow>
     (if found then closed_walk g (snd (snd st'))
      else on_path g st' \<and> snd (snd st') = snd (snd st) \<and> set (fst st) \<subseteq> set (fst st'))"
proof (induction g system st and g es st arbitrary: found st' and found st'
    rule: dfs_cycle_detection_dfs_conflicts.induct)
  case (1 g system visited rec_stack path)
  let ?st = "(List.insert system visited, List.insert system rec_stack, path @ [system])"
  from 1(2-4) have path: "on_path g ?st"
    by (auto simp: on_path_def successively_append_iff)
  show ?case
  proof (cases "map_of (edges g) system")
    case None
    with 1(2,3,5) path show ?thesis
      by (auto simp: dfs_cycle_detection.simps on_path_def)
  next
    case (Some es)
    then have "\<forall>(n, _) \<in> set es. has_conflict g (last (snd (snd ?st))) n"
      by (auto simp: has_conflict_def)
    with 1(1) [OF Some path] have IH: "if b then closed_walk g (snd (snd s))
        else on_path g s \<and> snd (snd s) = path @ [system] \<and> set (List.insert system visited) \<subseteq> set (fst s)"
      if "dfs_conflicts g es ?st = (b, s)" for b s
      using that by (cases b) simp_all
    obtain b v r p where res: "dfs_conflicts g es ?st = (b, v, r, p)"
      by (cases "dfs_conflicts g es ?st") auto
    from IH [OF res] 1(2,3,5) Some res show ?thesis
      by (cases b) (auto simp: dfs_cycle_detection.simps on_path_def successively_append_iff)
  qed
next
  case (2 g st)
  then show ?case by simp
next
  case (3 g neighbor kind rest visited rec_stack path)
  show ?case
  proof (cases "neighbor \<in> set visited")
    case False
    obtain b s where res: "dfs_cycle_detection g neighbor (visited, rec_stack, path) = (b, s)"
      by (cases "dfs_cycle_detection g neighbor (visited, rec_stack, path)")
    from 3(4-6) have "has_conflict g (last path) neighbor" by simp
    with 3(1) [OF False 3(4) _ _ res] False
    have IH: "if b then closed_walk g (snd (snd s))
        else on_path g s \<and> snd (snd s) = path \<and> set visited \<subseteq> set (fst s)"
      by (cases b) simp_all
    show ?thesis
    proof (cases b)
      case True
      with IH res False 3(7) show ?thesis by (auto simp: dfs_conflicts.simps(2))
    next
      case nf: False
      with res False 3(7) have "dfs_conflicts g rest s = (found, st')"
        by (auto simp: dfs_conflicts.simps(2))
      with 3(2) [OF False res [symmetric] nf, of found st'] IH nf 3(5,6) show ?thesis
        by (auto split: if_splits)
    qed
  next
    case True
    show ?thesis
    proof (cases "neighbor \<in> set rec_stack")
      case True': True
      with 3(4) have "neighbor \<in> set path" "successively (has_conflict g) path"
        by (auto simp: on_path_def)
      with 3(6) position_cycle [of neighbor path g] obtain i where
        "position neighbor path = Some i" "closed_walk g (drop i path @ [neighbor])" by auto
      with True True' 3(7) show ?thesis by (auto simp: dfs_conflicts.simps(2))
    next
      case False
      with True 3(7) have "dfs_conflicts g rest (visited, rec_stack, path) = (found, st')"
        by (simp add: dfs_conflicts.simps(2))
      with 3(3) [OF _ False 3(4), of found st'] True 3(5,6) show ?thesis by simp
    qed
  qed
qed

text \<open>The stack is restored by a search that finds nothing, and a neighbour on it ends the loop.\<close>

lemma dfs_conflicts_hits_stack:
  assumes "on_path g st" and "snd (snd st) \<noteq> []"
    and "\<forall>(n, _) \<in> set es. has_conflict g (last (snd (snd st))) n"
    and "\<exists>(n, _) \<in> set es. n \<in> set (snd (snd st))"
  shows "fst (dfs_conflicts g es st)"
  using assms
proof (induction es arbitrary: st)
  case (Cons e es)
  obtain n k where e: "e = (n, k)" by (cases e)
  obtain v r p where st: "st = (v, r, p)" by (cases st) auto
  show ?case
  proof (cases "n \<in> set v")
    case False
    with Cons.prems(1) st have np: "n \<notin> set p" by (auto simp: on_path_def)
    obtain b s where res: "dfs_cycle_detection g n st = (b, s)" by (cases "dfs_cycle_detection g n st")
    show ?thesis
    proof (cases b)
      case True
      with res False e st show ?thesis by (simp add: dfs_conflicts.simps(2))
    next
      case nf: False
      from dfs_walk(1) [OF Cons.prems(1) _ _ res] nf False st Cons.prems(2,3) e
      have s: "on_path g s" "snd (snd s) = p" by auto
      from Cons.IH [OF s(1)] s(2) Cons.prems(2-4) e st np have "fst (dfs_conflicts g es s)"
        by auto
      with res False e st nf show ?thesis by (simp add: dfs_conflicts.simps(2))
    qed
  next
    case True
    show ?thesis
    proof (cases "n \<in> set r")
      case False
      with Cons.prems(1) st have "n \<notin> set p" by (simp add: on_path_def)
      with Cons.IH [OF Cons.prems(1,2)] Cons.prems(3,4) e st have "fst (dfs_conflicts g es st)"
        by auto
      with True False e st show ?thesis by (simp add: dfs_conflicts.simps(2))
    qed (use True e st in \<open>simp add: dfs_conflicts.simps(2)\<close>)
  qed
qed simp

lemma dfs_returns_to_parent:
  assumes "graph_symmetric g" and "on_path g st" and "system \<notin> set (fst st)"
    and "snd (snd st) \<noteq> []" and "has_conflict g (last (snd (snd st))) system"
  shows "fst (dfs_cycle_detection g system st)"
proof -
  obtain v r p where st: "st = (v, r, p)" by (cases st) auto
  let ?st = "(List.insert system v, List.insert system r, p @ [system])"
  from assms have bk: "has_conflict g system (last p)" by (auto simp: graph_symmetric_def st)
  then obtain es where es: "map_of (edges g) system = Some es" "\<exists>(n, _) \<in> set es. n = last p"
    by (auto simp: has_conflict_def split: option.splits)
  have "fst (dfs_conflicts g es ?st)"
  proof (rule dfs_conflicts_hits_stack)
    show "on_path g ?st" using assms(2-5) st by (auto simp: on_path_def successively_append_iff)
    show "\<forall>(n, _) \<in> set es. has_conflict g (last (snd (snd ?st))) n"
      using es(1) by (auto simp: has_conflict_def)
    from es(2) obtain k where "(last p, k) \<in> set es" by auto
    moreover from assms(4) st have "last p \<in> set (p @ [system])" by simp
    ultimately show "\<exists>(n, _) \<in> set es. n \<in> set (snd (snd ?st))" by (intro bexI) auto
  qed simp
  with es(1) st show ?thesis
    by (auto simp: dfs_cycle_detection.simps split: prod.splits)
qed

text \<open>From a root, the search succeeds as soon as the root has a conflict.\<close>

definition clean :: "conflict_graph \<Rightarrow> dfs_state \<Rightarrow> bool" where
  "clean g st \<longleftrightarrow> (\<forall>x \<in> set (fst st). get_conflicts g x = []) \<and> snd st = ([], [])"

lemma dfs_root:
  assumes "graph_symmetric g" and "clean g st" and "system \<notin> set (fst st)"
    and "dfs_cycle_detection g system st = (found, st')"
  shows "(found \<longleftrightarrow> get_conflicts g system \<noteq> []) \<and> (\<not> found \<longrightarrow> clean g st')"
proof -
  obtain v where st: "st = (v, [], [])" using assms(2) by (cases st) (auto simp: clean_def)
  let ?st = "(List.insert system v, [system], [system])"
  show ?thesis
  proof (cases "map_of (edges g) system")
    case None
    with assms(2,4) st show ?thesis
      by (auto simp: dfs_cycle_detection.simps clean_def get_conflicts_def)
  next
    case (Some es)
    show ?thesis
    proof (cases es)
      case Nil
      with Some assms(2,4) st show ?thesis
        by (auto simp: dfs_cycle_detection.simps clean_def get_conflicts_def)
    next
      case (Cons e rest)
      obtain n k where e: "e = (n, k)" by (cases e)
      with Some Cons have out: "has_conflict g system n" by (simp add: has_conflict_def)
      with assms(1) have bk: "has_conflict g n system" by (simp add: graph_symmetric_def)
      have path: "on_path g ?st" by (simp add: on_path_def)
      have "fst (dfs_conflicts g es ?st)"
      proof (cases "n \<in> set (List.insert system v)")
        case True
        with assms(2) bk st have "n = system"
          by (auto simp: clean_def has_conflict_get)
        with Cons e show ?thesis by (simp add: dfs_conflicts.simps(2))
      next
        case False
        from dfs_returns_to_parent [OF assms(1) path] False out
        have "fst (dfs_cycle_detection g n ?st)" by simp
        with False Cons e show ?thesis by (auto simp: dfs_conflicts.simps(2) split: prod.splits)
      qed
      with Some Cons assms(4) st show ?thesis
        by (auto simp: dfs_cycle_detection.simps get_conflicts_def split: prod.splits)
    qed
  qed
qed

lemma detect_from_ok:
  assumes "graph_symmetric g" and "clean g st"
  shows "detect_from g ss st = Inr () \<longleftrightarrow> (\<forall>s \<in> set ss. get_conflicts g s = [])"
  using assms(2)
proof (induction ss arbitrary: st)
  case (Cons s ss)
  show ?case
  proof (cases "s \<in> set (fst st)")
    case True
    with Cons show ?thesis by (auto simp: clean_def)
  next
    case False
    obtain b t where res: "dfs_cycle_detection g s st = (b, t)" by (cases "dfs_cycle_detection g s st")
    with dfs_root [OF assms(1) Cons.prems False res] False Cons.IH [of t] show ?thesis by auto
  qed
qed simp

lemma detect_from_cycle:
  "detect_from g ss st = Inl e \<Longrightarrow> on_path g st \<Longrightarrow> snd (snd st) = [] \<Longrightarrow>
     \<exists>p. e = DeadlockDetected p \<and> closed_walk g p"
proof (induction ss arbitrary: st)
  case (Cons s ss)
  show ?case
  proof (cases "s \<in> set (fst st)")
    case True
    with Cons show ?thesis by simp
  next
    case False
    obtain b t where res: "dfs_cycle_detection g s st = (b, t)" by (cases "dfs_cycle_detection g s st")
    from dfs_walk(1) [OF Cons.prems(2) False _ res] Cons.prems(3)
    have w: "if b then closed_walk g (snd (snd t)) else on_path g t \<and> snd (snd t) = []" by auto
    with Cons.prems(1) Cons.IH [of t] False res show ?thesis by (cases b) auto
  qed
qed simp

section \<open>Properties\<close>

text \<open>A system with one resource parameter, of the type \<open>Gui\<close>.\<close>

definition demo_system :: "string \<Rightarrow> string \<Rightarrow> resource_access \<Rightarrow> sysdef" where
  "demo_system name resource acc =
     SystemDef name [PResource ''res'' resource (TIdentifier ''Gui'' []) acc] None [] False"

lemma demo_system_accesses [simp]: "extract_resource_accesses (demo_system n r a) = [(r, a)]"
  by (simp add: demo_system_def extract_resource_accesses_def)

text \<open>
  A system passes validation exactly when all its declarations of one resource agree on
  access and type; then the access kept for the resource is the declared one.
\<close>

theorem validation_exact:
  "(is_ok (validate_system_resources \<pi> d) \<longleftrightarrow>
      consistent_params (set (resource_params \<pi> (sd_parameters d)))) \<and>
   (is_ok (validate_system_resources \<pi> d) \<longrightarrow>
      (\<forall>(n, a, ty) \<in> set (resource_params \<pi> (sd_parameters d)).
         map_of (extract_resource_accesses d) n = Some a))"
proof -
  let ?ps = "resource_params \<pi> (sd_parameters d)"
  have "map_of (extract_resource_accesses d) n = Some a"
    if "consistent_params (set ?ps)" "(n, a, ty) \<in> set ?ps" for n a ty
  proof -
    let ?m = "rev (map (\<lambda>(n, a, _). (n, a)) ?ps)"
    from that(2) have "n \<in> fst ` set ?m" by force
    then obtain a' where a': "map_of ?m n = Some a'" by (metis map_of_eq_None_iff not_None_eq)
    then have "(n, a') \<in> set ?m" by (rule map_of_SomeD)
    then obtain ty' where "(n, a', ty') \<in> set ?ps" by auto
    with that have "a' = a" by (auto simp: consistent_params_def)
    with a' show ?thesis by (simp add: extract_resource_accesses_def map_of_extract_params [where \<pi> = \<pi>])
  qed
  then show ?thesis by (auto simp: validate_ok_iff)
qed

theorem validation_exact_witness:
  "is_ok (validate_system_resources rev (demo_system ''a'' ''gui'' Mutable)) \<and>
   map_of (extract_resource_accesses (demo_system ''a'' ''gui'' Mutable)) ''gui'' = Some Mutable"
proof -
  have "consistent_params (set (resource_params rev (sd_parameters (demo_system ''a'' ''gui'' Mutable))))"
    by (simp add: demo_system_def consistent_params_def)
  then show ?thesis
    using validation_exact [of rev "demo_system ''a'' ''gui'' Mutable"]
    by (simp add: demo_system_def)
qed

text \<open>
  C15: The static conflict check agrees with the run-time tracker: two systems are free of
  conflicts exactly when, while the second holds all it declares, the tracker grants the first
  every access it declares. Neither depends on the iteration order of the maps.
\<close>

theorem static_check_agrees_with_tracker:
  assumes "is_hash_order \<pi>" and "n1 \<noteq> n2"
    and "tracker_wf t" and "held t = triples_of n2 (extract_resource_accesses d2)"
  shows "check_system_conflict \<pi> d1 d2 = NoConflict \<longleftrightarrow>
    (\<forall>(r, a) \<in> set (extract_resource_accesses d1). is_ok (add_access \<pi> t r n1 a))"
  using check_system_conflict_iff [OF assms(1), of d1 d2] no_conflict_compatible [OF assms(2), of d1 d2]
  by (auto simp: add_access_ok [OF assms(3)] assms(4))

theorem static_check_agrees_with_tracker_witness:
  "\<exists>t. add_access rev tracker_new ''gui'' ''b'' Mutable = Inr t \<and>
     check_system_conflict rev (demo_system ''a'' ''gui'' Immutable) (demo_system ''b'' ''gui'' Mutable)
       = ReadWrite \<and> \<not> is_ok (add_access rev t ''gui'' ''a'' Immutable)"
proof -
  have "is_ok (add_access rev tracker_new ''gui'' ''b'' Mutable)" by code_simp
  then obtain t where t: "add_access rev tracker_new ''gui'' ''b'' Mutable = Inr t"
    by (auto simp: is_ok_iff)
  from add_access_Inr [OF tracker_wf_new t] have wf: "tracker_wf t"
    "held t = triples_of ''b'' (extract_resource_accesses (demo_system ''b'' ''gui'' Mutable))"
    by (simp_all add: held_new)
  have ne: "''a'' \<noteq> ''b''" by simp
  have c: "check_system_conflict rev (demo_system ''a'' ''gui'' Immutable) (demo_system ''b'' ''gui'' Mutable)
      = ReadWrite"
    by (simp add: check_system_conflict_def hm_iter_def hm_keys_def List.map_filter_def)
  with static_check_agrees_with_tracker [OF hash_order_rev ne wf, of "demo_system ''a'' ''gui'' Immutable"] t
  show ?thesis by auto
qed

text \<open>
  A deadlock that the cycle search reports is a closed walk of the conflict graph: it has at
  least two systems, ends where it starts, and each system conflicts with the next.
\<close>

theorem reported_deadlock_is_cycle:
  assumes "detect_deadlocks \<pi> g = Inl e"
  shows "\<exists>p. e = DeadlockDetected p \<and> closed_walk g p"
  by (rule detect_from_cycle [OF assms [unfolded detect_deadlocks_def]]) (simp_all add: on_path_def)

theorem reported_deadlock_is_cycle_witness:
  "\<exists>e p. detect_deadlocks rev
       (add_conflict (graph_add_system (graph_add_system graph_new ''a'') ''b'') ''a'' ''b'' ReadWrite) = Inl e \<and>
     e = DeadlockDetected p \<and>
     closed_walk (add_conflict (graph_add_system (graph_add_system graph_new ''a'') ''b'') ''a'' ''b'' ReadWrite) p"
proof -
  let ?g = "add_conflict (graph_add_system (graph_add_system graph_new ''a'') ''b'') ''a'' ''b'' ReadWrite"
  have "\<not> is_ok (detect_deadlocks rev ?g)" by code_simp
  then obtain e where "detect_deadlocks rev ?g = Inl e" by (auto simp: not_is_ok_iff)
  with reported_deadlock_is_cycle [OF this] show ?thesis by blast
qed

end
