(* ===== verification/Scheduler.thy ===== *)
theory Scheduler
  imports Conflict "HOL-Library.List_Lexorder" "HOL-Library.Char_ord"
begin

text \<open>
  \<open>SystemScheduler\<close> of \<open>src/scheduler.rs\<close>: its configuration, the registration of systems and
  of dependencies with the cycle check, the choice of the systems to run under each strategy,
  the start and the end of a run with their resource accesses, batches and statistics.

  A method that takes \<open>&mut self\<close> and returns a \<open>Result\<close> is a function into the result and the
  state it leaves behind, also on the error path. The wall clock is an argument: \<open>now\<close> is the
  number of milliseconds \<open>schedule_system\<close> reads. Arithmetic that overflows is the outcome
  \<open>None\<close> (a panic, as in a build with overflow checks).
\<close>

section \<open>Data\<close>

datatype system_priority = Low | Normal | High | Critical

fun priority_rank :: "system_priority \<Rightarrow> nat" where
  "priority_rank Low = 0"
| "priority_rank Normal = 1"
| "priority_rank High = 2"
| "priority_rank Critical = 3"

instantiation system_priority :: linorder
begin

definition less_eq_system_priority :: "system_priority \<Rightarrow> system_priority \<Rightarrow> bool" where
  "less_eq_system_priority p q \<longleftrightarrow> priority_rank p \<le> priority_rank q"

definition less_system_priority :: "system_priority \<Rightarrow> system_priority \<Rightarrow> bool" where
  "less_system_priority p q \<longleftrightarrow> priority_rank p < priority_rank q"

instance
proof
  fix x y :: system_priority
  assume "x \<le> y" "y \<le> x"
  then show "x = y"
    by (cases x; cases y) (simp_all add: less_eq_system_priority_def)
qed (auto simp: less_eq_system_priority_def less_system_priority_def)

end

definition default_priority :: system_priority where
  "default_priority = Normal"

datatype scheduling_strategy = FCFS | Priority | RoundRobin | SJF | WorkStealing

record schedulable_system =
  sys_definition :: sysdef
  priority :: system_priority
  estimated_runtime :: "u64 option"
  dependencies :: "string list"
  last_execution_time :: "u64 option"

record scheduling_stats =
  stat_total_systems :: usize
  stat_pending_systems :: usize
  stat_executing_systems :: usize
  stat_completed_systems :: usize
  stat_active_resources :: usize
  stat_max_concurrent :: usize
  stat_strategy :: scheduling_strategy

record system_scheduler =
  systems :: "(string, schedulable_system) hmap"
  state :: scheduler_state
  conflict_graph :: conflict_graph
  strategy :: scheduling_strategy
  max_concurrent_systems :: usize
  system_priorities :: "(string, system_priority) hmap"

section \<open>Configuration\<close>

definition with_config :: "scheduling_strategy \<Rightarrow> usize \<Rightarrow> system_scheduler" where
  "with_config strat max_concurrent =
     \<lparr>systems = [], state = state_new, conflict_graph = graph_new, strategy = strat,
      max_concurrent_systems = max_concurrent, system_priorities = []\<rparr>"

text \<open>\<open>parallelism\<close> is what \<open>std::thread::available_parallelism\<close> answers.\<close>

definition scheduler_new :: "usize option \<Rightarrow> system_scheduler" where
  "scheduler_new parallelism =
     with_config FCFS (case parallelism of Some p \<Rightarrow> p | None \<Rightarrow> 4)"

definition set_strategy :: "system_scheduler \<Rightarrow> scheduling_strategy \<Rightarrow> system_scheduler" where
  "set_strategy s strat = s\<lparr>strategy := strat\<rparr>"

definition set_system_priority ::
  "system_scheduler \<Rightarrow> string \<Rightarrow> system_priority \<Rightarrow> system_scheduler" where
  "set_system_priority s name prio =
     s\<lparr>system_priorities := AList.update name prio (system_priorities s),
       systems := (case map_of (systems s) name of
                     Some sys \<Rightarrow> AList.update name (sys\<lparr>priority := prio\<rparr>) (systems s)
                   | None \<Rightarrow> systems s)\<rparr>"

section \<open>Dependencies\<close>

definition deps_of :: "(string, schedulable_system) hmap \<Rightarrow> string \<Rightarrow> string list" where
  "deps_of m name = (case map_of m name of Some sys \<Rightarrow> dependencies sys | None \<Rightarrow> [])"

text \<open>
  The depth-first search of \<open>dfs_check_cycle\<close>, with \<open>visited\<close> threaded through;
  \<open>dfs_check_deps\<close> is its loop over the dependencies of a system.
\<close>

function dfs_check_cycle ::
    "(string, schedulable_system) hmap \<Rightarrow> string \<Rightarrow> string \<Rightarrow> string hset \<Rightarrow> bool \<times> string hset"
  and dfs_check_deps ::
    "(string, schedulable_system) hmap \<Rightarrow> string list \<Rightarrow> string \<Rightarrow> string hset \<Rightarrow> bool \<times> string hset"
where
  "dfs_check_cycle m current target visited =
     (if current = target then (True, visited)
      else if current \<in> set visited then (False, visited)
      else (case map_of m current of
              Some sys \<Rightarrow> dfs_check_deps m (dependencies sys) target (List.insert current visited)
            | None \<Rightarrow> (False, List.insert current visited)))"
| "dfs_check_deps m [] target visited = (False, visited)"
| "dfs_check_deps m (dep # deps) target visited =
     (case dfs_check_cycle m dep target visited of
        (found, visited') \<Rightarrow>
          if found then (True, visited') else dfs_check_deps m deps target visited')"
  by pat_completeness auto

definition unexplored :: "(string, schedulable_system) hmap \<Rightarrow> string list \<Rightarrow> nat" where
  "unexplored m visited = card (fst ` set m - set visited)"

lemma dfs_check_visited_grows:
  "dfs_check_cycle_dfs_check_deps_dom (Inl (m, current, target, visited)) \<Longrightarrow>
     set visited \<subseteq> set (snd (dfs_check_cycle m current target visited))"
  "dfs_check_cycle_dfs_check_deps_dom (Inr (m, deps, target, visited)) \<Longrightarrow>
     set visited \<subseteq> set (snd (dfs_check_deps m deps target visited))"
proof (induction m current target visited and m deps target visited
    rule: dfs_check_cycle_dfs_check_deps.pinduct)
  case (1 m current target visited)
  then show ?case
    by (auto simp: dfs_check_cycle.psimps split: option.splits)
next
  case (2 m target visited)
  then show ?case by (simp add: dfs_check_deps.psimps)
next
  case (3 m dep deps target visited)
  then show ?case
    by (force simp: dfs_check_deps.psimps split: prod.splits)
qed

lemma unexplored_less:
  assumes "n \<notin> set v" and "map_of m n = Some sys"
  shows "unexplored m (List.insert n v) < unexplored m v"
proof -
  from assms(2) have "n \<in> fst ` set m" by (force dest: map_of_SomeD)
  with assms(1) show ?thesis unfolding unexplored_def by (intro psubset_card_mono) auto
qed

lemma unexplored_mono: "set v \<subseteq> set v' \<Longrightarrow> unexplored m v' \<le> unexplored m v"
  unfolding unexplored_def by (intro card_mono) auto

fun check_measure ::
  "((string, schedulable_system) hmap \<times> string \<times> string \<times> string list) +
   ((string, schedulable_system) hmap \<times> string list \<times> string \<times> string list) \<Rightarrow> nat \<times> nat" where
  "check_measure (Inl (m, n, t, v)) = (unexplored m v, 0)"
| "check_measure (Inr (m, ds, t, v)) = (unexplored m v, Suc (length ds))"

termination dfs_check_cycle
proof (relation "inv_image (less_than <*lex*> less_than) check_measure", goal_cases)
  case 1
  then show ?case by auto
next
  case (2 m current target visited sys)
  from unexplored_less [OF 2(2,3)] show ?case by simp
next
  case (3 m dep deps target visited)
  then show ?case by simp
next
  case (4 m dep deps target visited found visited')
  from dfs_check_visited_grows(1) [OF 4(3)] 4(1) [symmetric]
  have "unexplored m visited' \<le> unexplored m visited" by (intro unexplored_mono) simp
  then show ?case by (simp add: le_less)
qed

declare dfs_check_cycle.simps [simp del] dfs_check_deps.simps(2) [simp del]

definition would_create_cycle :: "(string, schedulable_system) hmap \<Rightarrow> string \<Rightarrow> string \<Rightarrow> bool" where
  "would_create_cycle m from to = (if from = to then True else fst (dfs_check_cycle m to from []))"

text \<open>The search is exact: it finds its target iff the dependencies reach it.\<close>

definition dep_rel :: "(string, schedulable_system) hmap \<Rightarrow> (string \<times> string) set" where
  "dep_rel m = {(a, b). b \<in> set (deps_of m a)}"

lemma dfs_check_sound:
  "dfs_check_cycle m current target visited = (True, v') \<Longrightarrow> (current, target) \<in> (dep_rel m)\<^sup>*"
  "dfs_check_deps m deps target visited = (True, v') \<Longrightarrow> \<exists>d \<in> set deps. (d, target) \<in> (dep_rel m)\<^sup>*"
proof (induction m current target visited and m deps target visited
    arbitrary: v' and v' rule: dfs_check_cycle_dfs_check_deps.induct)
  case (1 m current target visited)
  show ?case
  proof (cases "current = target")
    case False
    with 1(2) obtain sys where sys: "current \<notin> set visited" "map_of m current = Some sys"
      "dfs_check_deps m (dependencies sys) target (List.insert current visited) = (True, v')"
      by (auto simp: dfs_check_cycle.simps split: if_splits option.splits)
    from 1(1) [OF False sys] obtain d where "d \<in> set (dependencies sys)" "(d, target) \<in> (dep_rel m)\<^sup>*"
      by blast
    moreover from this sys(2) have "(current, d) \<in> dep_rel m" by (simp add: dep_rel_def deps_of_def)
    ultimately show ?thesis by (auto intro: converse_rtrancl_into_rtrancl)
  qed simp
next
  case (3 m dep deps target visited)
  then show ?case
    by (fastforce simp: dfs_check_deps.simps(2) split: prod.splits if_splits)
qed simp

text \<open>A failed search leaves a set of visited systems that no dependency leaves.\<close>

lemma dfs_check_complete:
  "dfs_check_cycle m current target visited = (False, v') \<Longrightarrow> target \<notin> set visited \<Longrightarrow>
     insert current (set visited) \<subseteq> set v' \<and> target \<notin> set v' \<and>
     (\<forall>x \<in> set v' - set visited. set (deps_of m x) \<subseteq> set v')"
  "dfs_check_deps m deps target visited = (False, v') \<Longrightarrow> target \<notin> set visited \<Longrightarrow>
     set deps \<union> set visited \<subseteq> set v' \<and> target \<notin> set v' \<and>
     (\<forall>x \<in> set v' - set visited. set (deps_of m x) \<subseteq> set v')"
proof (induction m current target visited and m deps target visited
    arbitrary: v' and v' rule: dfs_check_cycle_dfs_check_deps.induct)
  case (1 m current target visited)
  from 1(2) have ne: "current \<noteq> target" by (auto simp: dfs_check_cycle.simps split: if_splits)
  show ?case
  proof (cases "current \<in> set visited")
    case True
    with 1(2,3) ne show ?thesis by (simp add: dfs_check_cycle.simps)
  next
    case False
    show ?thesis
    proof (cases "map_of m current")
      case None
      with 1(2,3) ne False show ?thesis
        by (auto simp: dfs_check_cycle.simps deps_of_def)
    next
      case (Some sys)
      with 1(2) ne False
      have res: "dfs_check_deps m (dependencies sys) target (List.insert current visited) = (False, v')"
        by (simp add: dfs_check_cycle.simps)
      from Some have "deps_of m current = dependencies sys" by (simp add: deps_of_def)
      moreover from 1(1) [OF ne False Some res] 1(3) ne
      have v': "set (dependencies sys) \<union> insert current (set visited) \<subseteq> set v'" "target \<notin> set v'"
        "\<forall>x \<in> set v' - insert current (set visited). set (deps_of m x) \<subseteq> set v'" by auto
      ultimately have "set (deps_of m x) \<subseteq> set v'" if "x \<in> set v' - set visited" for x
        using that by (cases "x = current") auto
      with v' show ?thesis by simp
    qed
  qed
next
  case (3 m dep deps target visited)
  then obtain v where v: "dfs_check_cycle m dep target visited = (False, v)"
    "dfs_check_deps m deps target v = (False, v')"
    by (auto simp: dfs_check_deps.simps(2) split: prod.splits if_splits)
  from 3(1) [OF v(1) 3(4)] have one: "insert dep (set visited) \<subseteq> set v" "target \<notin> set v"
    "\<forall>x \<in> set v - set visited. set (deps_of m x) \<subseteq> set v" by blast+
  from 3(2) [OF v(1) [symmetric] _ v(2) one(2)] have two: "set deps \<union> set v \<subseteq> set v'" "target \<notin> set v'"
    "\<forall>x \<in> set v' - set v. set (deps_of m x) \<subseteq> set v'" by simp_all
  from one two show ?case by (auto; blast)
qed simp

lemma would_create_cycle_iff: "would_create_cycle m from to \<longleftrightarrow> (to, from) \<in> (dep_rel m)\<^sup>*"
proof (cases "from = to")
  case False
  obtain b v where res: "dfs_check_cycle m to from [] = (b, v)" by (cases "dfs_check_cycle m to from []")
  show ?thesis
  proof (cases b)
    case True
    with res False dfs_check_sound(1) [of m to "from" "[]" v] show ?thesis
      by (simp add: would_create_cycle_def)
  next
    case nf: False
    from dfs_check_complete(1) [of m to "from" "[]" v] res nf
    have v: "to \<in> set v" "from \<notin> set v" "\<forall>x \<in> set v. set (deps_of m x) \<subseteq> set v" by auto
    have "y \<in> set v" if "(to, y) \<in> (dep_rel m)\<^sup>*" for y
      using that v(1,3) by induction (auto simp: dep_rel_def)
    with v(2) res nf False show ?thesis by (auto simp: would_create_cycle_def)
  qed
qed (simp add: would_create_cycle_def)

definition add_dependency ::
  "system_scheduler \<Rightarrow> string \<Rightarrow> string \<Rightarrow> scheduler_error + system_scheduler" where
  "add_dependency s dependent dependency =
     (if would_create_cycle (systems s) dependent dependency
      then Inl (DeadlockDetected [dependent, dependency])
      else Inr (case map_of (systems s) dependent of
                  Some sys \<Rightarrow>
                    s\<lparr>systems := AList.update dependent
                        (sys\<lparr>dependencies := dependencies sys @ [dependency]\<rparr>) (systems s)\<rparr>
                | None \<Rightarrow> s))"

section \<open>Registration\<close>

definition add_system ::
  "hash_order \<Rightarrow> system_scheduler \<Rightarrow> sysdef \<Rightarrow> scheduler_error + system_scheduler" where
  "add_system \<pi> s system =
     (case validate_system_resources \<pi> system of
        Inl e \<Rightarrow> Inl e
      | Inr _ \<Rightarrow>
          Inr (s\<lparr>conflict_graph := graph_add_system (conflict_graph s) (sd_name system),
                 systems := AList.update (sd_name system)
                   \<lparr>sys_definition = system,
                    priority = (case map_of (system_priorities s) (sd_name system) of
                                  Some p \<Rightarrow> p | None \<Rightarrow> default_priority),
                    estimated_runtime = None, dependencies = [], last_execution_time = None\<rparr>
                   (systems s)\<rparr>))"

text \<open>
  The conflict graph gets its node before the dependencies are checked, so a refused system
  leaves one behind.
\<close>

definition add_system_with_metadata ::
  "hash_order \<Rightarrow> system_scheduler \<Rightarrow> sysdef \<Rightarrow> system_priority \<Rightarrow> u64 option \<Rightarrow> string list \<Rightarrow>
     (scheduler_error + unit) \<times> system_scheduler" where
  "add_system_with_metadata \<pi> s system prio runtime deps =
     (case validate_system_resources \<pi> system of
        Inl e \<Rightarrow> (Inl e, s)
      | Inr _ \<Rightarrow>
          let name = sd_name system;
              s1 = s\<lparr>conflict_graph := graph_add_system (conflict_graph s) name\<rparr> in
          (case List.find (\<lambda>dep. \<not> hm_contains (systems s1) dep) deps of
             Some dep \<Rightarrow>
               (Inl (SchedulingFailure (''Dependency '' @ squote dep @ '' not found for system '' @
                  squote name)), s1)
           | None \<Rightarrow>
               (case List.find (\<lambda>dep. would_create_cycle (systems s1) name dep) deps of
                  Some dep \<Rightarrow> (Inl (DeadlockDetected [name, dep]), s1)
                | None \<Rightarrow>
                    (Inr (),
                     s1\<lparr>systems := AList.update name
                          \<lparr>sys_definition = system, priority = prio, estimated_runtime = runtime,
                           dependencies = deps, last_execution_time = None\<rparr> (systems s1)\<rparr>))))"

definition build_conflict_graph :: "hash_order \<Rightarrow> system_scheduler \<Rightarrow> system_scheduler" where
  "build_conflict_graph \<pi> s =
     s\<lparr>conflict_graph :=
         add_pairs \<pi> (map (\<lambda>(n, sys). (n, sys_definition sys)) (hm_iter \<pi> (systems s))) (conflict_graph s)\<rparr>"

lemma dep_rel_update:
  "dep_rel (AList.update n sys m) = {(a, b) \<in> dep_rel m. a \<noteq> n} \<union> {(n, d) | d. d \<in> set (dependencies sys)}"
  by (auto simp: dep_rel_def deps_of_def map_of_update split: if_splits)

text \<open>
  New edges from one node keep the relation acyclic when none of their targets reaches the node:
  the part of a path up to its first visit to the node uses old edges only.
\<close>

lemma acyclic_replace_out:
  assumes "acyclic r" and "\<forall>d \<in> D. (d, n) \<notin> r\<^sup>*"
  shows "acyclic ({(a, b) \<in> r. a \<noteq> n} \<union> {(n, d) | d. d \<in> D})" (is "acyclic ?R")
proof -
  have old: "(x, n) \<in> r\<^sup>*" if "(x, n) \<in> ?R\<^sup>*" for x
    using that
  proof (induction rule: converse_rtrancl_induct)
    case (step y z)
    then show ?case by (cases "y = n") (auto intro: converse_rtrancl_into_rtrancl)
  qed simp
  have "(n, n) \<notin> ?R\<^sup>+"
  proof
    assume "(n, n) \<in> ?R\<^sup>+"
    then obtain d where "(n, d) \<in> ?R" "(d, n) \<in> ?R\<^sup>*" by (meson tranclD)
    with old [of d] assms(2) show False by auto
  qed
  have split: "(x, y) \<in> r\<^sup>+ \<or> (x, n) \<in> ?R\<^sup>* \<and> (n, y) \<in> ?R\<^sup>+" if "(x, y) \<in> ?R\<^sup>+" for x y
    using that
  proof (induction rule: trancl_induct)
    case (base y)
    then show ?case by (cases "x = n") auto
  next
    case (step y z)
    show ?case
    proof (cases "y = n")
      case True
      with step(1,2) show ?thesis by (auto intro: trancl_into_rtrancl)
    next
      case False
      with step(2) have "(y, z) \<in> r" by auto
      with step(2,3) show ?thesis by (auto intro: trancl_into_trancl)
    qed
  qed
  show ?thesis
  proof (rule acyclicI, rule allI, rule notI)
    fix x assume cyc: "(x, x) \<in> ?R\<^sup>+"
    with split assms(1) have "(x, n) \<in> ?R\<^sup>*" "(n, x) \<in> ?R\<^sup>+" by (auto simp: acyclic_def)
    then have "(n, n) \<in> ?R\<^sup>+" by (rule trancl_rtrancl_trancl [rotated])
    with \<open>(n, n) \<notin> ?R\<^sup>+\<close> show False by simp
  qed
qed

lemma add_dependency_acyclic:
  assumes "acyclic (dep_rel (systems s))" and "add_dependency s a b = Inr s'"
  shows "acyclic (dep_rel (systems s'))"
proof (cases "map_of (systems s) a")
  case None
  with assms show ?thesis by (auto simp: add_dependency_def split: if_splits)
next
  case (Some sys)
  let ?m = "systems s" and ?D = "insert b (set (deps_of (systems s) a))"
  from assms(2) have "(b, a) \<notin> (dep_rel ?m)\<^sup>*"
    by (simp add: add_dependency_def would_create_cycle_iff split: if_splits)
  moreover have "(d, a) \<notin> (dep_rel ?m)\<^sup>*" if "d \<in> set (deps_of ?m a)" for d
  proof
    assume "(d, a) \<in> (dep_rel ?m)\<^sup>*"
    moreover from that have "(a, d) \<in> dep_rel ?m" by (simp add: dep_rel_def)
    ultimately have "(a, a) \<in> (dep_rel ?m)\<^sup>+" by (rule rtrancl_into_trancl2 [rotated])
    with assms(1) show False by (auto simp: acyclic_def)
  qed
  ultimately have "acyclic ({(x, y) \<in> dep_rel ?m. x \<noteq> a} \<union> {(a, d) | d. d \<in> ?D})"
    using assms(1) by (intro acyclic_replace_out) auto
  moreover from assms(2) Some
  have "dep_rel (systems s') = {(x, y) \<in> dep_rel ?m. x \<noteq> a} \<union> {(a, d) | d. d \<in> ?D}"
    by (auto simp: add_dependency_def dep_rel_update deps_of_def split: if_splits)
  ultimately show ?thesis by simp
qed

lemma add_system_acyclic:
  assumes "acyclic (dep_rel (systems s))" and "add_system \<pi> s d = Inr s'"
  shows "acyclic (dep_rel (systems s'))"
proof -
  from assms(2) have "dep_rel (systems s') \<subseteq> dep_rel (systems s)"
    by (auto simp: add_system_def dep_rel_update split: sum.splits)
  with assms(1) show ?thesis by (rule acyclic_subset)
qed

lemma add_metadata_acyclic:
  assumes "acyclic (dep_rel (systems s))" and "add_system_with_metadata \<pi> s d p rt deps = (res, s')"
  shows "acyclic (dep_rel (systems s'))"
proof (cases "res = Inr ()")
  case True
  with assms(2) have ok: "List.find (\<lambda>dep. would_create_cycle (systems s) (sd_name d) dep) deps = None"
    and s': "dep_rel (systems s') = {(x, y) \<in> dep_rel (systems s). x \<noteq> sd_name d} \<union>
        {(sd_name d, x) | x. x \<in> set deps}"
    by (auto simp: add_system_with_metadata_def Let_def dep_rel_update
        split: sum.splits option.splits)
  show ?thesis
    unfolding s' using ok assms(1)
    by (intro acyclic_replace_out) (auto simp: find_None_set would_create_cycle_iff)
next
  case False
  with assms(2) have "systems s' = systems s"
    by (auto simp: add_system_with_metadata_def Let_def split: sum.splits option.splits)
  with assms(1) show ?thesis by simp
qed

section \<open>Choosing systems to run\<close>

text \<open>
  The loops over dependencies, executing systems and accesses only leave early with
  \<open>false\<close>, so they are universally quantified tests.
\<close>

definition can_schedule_system :: "hash_order \<Rightarrow> system_scheduler \<Rightarrow> string \<Rightarrow> bool" where
  "can_schedule_system \<pi> s name =
     (case map_of (systems s) name of
        None \<Rightarrow> False
      | Some sys \<Rightarrow>
          (\<forall>dep \<in> set (dependencies sys). dep \<in> set (completed_systems (state s))) \<and>
          (\<forall>e \<in> set (executing_systems (state s)). \<not> has_conflict (conflict_graph s) name e) \<and>
          (\<forall>(r, a) \<in> set (extract_resource_accesses (sys_definition sys)).
             is_ok (can_access_resource \<pi> (resource_tracker (state s)) r name a)))"

text \<open>
  \<open>sort_by\<close> is stable, as \<open>sort_key\<close> is; a comparison with its arguments swapped sorts by
  the negated key.
\<close>

definition priority_of :: "system_scheduler \<Rightarrow> string \<Rightarrow> system_priority" where
  "priority_of s n = (case map_of (systems s) n of Some sys \<Rightarrow> priority sys | None \<Rightarrow> Normal)"

definition runtime_of :: "system_scheduler \<Rightarrow> string \<Rightarrow> u64" where
  "runtime_of s n = (case Option.bind (map_of (systems s) n) estimated_runtime of Some t \<Rightarrow> t | None \<Rightarrow> -1)"

definition last_run_of :: "system_scheduler \<Rightarrow> string \<Rightarrow> u64" where
  "last_run_of s n = (case Option.bind (map_of (systems s) n) last_execution_time of Some t \<Rightarrow> t | None \<Rightarrow> 0)"

definition order_by_strategy :: "system_scheduler \<Rightarrow> string list \<Rightarrow> string list" where
  "order_by_strategy s names =
     (case strategy s of
        FCFS \<Rightarrow> names
      | Priority \<Rightarrow> sort_key (\<lambda>n. - int (priority_rank (priority_of s n))) names
      | SJF \<Rightarrow> sort_key (runtime_of s) names
      | RoundRobin \<Rightarrow> sort_key (last_run_of s) names
      | WorkStealing \<Rightarrow> sort_key (\<lambda>n. - int (length (deps_of (systems s) n))) names)"

definition get_schedulable_systems :: "hash_order \<Rightarrow> system_scheduler \<Rightarrow> string list" where
  "get_schedulable_systems \<pi> s =
     (if max_concurrent_systems s \<le> length (executing_systems (state s)) then []
      else order_by_strategy s (filter (can_schedule_system \<pi> s) (pending_systems (state s))))"

section \<open>Running systems\<close>

text \<open>\<open>pending.retain(..)\<close> and \<open>executing.insert(..)\<close>\<close>

definition start_system :: "scheduler_state \<Rightarrow> string \<Rightarrow> scheduler_state" where
  "start_system st name =
     st\<lparr>pending_systems := filter (\<lambda>n. n \<noteq> name) (pending_systems st),
        executing_systems := List.insert name (executing_systems st)\<rparr>"

definition schedule_system ::
  "hash_order \<Rightarrow> u64 \<Rightarrow> system_scheduler \<Rightarrow> string \<Rightarrow> (scheduler_error + unit) \<times> system_scheduler" where
  "schedule_system \<pi> now s name =
     (if \<not> can_schedule_system \<pi> s name then
        (Inl (SchedulingFailure (''System '' @ squote name @ '' cannot be scheduled due to conflicts'')), s)
      else
        let s1 = s\<lparr>state := start_system (state s) name\<rparr> in
        (case map_of (systems s1) name of
           None \<Rightarrow> (Inl (SchedulingFailure (''System '' @ squote name @ '' not found'')), s1)
         | Some sys \<Rightarrow>
             let s2 = s1\<lparr>systems :=
                   AList.update name (sys\<lparr>last_execution_time := Some now\<rparr>) (systems s1)\<rparr>;
                 (res, t) = acquire_all (add_access \<pi>) name
                   (hm_iter \<pi> (extract_resource_accesses (sys_definition sys)))
                   (resource_tracker (state s2))
             in (res, s2\<lparr>state := (state s2)\<lparr>resource_tracker := t\<rparr>\<rparr>)))"

definition complete_system ::
  "hash_order \<Rightarrow> system_scheduler \<Rightarrow> string \<Rightarrow> scheduler_error + system_scheduler" where
  "complete_system \<pi> s name =
     (if name \<notin> set (executing_systems (state s)) then
        Inl (SchedulingFailure (''System '' @ squote name @ '' is not currently executing''))
      else
        let t = (case map_of (systems s) name of
                   Some sys \<Rightarrow>
                     release_all remove_access name
                       (hm_iter \<pi> (extract_resource_accesses (sys_definition sys)))
                       (resource_tracker (state s))
                 | None \<Rightarrow> resource_tracker (state s))
        in Inr (s\<lparr>state := state_complete_system ((state s)\<lparr>resource_tracker := t\<rparr>) name\<rparr>))"

section \<open>Batches\<close>

text \<open>
  \<open>schedule_batch\<close> starts as many systems as the limit allows. The clock gives the reading of
  each attempt. The work-stealing loop runs over the indices of its first list while it replaces
  that list after each start; \<open>Vec::remove(i)\<close> takes the element at \<open>i\<close> out.
\<close>

fun batch_loop ::
  "hash_order \<Rightarrow> (nat \<Rightarrow> u64) \<Rightarrow> nat \<Rightarrow> string list \<Rightarrow> string list \<Rightarrow> system_scheduler \<Rightarrow>
     string list \<times> system_scheduler" where
  "batch_loop \<pi> clock i [] scheduled s = (scheduled, s)"
| "batch_loop \<pi> clock i (name # names) scheduled s =
     (case schedule_system \<pi> (clock i) s name of
        (Inr _, s') \<Rightarrow> batch_loop \<pi> clock (Suc i) names (scheduled @ [name]) s'
      | (Inl _, s') \<Rightarrow> batch_loop \<pi> clock (Suc i) names scheduled s')"

fun steal_loop ::
  "hash_order \<Rightarrow> (nat \<Rightarrow> u64) \<Rightarrow> nat list \<Rightarrow> string list \<Rightarrow> string list \<Rightarrow> system_scheduler \<Rightarrow>
     string list \<times> system_scheduler" where
  "steal_loop \<pi> clock [] schedulable scheduled s = (scheduled, s)"
| "steal_loop \<pi> clock (i # is) schedulable scheduled s =
     (if i < length schedulable then
        let name = schedulable ! i; rest = take i schedulable @ drop (Suc i) schedulable in
        (case schedule_system \<pi> (clock i) s name of
           (Inr _, s') \<Rightarrow> steal_loop \<pi> clock is (get_schedulable_systems \<pi> s') (scheduled @ [name]) s'
         | (Inl _, s') \<Rightarrow> steal_loop \<pi> clock is rest scheduled s')
      else steal_loop \<pi> clock is schedulable scheduled s)"

definition schedule_batch ::
  "hash_order \<Rightarrow> (nat \<Rightarrow> u64) \<Rightarrow> system_scheduler \<Rightarrow> (string list \<times> system_scheduler) option" where
  "schedule_batch \<pi> clock s =
     (if max_concurrent_systems s < length (executing_systems (state s)) then None
      else
        let max_to_schedule = max_concurrent_systems s - length (executing_systems (state s)) in
        if max_to_schedule = 0 then Some ([], s)
        else
          let schedulable = get_schedulable_systems \<pi> s in
          Some (case strategy s of
                  WorkStealing \<Rightarrow>
                    steal_loop \<pi> clock [0..<min max_to_schedule (length schedulable)] schedulable [] s
                | _ \<Rightarrow>
                    batch_loop \<pi> clock 0 (take (min max_to_schedule (length schedulable)) schedulable) [] s))"

section \<open>Queue, statistics, estimates\<close>

definition enqueue_system :: "system_scheduler \<Rightarrow> string \<Rightarrow> system_scheduler" where
  "enqueue_system s name = s\<lparr>state := state_enqueue_system (state s) name\<rparr>"

definition is_complete :: "system_scheduler \<Rightarrow> bool" where
  "is_complete s \<longleftrightarrow> state_is_complete (state s)"

definition get_scheduling_stats :: "system_scheduler \<Rightarrow> scheduling_stats" where
  "get_scheduling_stats s =
     \<lparr>stat_total_systems = length (systems s),
      stat_pending_systems = length (pending_systems (state s)),
      stat_executing_systems = length (executing_systems (state s)),
      stat_completed_systems = length (completed_systems (state s)),
      stat_active_resources = length (get_active_resources (resource_tracker (state s))),
      stat_max_concurrent = max_concurrent_systems s,
      stat_strategy = strategy s\<rparr>"

text \<open>The sum of \<open>u64\<close> estimates; \<open>None\<close> is the overflow panic of \<open>+=\<close>.\<close>

fun sum_estimates :: "(string, schedulable_system) hmap \<Rightarrow> u64 \<Rightarrow> string list \<Rightarrow> u64 option" where
  "sum_estimates m total_time [] = Some total_time"
| "sum_estimates m total_time (n # ns) =
     (case map_of m n of
        None \<Rightarrow> sum_estimates m total_time ns
      | Some sys \<Rightarrow>
          let t = (case estimated_runtime sys of Some t \<Rightarrow> t | None \<Rightarrow> 1000) in
          if unat total_time + unat t < 2 ^ 64 then sum_estimates m (total_time + t) ns else None)"

definition estimate_completion_time :: "hash_order \<Rightarrow> system_scheduler \<Rightarrow> u64 option option" where
  "estimate_completion_time \<pi> s =
     (if state_is_complete (state s) then Some (Some 0)
      else case sum_estimates (systems s) 0
                  (pending_systems (state s) @ \<pi> (executing_systems (state s))) of
             None \<Rightarrow> None
           | Some total_time \<Rightarrow> Some (Some (total_time div max (of_nat (max_concurrent_systems s)) 1)))"

section \<open>The invariant\<close>

text \<open>What a registered system declares, as the triples it holds while it executes.\<close>

definition declared :: "system_scheduler \<Rightarrow> string \<Rightarrow> access_triple set" where
  "declared s n =
     (case map_of (systems s) n of
        None \<Rightarrow> {}
      | Some sys \<Rightarrow> triples_of n (extract_resource_accesses (sys_definition sys)))"

definition key_set :: "('k, 'v) hmap \<Rightarrow> 'k set" where
  "key_set m = fst ` set m"

lemma key_set_update: "key_set (AList.update k v m) = insert k (key_set m)"
  by (simp add: key_set_def update_conv' flip: dom_map_of_conv_image_fst)

lemma key_setI: "map_of m k = Some v \<Longrightarrow> k \<in> key_set m"
  unfolding key_set_def by (drule map_of_SomeD) force

lemma keys_update_known: "map_of m k = Some v \<Longrightarrow> key_set (AList.update k v' m) = key_set m"
  unfolding key_set_update by (rule insert_absorb) (rule key_setI)

text \<open>
  What holds whatever the clients do: the tracker is well formed and never records conflicting
  accesses, and what executes is registered and executes once.
\<close>

definition sched_wf :: "system_scheduler \<Rightarrow> bool" where
  "sched_wf s \<longleftrightarrow>
     hm_wf (systems s) \<and> tracker_wf (resource_tracker (state s)) \<and>
     distinct (executing_systems (state s)) \<and>
     (\<forall>n \<in> set (executing_systems (state s)). map_of (systems s) n \<noteq> None) \<and>
     exclusive (held (resource_tracker (state s)))"

text \<open>What holds as long as no executing system is registered anew with another declaration.\<close>

definition sched_inv :: "system_scheduler \<Rightarrow> bool" where
  "sched_inv s \<longleftrightarrow>
     sched_wf s \<and>
     held (resource_tracker (state s)) = (\<Union>n \<in> set (executing_systems (state s)). declared s n)"

lemma sched_wfD:
  assumes "sched_wf s"
  shows "hm_wf (systems s)" "tracker_wf (resource_tracker (state s))"
    "distinct (executing_systems (state s))"
    "\<And>n. n \<in> set (executing_systems (state s)) \<Longrightarrow> \<exists>sys. map_of (systems s) n = Some sys"
    "exclusive (held (resource_tracker (state s)))"
  using assms unfolding sched_wf_def by blast+

lemma sched_inv_wf: "sched_inv s \<Longrightarrow> sched_wf s"
  by (simp add: sched_inv_def)

lemma sched_invD:
  assumes "sched_inv s"
  shows "hm_wf (systems s)" "tracker_wf (resource_tracker (state s))"
    "distinct (executing_systems (state s))"
    "\<And>n. n \<in> set (executing_systems (state s)) \<Longrightarrow> \<exists>sys. map_of (systems s) n = Some sys"
    "exclusive (held (resource_tracker (state s)))"
    "held (resource_tracker (state s)) = (\<Union>n \<in> set (executing_systems (state s)). declared s n)"
  using assms unfolding sched_inv_def sched_wf_def by blast+

lemma triples_of_iter:
  assumes "is_hash_order \<pi>" and "hm_wf accs"
  shows "triples_of n (hm_iter \<pi> accs) = triples_of n accs"
  using assms by (auto simp: triples_of_def hm_iter_mem hm_wf_def)

lemma mem_declared:
  "(r, x, a) \<in> declared s n \<longleftrightarrow>
     x = n \<and> (\<exists>sys. map_of (systems s) n = Some sys \<and>
       (r, a) \<in> set (extract_resource_accesses (sys_definition sys)))"
  by (auto simp: declared_def split: option.splits)

lemma can_schedule_compatible:
  assumes "tracker_wf (resource_tracker (state s))"
  shows "can_schedule_system \<pi> s n \<longleftrightarrow>
     (\<exists>sys. map_of (systems s) n = Some sys \<and>
       set (dependencies sys) \<subseteq> set (completed_systems (state s)) \<and>
       (\<forall>e \<in> set (executing_systems (state s)). \<not> has_conflict (conflict_graph s) n e) \<and>
       (\<forall>(r, a) \<in> set (extract_resource_accesses (sys_definition sys)).
          compatible (held (resource_tracker (state s))) r n a))"
  using assms
  by (auto simp: can_schedule_system_def can_access_resource_compatible split: option.splits)

text \<open>
  A system that may run does run: once the guard has passed, no acquisition fails, and the state
  left behind is the start of the system with exactly its accesses added.
\<close>

lemma schedule_system_effect:
  assumes "is_hash_order \<pi>" and "tracker_wf (resource_tracker (state s))"
    and "can_schedule_system \<pi> s n"
  shows "\<exists>sys t. map_of (systems s) n = Some sys \<and>
     schedule_system \<pi> now s n =
       (Inr (), s\<lparr>systems := AList.update n (sys\<lparr>last_execution_time := Some now\<rparr>) (systems s),
                  state := (start_system (state s) n)\<lparr>resource_tracker := t\<rparr>\<rparr>) \<and>
     tracker_wf t \<and> held t = held (resource_tracker (state s)) \<union> declared s n"
proof -
  from assms(2,3) obtain sys where sys: "map_of (systems s) n = Some sys"
    and ok: "\<forall>(r, a) \<in> set (extract_resource_accesses (sys_definition sys)).
          compatible (held (resource_tracker (state s))) r n a"
    by (auto simp: can_schedule_compatible)
  let ?accs = "hm_iter \<pi> (extract_resource_accesses (sys_definition sys))"
  have accs: "distinct (map fst ?accs)" and tr: "triples_of n ?accs = declared s n"
    using assms(1) sys by (simp_all add: hm_iter_distinct declared_def triples_of_iter)
  from ok assms(1) have "\<forall>(r, a) \<in> set ?accs. compatible (held (resource_tracker (state s))) r n a"
    by (auto simp: hm_iter_mem map_of_SomeD)
  from tracker.acquire_all_succeeds [OF assms(2) accs this, of \<pi>] tr obtain t where
    "acquire_all (add_access \<pi>) n ?accs (resource_tracker (state s)) = (Inr (), t)"
    "tracker_wf t" "held t = held (resource_tracker (state s)) \<union> declared s n"
    by auto
  with assms(3) sys show ?thesis
    by (auto simp: schedule_system_def Let_def start_system_def)
qed

lemma schedule_system_refused: "\<not> can_schedule_system \<pi> s n \<Longrightarrow> snd (schedule_system \<pi> now s n) = s"
  by (simp add: schedule_system_def)

lemma declared_last_execution [simp]:
  assumes "map_of (systems s) n = Some sys"
  shows "declared (s\<lparr>systems := AList.update n (sys\<lparr>last_execution_time := x\<rparr>) (systems s), state := st\<rparr>) = declared s"
  using assms by (intro ext) (simp add: declared_def map_of_update)

lemma exclusive_union_declared:
  assumes "exclusive A" and "\<forall>(r, a) \<in> set accs. compatible A r n a"
  shows "exclusive (A \<union> triples_of n accs)"
proof -
  have one: "a = Immutable \<and> a' = Immutable"
    if "(r, s, a) \<in> A" "(r, a') \<in> set accs" "s \<noteq> n" for r s a a'
  proof -
    from that(2) assms(2) have "compatible A r n a'" by blast
    with that(1,3) show ?thesis by (cases a') auto
  qed
  show ?thesis
    unfolding exclusive_def
  proof (intro allI impI, elim conjE)
    fix r s a s' a'
    assume "(r, s, a) \<in> A \<union> triples_of n accs" "(r, s', a') \<in> A \<union> triples_of n accs" "s \<noteq> s'"
    then consider "(r, s, a) \<in> A" "(r, s', a') \<in> A"
      | "(r, s, a) \<in> A" "s' = n" "(r, a') \<in> set accs"
      | "(r, s', a') \<in> A" "s = n" "(r, a) \<in> set accs" by auto
    then show "a = Immutable \<and> a' = Immutable"
      using assms(1) \<open>s \<noteq> s'\<close> one by cases (auto simp: exclusive_def)
  qed
qed

lemma schedule_system_wf:
  assumes "is_hash_order \<pi>" and "sched_wf s"
  shows "sched_wf (snd (schedule_system \<pi> now s n))"
proof (cases "can_schedule_system \<pi> s n")
  case True
  from assms(2) have wf: "tracker_wf (resource_tracker (state s))" by (simp add: sched_wf_def)
  from schedule_system_effect [OF assms(1) wf True, of now] obtain sys t where
    sys: "map_of (systems s) n = Some sys" and
    res: "snd (schedule_system \<pi> now s n) =
       s\<lparr>systems := AList.update n (sys\<lparr>last_execution_time := Some now\<rparr>) (systems s),
         state := (start_system (state s) n)\<lparr>resource_tracker := t\<rparr>\<rparr>" and
    t: "tracker_wf t" "held t = held (resource_tracker (state s)) \<union> declared s n"
    by auto
  have "exclusive (held t)"
  proof -
    from True wf sys have "\<forall>(r, a) \<in> set (extract_resource_accesses (sys_definition sys)).
          compatible (held (resource_tracker (state s))) r n a"
      by (auto simp: can_schedule_compatible)
    moreover note sched_wfD(5) [OF assms(2)]
    moreover from sys have "declared s n = triples_of n (extract_resource_accesses (sys_definition sys))"
      by (simp add: declared_def)
    ultimately show ?thesis using t(2) exclusive_union_declared by metis
  qed
  with assms(2) sys t show ?thesis
    unfolding res sched_wf_def by (auto simp: start_system_def map_of_update)
qed (use assms in \<open>simp add: schedule_system_refused\<close>)

lemma schedule_system_inv:
  assumes "is_hash_order \<pi>" and "sched_inv s"
  shows "sched_inv (snd (schedule_system \<pi> now s n))"
proof (cases "can_schedule_system \<pi> s n")
  case True
  note wf = sched_inv_wf [OF assms(2)]
  from schedule_system_effect [OF assms(1) sched_wfD(2) [OF wf] True, of now] obtain sys t where
    "map_of (systems s) n = Some sys"
    "snd (schedule_system \<pi> now s n) =
       s\<lparr>systems := AList.update n (sys\<lparr>last_execution_time := Some now\<rparr>) (systems s),
         state := (start_system (state s) n)\<lparr>resource_tracker := t\<rparr>\<rparr>"
    "held t = held (resource_tracker (state s)) \<union> declared s n"
    by auto
  with schedule_system_wf [OF assms(1) wf, of now n] sched_invD(6) [OF assms(2)] show ?thesis
    unfolding sched_inv_def by (auto simp: start_system_def simp del: held_iff)
qed (use assms in \<open>simp add: schedule_system_refused\<close>)

lemma complete_system_effect:
  assumes "is_hash_order \<pi>" and "sched_wf s" and "complete_system \<pi> s n = Inr s'"
  shows "\<exists>t. s' = s\<lparr>state := state_complete_system ((state s)\<lparr>resource_tracker := t\<rparr>) n\<rparr> \<and>
     tracker_wf t \<and> held t = held (resource_tracker (state s)) - declared s n"
proof -
  from assms(3) have "n \<in> set (executing_systems (state s))"
    by (auto simp: complete_system_def split: if_splits)
  with assms(2) obtain sys where sys: "map_of (systems s) n = Some sys"
    by (auto simp: sched_wf_def)
  let ?t = "release_all remove_access n (hm_iter \<pi> (extract_resource_accesses (sys_definition sys)))
     (resource_tracker (state s))"
  have "tracker_wf ?t \<and> held ?t = held (resource_tracker (state s)) - declared s n"
    using assms(1,2) sys
    by (simp add: tracker.release_all_records triples_of_iter sched_wf_def declared_def)
  with assms(3) sys show ?thesis
    by (auto simp: complete_system_def Let_def split: if_splits)
qed

lemma complete_system_wf:
  assumes "is_hash_order \<pi>" and "sched_wf s" and "complete_system \<pi> s n = Inr s'"
  shows "sched_wf s'"
proof -
  from complete_system_effect [OF assms] obtain t where
    s': "s' = s\<lparr>state := state_complete_system ((state s)\<lparr>resource_tracker := t\<rparr>) n\<rparr>" and
    t: "tracker_wf t" "held t = held (resource_tracker (state s)) - declared s n" by blast
  have "exclusive (held t)"
    using exclusive_subset [OF sched_wfD(5) [OF assms(2)]] t(2) by blast
  with t(1) assms(2) show ?thesis
    unfolding sched_wf_def by (simp add: s' state_complete_system_def distinct_removeAll)
qed

lemma complete_system_inv:
  assumes "is_hash_order \<pi>" and "sched_inv s" and "complete_system \<pi> s n = Inr s'"
  shows "sched_inv s'"
proof -
  note wf = sched_inv_wf [OF assms(2)]
  from complete_system_effect [OF assms(1) wf assms(3)] obtain t where
    s': "s' = s\<lparr>state := state_complete_system ((state s)\<lparr>resource_tracker := t\<rparr>) n\<rparr>" and
    t: "held t = held (resource_tracker (state s)) - declared s n" by blast
  have same: "declared s' = declared s" by (intro ext) (simp add: s' declared_def)
  have "held t = (\<Union>m \<in> set (executing_systems (state s)) - {n}. declared s m)"
    unfolding t sched_invD(6) [OF assms(2)] by (auto simp: mem_declared)
  with complete_system_wf [OF assms(1) wf assms(3)] show ?thesis
    unfolding sched_inv_def same by (simp add: s' state_complete_system_def)
qed

lemma sched_inv_new: "sched_inv (with_config strat n)"
  by (simp add: sched_inv_def sched_wf_def with_config_def state_new_def tracker_wf_new held_new exclusive_def)

text \<open>Operations that leave the tracker and the executing systems alone.\<close>

lemma sched_wf_frame:
  assumes "sched_wf s" and "hm_wf (systems s')"
    and "resource_tracker (state s') = resource_tracker (state s)"
    and "executing_systems (state s') = executing_systems (state s)"
    and "key_set (systems s) \<subseteq> key_set (systems s')"
  shows "sched_wf s'"
  using assms unfolding sched_wf_def key_set_def by (auto simp: map_of_eq_None_iff subset_iff)

text \<open>
  A step \<^emph>\<open>keeps the declarations\<close> when the systems that execute still declare what they declared.
  Every operation does, except registering a system under the name of an executing one, which
  the scheduler does not refuse.
\<close>

definition keeps_declarations :: "system_scheduler \<Rightarrow> system_scheduler \<Rightarrow> bool" where
  "keeps_declarations s s' \<longleftrightarrow>
     (\<forall>n \<in> set (executing_systems (state s)).
        map_option sys_definition (map_of (systems s') n) = map_option sys_definition (map_of (systems s) n))"

lemma sched_inv_frame:
  assumes "sched_inv s" and "sched_wf s'" and "keeps_declarations s s'"
    and "resource_tracker (state s') = resource_tracker (state s)"
    and "executing_systems (state s') = executing_systems (state s)"
  shows "sched_inv s'"
proof -
  have "declared s' n = declared s n" if n: "n \<in> set (executing_systems (state s))" for n
  proof -
    from n obtain sys where sys: "map_of (systems s) n = Some sys"
      using sched_invD(4) [OF assms(1)] by blast
    moreover from assms(3) n have "map_option sys_definition (map_of (systems s') n) =
        map_option sys_definition (map_of (systems s) n)" unfolding keeps_declarations_def by blast
    ultimately obtain sys' where "map_of (systems s') n = Some sys'"
      "sys_definition sys' = sys_definition sys" by auto
    with sys show ?thesis by (simp add: declared_def)
  qed
  with assms(2,4,5) sched_invD(6) [OF assms(1)] show ?thesis
    by (simp add: sched_inv_def del: held_iff)
qed

text \<open>One operation of the scheduler, whatever its client asks for.\<close>

inductive sched_step :: "hash_order \<Rightarrow> system_scheduler \<Rightarrow> system_scheduler \<Rightarrow> bool" for \<pi> where
  step_add: "add_system \<pi> s d = Inr s' \<Longrightarrow> sched_step \<pi> s s'"
| step_add_metadata: "add_system_with_metadata \<pi> s d p rt deps = (res, s') \<Longrightarrow> sched_step \<pi> s s'"
| step_dependency: "add_dependency s a b = Inr s' \<Longrightarrow> sched_step \<pi> s s'"
| step_priority: "sched_step \<pi> s (set_system_priority s n p)"
| step_strategy: "sched_step \<pi> s (set_strategy s strat)"
| step_build: "sched_step \<pi> s (build_conflict_graph \<pi> s)"
| step_enqueue: "sched_step \<pi> s (enqueue_system s n)"
| step_schedule: "schedule_system \<pi> now s n = (res, s') \<Longrightarrow> sched_step \<pi> s s'"
| step_complete: "complete_system \<pi> s n = Inr s' \<Longrightarrow> sched_step \<pi> s s'"
| step_batch: "schedule_batch \<pi> clock s = Some (names, s') \<Longrightarrow> sched_step \<pi> s s'"

text \<open>Whatever starting one system keeps, a batch keeps.\<close>

lemma batch_loop_keeps:
  assumes "\<And>s now n. P s \<Longrightarrow> P (snd (schedule_system \<pi> now s n))"
  shows "P s \<Longrightarrow> P (snd (batch_loop \<pi> clock i names scheduled s))"
proof (induction names arbitrary: i scheduled s)
  case (Cons n names)
  from assms [OF Cons.prems, of "clock i" n] Cons show ?case
    by (auto split: prod.splits sum.splits)
qed simp

lemma steal_loop_keeps:
  assumes "\<And>s now n. P s \<Longrightarrow> P (snd (schedule_system \<pi> now s n))"
  shows "P s \<Longrightarrow> P (snd (steal_loop \<pi> clock is schedulable scheduled s))"
proof (induction "is" arbitrary: schedulable scheduled s)
  case (Cons i "is")
  from assms [OF Cons.prems, of "clock i" "schedulable ! i"] Cons show ?case
    by (auto simp: Let_def split: prod.splits sum.splits)
qed simp

lemma schedule_batch_keeps:
  assumes start: "\<And>s now n. P s \<Longrightarrow> P (snd (schedule_system \<pi> now s n))"
    and "P s" and "schedule_batch \<pi> clock s = Some (names, s')"
  shows "P s'"
proof -
  have "s' = s \<or> (\<exists>is xs. s' = snd (steal_loop \<pi> clock is xs [] s)) \<or>
      (\<exists>xs. s' = snd (batch_loop \<pi> clock 0 xs [] s))"
    using assms(3)
    by (auto simp: schedule_batch_def Let_def split: if_splits scheduling_strategy.splits)
      (metis snd_conv)+
  with assms(2) batch_loop_keeps [of P, OF start] steal_loop_keeps [of P, OF start] show ?thesis
    by auto
qed

lemma sched_step_wf:
  assumes "is_hash_order \<pi>"
  shows "sched_step \<pi> s s' \<Longrightarrow> sched_wf s \<Longrightarrow> sched_wf s'"
proof (induction rule: sched_step.induct)
  case (step_add s d s')
  then show ?case
    by (intro sched_wf_frame [of s s'])
      (auto simp: add_system_def key_set_update sched_wfD(1) split: sum.splits)
next
  case (step_add_metadata s d p rt deps res s')
  then show ?case
    by (intro sched_wf_frame [of s s'])
      (auto simp: add_system_with_metadata_def Let_def key_set_update sched_wfD(1)
        split: sum.splits option.splits)
next
  case (step_dependency s a b s')
  then show ?case
    by (intro sched_wf_frame [of s s'])
      (auto simp: add_dependency_def key_set_update sched_wfD(1) split: if_splits option.splits)
next
  case (step_priority s n p)
  show ?case
    by (rule sched_wf_frame [OF step_priority]; cases "map_of (systems s) n")
      (auto simp: set_system_priority_def key_set_update sched_wfD(1) [OF step_priority])
next
  case (step_strategy s strat)
  show ?case
    by (rule sched_wf_frame [OF step_strategy]) (simp_all add: set_strategy_def sched_wfD(1) [OF step_strategy])
next
  case (step_build s)
  show ?case
    by (rule sched_wf_frame [OF step_build]) (simp_all add: build_conflict_graph_def sched_wfD(1) [OF step_build])
next
  case (step_enqueue s n)
  show ?case
    by (rule sched_wf_frame [OF step_enqueue])
      (simp_all add: enqueue_system_def state_enqueue_system_def sched_wfD(1) [OF step_enqueue])
next
  case (step_schedule now s n res s')
  with schedule_system_wf [OF assms, of s now n] show ?case by simp
next
  case (step_complete s n s')
  then show ?case using complete_system_wf [OF assms] by blast
next
  case (step_batch clock s names s')
  then show ?case using schedule_batch_keeps [of sched_wf, OF schedule_system_wf [OF assms]] by blast
qed

lemma sched_step_inv:
  assumes "is_hash_order \<pi>"
  shows "sched_step \<pi> s s' \<Longrightarrow> keeps_declarations s s' \<Longrightarrow> sched_inv s \<Longrightarrow> sched_inv s'"
proof -
  assume step: "sched_step \<pi> s s'" and keeps: "keeps_declarations s s'" and inv: "sched_inv s"
  note wf = sched_step_wf [OF assms step sched_inv_wf [OF inv]]
  note frame = sched_inv_frame [OF inv wf keeps]
  from step show "sched_inv s'"
  proof cases
    case step_add
    then show ?thesis by (intro frame) (auto simp: add_system_def split: sum.splits)
  next
    case step_add_metadata
    then show ?thesis
      by (intro frame) (auto simp: add_system_with_metadata_def Let_def split: sum.splits option.splits)
  next
    case step_dependency
    then show ?thesis by (intro frame) (auto simp: add_dependency_def split: if_splits option.splits)
  next
    case (step_priority n p)
    then show ?thesis
      by (intro frame; cases "map_of (systems s) n") (simp_all add: set_system_priority_def)
  next
    case step_strategy
    then show ?thesis by (intro frame) (simp_all add: set_strategy_def)
  next
    case step_build
    then show ?thesis by (intro frame) (simp_all add: build_conflict_graph_def)
  next
    case step_enqueue
    then show ?thesis by (intro frame) (simp_all add: enqueue_system_def state_enqueue_system_def)
  next
    case (step_schedule now n res)
    with schedule_system_inv [OF assms inv, of now n] show ?thesis by simp
  next
    case (step_complete n)
    then show ?thesis using complete_system_inv [OF assms inv] by blast
  next
    case (step_batch clock names)
    then show ?thesis
      using schedule_batch_keeps [of sched_inv, OF schedule_system_inv [OF assms] inv] by blast
  qed
qed

text \<open>The schedulers that the operations can reach, with any client.\<close>

inductive sched_reachable :: "hash_order \<Rightarrow> system_scheduler \<Rightarrow> bool" for \<pi> where
  reach_new: "sched_reachable \<pi> (with_config strat n)"
| reach_step: "sched_reachable \<pi> s \<Longrightarrow> sched_step \<pi> s s' \<Longrightarrow> sched_reachable \<pi> s'"

text \<open>The ones reached by a careful client, which never changes what an executing system declares.\<close>

inductive careful_reachable :: "hash_order \<Rightarrow> system_scheduler \<Rightarrow> bool" for \<pi> where
  careful_new: "careful_reachable \<pi> (with_config strat n)"
| careful_step: "careful_reachable \<pi> s \<Longrightarrow> sched_step \<pi> s s' \<Longrightarrow> keeps_declarations s s' \<Longrightarrow>
    careful_reachable \<pi> s'"

lemma careful_is_reachable: "careful_reachable \<pi> s \<Longrightarrow> sched_reachable \<pi> s"
  by (induction rule: careful_reachable.induct) (blast intro: reach_new reach_step)+

lemma sched_reachable_wf:
  assumes "is_hash_order \<pi>" and "sched_reachable \<pi> s"
  shows "sched_wf s"
  using assms(2)
  by (induction rule: sched_reachable.induct)
    (use sched_inv_wf [OF sched_inv_new] sched_step_wf [OF assms(1)] in blast)+

lemma careful_reachable_inv:
  assumes "is_hash_order \<pi>" and "careful_reachable \<pi> s"
  shows "sched_inv s"
  using assms(2)
  by (induction rule: careful_reachable.induct)
    (use sched_inv_new sched_step_inv [OF assms(1)] in blast)+

text \<open>Care is only asked of registrations: the other operations keep every declaration.\<close>

lemma keeps_declarations_refl [simp]: "keeps_declarations s s"
  by (simp add: keeps_declarations_def)

lemma add_system_keeps:
  "add_system \<pi> s d = Inr s' \<Longrightarrow> sd_name d \<notin> set (executing_systems (state s)) \<Longrightarrow> keeps_declarations s s'"
  by (auto simp: add_system_def keeps_declarations_def map_of_update split: sum.splits)

lemma add_metadata_keeps:
  "add_system_with_metadata \<pi> s d p rt deps = (res, s') \<Longrightarrow> sd_name d \<notin> set (executing_systems (state s)) \<Longrightarrow>
     keeps_declarations s s'"
  by (auto simp: add_system_with_metadata_def Let_def keeps_declarations_def map_of_update
      split: sum.splits option.splits)

lemma add_dependency_keeps: "add_dependency s a b = Inr s' \<Longrightarrow> keeps_declarations s s'"
  by (auto simp: add_dependency_def keeps_declarations_def map_of_update split: if_splits option.splits)

lemma set_system_priority_keeps: "keeps_declarations s (set_system_priority s n p)"
  by (cases "map_of (systems s) n") (simp_all add: set_system_priority_def keeps_declarations_def map_of_update)

lemma schedule_system_definitions:
  "map_option sys_definition (map_of (systems (snd (schedule_system \<pi> now s n))) m) =
   map_option sys_definition (map_of (systems s) m)"
  by (cases "map_of (systems s) n")
    (auto simp: schedule_system_def can_schedule_system_def Let_def map_of_update split: prod.split)

lemma schedule_system_keeps: "keeps_declarations s (snd (schedule_system \<pi> now s n))"
  by (simp add: keeps_declarations_def schedule_system_definitions)

lemma schedule_batch_keeps_declarations:
  assumes "schedule_batch \<pi> clock s = Some (names, s')"
  shows "keeps_declarations s s'"
proof -
  let ?P = "\<lambda>x. \<forall>m. map_option sys_definition (map_of (systems x) m) = map_option sys_definition (map_of (systems s) m)"
  have "?P s'"
    by (rule schedule_batch_keeps [of ?P, OF _ _ assms]) (simp_all add: schedule_system_definitions)
  then show ?thesis by (simp add: keeps_declarations_def)
qed

lemma complete_system_keeps: "complete_system \<pi> s n = Inr s' \<Longrightarrow> keeps_declarations s s'"
  by (auto simp: complete_system_def Let_def keeps_declarations_def split: if_splits)

lemma other_operations_keep [simp]:
  "keeps_declarations s (set_strategy s strat)" "keeps_declarations s (build_conflict_graph \<pi> s)"
  "keeps_declarations s (enqueue_system s n)"
  by (simp_all add: set_strategy_def build_conflict_graph_def enqueue_system_def keeps_declarations_def)

lemma only_registration_changes:
  assumes "sched_step \<pi> s s'" and "\<not> keeps_declarations s s'"
  shows "\<exists>d. sd_name d \<in> set (executing_systems (state s)) \<and>
     (add_system \<pi> s d = Inr s' \<or> (\<exists>p rt deps res. add_system_with_metadata \<pi> s d p rt deps = (res, s')))"
  using assms
proof cases
  case (step_schedule now n res)
  with assms(2) schedule_system_keeps [of s \<pi> now n] show ?thesis by simp
qed (use assms(2) in \<open>auto dest: add_system_keeps add_metadata_keeps add_dependency_keeps complete_system_keeps
       schedule_batch_keeps_declarations simp: set_system_priority_keeps\<close>)

section \<open>Order and limits\<close>

lemma order_by_strategy_perm: "mset (order_by_strategy s names) = mset names"
  by (simp add: order_by_strategy_def split: scheduling_strategy.splits)

text \<open>
  The order each strategy promises: \<open>runs_before s x y\<close> when \<open>x\<close> may stand before \<open>y\<close>. Systems
  the strategy does not tell apart keep their place in the pending queue.
\<close>

definition runs_before :: "system_scheduler \<Rightarrow> string \<Rightarrow> string \<Rightarrow> bool" where
  "runs_before s x y =
     (case strategy s of
        FCFS \<Rightarrow> True
      | Priority \<Rightarrow> priority_of s y \<le> priority_of s x
      | SJF \<Rightarrow> runtime_of s x \<le> runtime_of s y
      | RoundRobin \<Rightarrow> last_run_of s x \<le> last_run_of s y
      | WorkStealing \<Rightarrow> length (deps_of (systems s) y) \<le> length (deps_of (systems s) x))"

lemma sort_key_sorted_wrt: "sorted_wrt (\<lambda>x y. f x \<le> f y) (sort_key f xs)"
  using sorted_sort_key [of f xs] by (simp add: sorted_map)

lemma sort_key_ties: "filter (\<lambda>y. f x \<le> f y \<and> f y \<le> f x) (sort_key f xs) = filter (\<lambda>y. f x \<le> f y \<and> f y \<le> f x) xs"
proof -
  have "(\<lambda>y. f x \<le> f y \<and> f y \<le> f x) = (\<lambda>y. f y = f x)" by (auto simp: fun_eq_iff)
  then show ?thesis by (simp add: sort_key_stable)
qed

lemma order_by_strategy_sorted: "sorted_wrt (runs_before s) (order_by_strategy s names)"
  using sort_key_sorted_wrt [of "\<lambda>n. - int (priority_rank (priority_of s n))" names]
    sort_key_sorted_wrt [of "runtime_of s" names] sort_key_sorted_wrt [of "last_run_of s" names]
    sort_key_sorted_wrt [of "\<lambda>n. - int (length (deps_of (systems s) n))" names]
  unfolding runs_before_def order_by_strategy_def
  by (cases "strategy s") (simp_all add: less_eq_system_priority_def sorted_wrt_true)

lemma order_by_strategy_ties:
  "filter (\<lambda>y. runs_before s x y \<and> runs_before s y x) (order_by_strategy s names) =
     filter (\<lambda>y. runs_before s x y \<and> runs_before s y x) names"
  using sort_key_ties [of "\<lambda>n. - int (priority_rank (priority_of s n))" x names]
    sort_key_ties [of "runtime_of s" x names] sort_key_ties [of "last_run_of s" x names]
    sort_key_ties [of "\<lambda>n. - int (length (deps_of (systems s) n))" x names]
  unfolding runs_before_def order_by_strategy_def
  by (cases "strategy s") (simp_all add: less_eq_system_priority_def conj_commute)

lemma order_by_strategy_set [simp]: "set (order_by_strategy s names) = set names"
  using order_by_strategy_perm [of s names] by (metis set_mset_mset)

lemma get_schedulable_set:
  "n \<in> set (get_schedulable_systems \<pi> s) \<longleftrightarrow>
     length (executing_systems (state s)) < max_concurrent_systems s \<and>
     n \<in> set (pending_systems (state s)) \<and> can_schedule_system \<pi> s n"
  by (auto simp: get_schedulable_systems_def)

lemma schedule_system_frame:
  "max_concurrent_systems (snd (schedule_system \<pi> now s n)) = max_concurrent_systems s \<and>
   length (executing_systems (state (snd (schedule_system \<pi> now s n)))) \<le> Suc (length (executing_systems (state s)))"
  by (auto simp: schedule_system_def Let_def start_system_def List.insert_def split: option.splits prod.splits)

lemma batch_loop_bound:
  "length (executing_systems (state (snd (batch_loop \<pi> clock i names scheduled s)))) \<le>
     length (executing_systems (state s)) + length names \<and>
   max_concurrent_systems (snd (batch_loop \<pi> clock i names scheduled s)) = max_concurrent_systems s"
proof (induction names arbitrary: i scheduled s)
  case (Cons n names)
  obtain res s' where res: "schedule_system \<pi> (clock i) s n = (res, s')"
    by (cases "schedule_system \<pi> (clock i) s n")
  with schedule_system_frame [of \<pi> "clock i" s n] Cons.IH [of "Suc i" scheduled s']
    Cons.IH [of "Suc i" "scheduled @ [n]" s'] show ?case
    by (cases res) auto
qed simp

lemma steal_loop_bound:
  "length (executing_systems (state (snd (steal_loop \<pi> clock is xs scheduled s)))) \<le>
     length (executing_systems (state s)) + length is \<and>
   max_concurrent_systems (snd (steal_loop \<pi> clock is xs scheduled s)) = max_concurrent_systems s"
proof (induction "is" arbitrary: xs scheduled s)
  case (Cons i "is")
  obtain res s' where res: "schedule_system \<pi> (clock i) s (xs ! i) = (res, s')"
    by (cases "schedule_system \<pi> (clock i) s (xs ! i)")
  with schedule_system_frame [of \<pi> "clock i" s "xs ! i"] Cons.IH [of xs scheduled s]
    Cons.IH [of "take i xs @ drop (Suc i) xs" scheduled s']
    Cons.IH [of "get_schedulable_systems \<pi> s'" "scheduled @ [xs ! i]" s']
  show ?case
    by (cases res; cases "i < length xs") (simp_all add: Let_def)
qed simp

text \<open>A batch reports exactly what it started.\<close>

lemma schedule_system_executing:
  assumes "is_hash_order \<pi>" and "sched_wf s" and "schedule_system \<pi> now s n = (res, s')"
  shows "set (executing_systems (state s')) =
     (if res = Inr () then insert n (set (executing_systems (state s))) else set (executing_systems (state s)))"
proof (cases "can_schedule_system \<pi> s n")
  case True
  from schedule_system_effect [OF assms(1) sched_wfD(2) [OF assms(2)] True, of now] assms(3)
  show ?thesis by (auto simp: start_system_def)
qed (use assms(3) in \<open>auto simp: schedule_system_def\<close>)

lemma batch_loop_executing:
  assumes "is_hash_order \<pi>"
  shows "sched_wf s \<Longrightarrow> batch_loop \<pi> clock i names scheduled s = (out, s') \<Longrightarrow>
     \<exists>started. out = scheduled @ started \<and>
       set (executing_systems (state s')) = set (executing_systems (state s)) \<union> set started"
proof (induction names arbitrary: i scheduled s)
  case (Cons n names)
  obtain res s1 where res: "schedule_system \<pi> (clock i) s n = (res, s1)"
    by (cases "schedule_system \<pi> (clock i) s n")
  have inv: "sched_wf s1" using schedule_system_wf [OF assms Cons.prems(1), of "clock i" n] res by simp
  from Cons.IH [OF inv] Cons.prems(2) schedule_system_executing [OF assms Cons.prems(1) res] show ?case
    by (cases res) (fastforce simp: res)+
qed simp

lemma steal_loop_executing:
  assumes "is_hash_order \<pi>"
  shows "sched_wf s \<Longrightarrow> steal_loop \<pi> clock is xs scheduled s = (out, s') \<Longrightarrow>
     \<exists>started. out = scheduled @ started \<and>
       set (executing_systems (state s')) = set (executing_systems (state s)) \<union> set started"
proof (induction "is" arbitrary: xs scheduled s)
  case (Cons i "is")
  obtain res s1 where res: "schedule_system \<pi> (clock i) s (xs ! i) = (res, s1)"
    by (cases "schedule_system \<pi> (clock i) s (xs ! i)")
  have inv: "sched_wf s1" using schedule_system_wf [OF assms Cons.prems(1), of "clock i" "xs ! i"] res by simp
  show ?case
  proof (cases "i < length xs")
    case True
    with Cons.IH [OF inv] Cons.prems(2) schedule_system_executing [OF assms Cons.prems(1) res] show ?thesis
      by (cases res) (fastforce simp: res Let_def)+
  qed (use Cons in auto)
qed simp

lemma schedule_batch_executing:
  assumes "is_hash_order \<pi>" and "sched_wf s" and "schedule_batch \<pi> clock s = Some (names, s')"
  shows "set (executing_systems (state s')) = set (executing_systems (state s)) \<union> set names"
proof -
  have "(names, s') = ([], s) \<or> (\<exists>is xs. steal_loop \<pi> clock is xs [] s = (names, s')) \<or>
      (\<exists>xs. batch_loop \<pi> clock 0 xs [] s = (names, s'))"
    using assms(3)
    by (auto simp: schedule_batch_def Let_def split: if_splits scheduling_strategy.splits)
  then show ?thesis
    using batch_loop_executing [OF assms(1,2)] steal_loop_executing [OF assms(1,2)] by fastforce
qed

text \<open>A batch never exceeds the limit, and panics only when it was exceeded before.\<close>

lemma schedule_batch_bound:
  assumes "length (executing_systems (state s)) \<le> max_concurrent_systems s"
  shows "\<exists>names s'. schedule_batch \<pi> clock s = Some (names, s') \<and>
     length (executing_systems (state s')) \<le> max_concurrent_systems s' \<and>
     max_concurrent_systems s' = max_concurrent_systems s"
proof -
  let ?k = "max_concurrent_systems s - length (executing_systems (state s))"
  let ?xs = "get_schedulable_systems \<pi> s"
  let ?m = "min ?k (length ?xs)"
  show ?thesis
  proof (cases "?k = 0")
    case True
    with assms show ?thesis by (simp add: schedule_batch_def)
  next
    case False
    let ?st = "steal_loop \<pi> clock [0..<?m] ?xs [] s" and ?ba = "batch_loop \<pi> clock 0 (take ?m ?xs) [] s"
    from assms False have "schedule_batch \<pi> clock s = Some (if strategy s = WorkStealing then ?st else ?ba)"
      by (auto simp: schedule_batch_def Let_def split: scheduling_strategy.splits)
    moreover have "?m \<le> ?k" by simp
    ultimately show ?thesis
      using steal_loop_bound [of \<pi> clock "[0..<?m]" ?xs "[]" s]
        batch_loop_bound [of \<pi> clock 0 "take ?m ?xs" "[]" s] assms
      by (cases "strategy s = WorkStealing"; cases ?st; cases ?ba) auto
  qed
qed

text \<open>
  Progress: when nothing executes, some pending system may start, provided every pending system is
  registered and waits only for pending or completed systems.
\<close>

lemma idle_can_schedule:
  assumes "sched_inv s" and "executing_systems (state s) = []" and "map_of (systems s) n = Some sys"
  shows "can_schedule_system \<pi> s n \<longleftrightarrow> set (dependencies sys) \<subseteq> set (completed_systems (state s))"
proof -
  from assms(2) sched_invD(6) [OF assms(1)] have "held (resource_tracker (state s)) = {}" by simp
  moreover have "compatible {} r n a" for r a by (cases a) auto
  ultimately show ?thesis
    using assms by (auto simp: can_schedule_compatible sched_invD(2))
qed

lemma idle_progress:
  assumes "sched_inv s" and "executing_systems (state s) = []" and "acyclic (dep_rel (systems s))"
    and "pending_systems (state s) \<noteq> []"
    and "\<And>n. n \<in> set (pending_systems (state s)) \<Longrightarrow> map_of (systems s) n \<noteq> None \<and>
           set (deps_of (systems s) n) \<subseteq> set (pending_systems (state s)) \<union> set (completed_systems (state s))"
  shows "\<exists>n \<in> set (pending_systems (state s)). can_schedule_system \<pi> s n"
proof -
  let ?P = "set (pending_systems (state s))"
  let ?r = "dep_rel (systems s) \<inter> ?P \<times> ?P"
  have "acyclic (?r\<inverse>)"
    unfolding acyclic_converse using assms(3) by (rule acyclic_subset) simp
  then have wf: "wf (?r\<inverse>)"
    by (rule finite_acyclic_wf [rotated]) simp
  from assms(4) obtain n0 where "n0 \<in> ?P" by (cases "pending_systems (state s)") auto
  with wf obtain n where n: "n \<in> ?P" "\<And>d. (d, n) \<in> ?r\<inverse> \<Longrightarrow> d \<notin> ?P"
    by (rule wfE_min) blast
  from n(1) assms(5) obtain sys where sys: "map_of (systems s) n = Some sys" by blast
  have "set (dependencies sys) \<subseteq> set (completed_systems (state s))"
  proof
    fix d assume d: "d \<in> set (dependencies sys)"
    with sys have "(n, d) \<in> dep_rel (systems s)" by (simp add: dep_rel_def deps_of_def)
    with n have "d \<notin> ?P" by blast
    moreover from assms(5) [OF n(1)] sys d have "d \<in> ?P \<union> set (completed_systems (state s))"
      by (auto simp: deps_of_def)
    ultimately show "d \<in> set (completed_systems (state s))" by blast
  qed
  with idle_can_schedule [OF assms(1,2) sys, of \<pi>] n(1) show ?thesis by blast
qed

section \<open>Registration invariants of reachable schedulers\<close>

definition nodes_known :: "conflict_graph \<Rightarrow> bool" where
  "nodes_known g \<longleftrightarrow> (\<forall>a b. has_conflict g a b \<longrightarrow> a \<in> set (graph_systems g))"

definition graph_inv :: "system_scheduler \<Rightarrow> bool" where
  "graph_inv s \<longleftrightarrow>
     graph_symmetric (conflict_graph s) \<and> nodes_known (conflict_graph s) \<and>
     key_set (systems s) \<subseteq> set (graph_systems (conflict_graph s))"

lemma graph_inv_new: "graph_inv (with_config strat n)"
  by (simp add: graph_inv_def with_config_def graph_symmetric_new key_set_def nodes_known_def)
    (simp add: graph_new_def has_conflict_def)

lemma graph_systems_add [simp]: "set (graph_systems (graph_add_system g n)) = insert n (set (graph_systems g))"
  by (simp add: graph_add_system_def)

lemma nodes_known_add_system: "nodes_known g \<Longrightarrow> nodes_known (graph_add_system g n)"
  unfolding nodes_known_def by simp

lemma graph_symmetric_add_system [simp]: "graph_symmetric (graph_add_system g n) = graph_symmetric g"
  by (simp add: graph_symmetric_def)

lemma graph_inv_frame:
  "graph_inv s \<Longrightarrow> conflict_graph s' = conflict_graph s \<Longrightarrow> key_set (systems s') \<subseteq> key_set (systems s) \<Longrightarrow>
     graph_inv s'"
  by (auto simp: graph_inv_def)

lemma dep_rel_same_deps:
  assumes "map_of m n = Some sys" and "dependencies sys' = dependencies sys"
  shows "dep_rel (AList.update n sys' m) = dep_rel m"
proof -
  have "deps_of (AList.update n sys' m) k = deps_of m k" for k
    using assms by (simp add: deps_of_def map_of_update)
  then show ?thesis by (simp add: dep_rel_def)
qed

lemma schedule_system_registry:
  "conflict_graph (snd (schedule_system \<pi> now s n)) = conflict_graph s \<and>
   key_set (systems (snd (schedule_system \<pi> now s n))) = key_set (systems s) \<and>
   dep_rel (systems (snd (schedule_system \<pi> now s n))) = dep_rel (systems s)"
proof (cases "map_of (systems s) n")
  case (Some sys)
  then have "dep_rel (AList.update n (sys\<lparr>last_execution_time := x\<rparr>) (systems s)) = dep_rel (systems s)" for x
    by (rule dep_rel_same_deps) simp
  with Some show ?thesis
    by (simp add: schedule_system_def Let_def keys_update_known split: prod.split)
qed (simp add: schedule_system_def can_schedule_system_def)

lemma batch_loop_registry:
  "conflict_graph (snd (batch_loop \<pi> clock i names scheduled s)) = conflict_graph s \<and>
   key_set (systems (snd (batch_loop \<pi> clock i names scheduled s))) = key_set (systems s) \<and>
   dep_rel (systems (snd (batch_loop \<pi> clock i names scheduled s))) = dep_rel (systems s)"
proof (induction names arbitrary: i scheduled s)
  case (Cons n names)
  obtain res s' where res: "schedule_system \<pi> (clock i) s n = (res, s')"
    by (cases "schedule_system \<pi> (clock i) s n")
  with schedule_system_registry [of \<pi> "clock i" s n] Cons.IH [of "Suc i" _ s'] show ?case
    by (cases res) simp_all
qed simp

lemma steal_loop_registry:
  "conflict_graph (snd (steal_loop \<pi> clock is xs scheduled s)) = conflict_graph s \<and>
   key_set (systems (snd (steal_loop \<pi> clock is xs scheduled s))) = key_set (systems s) \<and>
   dep_rel (systems (snd (steal_loop \<pi> clock is xs scheduled s))) = dep_rel (systems s)"
proof (induction "is" arbitrary: xs scheduled s)
  case (Cons i "is")
  obtain res s' where res: "schedule_system \<pi> (clock i) s (xs ! i) = (res, s')"
    by (cases "schedule_system \<pi> (clock i) s (xs ! i)")
  with schedule_system_registry [of \<pi> "clock i" s "xs ! i"] Cons.IH [of _ _ s'] Cons.IH [of _ _ s]
  show ?case
    by (cases res) (simp_all add: Let_def)
qed simp

lemma schedule_batch_registry:
  assumes "schedule_batch \<pi> clock s = Some (names, s')"
  shows "conflict_graph s' = conflict_graph s \<and> key_set (systems s') = key_set (systems s) \<and>
     dep_rel (systems s') = dep_rel (systems s)"
proof -
  have "s' = s \<or> (\<exists>is xs. s' = snd (steal_loop \<pi> clock is xs [] s)) \<or>
      (\<exists>xs. s' = snd (batch_loop \<pi> clock 0 xs [] s))"
    using assms
    by (auto simp: schedule_batch_def Let_def split: if_splits scheduling_strategy.splits)
      (metis snd_conv)+
  then show ?thesis
    using steal_loop_registry [of \<pi> clock _ _ "[]" s] batch_loop_registry [of \<pi> clock 0 _ "[]" s] by blast
qed

lemma build_graph_inv:
  assumes "is_hash_order \<pi>" and "graph_inv s" and "hm_wf (systems s)"
  shows "graph_inv (build_conflict_graph \<pi> s)"
proof -
  let ?xs = "map (\<lambda>(n, sys). (n, sys_definition sys)) (hm_iter \<pi> (systems s))"
  have keys: "map fst ?xs = map fst (hm_iter \<pi> (systems s))" by (simp add: o_def split_def)
  then have "distinct (map fst ?xs)" using assms(1,3) by (simp only: hm_iter_distinct)
  note conf = add_pairs_conflicts [OF assms(1) this]
  have "a \<in> key_set (systems s)" if "(a, d) \<in> set ?xs" for a d
  proof -
    from that obtain sys where "(a, sys) \<in> set (hm_iter \<pi> (systems s))" by auto
    then show ?thesis using assms(1) by (auto simp: hm_iter_mem intro: key_setI)
  qed
  moreover from assms(2) have "key_set (systems s) \<subseteq> set (graph_systems (conflict_graph s))"
    by (simp add: graph_inv_def)
  ultimately have "a \<in> set (graph_systems (conflict_graph s))" if "(a, d) \<in> set ?xs" for a d
    using that by blast
  then have "nodes_known (add_pairs \<pi> ?xs (conflict_graph s))"
    using assms(2) unfolding nodes_known_def graph_inv_def conf add_pairs_systems by blast
  with assms(2) show ?thesis
    by (simp add: graph_inv_def build_conflict_graph_def add_pairs_symmetric)
qed

lemma sched_step_graph_inv:
  assumes "is_hash_order \<pi>"
  shows "sched_step \<pi> s s' \<Longrightarrow> sched_wf s \<Longrightarrow> graph_inv s \<Longrightarrow> graph_inv s'"
proof (induction rule: sched_step.induct)
  case (step_add s d s')
  then show ?case
    by (auto simp: add_system_def graph_inv_def key_set_update nodes_known_add_system split: sum.splits)
next
  case (step_add_metadata s d p rt deps res s')
  then show ?case
    by (auto simp: add_system_with_metadata_def Let_def graph_inv_def key_set_update nodes_known_add_system
        split: sum.splits option.splits)
next
  case (step_dependency s a b s')
  then show ?case
    by (auto simp: add_dependency_def keys_update_known elim!: graph_inv_frame split: if_splits option.splits)
next
  case (step_priority s n p)
  then show ?case
    by (cases "map_of (systems s) n")
      (auto simp: set_system_priority_def keys_update_known elim!: graph_inv_frame)
next
  case (step_strategy s strat)
  then show ?case by (auto simp: set_strategy_def elim!: graph_inv_frame)
next
  case (step_build s)
  then show ?case by (simp add: build_graph_inv [OF assms] sched_wfD(1))
next
  case (step_enqueue s n)
  then show ?case by (auto simp: enqueue_system_def elim!: graph_inv_frame)
next
  case (step_schedule now s n res s')
  with schedule_system_registry [of \<pi> now s n] show ?case by (auto elim!: graph_inv_frame)
next
  case (step_complete s n s')
  then show ?case
    by (auto simp: complete_system_def Let_def elim!: graph_inv_frame split: if_splits)
next
  case (step_batch clock s names s')
  from schedule_batch_registry [OF step_batch(1)] step_batch(3) show ?case by (auto elim!: graph_inv_frame)
qed

lemma sched_step_acyclic:
  "sched_step \<pi> s s' \<Longrightarrow> acyclic (dep_rel (systems s)) \<Longrightarrow> acyclic (dep_rel (systems s'))"
proof (induction rule: sched_step.induct)
  case (step_priority s n p)
  have "dep_rel (systems (set_system_priority s n p)) = dep_rel (systems s)"
    by (cases "map_of (systems s) n")
      (simp_all add: set_system_priority_def dep_rel_same_deps)
  with step_priority show ?case by simp
next
  case (step_schedule now s n res s')
  with schedule_system_registry [of \<pi> now s n] show ?case by simp
next
  case (step_complete s n s')
  then show ?case by (auto simp: complete_system_def Let_def split: if_splits)
next
  case (step_batch clock s names s')
  with schedule_batch_registry [OF step_batch(1)] show ?case by simp
qed (auto simp: set_strategy_def build_conflict_graph_def enqueue_system_def
     intro: add_system_acyclic add_metadata_acyclic add_dependency_acyclic)

lemma sched_reachable_graph_inv:
  assumes "is_hash_order \<pi>" and "sched_reachable \<pi> s"
  shows "graph_inv s"
  using assms(2)
  by (induction rule: sched_reachable.induct)
    (use graph_inv_new sched_step_graph_inv [OF assms(1)] sched_reachable_wf [OF assms(1)] in blast)+

lemma sched_reachable_acyclic_deps: "sched_reachable \<pi> s \<Longrightarrow> acyclic (dep_rel (systems s))"
proof (induction rule: sched_reachable.induct)
  case (reach_new strat n)
  have "dep_rel [] = {}" by (simp add: dep_rel_def deps_of_def)
  then show ?case by (simp add: with_config_def acyclic_def)
qed (rule sched_step_acyclic)

end
