(* ===== verification/Scheduler_Properties.thy ===== *)
theory Scheduler_Properties
  imports Scheduler
begin

text \<open>
  What \<open>SystemScheduler\<close> guarantees to its callers, stated over the schedulers that its
  operations can reach: exclusive access of concurrent systems, exact cycle checks, no partial
  starts, limits, progress; and the behaviours of the deadlock search, of the work-stealing
  batch and of the pending queue that are weaker than their names. The demo schedulers at
  the start are built with the operations themselves and serve the concrete instances.
\<close>

section \<open>Reaching schedulers by operations\<close>

text \<open>A call that succeeds leaves the state \<open>projr\<close> reads.\<close>

lemma reach_add:
  assumes "careful_reachable \<pi> s" and "is_ok (add_system \<pi> s d)"
    and "sd_name d \<notin> set (executing_systems (state s))"
  shows "careful_reachable \<pi> (projr (add_system \<pi> s d))"
proof -
  from assms(2) obtain s' where s': "add_system \<pi> s d = Inr s'" by (auto simp: is_ok_iff)
  from careful_step [OF assms(1) step_add [OF s'] add_system_keeps [OF s' assms(3)]] s' show ?thesis by simp
qed

lemma reach_enqueue: "careful_reachable \<pi> s \<Longrightarrow> careful_reachable \<pi> (enqueue_system s n)"
  by (blast intro: careful_step step_enqueue other_operations_keep)

lemma reach_build: "careful_reachable \<pi> s \<Longrightarrow> careful_reachable \<pi> (build_conflict_graph \<pi> s)"
  by (blast intro: careful_step step_build other_operations_keep)

lemma reach_dependency:
  assumes "careful_reachable \<pi> s" and "is_ok (add_dependency s a b)"
  shows "careful_reachable \<pi> (projr (add_dependency s a b))"
proof -
  from assms(2) obtain s' where s': "add_dependency s a b = Inr s'" by (auto simp: is_ok_iff)
  from careful_step [OF assms(1) step_dependency [OF s'] add_dependency_keeps [OF s']] s' show ?thesis by simp
qed

lemma reach_schedule: "careful_reachable \<pi> s \<Longrightarrow> careful_reachable \<pi> (snd (schedule_system \<pi> now s n))"
  by (rule careful_step, assumption, rule step_schedule [where now = now and res = "fst (schedule_system \<pi> now s n)"])
    (simp_all add: schedule_system_keeps)

text \<open>A client that is not careful is one all the same: any registration leads to a reachable scheduler.\<close>

lemma reach_any_add:
  assumes "sched_reachable \<pi> s" and "is_ok (add_system \<pi> s d)"
  shows "sched_reachable \<pi> (projr (add_system \<pi> s d))"
proof -
  from assms(2) obtain s' where s': "add_system \<pi> s d = Inr s'" by (auto simp: is_ok_iff)
  from reach_step [OF assms(1) step_add [OF s']] s' show ?thesis by simp
qed

text \<open>Three systems: \<open>a\<close> writes the resource that \<open>b\<close> reads, \<open>c\<close> uses its own.\<close>

fun demo_register :: "scheduling_strategy \<Rightarrow> (string \<times> string \<times> resource_access) list \<Rightarrow> system_scheduler" where
  "demo_register strat [] = with_config strat 4"
| "demo_register strat ((n, r, a) # ds) =
     enqueue_system (projr (add_system rev (demo_register strat ds) (demo_system n r a))) n"

definition demo_idle :: "scheduling_strategy \<Rightarrow> system_scheduler" where
  "demo_idle strat = build_conflict_graph rev (demo_register strat
     [(''c'', ''db'', Mutable), (''b'', ''gui'', Immutable), (''a'', ''gui'', Mutable)])"

definition demo_running :: system_scheduler where
  "demo_running = snd (schedule_system rev 9 (snd (schedule_system rev 7 (demo_idle FCFS) ''a'')) ''c'')"

lemma demo_add_ok [simp]: "is_ok (add_system rev s (demo_system n r a))"
proof -
  have "is_ok (validate_system_resources rev (demo_system n r a))"
    by (simp add: validate_ok_iff demo_system_def consistent_params_def)
  then show ?thesis by (auto simp: add_system_def is_ok_iff)
qed

lemma demo_register_idle: "executing_systems (state (demo_register strat xs)) = []"
proof (induction xs)
  case (Cons x xs)
  obtain n r a where x: "x = (n, r, a)" by (cases x)
  have "is_ok (add_system rev (demo_register strat xs) (demo_system n r a))" by simp
  with Cons show ?case
    by (auto simp: x enqueue_system_def state_enqueue_system_def add_system_def is_ok_iff split: sum.splits)
qed (simp add: with_config_def state_new_def)

lemma demo_register_reachable: "careful_reachable rev (demo_register strat xs)"
proof (induction xs)
  case (Cons x xs)
  obtain n r a where x: "x = (n, r, a)" by (cases x)
  from Cons show ?case
    by (simp add: x reach_enqueue reach_add demo_register_idle)
qed (simp add: careful_new)

lemma demo_idle_reachable: "careful_reachable rev (demo_idle strat)"
  unfolding demo_idle_def by (intro reach_build demo_register_reachable)

lemma demo_running_reachable: "careful_reachable rev demo_running"
  unfolding demo_running_def by (intro reach_schedule demo_idle_reachable)

definition demo_priorities :: system_scheduler where
  "demo_priorities = set_system_priority (set_strategy (demo_register Priority
     [(''c'', ''db'', Mutable), (''b'', ''gui'', Immutable), (''a'', ''gui'', Mutable)]) Priority) ''c'' High"

lemma demo_running_executing: "executing_systems (state demo_running) = [''c'', ''a'']"
  by code_simp

section \<open>Properties\<close>

text \<open>
  C1: In every scheduler reached by a careful client, one that never registers another declaration
  under the name of a system that executes, two different systems that execute at the same time do
  not conflict: no resource is declared by both unless both only read it.
\<close>

theorem running_systems_never_conflict:
  assumes "is_hash_order \<pi>" and "careful_reachable \<pi> s"
    and "n \<in> set (executing_systems (state s))" and "m \<in> set (executing_systems (state s))" and "n \<noteq> m"
  shows "\<exists>sn sm. map_of (systems s) n = Some sn \<and> map_of (systems s) m = Some sm \<and>
     \<not> systems_conflict (sys_definition sn) (sys_definition sm)"
proof -
  note inv = sched_invD [OF careful_reachable_inv [OF assms(1,2)]]
  from inv(4) [OF assms(3)] inv(4) [OF assms(4)] obtain sn sm where
    sys: "map_of (systems s) n = Some sn" "map_of (systems s) m = Some sm" by blast
  have "a = Immutable \<and> a' = Immutable"
    if "(r, a) \<in> set (extract_resource_accesses (sys_definition sn))"
      "(r, a') \<in> set (extract_resource_accesses (sys_definition sm))" for r a a'
  proof -
    from that sys assms(3,4) inv(6) have "(r, n, a) \<in> held (resource_tracker (state s))"
      "(r, m, a') \<in> held (resource_tracker (state s))" by (auto simp: mem_declared simp del: held_iff)
    with inv(5) assms(5) show ?thesis unfolding exclusive_def by blast
  qed
  with sys show ?thesis by (auto simp: systems_conflict_def dest!: map_of_SomeD)
qed

theorem running_systems_never_conflict_witness:
  "\<exists>sa sc. map_of (systems demo_running) ''a'' = Some sa \<and> map_of (systems demo_running) ''c'' = Some sc \<and>
     \<not> systems_conflict (sys_definition sa) (sys_definition sc)"
  by (rule running_systems_never_conflict [OF hash_order_rev demo_running_reachable])
    (simp_all add: demo_running_executing)

text \<open>
  C2: Whatever the clients do, the tracker never records two conflicting accesses, and the systems
  that execute are registered and execute once. When the client is careful, one that never
  registers another declaration under the name of a system that executes, what the tracker records
  is exactly what the executing systems declare.
\<close>

theorem tracker_matches_executing:
  assumes "is_hash_order \<pi>" and "sched_reachable \<pi> s"
  shows "exclusive (held (resource_tracker (state s))) \<and>
     distinct (executing_systems (state s)) \<and> set (executing_systems (state s)) \<subseteq> key_set (systems s) \<and>
     (careful_reachable \<pi> s \<longrightarrow>
        held (resource_tracker (state s)) = (\<Union>n \<in> set (executing_systems (state s)). declared s n))"
proof -
  note wf = sched_wfD [OF sched_reachable_wf [OF assms]]
  from wf(4) have "set (executing_systems (state s)) \<subseteq> key_set (systems s)" by (auto intro: key_setI)
  with wf(3,5) sched_invD(6) [OF careful_reachable_inv [OF assms(1)]] show ?thesis by blast
qed

theorem tracker_matches_executing_witness:
  "held (resource_tracker (state demo_running)) = declared demo_running ''c'' \<union> declared demo_running ''a'' \<and>
   (''gui'', ''a'', Mutable) \<in> declared demo_running ''a''"
proof -
  have "map_option sys_definition (map_of (systems demo_running) ''a'') = Some (demo_system ''a'' ''gui'' Mutable)"
    by code_simp
  then have "(''gui'', ''a'', Mutable) \<in> declared demo_running ''a''"
    by (auto simp: mem_declared)
  with tracker_matches_executing [OF hash_order_rev careful_is_reachable [OF demo_running_reachable]]
    demo_running_reachable show ?thesis
    by (simp add: demo_running_executing del: held_iff)
qed

text \<open>
  C3: A start is all or nothing: it succeeds exactly when the system may be scheduled, then takes
  every declared access and moves the system from pending to executing; otherwise nothing changes.
\<close>

theorem schedule_all_or_nothing:
  assumes "is_hash_order \<pi>" and "sched_reachable \<pi> s" and "schedule_system \<pi> now s n = (res, s')"
  shows "(res = Inr () \<longleftrightarrow> can_schedule_system \<pi> s n) \<and>
     (if can_schedule_system \<pi> s n
      then held (resource_tracker (state s')) = held (resource_tracker (state s)) \<union> declared s n \<and>
        set (executing_systems (state s')) = insert n (set (executing_systems (state s))) \<and>
        pending_systems (state s') = filter (\<lambda>x. x \<noteq> n) (pending_systems (state s))
      else s' = s)"
proof (cases "can_schedule_system \<pi> s n")
  case True
  note wf = sched_wfD(2) [OF sched_reachable_wf [OF assms(1,2)]]
  from schedule_system_effect [OF assms(1) wf True, of now] assms(3) True show ?thesis
    by (auto simp: start_system_def simp del: held_iff)
qed (use assms(3) in \<open>auto simp: schedule_system_def\<close>)

theorem schedule_all_or_nothing_witness:
  "fst (schedule_system rev 11 demo_running ''b'') \<noteq> Inr () \<and> snd (schedule_system rev 11 demo_running ''b'') = demo_running \<and>
   fst (schedule_system rev 7 (demo_idle FCFS) ''a'') = Inr ()"
proof -
  have no: "\<not> can_schedule_system rev demo_running ''b''" and yes: "can_schedule_system rev (demo_idle FCFS) ''a''"
    by code_simp+
  show ?thesis
    using schedule_all_or_nothing [OF hash_order_rev careful_is_reachable [OF demo_running_reachable] prod.collapse [symmetric], of 11 "''b''"] no
      schedule_all_or_nothing [OF hash_order_rev careful_is_reachable [OF demo_idle_reachable] prod.collapse [symmetric], of 7 FCFS "''a''"] yes
    by auto
qed

text \<open>
  C4: A run of a system that was not executing, started and then completed, ends with the system
  completed and leaves of the accesses in the tracker exactly those that it does not declare.
  When the client is careful, one that never registers another declaration under the name of a
  system that executes, that is no trace at all: the tracker records what it recorded before.
\<close>

theorem run_restores_tracker:
  assumes "is_hash_order \<pi>" and "sched_reachable \<pi> s" and "n \<notin> set (executing_systems (state s))"
    and "schedule_system \<pi> now s n = (Inr (), s1)"
  shows "\<exists>s2. complete_system \<pi> s1 n = Inr s2 \<and>
     held (resource_tracker (state s2)) = held (resource_tracker (state s)) - declared s n \<and>
     (careful_reachable \<pi> s \<longrightarrow> held (resource_tracker (state s2)) = held (resource_tracker (state s))) \<and>
     set (executing_systems (state s2)) = set (executing_systems (state s)) \<and>
     n \<in> set (completed_systems (state s2))"
proof -
  note wf = sched_reachable_wf [OF assms(1,2)]
  from assms(4) have can: "can_schedule_system \<pi> s n" by (auto simp: schedule_system_def split: if_splits)
  from schedule_system_effect [OF assms(1) sched_wfD(2) [OF wf] can, of now] assms(4) obtain sys t where
    s1: "map_of (systems s) n = Some sys"
      "s1 = s\<lparr>systems := AList.update n (sys\<lparr>last_execution_time := Some now\<rparr>) (systems s),
              state := (start_system (state s) n)\<lparr>resource_tracker := t\<rparr>\<rparr>"
      "held t = held (resource_tracker (state s)) \<union> declared s n" by auto
  have wf1: "sched_wf s1" using schedule_system_wf [OF assms(1) wf, of now n] assms(4) by simp
  have decl: "declared s1 n = declared s n" using s1(1) by (simp add: s1(2))
  have "n \<in> set (executing_systems (state s1))" by (simp add: s1(2) start_system_def)
  then obtain s2 where s2: "complete_system \<pi> s1 n = Inr s2"
    by (auto simp: complete_system_def Let_def)
  from complete_system_effect [OF assms(1) wf1 s2] obtain t2 where
    e: "s2 = s1\<lparr>state := state_complete_system ((state s1)\<lparr>resource_tracker := t2\<rparr>) n\<rparr>"
      "held t2 = held (resource_tracker (state s1)) - declared s1 n" by blast
  have left: "held t2 = held (resource_tracker (state s)) - declared s n"
    using e(2) s1(3) unfolding decl by (auto simp: s1(2) simp del: held_iff)
  moreover have "held t2 = held (resource_tracker (state s))" if "careful_reachable \<pi> s"
    using sched_invD(6) [OF careful_reachable_inv [OF assms(1) that]] assms(3) left
    by (auto simp: mem_declared simp del: held_iff)
  ultimately show ?thesis
    using s2 e(1) assms(3) by (auto simp: s1(2) state_complete_system_def start_system_def simp del: held_iff)
qed

theorem run_restores_tracker_witness:
  "\<exists>s2. complete_system rev (snd (schedule_system rev 7 (demo_idle FCFS) ''a'')) ''a'' = Inr s2 \<and>
     ''a'' \<in> set (completed_systems (state s2)) \<and>
     held (resource_tracker (state s2)) = held (resource_tracker (state (demo_idle FCFS)))"
proof -
  have ok: "is_ok (fst (schedule_system rev 7 (demo_idle FCFS) ''a''))"
    and idle: "''a'' \<notin> set (executing_systems (state (demo_idle FCFS)))" by code_simp+
  from ok have "schedule_system rev 7 (demo_idle FCFS) ''a'' = (Inr (), snd (schedule_system rev 7 (demo_idle FCFS) ''a''))"
    by (simp add: is_ok_iff prod_eq_iff)
  from run_restores_tracker [OF hash_order_rev careful_is_reachable [OF demo_idle_reachable] idle this]
    demo_idle_reachable show ?thesis by blast
qed

text \<open>
  C6: The dependencies of a reachable scheduler, whatever its client does, never form a cycle, and a new dependency is
  refused exactly when it would close one: the dependency already depends, directly or through
  others, on the dependent system (or is that system).
\<close>

theorem dependency_check_exact:
  assumes "sched_reachable \<pi> s"
  shows "acyclic (dep_rel (systems s)) \<and>
     (is_ok (add_dependency s a b) \<longleftrightarrow> (b, a) \<notin> (dep_rel (systems s))\<^sup>*)"
  using sched_reachable_acyclic_deps [OF assms] would_create_cycle_iff [of "systems s" a b]
  by (auto simp: add_dependency_def is_ok_iff)

theorem dependency_check_exact_witness:
  "\<exists>s. sched_reachable rev s \<and> deps_of (systems s) ''b'' = [''a''] \<and> \<not> is_ok (add_dependency s ''a'' ''b'')"
proof -
  let ?s = "projr (add_dependency (demo_idle FCFS) ''b'' ''a'')"
  have "is_ok (add_dependency (demo_idle FCFS) ''b'' ''a'')" and deps: "deps_of (systems ?s) ''b'' = [''a'']"
    by code_simp+
  then have reach: "sched_reachable rev ?s"
    by (intro careful_is_reachable reach_dependency demo_idle_reachable)
  from deps have "(''b'', ''a'') \<in> (dep_rel (systems ?s))\<^sup>*" by (intro r_into_rtrancl) (simp add: dep_rel_def)
  with dependency_check_exact [OF reach, of "''a''" "''b''"] reach deps show ?thesis by blast
qed

text \<open>
  Building the conflict graph of a reachable scheduler links exactly the registered systems
  whose declarations conflict, next to the links that were there, in both directions.
\<close>

theorem conflict_graph_exact:
  assumes "is_hash_order \<pi>" and "sched_reachable \<pi> s"
  shows "has_conflict (conflict_graph (build_conflict_graph \<pi> s)) x y \<longleftrightarrow>
     has_conflict (conflict_graph s) x y \<or>
     (x \<noteq> y \<and> (\<exists>sx sy. map_of (systems s) x = Some sx \<and> map_of (systems s) y = Some sy \<and>
        systems_conflict (sys_definition sx) (sys_definition sy)))"
proof -
  let ?xs = "map (\<lambda>(n, sys). (n, sys_definition sys)) (hm_iter \<pi> (systems s))"
  have wf: "hm_wf (systems s)" by (rule sched_wfD(1) [OF sched_reachable_wf [OF assms]])
  have "map fst ?xs = map fst (hm_iter \<pi> (systems s))" by (simp add: o_def split_def)
  then have dist: "distinct (map fst ?xs)" using assms(1) wf by (simp only: hm_iter_distinct)
  have mem: "(z, d) \<in> set ?xs \<longleftrightarrow> (\<exists>sys. map_of (systems s) z = Some sys \<and> d = sys_definition sys)" for z d
    using assms(1) by (auto simp: hm_iter_mem)
  show ?thesis
    unfolding build_conflict_graph_def using add_pairs_conflicts [OF assms(1) dist, of "conflict_graph s" x y]
    by (auto simp: mem simp del: set_map)
qed

theorem conflict_graph_exact_witness:
  "has_conflict (conflict_graph (build_conflict_graph rev (demo_register FCFS [(''b'', ''gui'', Immutable), (''a'', ''gui'', Mutable)]))) ''a'' ''b''"
proof -
  let ?s = "demo_register FCFS [(''b'', ''gui'', Immutable), (''a'', ''gui'', Mutable)]"
  have "map_option sys_definition (map_of (systems ?s) ''a'') = Some (demo_system ''a'' ''gui'' Mutable)"
    "map_option sys_definition (map_of (systems ?s) ''b'') = Some (demo_system ''b'' ''gui'' Immutable)"
    by code_simp+
  moreover have "systems_conflict (demo_system ''a'' ''gui'' Mutable) (demo_system ''b'' ''gui'' Immutable)"
    by (simp add: systems_conflict_def)
  ultimately show ?thesis
    using conflict_graph_exact [OF hash_order_rev careful_is_reachable [OF demo_register_reachable], of FCFS _ "''a''" "''b''"] by fastforce
qed

text \<open>
  The deadlock search of a reachable scheduler passes exactly when the conflict graph has no
  edge at all: conflicts are symmetric, so two systems that merely share a resource are already
  reported as a cycle.
\<close>

theorem deadlock_check_is_conflict_check:
  assumes "is_hash_order \<pi>" and "sched_reachable \<pi> s"
  shows "is_ok (detect_deadlocks \<pi> (conflict_graph s)) \<longleftrightarrow>
     (\<forall>x y. \<not> has_conflict (conflict_graph s) x y)"
proof -
  let ?g = "conflict_graph s"
  have inv: "graph_symmetric ?g" "nodes_known ?g"
    using sched_reachable_graph_inv [OF assms] by (auto simp: graph_inv_def)
  have "clean ?g ([], [], [])" by (simp add: clean_def)
  from detect_from_ok [OF inv(1) this, of "\<pi> (graph_systems ?g)"]
  have "is_ok (detect_deadlocks \<pi> ?g) \<longleftrightarrow> (\<forall>x \<in> set (graph_systems ?g). get_conflicts ?g x = [])"
    using assms(1) by (auto simp: detect_deadlocks_def is_ok_iff hash_order_set)
  also have "\<dots> \<longleftrightarrow> (\<forall>x y. \<not> has_conflict ?g x y)"
    using inv(2) unfolding nodes_known_def has_conflict_get by (metis equals0I ex_in_conv image_is_empty set_empty)
  finally show ?thesis .
qed

theorem deadlock_check_is_conflict_check_witness:
  "\<not> is_ok (detect_deadlocks rev (conflict_graph (demo_idle FCFS))) \<and> executing_systems (state (demo_idle FCFS)) = []"
proof -
  have "has_conflict (conflict_graph (demo_idle FCFS)) ''a'' ''b''" and "executing_systems (state (demo_idle FCFS)) = []"
    by code_simp+
  with deadlock_check_is_conflict_check [OF hash_order_rev careful_is_reachable [OF demo_idle_reachable]] show ?thesis by blast
qed

text \<open>
  The schedulable systems are the pending ones that may start, none lost or invented, in the
  order of the strategy, and in queue order where the strategy does not decide; none are offered
  once the limit of concurrent systems is reached.
\<close>

theorem schedulable_systems_ordered:
  assumes "length (executing_systems (state s)) < max_concurrent_systems s"
  shows "mset (get_schedulable_systems \<pi> s) = mset (filter (can_schedule_system \<pi> s) (pending_systems (state s))) \<and>
     sorted_wrt (runs_before s) (get_schedulable_systems \<pi> s) \<and>
     filter (\<lambda>y. runs_before s x y \<and> runs_before s y x) (get_schedulable_systems \<pi> s) =
       filter (\<lambda>y. runs_before s x y \<and> runs_before s y x)
         (filter (can_schedule_system \<pi> s) (pending_systems (state s)))"
  using assms
  by (simp only: get_schedulable_systems_def not_le [symmetric] if_False order_by_strategy_perm
      order_by_strategy_sorted order_by_strategy_ties simp_thms)

theorem schedulable_systems_ordered_witness:
  "sorted_wrt (runs_before demo_priorities) (get_schedulable_systems rev demo_priorities) \<and>
   get_schedulable_systems rev demo_priorities = [''c'', ''a'', ''b''] \<and>
   pending_systems (state demo_priorities) = [''a'', ''b'', ''c'']"
proof -
  have "length (executing_systems (state demo_priorities)) < max_concurrent_systems demo_priorities"
    "get_schedulable_systems rev demo_priorities = [''c'', ''a'', ''b''] \<and>
     pending_systems (state demo_priorities) = [''a'', ''b'', ''c'']"
    by code_simp+
  with schedulable_systems_ordered [of demo_priorities rev] show ?thesis by blast
qed

text \<open>
  C7: A batch of a reachable scheduler within its limit does not panic, never exceeds the limit, and starts exactly
  the systems it reports.
\<close>

theorem batch_respects_limit:
  assumes "is_hash_order \<pi>" and "sched_reachable \<pi> s"
    and "length (executing_systems (state s)) \<le> max_concurrent_systems s"
  shows "\<exists>names s'. schedule_batch \<pi> clock s = Some (names, s') \<and>
     length (executing_systems (state s')) \<le> max_concurrent_systems s \<and>
     set (executing_systems (state s')) = set (executing_systems (state s)) \<union> set names"
proof -
  from schedule_batch_bound [OF assms(3), of \<pi> clock] obtain names s' where
    res: "schedule_batch \<pi> clock s = Some (names, s')" and
    bound: "length (executing_systems (state s')) \<le> max_concurrent_systems s" by auto
  from schedule_batch_executing [OF assms(1) sched_reachable_wf [OF assms(1,2)] res] res bound show ?thesis by blast
qed

theorem batch_respects_limit_witness:
  "\<exists>names s'. schedule_batch rev (\<lambda>i. 5) (demo_idle FCFS) = Some (names, s') \<and>
     length (executing_systems (state s')) \<le> 4"
proof -
  have "length (executing_systems (state (demo_idle FCFS))) \<le> max_concurrent_systems (demo_idle FCFS) \<and>
      max_concurrent_systems (demo_idle FCFS) = 4" by code_simp
  with batch_respects_limit [OF hash_order_rev careful_is_reachable [OF demo_idle_reachable], of FCFS "\<lambda>i. 5"] show ?thesis by auto
qed

text \<open>
  C5: A scheduler reached by a careful client, one that never registers another declaration under
  the name of a system that executes, never gets stuck: when nothing executes, and every pending
  system is registered and waits only for pending or completed systems, some pending system starts.
\<close>

theorem idle_scheduler_progresses:
  assumes "is_hash_order \<pi>" and "careful_reachable \<pi> s"
    and "executing_systems (state s) = []" and "pending_systems (state s) \<noteq> []"
    and "\<forall>n \<in> set (pending_systems (state s)). n \<in> key_set (systems s) \<and>
           set (deps_of (systems s) n) \<subseteq> set (pending_systems (state s)) \<union> set (completed_systems (state s))"
  shows "\<exists>n \<in> set (pending_systems (state s)). fst (schedule_system \<pi> now s n) = Inr ()"
proof -
  have "map_of (systems s) n \<noteq> None" if "n \<in> key_set (systems s)" for n
    using that by (simp add: key_set_def map_of_eq_None_iff)
  with assms(5) idle_progress [OF careful_reachable_inv [OF assms(1,2)] assms(3) sched_reachable_acyclic_deps [OF careful_is_reachable [OF assms(2)]] assms(4), of \<pi>]
  obtain n where n: "n \<in> set (pending_systems (state s))" "can_schedule_system \<pi> s n" by blast
  from schedule_system_effect [OF assms(1) sched_invD(2) [OF careful_reachable_inv [OF assms(1,2)]] n(2), of now] n(1)
  show ?thesis by (intro bexI [of _ n]) auto
qed

theorem idle_scheduler_progresses_witness:
  "\<exists>n \<in> {''a'', ''b'', ''c''}. fst (schedule_system rev 7 (demo_idle FCFS) n) = Inr ()"
proof -
  have facts: "executing_systems (state (demo_idle FCFS)) = [] \<and> pending_systems (state (demo_idle FCFS)) = [''a'', ''b'', ''c''] \<and>
      map fst (systems (demo_idle FCFS)) = [''a'', ''b'', ''c''] \<and>
      map (deps_of (systems (demo_idle FCFS))) [''a'', ''b'', ''c''] = [[], [], []]"
    by code_simp
  then have "key_set (systems (demo_idle FCFS)) = {''a'', ''b'', ''c''}"
    unfolding key_set_def by (metis list.set_map list.set(1) list.simps(15))
  with facts show ?thesis
    using idle_scheduler_progresses [OF hash_order_rev demo_idle_reachable, of FCFS 7] by simp
qed

section \<open>Where the scheduler does less than its documentation says\<close>

text \<open>
  The work-stealing batch runs over positions of a list that it replaces by the systems still
  schedulable: after the first start it skips the new head. Three independent systems, a limit of
  four: the second is left behind although it may start.
\<close>

definition demo_steal :: system_scheduler where
  "demo_steal = build_conflict_graph rev (demo_register WorkStealing
     [(''c'', ''r3'', Mutable), (''b'', ''r2'', Mutable), (''a'', ''r1'', Mutable)])"

theorem work_stealing_skips_a_system:
  "map_option (\<lambda>(names, s'). (names, get_schedulable_systems rev s')) (schedule_batch rev (\<lambda>i. 5) demo_steal)
     = Some ([''a'', ''c''], [''b''])"
  by code_simp

text \<open>
  The pending queue keeps duplicates, and the guard of a start does not look at the executing
  systems: a reader that was enqueued twice is started twice by one batch.
\<close>

theorem duplicate_request_starts_twice:
  "map_option fst (schedule_batch rev (\<lambda>i. 5)
     (enqueue_system (demo_register FCFS [(''b'', ''gui'', Immutable)]) ''b''))
     = Some [''b'', ''b'']"
  by code_simp

text \<open>
  Registering a system again while it executes replaces what it declares; its completion then
  releases the new declaration, and the access it took stays recorded for good.
\<close>

theorem reregistration_leaks_access:
  "holds (resource_tracker (state (projr (complete_system rev
      (projr (add_system rev demo_running (demo_system ''a'' ''db2'' Immutable))) ''a'')))) ''gui'' ''a'' Mutable"
  by code_simp

text \<open>
  The new declaration may also be one that another executing system conflicts with: this is what
  the careful clients of the properties exclude.
\<close>

theorem reregistration_conflicts:
  "\<exists>s sa sc. sched_reachable rev s \<and> ''a'' \<in> set (executing_systems (state s)) \<and> ''c'' \<in> set (executing_systems (state s)) \<and>
     map_of (systems s) ''a'' = Some sa \<and> map_of (systems s) ''c'' = Some sc \<and>
     systems_conflict (sys_definition sa) (sys_definition sc)"
proof -
  let ?s = "projr (add_system rev demo_running (demo_system ''a'' ''db'' Mutable))"
  have exec: "executing_systems (state ?s) = [''c'', ''a'']"
    and "map_option sys_definition (map_of (systems ?s) ''a'') = Some (demo_system ''a'' ''db'' Mutable)"
    "map_option sys_definition (map_of (systems ?s) ''c'') = Some (demo_system ''c'' ''db'' Mutable)"
    by code_simp+
  then obtain sa sc where "map_of (systems ?s) ''a'' = Some sa" "map_of (systems ?s) ''c'' = Some sc"
    "sys_definition sa = demo_system ''a'' ''db'' Mutable" "sys_definition sc = demo_system ''c'' ''db'' Mutable"
    by auto
  moreover have "systems_conflict (demo_system ''a'' ''db'' Mutable) (demo_system ''c'' ''db'' Mutable)"
    by (simp add: systems_conflict_def)
  moreover have "sched_reachable rev ?s"
    by (intro reach_any_add careful_is_reachable demo_running_reachable demo_add_ok)
  ultimately show ?thesis using exec by (intro exI [of _ ?s] exI [of _ sa] exI [of _ sc]) simp
qed

end
