(* ===== verification/Floats.thy ===== *)
theory Floats
  imports Prelude
begin

unbundle bit_operations_syntax

text \<open>
  The double precision operations of Rust that the tables and the computed columns use, on the
  bits of \<open>f64::to_bits\<close>: comparison, conversions with \<open>as\<close>, negation, absolute value and the
  four rounded operations of IEEE 754. A finite double is an integer multiple of \<open>2 ^ -1074\<close>,
  and \<open>f64_scaled\<close> is that integer, so the exact results are integers or quotients of
  integers and one function, \<open>f64_round\<close>, rounds them to nearest, ties to even. Rust leaves the
  bits of a \<open>NaN\<close> that an operation produces open; here it is the quiet \<open>NaN\<close>.
\<close>

section \<open>Reading the bits\<close>

definition f64_sign :: "f64 \<Rightarrow> bool" where
  "f64_sign x = bit x 63"

definition f64_exponent :: "f64 \<Rightarrow> nat" where
  "f64_exponent x = unat (drop_bit 52 x AND 0x7FF)"

definition f64_mantissa :: "f64 \<Rightarrow> nat" where
  "f64_mantissa x = unat (x AND 0xFFFFFFFFFFFFF)"

definition f64_is_nan :: "f64 \<Rightarrow> bool" where
  "f64_is_nan x \<longleftrightarrow> f64_exponent x = 2047 \<and> f64_mantissa x \<noteq> 0"

definition f64_is_inf :: "f64 \<Rightarrow> bool" where
  "f64_is_inf x \<longleftrightarrow> f64_exponent x = 2047 \<and> f64_mantissa x = 0"

text \<open>The value in units of \<open>2 ^ -1074\<close>; an infinity comes out beyond every finite value.\<close>

definition f64_scaled :: "f64 \<Rightarrow> int" where
  "f64_scaled x =
     (let m = (if f64_exponent x = 0 then int (f64_mantissa x)
               else (2 ^ 52 + int (f64_mantissa x)) * 2 ^ (f64_exponent x - 1))
      in if f64_sign x then - m else m)"

definition f64_nan :: f64 where
  "f64_nan = 0x7FF8000000000000"

definition f64_inf :: "bool \<Rightarrow> f64" where
  "f64_inf neg = (if neg then 0xFFF0000000000000 else 0x7FF0000000000000)"

definition f64_zero :: "bool \<Rightarrow> f64" where
  "f64_zero neg = (if neg then 0x8000000000000000 else 0)"

section \<open>Comparison\<close>

datatype ordering = OLess | OEqual | OGreater

definition f64_partial_cmp :: "f64 \<Rightarrow> f64 \<Rightarrow> ordering option" where
  "f64_partial_cmp x y =
     (if f64_is_nan x \<or> f64_is_nan y then None
      else if f64_scaled x < f64_scaled y then Some OLess
      else if f64_scaled x = f64_scaled y then Some OEqual else Some OGreater)"

definition f64_eq :: "f64 \<Rightarrow> f64 \<Rightarrow> bool" where
  "f64_eq x y \<longleftrightarrow> f64_partial_cmp x y = Some OEqual"

definition f64_less :: "f64 \<Rightarrow> f64 \<Rightarrow> bool" where
  "f64_less x y \<longleftrightarrow> f64_partial_cmp x y = Some OLess"

definition f64_le :: "f64 \<Rightarrow> f64 \<Rightarrow> bool" where
  "f64_le x y \<longleftrightarrow> f64_partial_cmp x y = Some OLess \<or> f64_partial_cmp x y = Some OEqual"

lemma f64_partial_cmp_None: "f64_partial_cmp x y = None \<longleftrightarrow> f64_is_nan x \<or> f64_is_nan y"
  by (simp add: f64_partial_cmp_def)

lemma f64_partial_cmp_swap:
  "f64_partial_cmp y x = map_option (\<lambda>c. case c of OLess \<Rightarrow> OGreater | OEqual \<Rightarrow> OEqual | OGreater \<Rightarrow> OLess)
     (f64_partial_cmp x y)"
  by (simp add: f64_partial_cmp_def)

lemma f64_eq_refl: "f64_eq x x \<longleftrightarrow> \<not> f64_is_nan x"
  by (simp add: f64_eq_def f64_partial_cmp_def)

lemma f64_eq_sym: "f64_eq x y \<longleftrightarrow> f64_eq y x"
  by (auto simp: f64_eq_def f64_partial_cmp_def split: if_splits)

lemma f64_le_trans: "f64_le x y \<Longrightarrow> f64_le y z \<Longrightarrow> f64_le x z"
  by (auto simp: f64_le_def f64_partial_cmp_def split: if_splits)

section \<open>Rounding\<close>

fun bit_length :: "int \<Rightarrow> nat" where
  "bit_length n = (if n \<le> 0 then 0 else Suc (bit_length (n div 2)))"

declare bit_length.simps [simp del]

text \<open>\<open>n / d\<close> to the nearest integer, ties to even\<close>

definition round_half_even :: "int \<Rightarrow> int \<Rightarrow> int" where
  "round_half_even n d =
     (let q = n div d; r = n mod d in
      if 2 * r < d \<or> 2 * r = d \<and> even q then q else q + 1)"

text \<open>
  The double nearest to \<open>n / d\<close> units, for \<open>0 \<le> n\<close> and \<open>0 < d\<close>: \<open>s\<close> is how far the
  significand must be shifted to have 53 bits. Adding the shift at the place of the exponent makes
  a carry out of the significand raise it, and turns the first normal numbers and the subnormal
  ones into one case.
\<close>

definition f64_round :: "bool \<Rightarrow> int \<Rightarrow> int \<Rightarrow> f64" where
  "f64_round neg n d =
     (let s = bit_length (n div d) - 53;
          b = int s * 2 ^ 52 + round_half_even n (d * 2 ^ s)
      in if 2047 * 2 ^ 52 \<le> b then f64_inf neg
         else (if neg then 0x8000000000000000 else 0) + word_of_int b)"

definition f64_of_int :: "int \<Rightarrow> f64" where
  "f64_of_int i = f64_round (i < 0) (\<bar>i\<bar> * 2 ^ 1074) 1"

definition f64_of_u64 :: "u64 \<Rightarrow> f64" where
  "f64_of_u64 v = f64_of_int (uint v)"

definition f64_of_i32 :: "i32 \<Rightarrow> f64" where
  "f64_of_i32 v = f64_of_int (sint v)"

text \<open>\<open>f as i32\<close>: towards zero, saturating, zero for \<open>NaN\<close>\<close>

definition f64_to_i32 :: "f64 \<Rightarrow> i32" where
  "f64_to_i32 x =
     (if f64_is_nan x then 0
      else let t = \<bar>f64_scaled x\<bar> div 2 ^ 1074; v = (if f64_scaled x < 0 then - t else t)
           in word_of_int (max (- (2 ^ 31)) (min (2 ^ 31 - 1) v)))"

section \<open>Arithmetic\<close>

definition f64_neg :: "f64 \<Rightarrow> f64" where
  "f64_neg x = x XOR 0x8000000000000000"

definition f64_abs :: "f64 \<Rightarrow> f64" where
  "f64_abs x = x AND 0x7FFFFFFFFFFFFFFF"

definition f64_add :: "f64 \<Rightarrow> f64 \<Rightarrow> f64" where
  "f64_add x y =
     (if f64_is_nan x \<or> f64_is_nan y then f64_nan
      else if f64_is_inf x then (if f64_is_inf y \<and> f64_sign x \<noteq> f64_sign y then f64_nan else x)
      else if f64_is_inf y then y
      else let k = f64_scaled x + f64_scaled y in
           if k = 0 then f64_zero (f64_sign x \<and> f64_sign y) else f64_round (k < 0) \<bar>k\<bar> 1)"

definition f64_sub :: "f64 \<Rightarrow> f64 \<Rightarrow> f64" where
  "f64_sub x y = f64_add x (f64_neg y)"

definition f64_mul :: "f64 \<Rightarrow> f64 \<Rightarrow> f64" where
  "f64_mul x y =
     (let neg = (f64_sign x \<noteq> f64_sign y) in
      if f64_is_nan x \<or> f64_is_nan y then f64_nan
      else if f64_is_inf x then (if f64_scaled y = 0 then f64_nan else f64_inf neg)
      else if f64_is_inf y then (if f64_scaled x = 0 then f64_nan else f64_inf neg)
      else f64_round neg \<bar>f64_scaled x * f64_scaled y\<bar> (2 ^ 1074))"

definition f64_div :: "f64 \<Rightarrow> f64 \<Rightarrow> f64" where
  "f64_div x y =
     (let neg = (f64_sign x \<noteq> f64_sign y) in
      if f64_is_nan x \<or> f64_is_nan y then f64_nan
      else if f64_is_inf x then (if f64_is_inf y then f64_nan else f64_inf neg)
      else if f64_is_inf y then f64_zero neg
      else if f64_scaled y = 0 then (if f64_scaled x = 0 then f64_nan else f64_inf neg)
      else f64_round neg (\<bar>f64_scaled x\<bar> * 2 ^ 1074) \<bar>f64_scaled y\<bar>)"

end
