(* ===== verification/Values.thy ===== *)
theory Values
  imports Ast Floats "HOL-Library.List_Lexorder" "HOL-Library.Char_ord" "HOL-Library.Product_Lexorder"
begin

text \<open>
  The values and the columnar storage of \<open>src/table_runtime.rs\<close>: \<open>ColumnValue\<close> with its
  derived order, \<open>ColumnData\<close> with its operations, and \<open>TableError\<close>. A column is a vector of
  optional cells of one type; \<open>cells\<close> reads it as a list of optional \<open>ColumnValue\<close>s, which is
  the abstraction that the operations refine.
\<close>

section \<open>Values\<close>

datatype column_value = VU64 u64 | VI32 i32 | VString string | VBool bool | VF64 f64

type_synonym row_id = usize

text \<open>The derived order: variants in the order of their declaration, then the contents.\<close>

fun value_key :: "column_value \<Rightarrow> nat \<times> int \<times> string" where
  "value_key (VU64 v) = (0, uint v, [])"
| "value_key (VI32 v) = (1, sint v, [])"
| "value_key (VString s) = (2, 0, s)"
| "value_key (VBool b) = (3, if b then 1 else 0, [])"
| "value_key (VF64 v) = (4, uint v, [])"

lemma value_key_inj: "value_key x = value_key y \<longleftrightarrow> x = y"
  by (cases x; cases y) (auto split: if_splits simp: signed_word_eqI simp flip: word_uint_eq_iff)

instantiation column_value :: linorder
begin

definition less_eq_column_value :: "column_value \<Rightarrow> column_value \<Rightarrow> bool" where
  "less_eq_column_value x y \<longleftrightarrow> value_key x \<le> value_key y"

definition less_column_value :: "column_value \<Rightarrow> column_value \<Rightarrow> bool" where
  "less_column_value x y \<longleftrightarrow> value_key x < value_key y"

instance
proof
  fix x y :: column_value
  assume "x \<le> y" "y \<le> x"
  then have "value_key x = value_key y" by (simp add: less_eq_column_value_def)
  then show "x = y" by (simp add: value_key_inj)
qed (auto simp: less_eq_column_value_def less_column_value_def)

end

datatype table_error =
    DuplicatePrimaryKey column_value
  | ColumnNotFound string
  | TypeMismatch (tm_column: string) (tm_expected: string) (tm_found: string)
  | PrimaryKeyRequired
  | RowNotFound row_id

fun literal_value :: "literal \<Rightarrow> column_value" where
  "literal_value (LBoolean b) = VBool b"
| "literal_value (LInteger i) = VU64 (ucast (lit_value i))"
| "literal_value (LFloat f) = VF64 f"
| "literal_value (LString s) = VString s"
| "literal_value (LChar c) = VString (utf8_encode c)"

fun value_as_f64 :: "column_value \<Rightarrow> f64 option" where
  "value_as_f64 (VU64 v) = Some (f64_of_u64 v)"
| "value_as_f64 (VI32 v) = Some (f64_of_i32 v)"
| "value_as_f64 (VF64 bits) = Some bits"
| "value_as_f64 (VString s) = None"
| "value_as_f64 (VBool b) = None"

definition values_equal :: "column_value \<Rightarrow> column_value \<Rightarrow> bool" where
  "values_equal left right =
     (if left = right then True
      else case (value_as_f64 left, value_as_f64 right) of
             (Some lhs, Some rhs) \<Rightarrow> f64_partial_cmp lhs rhs = Some OEqual
           | _ \<Rightarrow> False)"

text \<open>Whether \<open>left\<close> is at least \<open>right\<close>; numbers are compared as doubles.\<close>

definition compare_column_values :: "column_value \<Rightarrow> column_value \<Rightarrow> bool option" where
  "compare_column_values left right =
     (case (value_as_f64 left, value_as_f64 right) of
        (Some lhs, Some rhs) \<Rightarrow> map_option (\<lambda>ord. ord = OGreater \<or> ord = OEqual) (f64_partial_cmp lhs rhs)
      | _ \<Rightarrow>
          (case (left, right) of
             (VString a, VString b) \<Rightarrow> Some (b \<le> a)
           | (VBool a, VBool b) \<Rightarrow> Some (b \<le> a)
           | _ \<Rightarrow> None))"

lemma values_equal_refl [simp]: "values_equal v v"
  by (simp add: values_equal_def)

lemma values_equal_sym: "values_equal v w \<longleftrightarrow> values_equal w v"
  by (auto simp: values_equal_def f64_partial_cmp_def split: option.splits if_splits)

section \<open>Columns\<close>

datatype column_data =
    CU64 "u64 option list"
  | CI32 "i32 option list"
  | CString "string option list"
  | CBool "bool option list"
  | CF64 "f64 option list"

definition new_for_type :: "string \<Rightarrow> column_data" where
  "new_for_type t =
     (if t = ''u64'' then CU64 [] else if t = ''i32'' then CI32 []
      else if t = ''string'' \<or> t = ''String'' then CString []
      else if t = ''bool'' then CBool [] else if t = ''f64'' then CF64 [] else CString [])"

fun column_len :: "column_data \<Rightarrow> nat" where
  "column_len (CU64 vec) = length vec"
| "column_len (CI32 vec) = length vec"
| "column_len (CString vec) = length vec"
| "column_len (CBool vec) = length vec"
| "column_len (CF64 vec) = length vec"

definition incompatible :: table_error where
  "incompatible = TypeMismatch ''unknown'' ''matching type'' ''incompatible type''"

fun push_value :: "column_data \<Rightarrow> column_value \<Rightarrow> table_error + column_data" where
  "push_value (CU64 vec) (VU64 v) = Inr (CU64 (vec @ [Some v]))"
| "push_value (CI32 vec) (VI32 v) = Inr (CI32 (vec @ [Some v]))"
| "push_value (CString vec) (VString v) = Inr (CString (vec @ [Some v]))"
| "push_value (CBool vec) (VBool v) = Inr (CBool (vec @ [Some v]))"
| "push_value (CF64 vec) (VF64 v) = Inr (CF64 (vec @ [Some v]))"
| "push_value _ _ = Inl incompatible"

text \<open>The loop that pushes \<open>None\<close> until the vector has a cell at \<open>index\<close>.\<close>

function expand_to :: "nat \<Rightarrow> 'a option list \<Rightarrow> 'a option list" where
  "expand_to index vec = (if length vec \<le> index then expand_to index (vec @ [None]) else vec)"
  by pat_completeness auto
termination by (relation "measure (\<lambda>(index, vec). Suc index - length vec)") auto

declare expand_to.simps [simp del]

fun expand_column :: "nat \<Rightarrow> column_data \<Rightarrow> column_data" where
  "expand_column index (CU64 vec) = CU64 (expand_to index vec)"
| "expand_column index (CI32 vec) = CI32 (expand_to index vec)"
| "expand_column index (CString vec) = CString (expand_to index vec)"
| "expand_column index (CBool vec) = CBool (expand_to index vec)"
| "expand_column index (CF64 vec) = CF64 (expand_to index vec)"

fun assign_at :: "column_data \<Rightarrow> nat \<Rightarrow> column_value option \<Rightarrow> table_error option \<times> column_data" where
  "assign_at (CU64 vec) i (Some (VU64 v)) = (None, CU64 (vec[i := Some v]))"
| "assign_at (CU64 vec) i None = (None, CU64 (vec[i := None]))"
| "assign_at (CI32 vec) i (Some (VI32 v)) = (None, CI32 (vec[i := Some v]))"
| "assign_at (CI32 vec) i None = (None, CI32 (vec[i := None]))"
| "assign_at (CString vec) i (Some (VString v)) = (None, CString (vec[i := Some v]))"
| "assign_at (CString vec) i None = (None, CString (vec[i := None]))"
| "assign_at (CBool vec) i (Some (VBool v)) = (None, CBool (vec[i := Some v]))"
| "assign_at (CBool vec) i None = (None, CBool (vec[i := None]))"
| "assign_at (CF64 vec) i (Some (VF64 v)) = (None, CF64 (vec[i := Some v]))"
| "assign_at (CF64 vec) i None = (None, CF64 (vec[i := None]))"
| "assign_at col i (Some _) = (Some incompatible, col)"

text \<open>
  \<open>set_value_at\<close> expands the column before it looks at the type of the value, so a refused value
  may still have made the column longer; the column left behind is part of the result.
\<close>

definition set_value_at :: "column_data \<Rightarrow> nat \<Rightarrow> column_value option \<Rightarrow> table_error option \<times> column_data" where
  "set_value_at col index v = assign_at (expand_column index col) index v"

definition vec_get :: "'a option list \<Rightarrow> nat \<Rightarrow> 'a option" where
  "vec_get vec i = (if i < length vec then vec ! i else None)"

fun get_value :: "column_data \<Rightarrow> nat \<Rightarrow> column_value option" where
  "get_value (CU64 vec) i = map_option VU64 (vec_get vec i)"
| "get_value (CI32 vec) i = map_option VI32 (vec_get vec i)"
| "get_value (CString vec) i = map_option VString (vec_get vec i)"
| "get_value (CBool vec) i = map_option VBool (vec_get vec i)"
| "get_value (CF64 vec) i = map_option VF64 (vec_get vec i)"

text \<open>\<open>xs[i := v]\<close> leaves the list alone out of range, as \<open>if let Some(slot) = vec.get_mut(i)\<close>.\<close>

fun set_value :: "column_data \<Rightarrow> nat \<Rightarrow> column_value \<Rightarrow> table_error + column_data" where
  "set_value (CU64 vec) i (VU64 v) = Inr (CU64 (vec[i := Some v]))"
| "set_value (CI32 vec) i (VI32 v) = Inr (CI32 (vec[i := Some v]))"
| "set_value (CString vec) i (VString v) = Inr (CString (vec[i := Some v]))"
| "set_value (CBool vec) i (VBool v) = Inr (CBool (vec[i := Some v]))"
| "set_value (CF64 vec) i (VF64 v) = Inr (CF64 (vec[i := Some v]))"
| "set_value _ _ _ = Inl incompatible"

fun mark_deleted :: "column_data \<Rightarrow> nat \<Rightarrow> column_data" where
  "mark_deleted (CU64 vec) i = CU64 (vec[i := None])"
| "mark_deleted (CI32 vec) i = CI32 (vec[i := None])"
| "mark_deleted (CString vec) i = CString (vec[i := None])"
| "mark_deleted (CBool vec) i = CBool (vec[i := None])"
| "mark_deleted (CF64 vec) i = CF64 (vec[i := None])"

section \<open>Columns as lists of cells\<close>

fun cells :: "column_data \<Rightarrow> column_value option list" where
  "cells (CU64 vec) = map (map_option VU64) vec"
| "cells (CI32 vec) = map (map_option VI32) vec"
| "cells (CString vec) = map (map_option VString) vec"
| "cells (CBool vec) = map (map_option VBool) vec"
| "cells (CF64 vec) = map (map_option VF64) vec"

text \<open>The type of a column and of a value.\<close>

datatype kind = KU64 | KI32 | KString | KBool | KF64

fun column_kind :: "column_data \<Rightarrow> kind" where
  "column_kind (CU64 _) = KU64"
| "column_kind (CI32 _) = KI32"
| "column_kind (CString _) = KString"
| "column_kind (CBool _) = KBool"
| "column_kind (CF64 _) = KF64"

fun value_kind :: "column_value \<Rightarrow> kind" where
  "value_kind (VU64 _) = KU64"
| "value_kind (VI32 _) = KI32"
| "value_kind (VString _) = KString"
| "value_kind (VBool _) = KBool"
| "value_kind (VF64 _) = KF64"

lemma length_cells [simp]: "length (cells d) = column_len d"
  by (cases d) simp_all

lemma expand_to_eq: "expand_to index vec = vec @ replicate (Suc index - length vec) None"
proof (induction index vec rule: expand_to.induct)
  case (1 index vec)
  show ?case
  proof (cases "length vec \<le> index")
    case True
    then have "Suc index - length vec = Suc (index - length vec)" by simp
    with 1 [OF True] True show ?thesis by (simp add: expand_to.simps [of index vec])
  qed (simp add: expand_to.simps)
qed

lemma cells_expand: "cells (expand_column i d) = cells d @ replicate (Suc i - column_len d) None"
  by (cases d) (simp_all add: expand_to_eq)

lemma column_kind_expand [simp]: "column_kind (expand_column i d) = column_kind d"
  by (cases d) simp_all

lemma column_len_expand [simp]: "column_len (expand_column i d) = max (Suc i) (column_len d)"
  by (cases d) (simp_all add: expand_to_eq)

lemma get_value_cells: "get_value d i = (if i < column_len d then cells d ! i else None)"
  by (cases d) (simp_all add: vec_get_def)

lemma assign_at_cells:
  "value_kind v = column_kind d \<Longrightarrow>
     \<exists>d'. assign_at d i (Some v) = (None, d') \<and> cells d' = (cells d)[i := Some v] \<and> column_kind d' = column_kind d"
  by (cases d; cases v) (simp_all add: map_update)

lemma assign_at_misfit: "value_kind v \<noteq> column_kind d \<Longrightarrow> assign_at d i (Some v) = (Some incompatible, d)"
  by (cases d; cases v) simp_all

text \<open>Storing a value of the column's type sets its cell and pads before it; nothing else changes.\<close>

lemma set_value_at_get:
  assumes "value_kind v = column_kind d"
  shows "\<exists>d'. set_value_at d i (Some v) = (None, d') \<and> column_kind d' = column_kind d \<and>
     column_len d' = max (Suc i) (column_len d) \<and>
     (\<forall>j. get_value d' j = (if j = i then Some v else get_value d j))"
proof -
  from assms have "value_kind v = column_kind (expand_column i d)" by simp
  from assign_at_cells [OF this, of i] obtain d' where
    d': "set_value_at d i (Some v) = (None, d')" "column_kind d' = column_kind d"
      "cells d' = (cells (expand_column i d))[i := Some v]"
    by (auto simp: set_value_at_def)
  then have len: "column_len d' = max (Suc i) (column_len d)"
    by (metis column_len_expand length_cells length_list_update)
  have "get_value d' j = (if j = i then Some v else get_value d j)" for j
    unfolding get_value_cells len d'(3) cells_expand
    by (auto simp: nth_list_update nth_append)
  with d' len show ?thesis by blast
qed

lemma set_value_at_misfit:
  assumes "value_kind v \<noteq> column_kind d"
  shows "\<exists>d'. set_value_at d i (Some v) = (Some incompatible, d') \<and> column_kind d' = column_kind d \<and>
     column_len d' = max (Suc i) (column_len d) \<and> (\<forall>j. get_value d' j = get_value d j)"
proof -
  from assms have "set_value_at d i (Some v) = (Some incompatible, expand_column i d)"
    by (simp add: set_value_at_def assign_at_misfit)
  moreover have "get_value (expand_column i d) j = get_value d j" for j
    by (auto simp: get_value_cells cells_expand nth_append)
  ultimately show ?thesis by simp
qed

lemma set_value_get:
  "if value_kind v = column_kind d
   then \<exists>d'. set_value d i v = Inr d' \<and> column_kind d' = column_kind d \<and> column_len d' = column_len d \<and>
     (\<forall>j. get_value d' j = (if j = i \<and> i < column_len d then Some v else get_value d j))
   else set_value d i v = Inl incompatible"
  by (cases d; cases v) (auto simp: vec_get_def nth_list_update)

lemma mark_deleted_get:
  "get_value (mark_deleted d i) j = (if j = i then None else get_value d j)"
  by (cases d) (auto simp: vec_get_def nth_list_update)

lemma mark_deleted_kind [simp]:
  "column_kind (mark_deleted d i) = column_kind d" "column_len (mark_deleted d i) = column_len d"
  by (cases d; simp)+

lemma push_value_cells:
  "if value_kind v = column_kind d
   then \<exists>d'. push_value d v = Inr d' \<and> cells d' = cells d @ [Some v] \<and> column_kind d' = column_kind d
   else push_value d v = Inl incompatible"
  by (cases d; cases v) simp_all

end
