(* ===== verification/Bitmap.thy ===== *)
theory Bitmap
  imports Values
begin

text \<open>
  \<open>RowBitmap\<close> of \<open>src/table_runtime.rs\<close>: a vector of bits with the number of set bits kept
  beside it, and its operations. \<open>bitmap_rows\<close> is the set of rows a bitmap stands for; the locale
  \<open>row_set\<close> states what the predicate evaluation relies on, and proves once what its loops
  build.
\<close>

section \<open>The bitmap and its operations\<close>

record row_bitmap =
  bits :: "bool list"
  cardinality :: usize

definition bitmap_new :: "usize \<Rightarrow> row_bitmap" where
  "bitmap_new len = \<lparr>bits = replicate len False, cardinality = 0\<rparr>"

definition bitmap_all_true :: "usize \<Rightarrow> row_bitmap" where
  "bitmap_all_true len = \<lparr>bits = replicate len True, cardinality = len\<rparr>"

text \<open>\<open>saturating_sub\<close> on \<open>usize\<close> is the subtraction of \<open>nat\<close>.\<close>

definition bitmap_set :: "row_bitmap \<Rightarrow> usize \<Rightarrow> bool \<Rightarrow> row_bitmap" where
  "bitmap_set b index v =
     (if index < length (bits b) then
        let old = bits b ! index; b' = b\<lparr>bits := (bits b)[index := v]\<rparr> in
        if old \<noteq> v then
          (if v then b'\<lparr>cardinality := cardinality b' + 1\<rparr>
           else b'\<lparr>cardinality := cardinality b' - 1\<rparr>)
        else b'
      else b)"

text \<open>The loop of \<open>and\<close> and of \<open>or\<close>: set the bits of the result where the test holds.\<close>

fun mark_bits :: "(nat \<Rightarrow> bool) \<Rightarrow> nat list \<Rightarrow> row_bitmap \<Rightarrow> row_bitmap" where
  "mark_bits test [] result = result"
| "mark_bits test (i # is) result =
     mark_bits test is
       (if test i then \<lparr>bits = (bits result)[i := True], cardinality = cardinality result + 1\<rparr>
        else result)"

definition bitmap_and :: "row_bitmap \<Rightarrow> row_bitmap \<Rightarrow> row_bitmap" where
  "bitmap_and b c =
     (let len = min (length (bits b)) (length (bits c)) in
      mark_bits (\<lambda>i. bits b ! i \<and> bits c ! i) [0..<len] (bitmap_new len))"

definition bitmap_or :: "row_bitmap \<Rightarrow> row_bitmap \<Rightarrow> row_bitmap" where
  "bitmap_or b c =
     (let len = max (length (bits b)) (length (bits c)) in
      mark_bits
        (\<lambda>i. (if i < length (bits b) then bits b ! i else False) \<or>
             (if i < length (bits c) then bits c ! i else False))
        [0..<len] (bitmap_new len))"

definition true_row_ids :: "row_bitmap \<Rightarrow> row_id list" where
  "true_row_ids b = map fst (filter snd (List.enumerate 0 (bits b)))"

definition bitmap_is_empty :: "row_bitmap \<Rightarrow> bool" where
  "bitmap_is_empty b \<longleftrightarrow> cardinality b = 0"

section \<open>The set of rows of a bitmap\<close>

definition bitmap_rows :: "row_bitmap \<Rightarrow> row_id set" where
  "bitmap_rows b = {i. i < length (bits b) \<and> bits b ! i}"

definition bitmap_wf :: "row_bitmap \<Rightarrow> bool" where
  "bitmap_wf b \<longleftrightarrow> cardinality b = card (bitmap_rows b)"

lemma finite_bitmap_rows [simp]: "finite (bitmap_rows b)"
  by (simp add: bitmap_rows_def)

lemma bitmap_new_rows [simp]:
  "bitmap_rows (bitmap_new n) = {}" "length (bits (bitmap_new n)) = n" "bitmap_wf (bitmap_new n)"
  by (auto simp: bitmap_rows_def bitmap_new_def bitmap_wf_def)

lemma bitmap_all_true_rows [simp]:
  "bitmap_rows (bitmap_all_true n) = {0..<n}" "length (bits (bitmap_all_true n)) = n"
  "bitmap_wf (bitmap_all_true n)"
proof -
  show rows: "bitmap_rows (bitmap_all_true n) = {0..<n}"
    by (auto simp: bitmap_rows_def bitmap_all_true_def)
  show "length (bits (bitmap_all_true n)) = n" by (simp add: bitmap_all_true_def)
  show "bitmap_wf (bitmap_all_true n)"
    unfolding bitmap_wf_def rows by (simp add: bitmap_all_true_def)
qed

lemma bitmap_set_length [simp]: "length (bits (bitmap_set b i v)) = length (bits b)"
  by (simp add: bitmap_set_def Let_def)

lemma bitmap_set_rows:
  "bitmap_rows (bitmap_set b i v) =
     (if i < length (bits b) then (if v then insert i (bitmap_rows b) else bitmap_rows b - {i})
      else bitmap_rows b)"
  by (auto simp: bitmap_rows_def bitmap_set_def Let_def nth_list_update split: if_splits)

lemma bitmap_set_wf:
  assumes "bitmap_wf b"
  shows "bitmap_wf (bitmap_set b i v)"
proof (cases "i < length (bits b)")
  case True
  then have "i \<in> bitmap_rows b \<longleftrightarrow> bits b ! i" by (simp add: bitmap_rows_def)
  with True assms show ?thesis
    unfolding bitmap_wf_def bitmap_set_rows
    by (auto simp: bitmap_set_def Let_def insert_absorb)
qed (use assms in \<open>simp add: bitmap_set_def\<close>)

lemma mark_bits_effect:
  assumes "distinct is" and "\<forall>i \<in> set is. i < length (bits b) \<and> i \<notin> bitmap_rows b" and "bitmap_wf b"
  shows "bitmap_rows (mark_bits test is b) = bitmap_rows b \<union> {i \<in> set is. test i} \<and>
     length (bits (mark_bits test is b)) = length (bits b) \<and> bitmap_wf (mark_bits test is b)"
  using assms
proof (induction "is" arbitrary: b)
  case (Cons i "is")
  let ?b = "if test i then \<lparr>bits = (bits b)[i := True], cardinality = cardinality b + 1\<rparr> else b"
  from Cons.prems have rows: "bitmap_rows ?b = (if test i then insert i (bitmap_rows b) else bitmap_rows b)"
    "length (bits ?b) = length (bits b)"
    by (auto simp: bitmap_rows_def nth_list_update split: if_splits)
  with Cons.prems have "bitmap_wf ?b"
    unfolding bitmap_wf_def by (simp split: if_splits)
  moreover from rows Cons.prems(1,2)
  have "\<forall>j \<in> set is. j < length (bits ?b) \<and> j \<notin> bitmap_rows ?b" by (auto split: if_splits)
  moreover from Cons.prems(1) have "distinct is" by simp
  ultimately have "bitmap_rows (mark_bits test is ?b) = bitmap_rows ?b \<union> {j \<in> set is. test j} \<and>
     length (bits (mark_bits test is ?b)) = length (bits ?b) \<and> bitmap_wf (mark_bits test is ?b)"
    by (intro Cons.IH)
  moreover have "mark_bits test (i # is) b = mark_bits test is ?b" by simp
  moreover have "bitmap_rows ?b \<union> {j \<in> set is. test j} = bitmap_rows b \<union> {j \<in> set (i # is). test j}"
    unfolding rows(1) by auto
  ultimately show ?case using rows(2) by metis
qed simp

lemma bitmap_and_rows:
  "bitmap_rows (bitmap_and b c) = bitmap_rows b \<inter> bitmap_rows c"
  "length (bits (bitmap_and b c)) = min (length (bits b)) (length (bits c))"
  "bitmap_wf (bitmap_and b c)"
  using mark_bits_effect [of "[0..<min (length (bits b)) (length (bits c))]"
      "bitmap_new (min (length (bits b)) (length (bits c)))" "\<lambda>i. bits b ! i \<and> bits c ! i"]
  by (auto simp: bitmap_and_def Let_def bitmap_rows_def [of b] bitmap_rows_def [of c])

lemma bitmap_or_rows:
  "bitmap_rows (bitmap_or b c) = bitmap_rows b \<union> bitmap_rows c"
  "length (bits (bitmap_or b c)) = max (length (bits b)) (length (bits c))"
  "bitmap_wf (bitmap_or b c)"
proof -
  let ?n = "max (length (bits b)) (length (bits c))"
  let ?t = "\<lambda>i. (if i < length (bits b) then bits b ! i else False) \<or>
     (if i < length (bits c) then bits c ! i else False)"
  have *: "bitmap_or b c = mark_bits ?t [0..<?n] (bitmap_new ?n)"
    by (simp add: bitmap_or_def Let_def)
  note eff = mark_bits_effect [of "[0..<?n]" "bitmap_new ?n" ?t]
  then show "bitmap_rows (bitmap_or b c) = bitmap_rows b \<union> bitmap_rows c"
    unfolding * by (auto simp: bitmap_rows_def [of b] bitmap_rows_def [of c] less_max_iff_disj)
  from eff show "length (bits (bitmap_or b c)) = ?n" "bitmap_wf (bitmap_or b c)"
    unfolding * by simp_all
qed

lemma true_row_ids_set: "set (true_row_ids b) = bitmap_rows b"
  by (auto simp: true_row_ids_def bitmap_rows_def in_set_enumerate_eq image_iff)

lemma true_row_ids_sorted: "sorted_wrt (<) (true_row_ids b)"
proof -
  have "sorted_wrt (\<lambda>x y. fst x < fst y) (List.enumerate n xs)" for n and xs :: "bool list"
    by (induction xs arbitrary: n) (auto simp: in_set_enumerate_eq)
  then show ?thesis
    unfolding true_row_ids_def by (simp add: sorted_wrt_map sorted_wrt_filter)
qed

lemma bitmap_is_empty_iff: "bitmap_wf b \<Longrightarrow> bitmap_is_empty b \<longleftrightarrow> bitmap_rows b = {}"
  by (simp add: bitmap_is_empty_def bitmap_wf_def)

section \<open>What predicate evaluation relies on\<close>

text \<open>
  A representation of sets of rows below a size. The clients fill one in a loop over all rows,
  and take complements by clearing bits of a full one.
\<close>

locale row_set =
  fixes empty :: "nat \<Rightarrow> 'b"
    and full :: "nat \<Rightarrow> 'b"
    and put :: "'b \<Rightarrow> nat \<Rightarrow> bool \<Rightarrow> 'b"
    and rows :: "'b \<Rightarrow> nat set"
    and size_of :: "'b \<Rightarrow> nat"
    and ok :: "'b \<Rightarrow> bool"
  assumes empty_rows: "rows (empty n) = {}" "size_of (empty n) = n" "ok (empty n)"
    and full_rows: "rows (full n) = {0..<n}" "size_of (full n) = n" "ok (full n)"
    and put_rows: "i < size_of b \<Longrightarrow> rows (put b i v) = (if v then insert i (rows b) else rows b - {i})"
    and put_size: "size_of (put b i v) = size_of b"
    and put_ok: "ok b \<Longrightarrow> ok (put b i v)"
begin

lemma fold_put_rows:
  assumes "\<forall>i \<in> set is. i < size_of b"
  shows "rows (fold (\<lambda>i b. if P i then put b i v else b) is b) =
      (if v then rows b \<union> {i \<in> set is. P i} else rows b - {i \<in> set is. P i}) \<and>
     size_of (fold (\<lambda>i b. if P i then put b i v else b) is b) = size_of b \<and>
     (ok b \<longrightarrow> ok (fold (\<lambda>i b. if P i then put b i v else b) is b))"
  using assms
proof (induction "is" arbitrary: b)
  case (Cons i "is")
  let ?b = "if P i then put b i v else b"
  from Cons.prems Cons.IH [of ?b] show ?case
    by (auto simp: put_rows put_size put_ok)
qed simp

lemma fill_rows:
  "rows (fold (\<lambda>i b. if P i then put b i True else b) [0..<n] (empty n)) = {i. i < n \<and> P i}"
  "size_of (fold (\<lambda>i b. if P i then put b i True else b) [0..<n] (empty n)) = n"
  "ok (fold (\<lambda>i b. if P i then put b i True else b) [0..<n] (empty n))"
proof -
  have "\<forall>i \<in> set [0..<n]. i < size_of (empty n)" by (simp add: empty_rows)
  note eff = fold_put_rows [OF this, of P True]
  from eff show "rows (fold (\<lambda>i b. if P i then put b i True else b) [0..<n] (empty n)) = {i. i < n \<and> P i}"
    by (simp add: empty_rows)
  from eff show "size_of (fold (\<lambda>i b. if P i then put b i True else b) [0..<n] (empty n)) = n"
    "ok (fold (\<lambda>i b. if P i then put b i True else b) [0..<n] (empty n))"
    by (simp_all add: empty_rows)
qed

lemma clear_rows:
  "rows (fold (\<lambda>i b. if P i then put b i False else b) [0..<n] (full n)) = {i. i < n \<and> \<not> P i}"
  "size_of (fold (\<lambda>i b. if P i then put b i False else b) [0..<n] (full n)) = n"
  "ok (fold (\<lambda>i b. if P i then put b i False else b) [0..<n] (full n))"
proof -
  have "\<forall>i \<in> set [0..<n]. i < size_of (full n)" by (simp add: full_rows)
  note eff = fold_put_rows [OF this, of P False]
  have "{0..<n} - {i \<in> set [0..<n]. P i} = {i. i < n \<and> \<not> P i}" by auto
  with eff show "rows (fold (\<lambda>i b. if P i then put b i False else b) [0..<n] (full n)) = {i. i < n \<and> \<not> P i}"
    by (simp only: full_rows if_False)
  from eff show "size_of (fold (\<lambda>i b. if P i then put b i False else b) [0..<n] (full n)) = n"
    "ok (fold (\<lambda>i b. if P i then put b i False else b) [0..<n] (full n))"
    by (simp_all add: full_rows)
qed

end

interpretation bitmap: row_set bitmap_new bitmap_all_true bitmap_set bitmap_rows "\<lambda>b. length (bits b)" bitmap_wf
  by unfold_locales (auto simp: bitmap_set_rows bitmap_set_wf)

end
