(* ===== verification/Dependencies.thy ===== *)
theory Dependencies
  imports Ast
begin

text \<open>
  \<open>DependencyGraph\<close> of \<open>src/computed_columns.rs\<close>: which columns a computed column reads, and the
  order in which the computed columns can be evaluated, found with Kahn's algorithm. The loop over
  the ready columns is proved to compute a topological order of the dependencies, or to report the
  columns that are on or behind a cycle.

  \<open>extract_dependencies_recursive\<close> returns a \<open>Result\<close> that is always \<open>Ok\<close>; here it is the
  set of dependencies it leaves in its accumulator. A value that \<open>unwrap\<close>, an index or a
  subtraction in \<open>topological_sort\<close> would panic on is the outcome \<open>None\<close>.
\<close>

section \<open>Columns an expression refers to\<close>

text \<open>The parts of an expression are smaller than it.\<close>

named_theorems part_sizes

lemma element_size [part_sizes]: "x \<in> set xs \<Longrightarrow> f x \<le> size_list f xs" for f :: "'a \<Rightarrow> nat"
  by (rule size_list_estimation') auto

lemma argument_size [part_sizes]:
  fixes args :: "'e::size argument list"
  assumes "a \<in> set args"
  shows "size (arg_value a) \<le> size_list (size_argument size) args"
proof -
  have "size (arg_value a) \<le> size_argument size a" by (cases a) simp
  with element_size [OF assms, of "size_argument size"] show ?thesis by simp
qed

lemma match_arm_size [part_sizes]:
  fixes arms :: "'e::size match_arm list"
  assumes "a \<in> set arms"
  shows "size (arm_pattern a) \<le> size_list (size_match_arm size) arms"
    and "size (arm_body a) \<le> size_list (size_match_arm size) arms"
proof -
  have "size (arm_pattern a) \<le> size_match_arm size a" "size (arm_body a) \<le> size_match_arm size a"
    by (cases a; simp)+
  with element_size [OF assms, of "size_match_arm size"]
  show "size (arm_pattern a) \<le> size_list (size_match_arm size) arms"
    "size (arm_body a) \<le> size_list (size_match_arm size) arms" by simp_all
qed

lemma row_size [part_sizes]:
  "r \<in> set rows \<Longrightarrow> x \<in> set r \<Longrightarrow> size x \<le> size_list (size_list size) rows"
  using element_size [of r rows "size_list size"] element_size [of x r size] by simp

lemma field_size [part_sizes]:
  assumes "(k, e) \<in> set (hm_iter \<pi> flds)"
  shows "size e \<le> size_list (size_prod (\<lambda>_. 0) size) flds"
proof -
  from assms have "map_of flds k = Some e" by (auto simp: hm_iter_def mem_map_filter_iff)
  then have "(k, e) \<in> set flds" by (rule map_of_SomeD)
  from element_size [OF this, of "size_prod (\<lambda>_. 0) size"] show ?thesis by simp
qed

function extract_expr :: "hash_order \<Rightarrow> string hset \<Rightarrow> expression \<Rightarrow> string hset \<Rightarrow> string hset"
  and extract_stmt :: "hash_order \<Rightarrow> string hset \<Rightarrow> statement \<Rightarrow> string hset \<Rightarrow> string hset" where
  "extract_expr \<pi> cols (EIdentifier name) deps =
     (if name \<in> set cols then List.insert name deps else deps)"
| "extract_expr \<pi> cols (EBinaryOp left op right) deps =
     extract_expr \<pi> cols right (extract_expr \<pi> cols left deps)"
| "extract_expr \<pi> cols (EUnaryOp op operand) deps = extract_expr \<pi> cols operand deps"
| "extract_expr \<pi> cols (ECall f targs args) deps =
     fold (\<lambda>a. extract_expr \<pi> cols (arg_value a)) args deps"
| "extract_expr \<pi> cols (EFieldAccess object fld) deps = extract_expr \<pi> cols object deps"
| "extract_expr \<pi> cols (EIndex object indices) deps =
     fold (extract_expr \<pi> cols) indices (extract_expr \<pi> cols object deps)"
| "extract_expr \<pi> cols (EIf condition then_branch else_branch) deps =
     (let deps' = fold (extract_stmt \<pi> cols) then_branch (extract_expr \<pi> cols condition deps) in
      case else_branch of None \<Rightarrow> deps' | Some ss \<Rightarrow> fold (extract_stmt \<pi> cols) ss deps')"
| "extract_expr \<pi> cols (EIfExpr condition then_expr else_expr) deps =
     (let deps' = extract_expr \<pi> cols then_expr (extract_expr \<pi> cols condition deps) in
      case else_expr of None \<Rightarrow> deps' | Some e \<Rightarrow> extract_expr \<pi> cols e deps')"
| "extract_expr \<pi> cols (EBlock statements) deps = fold (extract_stmt \<pi> cols) statements deps"
| "extract_expr \<pi> cols (EUnsafeBlock statements) deps = fold (extract_stmt \<pi> cols) statements deps"
| "extract_expr \<pi> cols (ETuple exprs) deps = fold (extract_expr \<pi> cols) exprs deps"
| "extract_expr \<pi> cols (EMatch v arms) deps =
     fold (\<lambda>arm d. extract_expr \<pi> cols (arm_body arm) (extract_expr \<pi> cols (arm_pattern arm) d))
       arms (extract_expr \<pi> cols v deps)"
| "extract_expr \<pi> cols (EStructLiteral tn flds) deps =
     fold (\<lambda>(_, e). extract_expr \<pi> cols e) (hm_iter \<pi> flds) deps"
| "extract_expr \<pi> cols (EVecNew ty len filler dims) deps =
     (let deps1 = (case len of None \<Rightarrow> deps | Some e \<Rightarrow> extract_expr \<pi> cols e deps);
          deps2 = (case filler of None \<Rightarrow> deps1 | Some e \<Rightarrow> extract_expr \<pi> cols e deps1)
      in fold (extract_expr \<pi> cols) dims deps2)"
| "extract_expr \<pi> cols (EVecLiteral elements) deps = fold (extract_expr \<pi> cols) elements deps"
| "extract_expr \<pi> cols (EMatrix rows) deps = 
     fold (extract_expr \<pi> cols) (concat rows) deps"
| "extract_expr \<pi> cols (ERange start stop step) deps =
     (let deps' = extract_expr \<pi> cols stop (extract_expr \<pi> cols start deps) in
      case step of None \<Rightarrow> deps' | Some e \<Rightarrow> extract_expr \<pi> cols e deps')"
| "extract_expr \<pi> cols (EQuestion e) deps = extract_expr \<pi> cols e deps"
| "extract_expr \<pi> cols (EUnwrap e) deps = extract_expr \<pi> cols e deps"
| "extract_expr \<pi> cols (ECast v ty) deps = extract_expr \<pi> cols v deps"
| "extract_expr \<pi> cols (EQuery q) deps = deps"
| "extract_expr \<pi> cols (ELiteral l) deps = deps"
| "extract_expr \<pi> cols (ELoop body) deps = deps"
| "extract_expr \<pi> cols (EFunction asy tps ps rt body attrs) deps = deps"
| "extract_expr \<pi> cols (EShader st sfs body) deps = deps"
| "extract_expr \<pi> cols (EStaticPath path targs) deps = deps"
| "extract_stmt \<pi> cols (SVariableDecl pat ty v) deps = extract_expr \<pi> cols v deps"
| "extract_stmt \<pi> cols (SConstDecl attrs name tps ty cv vis) deps =
     (case cv of CExpression e \<Rightarrow> extract_expr \<pi> cols e deps | _ \<Rightarrow> deps)"
| "extract_stmt \<pi> cols (SAssignment target op v) deps =
     extract_expr \<pi> cols v (extract_expr \<pi> cols target deps)"
| "extract_stmt \<pi> cols (SExpression e) deps = extract_expr \<pi> cols e deps"
| "extract_stmt \<pi> cols (SReturn r) deps = (case r of None \<Rightarrow> deps | Some e \<Rightarrow> extract_expr \<pi> cols e deps)"
| "extract_stmt \<pi> cols (SBreak r) deps = (case r of None \<Rightarrow> deps | Some e \<Rightarrow> extract_expr \<pi> cols e deps)"
| "extract_stmt \<pi> cols (SForLoop var ty iterable body) deps =
     fold (extract_stmt \<pi> cols) body (extract_expr \<pi> cols iterable deps)"
| "extract_stmt \<pi> cols SContinue deps = deps"
| "extract_stmt \<pi> cols (SUse b path alias) deps = deps"
| "extract_stmt \<pi> cols (SImplBlock tps tr tn target body) deps = deps"
| "extract_stmt \<pi> cols (SImplMethod name tps ps rt body) deps = deps"
| "extract_stmt \<pi> cols (SModuleDecl b name body) deps = deps"
| "extract_stmt \<pi> cols (SIfDef cond body els) deps = deps"
  by pat_completeness auto
termination extract_expr
proof (relation "measure (case_sum (\<lambda>(_, _, e, _). size e) (\<lambda>(_, _, s, _). size s))", goal_cases)
qed (auto simp: less_Suc_eq_le trans_le_add1 trans_le_add2 part_sizes dest: element_size [of _ _ size])

declare extract_expr.simps [simp del] extract_stmt.simps [simp del]

definition extract_column_dependencies :: "hash_order \<Rightarrow> string hset \<Rightarrow> expression \<Rightarrow> string hset" where
  "extract_column_dependencies \<pi> cols expr = extract_expr \<pi> cols expr []"

text \<open>Every step of the extraction adds columns of the table, each once.\<close>

definition extends :: "string hset \<Rightarrow> string hset \<Rightarrow> string hset \<Rightarrow> bool" where
  "extends cols d d' \<longleftrightarrow>
     set d \<subseteq> set d' \<and> set d' \<subseteq> set d \<union> set cols \<and> (distinct d \<longrightarrow> distinct d')"

lemma extends_refl [simp]: "extends cols d d"
  by (simp add: extends_def)

lemma extends_trans: "extends cols d d' \<Longrightarrow> extends cols d' d'' \<Longrightarrow> extends cols d d''"
  unfolding extends_def by auto

lemma extends_fold: "(\<And>x d. x \<in> set xs \<Longrightarrow> extends cols d (f x d)) \<Longrightarrow> extends cols d (fold f xs d)"
proof (induction xs arbitrary: d)
  case (Cons x xs)
  have "extends cols d (f x d)" by (rule Cons.prems) simp
  moreover have "extends cols (f x d) (fold f xs (f x d))" by (rule Cons.IH) (simp add: Cons.prems)
  ultimately show ?case by (auto intro: extends_trans)
qed simp

lemma extends_insert: "n \<in> set cols \<Longrightarrow> extends cols d (List.insert n d)"
  by (auto simp: extends_def)

lemma extends_foldI:
  "extends cols d e \<Longrightarrow> (\<And>x d. x \<in> set xs \<Longrightarrow> extends cols d (f x d)) \<Longrightarrow> extends cols d (fold f xs e)"
  by (rule extends_trans [OF _ extends_fold])

lemma extract_extends:
  "extends cols d (extract_expr \<pi> cols e d)"
  "extends cols d (extract_stmt \<pi> cols s d)"
proof (induction \<pi> cols e d and \<pi> cols s d rule: extract_expr_extract_stmt.induct)
  case (7 \<pi> cols condition then_branch else_branch deps)
  then show ?case
    by (cases else_branch) (simp_all add: extract_expr.simps Let_def extends_foldI)
next
  case (12 \<pi> cols v arms deps)
  have "extends cols d (extract_expr \<pi> cols (arm_body x) (extract_expr \<pi> cols (arm_pattern x) d))"
    if "x \<in> set arms" for x d using 12(2,3) [OF that, of d] by (rule extends_trans)
  with 12(1) show ?case by (simp add: extract_expr.simps extends_foldI)
next
  case (14 \<pi> cols ty len filler dims deps)
  let ?d1 = "case len of None \<Rightarrow> deps | Some e \<Rightarrow> extract_expr \<pi> cols e deps"
  let ?d2 = "case filler of None \<Rightarrow> ?d1 | Some e \<Rightarrow> extract_expr \<pi> cols e ?d1"
  have "extends cols deps ?d1" using 14(1) by (cases len) auto
  moreover have "extends cols ?d1 ?d2" using 14(2) [OF refl] by (cases filler) auto
  moreover have "extends cols d (extract_expr \<pi> cols x d)" if "x \<in> set dims" for x d
    using 14(3) [OF refl refl that] .
  ultimately have "extends cols deps (fold (extract_expr \<pi> cols) dims ?d2)"
    by (intro extends_foldI extends_trans [of cols deps ?d1 ?d2])
  then show ?case by (simp add: extract_expr.simps Let_def)
qed (auto simp: extract_expr.simps extract_stmt.simps Let_def extends_insert
   split: option.splits prod.splits const_value.splits intro: extends_trans extends_foldI)

lemma extract_columns:
  "distinct (extract_column_dependencies \<pi> cols e)"
  "set (extract_column_dependencies \<pi> cols e) \<subseteq> set cols"
  using extract_extends(1) [of cols "[]" \<pi> e] by (auto simp: extract_column_dependencies_def extends_def)

section \<open>The dependency graph\<close>

record column_dependency =
  cd_column :: string
  depends_on :: "string hset"
  cd_expression :: expression

record dependency_graph =
  dependencies :: "(string, column_dependency) hmap"
  evaluation_order :: "string list"

datatype dependency_error =
    CircularDependency "string list"
  | UnknownColumnReference string
  | InvalidExpression string

definition graph_empty :: dependency_graph where
  "graph_empty = \<lparr>dependencies = [], evaluation_order = []\<rparr>"

definition is_computed_column :: "dependency_graph \<Rightarrow> string \<Rightarrow> bool" where
  "is_computed_column g name = hm_contains (dependencies g) name"

definition get_dependencies :: "dependency_graph \<Rightarrow> string \<Rightarrow> string hset option" where
  "get_dependencies g name = map_option depends_on (map_of (dependencies g) name)"

definition get_dependents :: "hash_order \<Rightarrow> dependency_graph \<Rightarrow> string \<Rightarrow> string list" where
  "get_dependents \<pi> g name =
     map fst (filter (\<lambda>(col, deps). name \<in> set (depends_on deps)) (hm_iter \<pi> (dependencies g)))"

section \<open>Topological sort\<close>

type_synonym degrees = "(string, nat) hmap"
type_synonym successors = "(string, string list) hmap"

text \<open>The two loops that record the edges between computed columns.\<close>

fun link_dependencies ::
  "dependency_graph \<Rightarrow> string \<Rightarrow> string list \<Rightarrow> degrees \<Rightarrow> successors \<Rightarrow> (degrees \<times> successors) option" where
  "link_dependencies g column [] deg adj = Some (deg, adj)"
| "link_dependencies g column (d # ds) deg adj =
     (if hm_contains (dependencies g) d then
        (case (map_of adj d, map_of deg column) of
           (Some succs, Some n) \<Rightarrow>
             link_dependencies g column ds (AList.update column (n + 1) deg)
               (AList.update d (succs @ [column]) adj)
         | _ \<Rightarrow> None)
      else link_dependencies g column ds deg adj)"

fun link_columns ::
  "hash_order \<Rightarrow> dependency_graph \<Rightarrow> (string \<times> column_dependency) list \<Rightarrow> degrees \<Rightarrow> successors \<Rightarrow>
     (degrees \<times> successors) option" where
  "link_columns \<pi> g [] deg adj = Some (deg, adj)"
| "link_columns \<pi> g ((column, deps) # rest) deg adj =
     (case link_dependencies g column (\<pi> (depends_on deps)) deg adj of
        None \<Rightarrow> None
      | Some (deg', adj') \<Rightarrow> link_columns \<pi> g rest deg' adj')"

text \<open>The dependents of a finished column lose one pending dependency each.\<close>

fun release_dependents :: "string list \<Rightarrow> degrees \<Rightarrow> string list \<Rightarrow> (degrees \<times> string list) option" where
  "release_dependents [] deg queue = Some (deg, queue)"
| "release_dependents (d # ds) deg queue =
     (case map_of deg d of
        None \<Rightarrow> None
      | Some 0 \<Rightarrow> None
      | Some (Suc n) \<Rightarrow>
          release_dependents ds (AList.update d n deg) (if n = 0 then queue @ [d] else queue))"

definition degree_of :: "degrees \<Rightarrow> string \<Rightarrow> nat" where
  "degree_of deg c = (case map_of deg c of None \<Rightarrow> 0 | Some n \<Rightarrow> n)"

definition pending_work :: "degrees \<Rightarrow> nat" where
  "pending_work deg = (\<Sum>c \<in> set (map fst deg). degree_of deg c)"

lemma pending_work_decrease:
  assumes "map_of deg d = Some (Suc n)"
  shows "pending_work deg = Suc (pending_work (AList.update d n deg))"
proof -
  have d: "d \<in> set (map fst deg)" using assms by (metis map_of_eq_None_iff option.distinct(1) set_map)
  then have keys: "set (map fst (AList.update d n deg)) = set (map fst deg)"
    by (simp add: update_keys)
  let ?K = "set (map fst deg) - {d}"
  have "(\<Sum>c \<in> ?K. degree_of (AList.update d n deg) c) = (\<Sum>c \<in> ?K. degree_of deg c)"
    by (rule sum.cong) (auto simp: degree_of_def map_of_update)
  with assms d show ?thesis
    unfolding pending_work_def keys by (simp add: sum.remove [of _ d] degree_of_def map_of_update)
qed

lemma release_dependents_work:
  "release_dependents ds deg queue = Some (deg', queue') \<Longrightarrow>
     pending_work deg' + length queue' \<le> pending_work deg + length queue"
proof (induction ds deg queue rule: release_dependents.induct)
  case (2 d ds deg queue)
  then obtain n where n: "map_of deg d = Some (Suc n)"
    by (auto split: option.splits nat.splits)
  with 2 have "pending_work deg' + length queue' \<le>
      pending_work (AList.update d n deg) + length (if n = 0 then queue @ [d] else queue)"
    by simp
  with pending_work_decrease [OF n] show ?case by (simp split: if_splits)
qed simp

function kahn_loop ::
  "successors \<Rightarrow> string list \<Rightarrow> degrees \<Rightarrow> string list \<Rightarrow> (degrees \<times> string list) option" where
  "kahn_loop adj [] deg result = Some (deg, result)"
| "kahn_loop adj (current # queue) deg result =
     (case map_of adj current of
        None \<Rightarrow> None
      | Some succs \<Rightarrow>
          (case release_dependents succs deg queue of
             None \<Rightarrow> None
           | Some (deg', queue') \<Rightarrow> kahn_loop adj queue' deg' (result @ [current])))"
  by pat_completeness auto
termination
proof (relation "measure (\<lambda>(adj, queue, deg, result). pending_work deg + length queue)", goal_cases)
  case (2 adj current queue deg result succs x deg' queue')
  with release_dependents_work [of succs deg queue deg' queue'] show ?case by simp
qed simp

definition topological_sort :: "hash_order \<Rightarrow> dependency_graph \<Rightarrow> (dependency_error + string list) option" where
  "topological_sort \<pi> g =
     (let keys = \<pi> (hm_keys (dependencies g)) in
      case link_columns \<pi> g (hm_iter \<pi> (dependencies g)) (map (\<lambda>c. (c, 0)) keys) (map (\<lambda>c. (c, [])) keys) of
        None \<Rightarrow> None
      | Some (deg, adj) \<Rightarrow>
          (case kahn_loop adj (map fst (filter (\<lambda>(_, degree). degree = 0) (hm_iter \<pi> deg))) deg [] of
             None \<Rightarrow> None
           | Some (deg', result) \<Rightarrow>
               if length result \<noteq> length (dependencies g)
               then Some (Inl (CircularDependency (map fst (filter (\<lambda>(_, degree). 0 < degree) (hm_iter \<pi> deg')))))
               else Some (Inr result)))"

section \<open>Kahn's algorithm is correct\<close>

definition succs_of :: "successors \<Rightarrow> string \<Rightarrow> string list" where
  "succs_of adj d = (case map_of adj d of None \<Rightarrow> [] | Some succs \<Rightarrow> succs)"

lemma update_present_keys: "k \<in> set (hm_keys m) \<Longrightarrow> hm_keys (AList.update k v m) = hm_keys m"
  unfolding hm_keys_def by (induction m) auto

lemma present_Some: "k \<in> set (hm_keys m) \<Longrightarrow> \<exists>v. map_of m k = Some v"
  unfolding hm_keys_def by (metis map_of_eq_None_iff not_None_eq set_map)

lemma present_key: "map_of m k = Some v \<Longrightarrow> k \<in> set (hm_keys m)"
  unfolding hm_keys_def by (drule map_of_SomeD) force

lemma link_dependencies_effect:
  assumes "\<And>x. hm_contains (dependencies g) x \<longleftrightarrow> x \<in> K"
    and "column \<in> K" and "set (hm_keys deg) = K" and "set (hm_keys adj) = K" and "distinct ds"
  shows "\<exists>deg' adj'. link_dependencies g column ds deg adj = Some (deg', adj') \<and>
     hm_keys deg' = hm_keys deg \<and> hm_keys adj' = hm_keys adj \<and>
     (\<forall>x. degree_of deg' x = degree_of deg x + (if x = column then card (set ds \<inter> K) else 0)) \<and>
     (\<forall>x. succs_of adj' x = succs_of adj x @ (if x \<in> set ds \<inter> K then [column] else []))"
  using assms(3-)
proof (induction ds arbitrary: deg adj)
  case (Cons d ds)
  show ?case
  proof (cases "d \<in> K")
    case True
    with Cons.prems(1,2) assms(2) obtain succs n where
      maps: "map_of adj d = Some succs" "map_of deg column = Some n" by (metis present_Some)
    let ?deg = "AList.update column (n + 1) deg" and ?adj = "AList.update d (succs @ [column]) adj"
    have keys: "hm_keys ?deg = hm_keys deg" "hm_keys ?adj = hm_keys adj"
      using Cons.prems(1,2) True assms(2) by (simp_all add: update_present_keys)
    have "distinct ds" using Cons.prems(3) by simp
    from Cons.IH [of ?deg ?adj, unfolded keys, OF Cons.prems(1,2) this] obtain deg' adj' where res:
      "link_dependencies g column ds ?deg ?adj = Some (deg', adj')"
      "hm_keys deg' = hm_keys deg" "hm_keys adj' = hm_keys adj"
      "\<forall>x. degree_of deg' x = degree_of ?deg x + (if x = column then card (set ds \<inter> K) else 0)"
      "\<forall>x. succs_of adj' x = succs_of ?adj x @ (if x \<in> set ds \<inter> K then [column] else [])"
      by blast
    have "card (set (d # ds) \<inter> K) = Suc (card (set ds \<inter> K))"
      using True Cons.prems(3) by (simp add: Int_insert_left)
    moreover have "link_dependencies g column (d # ds) deg adj = Some (deg', adj')"
      using res(1) maps True by (simp add: assms(1))
    moreover have "degree_of ?deg x = degree_of deg x + (if x = column then 1 else 0)"
      "succs_of ?adj x = succs_of adj x @ (if x = d then [column] else [])" for x
      using maps by (auto simp: degree_of_def succs_of_def map_of_update)
    ultimately show ?thesis
      using res(2-5) True Cons.prems(3) by (intro exI [of _ deg'] exI [of _ adj']) auto
  next
    case False
    have "distinct ds" using Cons.prems(3) by simp
    from Cons.IH [OF Cons.prems(1,2) this] False show ?thesis
      by (auto simp: assms(1) Int_insert_left)
  qed
qed simp

text \<open>The computed columns that a computed column reads.\<close>

definition computed_reads :: "dependency_graph \<Rightarrow> string \<Rightarrow> string set" where
  "computed_reads g c =
     (case map_of (dependencies g) c of
        None \<Rightarrow> {}
      | Some deps \<Rightarrow> set (depends_on deps) \<inter> set (hm_keys (dependencies g)))"

definition dependency_graph_wf :: "dependency_graph \<Rightarrow> bool" where
  "dependency_graph_wf g \<longleftrightarrow>
     hm_wf (dependencies g) \<and> (\<forall>(c, deps) \<in> set (dependencies g). distinct (depends_on deps))"

lemma link_columns_effect:
  assumes "is_hash_order \<pi>" and "\<And>x. hm_contains (dependencies g) x \<longleftrightarrow> x \<in> K"
    and "distinct (map fst rest)" and "\<forall>(c, deps) \<in> set rest. c \<in> K \<and> distinct (depends_on deps)"
    and "set (hm_keys deg) = K" and "set (hm_keys adj) = K"
  shows "\<exists>deg' adj'. link_columns \<pi> g rest deg adj = Some (deg', adj') \<and>
     hm_keys deg' = hm_keys deg \<and> hm_keys adj' = hm_keys adj \<and>
     (\<forall>x. degree_of deg' x = degree_of deg x +
        (case map_of rest x of None \<Rightarrow> 0 | Some deps \<Rightarrow> card (set (depends_on deps) \<inter> K))) \<and>
     (\<forall>x. succs_of adj' x = succs_of adj x @
        map fst (filter (\<lambda>(c, deps). x \<in> set (depends_on deps) \<inter> K) rest))"
  using assms(3-)
proof (induction rest arbitrary: deg adj)
  case (Cons z rest)
  obtain c deps where z: "z = (c, deps)" by (cases z)
  let ?ds = "\<pi> (depends_on deps)"
  have ds: "set ?ds = set (depends_on deps)" "distinct ?ds" and c: "c \<in> K"
    using assms(1) Cons.prems(2) by (simp_all add: z hash_simps)
  from link_dependencies_effect [OF assms(2) c Cons.prems(3,4) ds(2)] obtain deg1 adj1 where one:
    "link_dependencies g c ?ds deg adj = Some (deg1, adj1)"
    "hm_keys deg1 = hm_keys deg" "hm_keys adj1 = hm_keys adj"
    "\<forall>x. degree_of deg1 x = degree_of deg x + (if x = c then card (set ?ds \<inter> K) else 0)"
    "\<forall>x. succs_of adj1 x = succs_of adj x @ (if x \<in> set ?ds \<inter> K then [c] else [])"
    by blast
  have rest: "distinct (map fst rest)" "\<forall>(c, deps) \<in> set rest. c \<in> K \<and> distinct (depends_on deps)"
    using Cons.prems(1,2) by auto
  from Cons.IH [of deg1 adj1, unfolded one(2,3), OF rest Cons.prems(3,4)] obtain deg2 adj2 where two:
    "link_columns \<pi> g rest deg1 adj1 = Some (deg2, adj2)"
    "hm_keys deg2 = hm_keys deg" "hm_keys adj2 = hm_keys adj"
    "\<forall>x. degree_of deg2 x = degree_of deg1 x +
        (case map_of rest x of None \<Rightarrow> 0 | Some deps \<Rightarrow> card (set (depends_on deps) \<inter> K))"
    "\<forall>x. succs_of adj2 x = succs_of adj1 x @
        map fst (filter (\<lambda>(c, deps). x \<in> set (depends_on deps) \<inter> K) rest)"
    by blast
  from Cons.prems(1) have "map_of rest c = None" by (simp add: z map_of_eq_None_iff)
  with one two show ?case
    by (intro exI [of _ deg2] exI [of _ adj2]) (auto simp: z ds)
qed simp

lemma release_dependents_effect:
  assumes "distinct ds" and "\<forall>d \<in> set ds. d \<in> set (hm_keys deg) \<and> 0 < degree_of deg d"
  shows "\<exists>deg'. release_dependents ds deg queue = Some (deg', queue @ filter (\<lambda>d. degree_of deg d = 1) ds) \<and>
     hm_keys deg' = hm_keys deg \<and>
     (\<forall>x. degree_of deg' x = degree_of deg x - (if x \<in> set ds then 1 else 0))"
  using assms
proof (induction ds arbitrary: deg queue)
  case (Cons d ds)
  then obtain v where "map_of deg d = Some v" "0 < v"
    by (metis degree_of_def list.set_intros(1) option.simps(5) present_Some)
  then obtain n where n: "map_of deg d = Some (Suc n)" by (cases v) auto
  let ?deg = "AList.update d n deg" and ?q = "if n = 0 then queue @ [d] else queue"
  have keys: "hm_keys ?deg = hm_keys deg" using Cons.prems(2) by (simp add: update_present_keys)
  have deg: "degree_of ?deg x = (if x = d then n else degree_of deg x)" for x
    by (simp add: degree_of_def map_of_update)
  have "distinct ds" "\<forall>e \<in> set ds. e \<in> set (hm_keys ?deg) \<and> 0 < degree_of ?deg e"
    unfolding keys deg using Cons.prems by auto
  from Cons.IH [OF this, of ?q] obtain deg' where
    "release_dependents ds ?deg ?q = Some (deg', ?q @ filter (\<lambda>d. degree_of ?deg d = 1) ds)"
    "hm_keys deg' = hm_keys deg"
    "\<forall>x. degree_of deg' x = degree_of ?deg x - (if x \<in> set ds then 1 else 0)"
    unfolding keys by blast
  moreover have "filter (\<lambda>d. degree_of ?deg d = 1) ds = filter (\<lambda>d. degree_of deg d = 1) ds"
    using Cons.prems(1) by (intro filter_cong) (auto simp: deg)
  moreover from n have "degree_of deg d = Suc n" by (simp add: degree_of_def)
  ultimately show ?case
    using n Cons.prems(1) by (intro exI [of _ deg']) (auto simp: deg)
qed simp

text \<open>
  The invariant of the main loop, for columns \<open>K\<close> where \<open>c\<close> waits for \<open>P c\<close>: \<open>R\<close> are the
  columns already placed, \<open>Q\<close> the ready ones.
\<close>

definition placed_in_order :: "(string \<Rightarrow> string set) \<Rightarrow> string list \<Rightarrow> bool" where
  "placed_in_order P R \<longleftrightarrow> (\<forall>i < length R. P (R ! i) \<subseteq> set (take i R))"

definition kahn_inv :: "string set \<Rightarrow> (string \<Rightarrow> string set) \<Rightarrow> string list \<Rightarrow> degrees \<Rightarrow> string list \<Rightarrow> bool" where
  "kahn_inv K P Q deg R \<longleftrightarrow>
     distinct (R @ Q) \<and> set (R @ Q) = {c \<in> K. P c \<subseteq> set R} \<and> placed_in_order P R \<and>
     set (hm_keys deg) = K \<and> (\<forall>c \<in> K. degree_of deg c = card (P c - set R))"

lemma kahn_invD:
  assumes "kahn_inv K P Q deg R"
  shows "distinct (R @ Q)" "set (R @ Q) = {c \<in> K. P c \<subseteq> set R}" "placed_in_order P R"
    "set (hm_keys deg) = K" "\<And>c. c \<in> K \<Longrightarrow> degree_of deg c = card (P c - set R)"
  using assms unfolding kahn_inv_def by blast+

lemma placed_snoc: "placed_in_order P R \<Longrightarrow> P c \<subseteq> set R \<Longrightarrow> placed_in_order P (R @ [c])"
  by (auto simp: placed_in_order_def nth_append less_Suc_eq)

lemma kahn_step:
  assumes inv: "kahn_inv K P (c # Q) deg R" and P: "\<And>x. x \<in> K \<Longrightarrow> finite (P x)"
    and succs: "distinct ds" "set ds = {x \<in> K. c \<in> P x}"
  shows "\<exists>deg' Q'. release_dependents ds deg Q = Some (deg', Q') \<and> kahn_inv K P Q' deg' (R @ [c])"
proof -
  note i = kahn_invD [OF inv]
  have c: "c \<notin> set R" "P c \<subseteq> set R" "c \<in> K" using i(1,2) by auto
  have drop: "P x - set (R @ [c]) = P x - set R - {c}" for x by auto
  have pos: "0 < card (P x - set R)" if "x \<in> set ds" for x
    using that succs(2) P [of x] c(1) by (auto simp: card_gt_0_iff)
  then have "\<forall>x \<in> set ds. x \<in> set (hm_keys deg) \<and> 0 < degree_of deg x"
    using succs(2) i(4,5) by auto
  from release_dependents_effect [OF succs(1) this, of Q] obtain deg' where res:
    "release_dependents ds deg Q = Some (deg', Q @ filter (\<lambda>d. degree_of deg d = 1) ds)"
    "hm_keys deg' = hm_keys deg" "\<forall>x. degree_of deg' x = degree_of deg x - (if x \<in> set ds then 1 else 0)"
    by blast
  let ?new = "filter (\<lambda>d. degree_of deg d = 1) ds"
  have new: "x \<in> set ?new \<longleftrightarrow> x \<in> K \<and> P x \<subseteq> set (R @ [c]) \<and> c \<in> P x" for x
  proof -
    have "card (P x - set R) = 1 \<longleftrightarrow> P x \<subseteq> set (R @ [c])" if "x \<in> K" "c \<in> P x"
    proof -
      have "c \<in> P x - set R" using that c(1) by simp
      then have "card (P x - set R) = 1 \<longleftrightarrow> P x - set R = {c}"
        by (metis One_nat_def card_1_singleton_iff singletonD)
      also have "\<dots> \<longleftrightarrow> P x \<subseteq> set (R @ [c])" using that(2) c(1) by auto
      finally show ?thesis .
    qed
    with i(5) [of x] succs(2) show ?thesis by auto
  qed
  have old: "x \<in> set (R @ c # Q) \<longleftrightarrow> x \<in> K \<and> P x \<subseteq> set R" for x using i(2) by blast
  have "set ((R @ [c]) @ Q @ ?new) = {x \<in> K. P x \<subseteq> set (R @ [c])}"
  proof (intro set_eqI)
    fix x
    have "x \<in> set ((R @ [c]) @ Q @ ?new) \<longleftrightarrow> x \<in> set (R @ c # Q) \<or> x \<in> set ?new" by auto
    also have "\<dots> \<longleftrightarrow> x \<in> K \<and> P x \<subseteq> set (R @ [c])" unfolding old new by auto
    finally show "x \<in> set ((R @ [c]) @ Q @ ?new) \<longleftrightarrow> x \<in> {x \<in> K. P x \<subseteq> set (R @ [c])}" by simp
  qed
  moreover have "distinct ((R @ [c]) @ Q @ ?new)"
  proof -
    have "set (R @ c # Q) \<inter> set ?new = {}"
      using old new c(1) by blast
    with i(1) succs(1) show ?thesis by auto
  qed
  moreover have "degree_of deg' x = card (P x - set (R @ [c]))" if "x \<in> K" for x
    unfolding drop using res(3) i(5) [OF that] succs(2) that c(1) P [OF that]
    by (cases "c \<in> P x") simp_all
  ultimately have "kahn_inv K P (Q @ ?new) deg' (R @ [c])"
    unfolding kahn_inv_def using res(2) i(3,4) c(2) placed_snoc by metis
  with res(1) show ?thesis by blast
qed

lemma kahn_loop_inv:
  assumes P: "\<And>x. x \<in> K \<Longrightarrow> finite (P x)"
  shows "(\<And>c. c \<in> K \<Longrightarrow> \<exists>ds. map_of adj c = Some ds \<and> distinct ds \<and> set ds = {x \<in> K. c \<in> P x}) \<Longrightarrow>
     kahn_inv K P Q deg R \<Longrightarrow>
     \<exists>deg' R'. kahn_loop adj Q deg R = Some (deg', R') \<and> kahn_inv K P [] deg' R'"
proof (induction adj Q deg R rule: kahn_loop.induct [case_names 1 2])
  case (2 adj c Q deg R)
  from kahn_invD(2) [OF 2(3)] have "c \<in> K" by auto
  from 2(2) [OF this] obtain ds where ds: "map_of adj c = Some ds" "distinct ds" "set ds = {x \<in> K. c \<in> P x}"
    by blast
  from kahn_step [OF 2(3) P ds(2,3)] obtain deg' Q' where
    res: "release_dependents ds deg Q = Some (deg', Q')" "kahn_inv K P Q' deg' (R @ [c])" by blast
  from 2(1) [OF ds(1) res(1) refl 2(2) res(2)] ds(1) res(1) show ?case by simp
qed simp

text \<open>When nothing is ready any more, either all columns are placed, or the rest wait in a cycle.\<close>

definition read_edges :: "string set \<Rightarrow> (string \<Rightarrow> string set) \<Rightarrow> (string \<times> string) set" where
  "read_edges K P = {(d, c). c \<in> K \<and> d \<in> P c}"

definition index_of :: "string list \<Rightarrow> string \<Rightarrow> nat" where
  "index_of R c = length (takeWhile (\<lambda>x. x \<noteq> c) R)"

lemma index_of_nth: "c \<in> set R \<Longrightarrow> index_of R c < length R \<and> R ! index_of R c = c"
  unfolding index_of_def by (induction R) auto

lemma index_of_take: "d \<in> set (take n R) \<Longrightarrow> index_of R d < n"
  unfolding index_of_def by (induction R arbitrary: n) (auto simp: take_Cons split: nat.splits)

lemma placed_before:
  assumes "placed_in_order P R" and "c \<in> set R" and "d \<in> P c"
  shows "index_of R d < index_of R c" and "d \<in> set R"
proof -
  from index_of_nth [OF assms(2)] assms(1,3) have "d \<in> set (take (index_of R c) R)"
    unfolding placed_in_order_def by force
  then show "index_of R d < index_of R c" "d \<in> set R" by (auto simp: index_of_take dest: in_set_takeD)
qed

lemma placed_all_acyclic:
  assumes "placed_in_order P R" and "set R = K"
  shows "acyclic (read_edges K P)"
proof -
  have "read_edges K P \<subseteq> measure (index_of R)"
    using placed_before(1) [OF assms(1)] assms(2) by (auto simp: read_edges_def)
  then show ?thesis by (meson acyclic_subset wf_acyclic wf_measure)
qed

lemma kahn_stuck_cyclic:
  assumes "kahn_inv K P [] deg R" and "finite K" and "\<And>c. c \<in> K \<Longrightarrow> P c \<subseteq> K" and "set R \<noteq> K"
  shows "\<not> acyclic (read_edges K P)"
proof
  assume acyc: "acyclic (read_edges K P)"
  note i = kahn_invD [OF assms(1)]
  have "read_edges K P \<subseteq> K \<times> K" using assms(3) by (auto simp: read_edges_def)
  then have "finite (read_edges K P)" by (rule finite_subset) (simp add: assms(2))
  from finite_acyclic_wf [OF this acyc] have wf: "wf (read_edges K P)" .
  from i(2) assms(4) obtain c0 where "c0 \<in> K - set R" by fastforce
  from wfE_min [OF wf this] obtain c where c: "c \<in> K - set R"
    "\<And>d. (d, c) \<in> read_edges K P \<Longrightarrow> d \<notin> K - set R" by blast
  have "P c \<subseteq> set R"
  proof
    fix d assume "d \<in> P c"
    with c(1) have "(d, c) \<in> read_edges K P" "d \<in> K" using assms(3) [of c] by (auto simp: read_edges_def)
    with c(2) show "d \<in> set R" by blast
  qed
  with i(2) c(1) have "c \<in> set (R @ [])" by blast
  with c(1) show False by simp
qed

lemma map_of_hm_iter:
  assumes "is_hash_order \<pi>" and "hm_wf m"
  shows "map_of (hm_iter \<pi> m) x = map_of m x"
proof -
  have "map_of (hm_iter \<pi> m) x = Some v \<longleftrightarrow> map_of m x = Some v" for v
    using assms by (simp add: map_of_eq_Some_iff hm_iter_distinct hm_iter_mem)
  then show ?thesis by (metis not_None_eq)
qed

lemma mem_map_fst_filter: "c \<in> set (map fst (filter (\<lambda>(k, v). Q k v) xs)) \<longleftrightarrow> (\<exists>v. (c, v) \<in> set xs \<and> Q c v)"
  by force

lemma degree_of_iter:
  assumes "is_hash_order \<pi>"
  shows "set (map fst (filter (\<lambda>(_, d). Q d) (hm_iter \<pi> deg))) = {c \<in> set (hm_keys deg). Q (degree_of deg c)}"
proof -
  have "c \<in> set (hm_keys deg) \<longleftrightarrow> (\<exists>d. map_of deg c = Some d)" for c
    unfolding hm_keys_def by (metis map_of_eq_None_iff not_None_eq set_map)
  with assms show ?thesis by (force simp: hm_iter_mem degree_of_def)
qed

lemma topological_sort_result:
  assumes "is_hash_order \<pi>" and "dependency_graph_wf g"
  shows "\<exists>res. topological_sort \<pi> g = Some res \<and>
     (is_ok res \<longleftrightarrow> acyclic (read_edges (set (hm_keys (dependencies g))) (computed_reads g))) \<and>
     (case res of
        Inr order \<Rightarrow> distinct order \<and> set order = set (hm_keys (dependencies g)) \<and>
          placed_in_order (computed_reads g) order
      | Inl e \<Rightarrow> \<exists>stuck. e = CircularDependency stuck \<and> stuck \<noteq> [] \<and>
          set stuck \<subseteq> set (hm_keys (dependencies g)) \<and>
          (\<forall>c \<in> set stuck. computed_reads g c \<inter> set stuck \<noteq> {}))"
proof -
  let ?deps = "dependencies g" and ?K = "set (hm_keys (dependencies g))" and ?P = "computed_reads g"
  let ?ks = "\<pi> (hm_keys ?deps)"
  let ?deg0 = "map (\<lambda>c. (c, 0 :: nat)) ?ks" and ?adj0 = "map (\<lambda>c. (c, [] :: string list)) ?ks"
  have wf: "hm_wf ?deps" and dist: "\<And>c deps. (c, deps) \<in> set ?deps \<Longrightarrow> distinct (depends_on deps)"
    using assms(2) by (auto simp: dependency_graph_wf_def)
  have cont: "hm_contains ?deps x \<longleftrightarrow> x \<in> ?K" for x by (simp add: hm_contains_iff hm_keys_def)
  have iter: "distinct (map fst (hm_iter \<pi> ?deps))" using assms(1) wf by (rule hm_iter_distinct)
  have mem: "(c, deps) \<in> set (hm_iter \<pi> ?deps) \<longleftrightarrow> map_of ?deps c = Some deps" for c deps
    using assms(1) by (rule hm_iter_mem)
  have entries: "\<forall>(c, deps) \<in> set (hm_iter \<pi> ?deps). c \<in> ?K \<and> distinct (depends_on deps)"
    using mem dist by (auto simp: hm_keys_def dest!: map_of_SomeD) (metis fst_conv image_eqI)
  have keys0: "set (hm_keys ?deg0) = ?K" "set (hm_keys ?adj0) = ?K"
    using assms(1) by (simp_all add: hm_keys_def image_image hash_order_set)
  from link_columns_effect [OF assms(1) cont iter entries keys0] obtain deg adj where link:
    "link_columns \<pi> g (hm_iter \<pi> ?deps) ?deg0 ?adj0 = Some (deg, adj)"
    "hm_keys deg = hm_keys ?deg0" "hm_keys adj = hm_keys ?adj0"
    "\<forall>x. degree_of deg x = degree_of ?deg0 x +
        (case map_of (hm_iter \<pi> ?deps) x of None \<Rightarrow> 0 | Some deps \<Rightarrow> card (set (depends_on deps) \<inter> ?K))"
    "\<forall>x. succs_of adj x = succs_of ?adj0 x @
        map fst (filter (\<lambda>(c, deps). x \<in> set (depends_on deps) \<inter> ?K) (hm_iter \<pi> ?deps))"
    by blast
  have P: "?P c = (case map_of ?deps c of None \<Rightarrow> {} | Some deps \<Rightarrow> set (depends_on deps) \<inter> ?K)" for c
    by (simp add: computed_reads_def)
  then have sub: "?P c \<subseteq> ?K" for c by (auto split: option.splits)
  then have fin: "finite (?P c)" for c by (rule finite_subset) simp
  have deg: "degree_of deg c = card (?P c)" for c
  proof -
    have "degree_of ?deg0 c = 0" by (auto simp: degree_of_def split: option.splits dest!: map_of_SomeD)
    with link(4) show ?thesis
      by (simp add: P map_of_hm_iter [OF assms(1) wf] split: option.splits)
  qed
  have adj: "\<exists>ds. map_of adj d = Some ds \<and> distinct ds \<and> set ds = {c \<in> ?K. d \<in> ?P c}" if "d \<in> ?K" for d
  proof -
    from that keys0(2) link(3) obtain ds where ds: "map_of adj d = Some ds" by (metis present_Some)
    have "succs_of ?adj0 d = []" by (auto simp: succs_of_def split: option.splits dest!: map_of_SomeD)
    moreover have "succs_of adj d = ds" using ds by (simp add: succs_of_def)
    moreover note link(5) [rule_format, of d]
    ultimately have dseq: "ds = map fst (filter (\<lambda>(c, deps). d \<in> set (depends_on deps) \<inter> ?K) (hm_iter \<pi> ?deps))"
      by simp
    have "c \<in> set (map fst (filter (\<lambda>(c, deps). d \<in> set (depends_on deps) \<inter> ?K) (hm_iter \<pi> ?deps)))
        \<longleftrightarrow> c \<in> {c \<in> ?K. d \<in> ?P c}" for c
    proof (cases "map_of ?deps c")
      case (Some deps)
      then have "c \<in> ?K" using entries mem by blast
      with Some show ?thesis unfolding mem_map_fst_filter mem by (simp add: P)
    next
      case None
      then show ?thesis unfolding mem_map_fst_filter mem by (simp add: P)
    qed
    then have "set ds = {c \<in> ?K. d \<in> ?P c}" unfolding dseq by blast
    moreover have "distinct ds"
      unfolding dseq using iter by (rule distinct_map_filter)
    ultimately show ?thesis using ds by blast
  qed
  let ?q = "map fst (filter (\<lambda>(_, degree). degree = 0) (hm_iter \<pi> deg))"
  have wfd: "hm_wf deg"
    using link(2) assms(1) wf unfolding hm_wf_def hm_keys_def by (simp add: o_def hash_order_distinct)
  have keysd: "set (hm_keys deg) = ?K" using link(2) keys0 by simp
  have "kahn_inv ?K ?P ?q deg []"
    using degree_of_iter [OF assms(1), of "\<lambda>d. d = 0" deg] fin keysd
      distinct_map_filter [OF hm_iter_distinct [OF assms(1) wfd]]
    by (simp add: kahn_inv_def deg placed_in_order_def)
  from kahn_loop_inv [OF fin adj this] obtain deg' R where
    loop: "kahn_loop adj ?q deg [] = Some (deg', R)" and inv: "kahn_inv ?K ?P [] deg' R" by blast
  note i = kahn_invD [OF inv]
  have len: "length R = length ?deps \<longleftrightarrow> set R = ?K"
  proof -
    have "card ?K = length ?deps" using wf by (metis distinct_card hm_keys_def hm_wf_def length_map)
    moreover have "length R = card (set R)" using i(1) by (simp add: distinct_card)
    moreover have "set R \<subseteq> ?K" using i(2) by auto
    ultimately show ?thesis by (metis card_subset_eq finite_set)
  qed
  have sort: "topological_sort \<pi> g = Some
      (if set R = ?K then Inr R
       else Inl (CircularDependency (map fst (filter (\<lambda>(_, degree). 0 < degree) (hm_iter \<pi> deg')))))"
    using link(1) loop len by (simp add: topological_sort_def Let_def)
  show ?thesis
  proof (cases "set R = ?K")
    case True
    with sort i(1,3) placed_all_acyclic [OF i(3) True] show ?thesis by simp
  next
    case False
    let ?stuck = "map fst (filter (\<lambda>(_, degree). 0 < degree) (hm_iter \<pi> deg'))"
    have stuck: "set ?stuck = ?K - set R"
    proof -
      have "0 < degree_of deg' c \<longleftrightarrow> c \<notin> set R" if "c \<in> ?K" for c
        using i(2,5) that fin [of c] by (auto simp: card_gt_0_iff)
      then show ?thesis unfolding degree_of_iter [OF assms(1)] i(4) by blast
    qed
    have "\<exists>d. d \<in> ?P c \<inter> (?K - set R)" if "c \<in> ?K - set R" for c
      using that i(2) sub [of c] by fastforce
    with stuck False i(2) kahn_stuck_cyclic [OF inv _ sub False] show ?thesis
      unfolding sort by (auto simp del: set_map set_filter)
  qed
qed

section \<open>The graph of a table\<close>

fun analyze_columns ::
  "hash_order \<Rightarrow> string hset \<Rightarrow> tablecol list \<Rightarrow> (string, column_dependency) hmap \<Rightarrow>
     (string, column_dependency) hmap" where
  "analyze_columns \<pi> cols [] deps = deps"
| "analyze_columns \<pi> cols (column # rest) deps =
     analyze_columns \<pi> cols rest
       (if is_computed column then
          (case computed_expression column of
             Some expr \<Rightarrow>
               AList.update (col_name column)
                 \<lparr>cd_column = col_name column, depends_on = extract_column_dependencies \<pi> cols expr,
                  cd_expression = expr\<rparr> deps
           | None \<Rightarrow> deps)
        else deps)"

definition column_names :: "tabledef \<Rightarrow> string hset" where
  "column_names t = fold List.insert (map col_name (columns t)) []"

definition unordered_graph :: "hash_order \<Rightarrow> tabledef \<Rightarrow> dependency_graph" where
  "unordered_graph \<pi> t = graph_empty\<lparr>dependencies := analyze_columns \<pi> (column_names t) (columns t) []\<rparr>"

definition build_from_table :: "hash_order \<Rightarrow> tabledef \<Rightarrow> (dependency_error + dependency_graph) option" where
  "build_from_table \<pi> t =
     (let g = unordered_graph \<pi> t in
      case topological_sort \<pi> g of
        None \<Rightarrow> None
      | Some (Inl e) \<Rightarrow> Some (Inl e)
      | Some (Inr order) \<Rightarrow> Some (Inr (g\<lparr>evaluation_order := order\<rparr>)))"

text \<open>Entries of the graph come from computed columns of the table and refer to its columns.\<close>

definition entry_from :: "hash_order \<Rightarrow> tabledef \<Rightarrow> string \<Rightarrow> column_dependency \<Rightarrow> bool" where
  "entry_from \<pi> t c deps \<longleftrightarrow>
     depends_on deps = extract_column_dependencies \<pi> (column_names t) (cd_expression deps) \<and>
     (\<exists>col \<in> set (columns t). is_computed col \<and> col_name col = c \<and>
        computed_expression col = Some (cd_expression deps))"

definition entries_from :: "hash_order \<Rightarrow> tabledef \<Rightarrow> (string, column_dependency) hmap \<Rightarrow> bool" where
  "entries_from \<pi> t m \<longleftrightarrow> hm_wf m \<and> (\<forall>c deps. map_of m c = Some deps \<longrightarrow> entry_from \<pi> t c deps)"

lemma analyze_columns_entries:
  "set cs \<subseteq> set (columns t) \<Longrightarrow> entries_from \<pi> t m \<Longrightarrow>
     entries_from \<pi> t (analyze_columns \<pi> (column_names t) cs m)"
proof (induction cs arbitrary: m)
  case (Cons col cs)
  have "entries_from \<pi> t (AList.update (col_name col)
     \<lparr>cd_column = col_name col, depends_on = extract_column_dependencies \<pi> (column_names t) e, cd_expression = e\<rparr> m)"
    if "is_computed col" "computed_expression col = Some e" for e
    using Cons.prems that by (auto simp: entries_from_def entry_from_def map_of_update)
  with Cons show ?case by (auto split: option.splits)
qed simp

lemma unordered_graph_entries: "entries_from \<pi> t (dependencies (unordered_graph \<pi> t))"
proof -
  have "entries_from \<pi> t []" by (simp add: entries_from_def)
  then show ?thesis by (simp add: unordered_graph_def analyze_columns_entries)
qed

lemma unordered_graph_wf: "dependency_graph_wf (unordered_graph \<pi> t)"
  using unordered_graph_entries [of \<pi> t]
  by (auto simp: dependency_graph_wf_def entries_from_def entry_from_def extract_columns(1) hm_wf_def)

lemma computed_reads_order [simp]: "computed_reads (g\<lparr>evaluation_order := x\<rparr>) = computed_reads g"
  by (intro ext) (simp add: computed_reads_def split: option.split)

lemma evaluation_order_result:
  assumes "is_hash_order \<pi>"
  shows "\<exists>res. build_from_table \<pi> t = Some res \<and>
     (is_ok res \<longleftrightarrow> acyclic {(d, c). d \<in> computed_reads (unordered_graph \<pi> t) c}) \<and>
     (case res of
        Inr g \<Rightarrow> dependencies g = dependencies (unordered_graph \<pi> t) \<and> distinct (evaluation_order g) \<and>
          set (evaluation_order g) = set (hm_keys (dependencies g)) \<and>
          (\<forall>c \<in> set (evaluation_order g). \<forall>d \<in> computed_reads g c.
             index_of (evaluation_order g) d < index_of (evaluation_order g) c)
      | Inl e \<Rightarrow> \<exists>stuck. e = CircularDependency stuck \<and> stuck \<noteq> [] \<and>
          set stuck \<subseteq> set (hm_keys (dependencies (unordered_graph \<pi> t))) \<and>
          (\<forall>c \<in> set stuck. computed_reads (unordered_graph \<pi> t) c \<inter> set stuck \<noteq> {}))"
proof -
  define g where "g = unordered_graph \<pi> t"
  from topological_sort_result [OF assms unordered_graph_wf [of \<pi> t]] obtain res where
    res: "topological_sort \<pi> g = Some res"
    "is_ok res \<longleftrightarrow> acyclic (read_edges (set (hm_keys (dependencies g))) (computed_reads g))"
    "case res of
        Inr order \<Rightarrow> distinct order \<and> set order = set (hm_keys (dependencies g)) \<and>
          placed_in_order (computed_reads g) order
      | Inl e \<Rightarrow> \<exists>stuck. e = CircularDependency stuck \<and> stuck \<noteq> [] \<and>
          set stuck \<subseteq> set (hm_keys (dependencies g)) \<and>
          (\<forall>c \<in> set stuck. computed_reads g c \<inter> set stuck \<noteq> {})"
    unfolding g_def by blast
  have "c \<in> set (hm_keys (dependencies g))" if "d \<in> computed_reads g c" for c d
    using that by (cases "map_of (dependencies g) c") (auto simp: computed_reads_def present_key)
  then have "read_edges (set (hm_keys (dependencies g))) (computed_reads g) = {(d, c). d \<in> computed_reads g c}"
    by (auto simp: read_edges_def)
  with res show ?thesis
    by (cases res) (auto simp: build_from_table_def g_def [symmetric] Let_def placed_before(1))
qed

section \<open>Properties\<close>

text \<open>
  C16: Building the dependency graph of a table never panics. It succeeds exactly when the computed
  columns do not read each other in a cycle, and then the evaluation order has every computed column
  once, after all computed columns it reads. A reported cycle names computed columns each of which
  waits for another one of them.
\<close>

theorem evaluation_order_correct:
  assumes "is_hash_order \<pi>"
  shows "\<exists>res. build_from_table \<pi> t = Some res \<and>
     (is_ok res \<longleftrightarrow> acyclic {(d, c). d \<in> computed_reads (unordered_graph \<pi> t) c}) \<and>
     (case res of
        Inr g \<Rightarrow> dependencies g = dependencies (unordered_graph \<pi> t) \<and> distinct (evaluation_order g) \<and>
          set (evaluation_order g) = set (hm_keys (dependencies g)) \<and>
          (\<forall>c \<in> set (evaluation_order g). \<forall>d \<in> computed_reads g c.
             index_of (evaluation_order g) d < index_of (evaluation_order g) c)
      | Inl e \<Rightarrow> \<exists>stuck. e = CircularDependency stuck \<and> stuck \<noteq> [] \<and>
          set stuck \<subseteq> set (hm_keys (dependencies (unordered_graph \<pi> t))) \<and>
          (\<forall>c \<in> set stuck. computed_reads (unordered_graph \<pi> t) c \<inter> set stuck \<noteq> {}))"
  using assms by (rule evaluation_order_result)

text \<open>A table with the computed column \<open>b\<close> over \<open>a\<close>, which reads the stored column \<open>x\<close>.\<close>

definition stored_column :: "string \<Rightarrow> string \<Rightarrow> tablecol" where
  "stored_column name ty = TableColumn name (TIdentifier ty []) [] None False None"

definition computed_column :: "string \<Rightarrow> expression \<Rightarrow> tablecol" where
  "computed_column name e = TableColumn name TNone [] None True (Some e)"

definition demo_table :: tabledef where
  "demo_table = TableDef ''T''
     [stored_column ''x'' ''u64'',
      computed_column ''b'' (EBinaryOp (EIdentifier ''a'') Mul (EIdentifier ''a'')),
      computed_column ''a'' (EBinaryOp (EIdentifier ''x'') Add (EIdentifier ''x''))]"

theorem evaluation_order_correct_witness:
  "\<exists>g. build_from_table rev demo_table = Some (Inr g) \<and> evaluation_order g = [''a'', ''b''] \<and>
     index_of (evaluation_order g) ''a'' < index_of (evaluation_order g) ''b''"
proof -
  have "map_option (map_sum id (\<lambda>g. (evaluation_order g, computed_reads g ''b'' = {''a''})))
      (build_from_table rev demo_table) = Some (Inr ([''a'', ''b''], True))"
    by code_simp
  then obtain g where g: "build_from_table rev demo_table = Some (Inr g)" "evaluation_order g = [''a'', ''b'']"
    "computed_reads g ''b'' = {''a''}"
    by (auto simp: map_option_case map_sum_def split: option.splits sum.splits)
  with evaluation_order_correct [OF hash_order_rev, of demo_table] show ?thesis by auto
qed

end
