(* ===== verification/Computed.thy ===== *)
theory Computed
  imports Values Dependencies
begin

text \<open>
  \<open>LazyEvaluationEngine\<close> of \<open>src/computed_columns.rs\<close>: the evaluation of computed columns
  with a cache that dirty marks invalidate. The methods take \<open>&mut self\<close>, so each returns the
  engine it leaves behind beside its result.

  An evaluation can also bring the process down: overflow and division by zero in \<open>u64\<close>
  arithmetic, and the stack when computed columns nest too deeply. These are the left values of an
  outcome (\<open>abort\<close>). The argument \<open>fuel\<close> bounds the nesting of computed columns, and is shown
  to suffice when it exceeds their number. Error messages print strings with \<open>{:?}\<close>, whose
  escapes need the Unicode tables of the standard library: that printer is the parameter
  \<open>\<delta>\<close>.
\<close>

section \<open>Printing\<close>

fun debug_binary :: "binary_operator \<Rightarrow> string" where
  "debug_binary Add = ''Add''"
| "debug_binary Sub = ''Sub''"
| "debug_binary Mul = ''Mul''"
| "debug_binary Div = ''Div''"
| "debug_binary Mod = ''Mod''"
| "debug_binary ElementMul = ''ElementMul''"
| "debug_binary ElementDiv = ''ElementDiv''"
| "debug_binary ElementMod = ''ElementMod''"
| "debug_binary ShiftLeft = ''ShiftLeft''"
| "debug_binary ShiftRight = ''ShiftRight''"
| "debug_binary And = ''And''"
| "debug_binary Or = ''Or''"
| "debug_binary Xor = ''Xor''"
| "debug_binary Equal = ''Equal''"
| "debug_binary NotEqual = ''NotEqual''"
| "debug_binary Less = ''Less''"
| "debug_binary Greater = ''Greater''"
| "debug_binary LessEqual = ''LessEqual''"
| "debug_binary GreaterEqual = ''GreaterEqual''"

fun debug_unary :: "unary_operator \<Rightarrow> string" where
  "debug_unary Negate = ''Negate''"
| "debug_unary Not = ''Not''"
| "debug_unary BitwiseNot = ''BitwiseNot''"
| "debug_unary Deref = ''Deref''"
| "debug_unary AddressOf = ''AddressOf''"
| "debug_unary MutAddressOf = ''MutAddressOf''"

definition show_int :: "int \<Rightarrow> string" where
  "show_int i = (if i < 0 then CHR ''-'' # show_nat (nat (- i)) else show_nat (nat i))"

fun debug_value :: "(string \<Rightarrow> string) \<Rightarrow> column_value \<Rightarrow> string" where
  "debug_value \<delta> (VU64 v) = ''U64('' @ show_nat (unat v) @ '')''"
| "debug_value \<delta> (VI32 v) = ''I32('' @ show_int (sint v) @ '')''"
| "debug_value \<delta> (VString s) = ''String('' @ \<delta> s @ '')''"
| "debug_value \<delta> (VBool b) = ''Bool('' @ (if b then ''true'' else ''false'') @ '')''"
| "debug_value \<delta> (VF64 v) = ''F64('' @ show_nat (unat v) @ '')''"

section \<open>Trimming\<close>

text \<open>The characters with the property \<open>White_Space\<close>, in UTF-8.\<close>

definition white_space :: "string list" where
  "white_space = map utf8_encode
     ([9, 10, 11, 12, 13, 32, 0x85, 0xA0, 0x1680] @ [0x2000..<0x200B] @
      [0x2028, 0x2029, 0x202F, 0x205F, 0x3000])"

definition strip_prefix :: "string \<Rightarrow> string \<Rightarrow> string option" where
  "strip_prefix p s = (if p \<noteq> [] \<and> take (length p) s = p then Some (drop (length p) s) else None)"

function trim_start_with :: "string list \<Rightarrow> string \<Rightarrow> string" where
  "trim_start_with ws s =
     (case List.find (\<lambda>p. strip_prefix p s \<noteq> None) ws of
        None \<Rightarrow> s
      | Some p \<Rightarrow> trim_start_with ws (drop (length p) s))"
  by pat_completeness auto
termination
proof (relation "measure (\<lambda>(ws, s). length s)", goal_cases)
  case (2 ws s p)
  then have "strip_prefix p s \<noteq> None" by (auto dest: find_Some_set)
  then have "p \<noteq> [] \<and> take (length p) s = p" by (auto simp: strip_prefix_def split: if_splits)
  then have "0 < length p" "0 < length s" by auto
  then show ?case by simp
qed simp

declare trim_start_with.simps [simp del]

definition trim_string :: "string \<Rightarrow> string" where
  "trim_string s = rev (trim_start_with (map rev white_space) (rev (trim_start_with white_space s)))"

section \<open>Errors and operators\<close>

datatype evaluation_error =
    DependencyErr dependency_error
  | ExpressionEvaluationError string
  | TypeMismatchError string
  | MissingDependencyValue string row_id

datatype abort = ArithmeticOverflow | DivisionByZero | StackExhausted | UnwrapOnNone

type_synonym eval_result = "abort + (evaluation_error + column_value)"

definition unsupported :: "string \<Rightarrow> string \<Rightarrow> eval_result" where
  "unsupported what operator =
     Inr (Inl (ExpressionEvaluationError
       (''Unsupported operator '' @ operator @ '' for '' @ what @ '' values'')))"

text \<open>Arithmetic on \<open>u64\<close>, with the panics of a build with overflow checks.\<close>

definition u64_binary :: "binary_operator \<Rightarrow> u64 \<Rightarrow> u64 \<Rightarrow> eval_result" where
  "u64_binary op l r =
     (case op of
        Add \<Rightarrow> if uint l + uint r < 2 ^ 64 then Inr (Inr (VU64 (l + r))) else Inl ArithmeticOverflow
      | Sub \<Rightarrow> if r \<le> l then Inr (Inr (VU64 (l - r))) else Inl ArithmeticOverflow
      | Mul \<Rightarrow> if uint l * uint r < 2 ^ 64 then Inr (Inr (VU64 (l * r))) else Inl ArithmeticOverflow
      | Div \<Rightarrow> if r = 0 then Inl DivisionByZero else Inr (Inr (VU64 (l div r)))
      | Equal \<Rightarrow> Inr (Inr (VBool (l = r)))
      | NotEqual \<Rightarrow> Inr (Inr (VBool (l \<noteq> r)))
      | Less \<Rightarrow> Inr (Inr (VBool (l < r)))
      | LessEqual \<Rightarrow> Inr (Inr (VBool (l \<le> r)))
      | Greater \<Rightarrow> Inr (Inr (VBool (r < l)))
      | GreaterEqual \<Rightarrow> Inr (Inr (VBool (r \<le> l)))
      | _ \<Rightarrow> unsupported ''u64'' (debug_binary op))"

definition f64_binary :: "string \<Rightarrow> binary_operator \<Rightarrow> f64 \<Rightarrow> f64 \<Rightarrow> eval_result" where
  "f64_binary what op l r =
     (case op of
        Add \<Rightarrow> Inr (Inr (VF64 (f64_add l r)))
      | Sub \<Rightarrow> Inr (Inr (VF64 (f64_sub l r)))
      | Mul \<Rightarrow> Inr (Inr (VF64 (f64_mul l r)))
      | Div \<Rightarrow> Inr (Inr (VF64 (f64_div l r)))
      | Equal \<Rightarrow> Inr (Inr (VBool (f64_eq l r)))
      | NotEqual \<Rightarrow> Inr (Inr (VBool (\<not> f64_eq l r)))
      | Less \<Rightarrow> Inr (Inr (VBool (f64_less l r)))
      | LessEqual \<Rightarrow> Inr (Inr (VBool (f64_le l r)))
      | Greater \<Rightarrow> Inr (Inr (VBool (f64_less r l)))
      | GreaterEqual \<Rightarrow> Inr (Inr (VBool (f64_le r l)))
      | _ \<Rightarrow> unsupported what (debug_binary op))"

fun apply_binary_operator ::
  "(string \<Rightarrow> string) \<Rightarrow> column_value \<Rightarrow> binary_operator \<Rightarrow> column_value \<Rightarrow> eval_result" where
  "apply_binary_operator \<delta> (VU64 l) op (VU64 r) = u64_binary op l r"
| "apply_binary_operator \<delta> (VF64 l) op (VF64 r) = f64_binary ''f64'' op l r"
| "apply_binary_operator \<delta> (VU64 l) op (VF64 r) = f64_binary ''mixed numeric'' op (f64_of_u64 l) r"
| "apply_binary_operator \<delta> (VF64 l) op (VU64 r) = f64_binary ''mixed numeric'' op l (f64_of_u64 r)"
| "apply_binary_operator \<delta> (VString l) op (VString r) =
     (case op of
        Add \<Rightarrow> Inr (Inr (VString (l @ r)))
      | Equal \<Rightarrow> Inr (Inr (VBool (l = r)))
      | NotEqual \<Rightarrow> Inr (Inr (VBool (l \<noteq> r)))
      | _ \<Rightarrow> unsupported ''string'' (debug_binary op))"
| "apply_binary_operator \<delta> (VBool l) op (VBool r) =
     (case op of
        And \<Rightarrow> Inr (Inr (VBool (l \<and> r)))
      | Or \<Rightarrow> Inr (Inr (VBool (l \<or> r)))
      | Equal \<Rightarrow> Inr (Inr (VBool (l = r)))
      | NotEqual \<Rightarrow> Inr (Inr (VBool (l \<noteq> r)))
      | _ \<Rightarrow> unsupported ''boolean'' (debug_binary op))"
| "apply_binary_operator \<delta> left op right =
     Inr (Inl (TypeMismatchError (''Cannot apply operator '' @ debug_binary op @ '' to values '' @
       debug_value \<delta> left @ '' and '' @ debug_value \<delta> right)))"

text \<open>The negation of a \<open>u64\<close> goes through \<open>i64\<close>, and overflows at its least value.\<close>

fun apply_unary_operator :: "(string \<Rightarrow> string) \<Rightarrow> unary_operator \<Rightarrow> column_value \<Rightarrow> eval_result" where
  "apply_unary_operator \<delta> Negate (VU64 v) =
     (if v = 0x8000000000000000 then Inl ArithmeticOverflow else Inr (Inr (VU64 (- v))))"
| "apply_unary_operator \<delta> Negate (VF64 bits) = Inr (Inr (VF64 (f64_neg bits)))"
| "apply_unary_operator \<delta> Not (VBool b) = Inr (Inr (VBool (\<not> b)))"
| "apply_unary_operator \<delta> op v =
     Inr (Inl (ExpressionEvaluationError (''Unsupported unary operator '' @ debug_unary op @ '' for value '' @
       debug_value \<delta> v)))"

fun column_value_to_bool :: "column_value \<Rightarrow> bool" where
  "column_value_to_bool (VBool b) = b"
| "column_value_to_bool (VU64 v) = (v \<noteq> 0)"
| "column_value_to_bool (VI32 v) = (v \<noteq> 0)"
| "column_value_to_bool (VF64 bits) = (\<not> f64_eq bits 0)"
| "column_value_to_bool (VString s) = (s \<noteq> [])"

fun builtin_len :: "column_value \<Rightarrow> evaluation_error + column_value" where
  "builtin_len (VString s) = Inr (VU64 (of_nat (length s)))"
| "builtin_len _ = Inl (TypeMismatchError ''len() function expects a string argument'')"

fun builtin_trim :: "column_value \<Rightarrow> evaluation_error + column_value" where
  "builtin_trim (VString s) = Inr (VString (trim_string s))"
| "builtin_trim _ = Inl (TypeMismatchError ''trim() function expects a string argument'')"

fun builtin_abs :: "column_value \<Rightarrow> evaluation_error + column_value" where
  "builtin_abs (VF64 bits) = Inr (VF64 (f64_abs bits))"
| "builtin_abs (VU64 v) = Inr (VU64 v)"
| "builtin_abs _ = Inl (TypeMismatchError ''abs() function expects a numeric argument'')"

definition builtin :: "string \<Rightarrow> (column_value \<Rightarrow> evaluation_error + column_value) option" where
  "builtin name =
     (if name = ''len'' then Some builtin_len else if name = ''trim'' then Some builtin_trim
      else if name = ''abs'' then Some builtin_abs else None)"

section \<open>The engine\<close>

type_synonym columnar_storage = "(string, column_data) hmap"

record engine =
  dependency_graph :: dependency_graph
  cached_values :: "(string, (row_id, column_value) hmap) hmap"
  dirty_columns :: "string hset"
  dirty_rows :: "(string, row_id hset) hmap"

definition engine_new :: "hash_order \<Rightarrow> tabledef \<Rightarrow> (evaluation_error + engine) option" where
  "engine_new \<pi> t =
     (case build_from_table \<pi> t of
        None \<Rightarrow> None
      | Some (Inl e) \<Rightarrow> Some (Inl (DependencyErr e))
      | Some (Inr g) \<Rightarrow>
          Some (Inr \<lparr>dependency_graph = g, cached_values = [], dirty_columns = [], dirty_rows = []\<rparr>))"

definition row_is_dirty :: "engine \<Rightarrow> string \<Rightarrow> row_id \<Rightarrow> bool" where
  "row_is_dirty e c row = (case map_of (dirty_rows e) c of None \<Rightarrow> False | Some rows \<Rightarrow> row \<in> set rows)"

definition cached_at :: "engine \<Rightarrow> string \<Rightarrow> row_id \<Rightarrow> column_value option" where
  "cached_at e c row = (case map_of (cached_values e) c of None \<Rightarrow> None | Some cache \<Rightarrow> map_of cache row)"

definition cache_hit :: "engine \<Rightarrow> string \<Rightarrow> row_id \<Rightarrow> column_value option" where
  "cache_hit e c row =
     (case cached_at e c row of
        None \<Rightarrow> None
      | Some v \<Rightarrow> if \<not> row_is_dirty e c row \<and> c \<notin> set (dirty_columns e) then Some v else None)"

definition store_computed :: "engine \<Rightarrow> string \<Rightarrow> row_id \<Rightarrow> column_value \<Rightarrow> engine" where
  "store_computed e c row v =
     e\<lparr>cached_values :=
         (let cache = (case map_of (cached_values e) c of None \<Rightarrow> [] | Some cache \<Rightarrow> cache)
          in AList.update c (AList.update row v cache) (cached_values e)),
       dirty_columns := removeAll c (dirty_columns e),
       dirty_rows :=
         (case map_of (dirty_rows e) c of
            None \<Rightarrow> dirty_rows e
          | Some rows \<Rightarrow> AList.update c (removeAll row rows) (dirty_rows e))\<rparr>"

type_synonym eval_outcome = "abort + (evaluation_error + column_value) \<times> engine"

text \<open>\<open>?\<close> on the result of an evaluation\<close>

definition and_then :: "eval_outcome \<Rightarrow> (column_value \<Rightarrow> engine \<Rightarrow> eval_outcome) \<Rightarrow> eval_outcome" where
  "and_then x k =
     (case x of Inl a \<Rightarrow> Inl a | Inr (Inl err, e) \<Rightarrow> Inr (Inl err, e) | Inr (Inr v, e) \<Rightarrow> k v e)"

definition with_engine :: "eval_result \<Rightarrow> engine \<Rightarrow> eval_outcome" where
  "with_engine r e = (case r of Inl a \<Rightarrow> Inl a | Inr res \<Rightarrow> Inr (res, e))"

lemma and_then_cong [fundef_cong]:
  "x = x' \<Longrightarrow> (\<And>v e. x' = Inr (Inr v, e) \<Longrightarrow> k v e = k' v e) \<Longrightarrow> and_then x k = and_then x' k'"
  by (auto simp: and_then_def split: sum.splits prod.splits)

definition stored_value :: "columnar_storage \<Rightarrow> string \<Rightarrow> row_id \<Rightarrow> evaluation_error + column_value" where
  "stored_value st c row =
     (case map_of st c of
        None \<Rightarrow> Inl (MissingDependencyValue c row)
      | Some col \<Rightarrow> (case get_value col row of None \<Rightarrow> Inl (MissingDependencyValue c row) | Some v \<Rightarrow> Inr v))"

function evaluate_expression ::
    "(string \<Rightarrow> string) \<Rightarrow> columnar_storage \<Rightarrow> row_id \<Rightarrow> nat \<Rightarrow> expression \<Rightarrow> engine \<Rightarrow> eval_outcome"
  and get_computed_value ::
    "(string \<Rightarrow> string) \<Rightarrow> columnar_storage \<Rightarrow> row_id \<Rightarrow> nat \<Rightarrow> string \<Rightarrow> engine \<Rightarrow> eval_outcome"
where
  "evaluate_expression \<delta> st row fuel expr e =
     (case expr of
        ELiteral l \<Rightarrow> Inr (Inr (literal_value l), e)
      | EIdentifier c \<Rightarrow>
          if is_computed_column (dependency_graph e) c then get_computed_value \<delta> st row fuel c e
          else Inr (stored_value st c row, e)
      | EBinaryOp left op right \<Rightarrow>
          and_then (evaluate_expression \<delta> st row fuel left e) (\<lambda>l e1.
            and_then (evaluate_expression \<delta> st row fuel right e1) (\<lambda>r e2.
              with_engine (apply_binary_operator \<delta> l op r) e2))
      | EUnaryOp op operand \<Rightarrow>
          and_then (evaluate_expression \<delta> st row fuel operand e) (\<lambda>v e1.
            with_engine (apply_unary_operator \<delta> op v) e1)
      | ECall f targs args \<Rightarrow>
          (case f of
             EIdentifier name \<Rightarrow>
               (case builtin name of
                  None \<Rightarrow> Inr (Inl (ExpressionEvaluationError (''Unknown function: '' @ name)), e)
                | Some fn \<Rightarrow>
                    (case args of
                       [a] \<Rightarrow> and_then (evaluate_expression \<delta> st row fuel (arg_value a) e) (\<lambda>v e1. Inr (fn v, e1))
                     | _ \<Rightarrow> Inr (Inl (ExpressionEvaluationError
                         (name @ ''() function expects exactly one argument'')), e)))
           | _ \<Rightarrow> Inr (Inl (ExpressionEvaluationError ''Function calls must use identifier expressions''), e))
      | EIfExpr condition then_expr else_expr \<Rightarrow>
          and_then (evaluate_expression \<delta> st row fuel condition e) (\<lambda>v e1.
            if column_value_to_bool v then evaluate_expression \<delta> st row fuel then_expr e1
            else (case else_expr of
                    Some else_branch \<Rightarrow> evaluate_expression \<delta> st row fuel else_branch e1
                  | None \<Rightarrow> Inr (Inl (ExpressionEvaluationError
                      ''Inline if expression without else branch is unsupported''), e1)))
      | _ \<Rightarrow> Inr (Inl (ExpressionEvaluationError ''Unsupported expression type in computed column''), e))"
| "get_computed_value \<delta> st row fuel c e =
     (case cache_hit e c row of
        Some v \<Rightarrow> Inr (Inr v, e)
      | None \<Rightarrow>
          (case map_of (dependencies (dependency_graph e)) c of
             None \<Rightarrow> Inr (Inl (ExpressionEvaluationError (''Column '' @ squote c @ '' is not a computed column'')), e)
           | Some d \<Rightarrow>
               (case fuel of
                  0 \<Rightarrow> Inl StackExhausted
                | Suc fuel' \<Rightarrow>
                    and_then (evaluate_expression \<delta> st row fuel' (cd_expression d) e) (\<lambda>v e1.
                      Inr (Inr v, store_computed e1 c row v)))))"
  by pat_completeness auto
termination
proof (relation "inv_image (less_than <*lex*> less_than)
    (case_sum (\<lambda>(_, _, _, fuel, expr, _). (fuel, Suc (size expr))) (\<lambda>(_, _, _, fuel, _, _). (fuel, 0 :: nat)))",
    goal_cases)
qed (auto simp: less_Suc_eq_le trans_le_add1 trans_le_add2 part_sizes argument_size [of a "[a]" for a, simplified]
   dest: element_size [of _ _ size])

declare evaluate_expression.simps [simp del] get_computed_value.simps [simp del]

section \<open>Invalidation and statistics\<close>

definition insert_dirty_row :: "string \<Rightarrow> row_id \<Rightarrow> engine \<Rightarrow> engine" where
  "insert_dirty_row c row e =
     e\<lparr>dirty_rows := AList.update c
         (List.insert row (case map_of (dirty_rows e) c of None \<Rightarrow> [] | Some rows \<Rightarrow> rows)) (dirty_rows e)\<rparr>"

definition mark_column_dirty :: "hash_order \<Rightarrow> engine \<Rightarrow> string \<Rightarrow> engine" where
  "mark_column_dirty \<pi> e c =
     fold (\<lambda>d e. e\<lparr>dirty_columns := List.insert d (dirty_columns e)\<rparr>)
       (get_dependents \<pi> (dependency_graph e) c)
       (e\<lparr>dirty_columns := List.insert c (dirty_columns e)\<rparr>)"

definition mark_row_dirty :: "hash_order \<Rightarrow> engine \<Rightarrow> string \<Rightarrow> row_id \<Rightarrow> engine" where
  "mark_row_dirty \<pi> e c row =
     fold (\<lambda>d. insert_dirty_row d row) (get_dependents \<pi> (dependency_graph e) c)
       (insert_dirty_row c row e)"

definition invalidate_all :: "hash_order \<Rightarrow> engine \<Rightarrow> engine" where
  "invalidate_all \<pi> e =
     e\<lparr>cached_values := [], dirty_rows := [],
       dirty_columns := fold List.insert (\<pi> (hm_keys (dependencies (dependency_graph e)))) []\<rparr>"

definition get_cache_stats :: "engine \<Rightarrow> (string, usize) hmap" where
  "get_cache_stats e = map (\<lambda>(c, cache). (c, length cache)) (cached_values e)"

text \<open>The evaluator case by case.\<close>

lemma evaluate_simps:
  "evaluate_expression \<delta> st row fuel (ELiteral l) e = Inr (Inr (literal_value l), e)"
  "evaluate_expression \<delta> st row fuel (EIdentifier c) e =
     (if is_computed_column (dependency_graph e) c then get_computed_value \<delta> st row fuel c e
      else Inr (stored_value st c row, e))"
  "evaluate_expression \<delta> st row fuel (EBinaryOp left op right) e =
     and_then (evaluate_expression \<delta> st row fuel left e) (\<lambda>l e1.
       and_then (evaluate_expression \<delta> st row fuel right e1) (\<lambda>r e2.
         with_engine (apply_binary_operator \<delta> l op r) e2))"
  "evaluate_expression \<delta> st row fuel (EUnaryOp uop operand) e =
     and_then (evaluate_expression \<delta> st row fuel operand e) (\<lambda>v e1.
       with_engine (apply_unary_operator \<delta> uop v) e1)"
  by (simp_all add: evaluate_expression.simps)

end
