(* ===== verification/Computed_Reference.thy ===== *)
theory Computed_Reference
  imports Computed
begin

text \<open>
  What the lazy evaluation of computed columns (theory Computed) is compared with: evaluation by
  need without a cache. The cached engine returns exactly the values of the reference, for any
  cache whose entries are right where no row is marked dirty; the nesting bound is never met on a
  graph built from a table. The last section shows two ways stale values survive.
\<close>

section \<open>Evaluation without a cache\<close>

text \<open>
  The reference: the same evaluation by need, with nothing remembered. \<open>fuel\<close> bounds the
  nesting of computed columns as above.
\<close>

definition bind_result :: "eval_result \<Rightarrow> (column_value \<Rightarrow> eval_result) \<Rightarrow> eval_result" where
  "bind_result x k = (case x of Inl a \<Rightarrow> Inl a | Inr (Inl err) \<Rightarrow> Inr (Inl err) | Inr (Inr v) \<Rightarrow> k v)"

lemma bind_result_cong [fundef_cong]:
  "x = x' \<Longrightarrow> (\<And>v. x' = Inr (Inr v) \<Longrightarrow> k v = k' v) \<Longrightarrow> bind_result x k = bind_result x' k'"
  by (auto simp: bind_result_def split: sum.splits)

function direct_value ::
    "(string \<Rightarrow> string) \<Rightarrow> columnar_storage \<Rightarrow> row_id \<Rightarrow> (string, column_dependency) hmap \<Rightarrow> nat \<Rightarrow>
      expression \<Rightarrow> eval_result"
  and direct_column ::
    "(string \<Rightarrow> string) \<Rightarrow> columnar_storage \<Rightarrow> row_id \<Rightarrow> (string, column_dependency) hmap \<Rightarrow> nat \<Rightarrow>
      string \<Rightarrow> eval_result"
where
  "direct_value \<delta> st row deps fuel expr =
     (case expr of
        ELiteral l \<Rightarrow> Inr (Inr (literal_value l))
      | EIdentifier c \<Rightarrow>
          if hm_contains deps c then direct_column \<delta> st row deps fuel c else Inr (stored_value st c row)
      | EBinaryOp left op right \<Rightarrow>
          bind_result (direct_value \<delta> st row deps fuel left) (\<lambda>l.
            bind_result (direct_value \<delta> st row deps fuel right) (apply_binary_operator \<delta> l op))
      | EUnaryOp op operand \<Rightarrow>
          bind_result (direct_value \<delta> st row deps fuel operand) (apply_unary_operator \<delta> op)
      | ECall f targs args \<Rightarrow>
          (case f of
             EIdentifier name \<Rightarrow>
               (case builtin name of
                  None \<Rightarrow> Inr (Inl (ExpressionEvaluationError (''Unknown function: '' @ name)))
                | Some fn \<Rightarrow>
                    (case args of
                       [a] \<Rightarrow> bind_result (direct_value \<delta> st row deps fuel (arg_value a)) (\<lambda>v. Inr (fn v))
                     | _ \<Rightarrow> Inr (Inl (ExpressionEvaluationError
                         (name @ ''() function expects exactly one argument'')))))
           | _ \<Rightarrow> Inr (Inl (ExpressionEvaluationError ''Function calls must use identifier expressions'')))
      | EIfExpr condition then_expr else_expr \<Rightarrow>
          bind_result (direct_value \<delta> st row deps fuel condition) (\<lambda>v.
            if column_value_to_bool v then direct_value \<delta> st row deps fuel then_expr
            else (case else_expr of
                    Some else_branch \<Rightarrow> direct_value \<delta> st row deps fuel else_branch
                  | None \<Rightarrow> Inr (Inl (ExpressionEvaluationError
                      ''Inline if expression without else branch is unsupported''))))
      | _ \<Rightarrow> Inr (Inl (ExpressionEvaluationError ''Unsupported expression type in computed column'')))"
| "direct_column \<delta> st row deps fuel c =
     (case map_of deps c of
        None \<Rightarrow> Inr (Inl (ExpressionEvaluationError (''Column '' @ squote c @ '' is not a computed column'')))
      | Some d \<Rightarrow>
          (case fuel of
             0 \<Rightarrow> Inl StackExhausted
           | Suc fuel' \<Rightarrow> direct_value \<delta> st row deps fuel' (cd_expression d)))"
  by pat_completeness auto
termination
proof (relation "inv_image (less_than <*lex*> less_than)
    (case_sum (\<lambda>(_, _, _, _, fuel, expr). (fuel, Suc (size expr))) (\<lambda>(_, _, _, _, fuel, _). (fuel, 0 :: nat)))",
    goal_cases)
qed (auto simp: less_Suc_eq_le trans_le_add1 trans_le_add2 part_sizes argument_size [of a "[a]" for a, simplified]
   dest: element_size [of _ _ size])

declare direct_value.simps [simp del] direct_column.simps [simp del]

text \<open>More fuel never changes a value once there was enough of it.\<close>

lemma bind_result_fueled:
  assumes "bind_result x k \<noteq> Inl StackExhausted"
    and "x \<noteq> Inl StackExhausted \<Longrightarrow> x' = x"
    and "\<And>v. x = Inr (Inr v) \<Longrightarrow> k v \<noteq> Inl StackExhausted \<Longrightarrow> k' v = k v"
  shows "bind_result x' k' = bind_result x k"
  using assms by (auto simp: bind_result_def split: sum.splits)

lemma direct_fuel_Suc:
  "direct_value \<delta> st row deps fuel expr \<noteq> Inl StackExhausted \<longrightarrow>
     direct_value \<delta> st row deps (Suc fuel) expr = direct_value \<delta> st row deps fuel expr"
  "direct_column \<delta> st row deps fuel c \<noteq> Inl StackExhausted \<longrightarrow>
     direct_column \<delta> st row deps (Suc fuel) c = direct_column \<delta> st row deps fuel c"
proof (induction \<delta> st row deps fuel expr and \<delta> st row deps fuel c rule: direct_value_direct_column.induct)
  case (1 \<delta> st row deps fuel expr)
  note step = direct_value.simps [of \<delta> st row deps _ expr]
  show ?case
  proof (cases expr)
    case (EIdentifier c)
    from 1(1) [OF EIdentifier] show ?thesis unfolding step unfolding EIdentifier expression.case by simp
  next
    case (EBinaryOp left op right)
    show ?thesis unfolding step unfolding EBinaryOp expression.case
      using 1(2,3) [OF EBinaryOp] by (auto intro: bind_result_fueled)
  next
    case (EUnaryOp op operand)
    show ?thesis unfolding step unfolding EUnaryOp expression.case
      using 1(4) [OF EUnaryOp] by (auto intro: bind_result_fueled)
  next
    case (ECall f targs args)
    show ?thesis
    proof (cases "\<exists>name fn a. f = EIdentifier name \<and> builtin name = Some fn \<and> args = [a]")
      case True
      then obtain name fn a where a: "f = EIdentifier name" "builtin name = Some fn" "args = [a]" by blast
      from 1(5) [OF ECall a(1,2,3)] show ?thesis
        unfolding step unfolding ECall expression.case a by (auto intro: bind_result_fueled simp: a)
    next
      case False
      then show ?thesis
        unfolding step unfolding ECall expression.case by (cases f) (auto split: option.splits list.splits)
    qed
  next
    case (EIfExpr condition then_expr else_expr)
    show ?thesis unfolding step unfolding EIfExpr expression.case
      using 1(6,7,8) [OF EIfExpr] by (cases else_expr) (auto intro!: bind_result_fueled split: if_splits)
  qed (unfold step, simp_all)
next
  case (2 \<delta> st row deps fuel c)
  then show ?case by (auto simp: direct_column.simps split: option.splits nat.splits)
qed

lemma direct_fuel_mono:
  assumes "fuel \<le> fuel'"
  shows "direct_value \<delta> st row deps fuel expr \<noteq> Inl StackExhausted \<Longrightarrow>
      direct_value \<delta> st row deps fuel' expr = direct_value \<delta> st row deps fuel expr"
    and "direct_column \<delta> st row deps fuel c \<noteq> Inl StackExhausted \<Longrightarrow>
      direct_column \<delta> st row deps fuel' c = direct_column \<delta> st row deps fuel c"
  using assms by (induction fuel' rule: dec_induct) (metis direct_fuel_Suc)+

text \<open>\<open>r\<close> is the value of the expression or column, whatever the nesting needed.\<close>

definition value_is ::
  "(string \<Rightarrow> string) \<Rightarrow> columnar_storage \<Rightarrow> row_id \<Rightarrow> (string, column_dependency) hmap \<Rightarrow> expression \<Rightarrow>
     eval_result \<Rightarrow> bool" where
  "value_is \<delta> st row deps expr r \<longleftrightarrow>
     r \<noteq> Inl StackExhausted \<and> (\<exists>fuel. direct_value \<delta> st row deps fuel expr = r)"

definition column_is ::
  "(string \<Rightarrow> string) \<Rightarrow> columnar_storage \<Rightarrow> row_id \<Rightarrow> (string, column_dependency) hmap \<Rightarrow> string \<Rightarrow>
     eval_result \<Rightarrow> bool" where
  "column_is \<delta> st row deps c r \<longleftrightarrow>
     r \<noteq> Inl StackExhausted \<and> (\<exists>fuel. direct_column \<delta> st row deps fuel c = r)"

lemma column_is_unique:
  assumes "column_is \<delta> st row deps c r" and "column_is \<delta> st row deps c r'"
  shows "r = r'"
proof -
  from assms obtain f f' where "direct_column \<delta> st row deps f c = r" "direct_column \<delta> st row deps f' c = r'"
    and ne: "r \<noteq> Inl StackExhausted" "r' \<noteq> Inl StackExhausted"
    by (auto simp: column_is_def)
  then have "direct_column \<delta> st row deps (max f f') c = r" "direct_column \<delta> st row deps (max f f') c = r'"
    using direct_fuel_mono(2) [of f "max f f'"] direct_fuel_mono(2) [of f' "max f f'"] by fastforce+
  then show ?thesis by simp
qed

lemma column_is_Some:
  assumes "map_of deps c = Some d"
  shows "column_is \<delta> st row deps c r \<longleftrightarrow> value_is \<delta> st row deps (cd_expression d) r"
proof
  assume "column_is \<delta> st row deps c r"
  then obtain f where f: "direct_column \<delta> st row deps f c = r" "r \<noteq> Inl StackExhausted" by (auto simp: column_is_def)
  with assms obtain f' where "f = Suc f'" by (cases f) (auto simp: direct_column.simps)
  with f assms show "value_is \<delta> st row deps (cd_expression d) r" by (auto simp: value_is_def direct_column.simps)
next
  assume "value_is \<delta> st row deps (cd_expression d) r"
  then obtain f where "direct_value \<delta> st row deps f (cd_expression d) = r" "r \<noteq> Inl StackExhausted"
    by (auto simp: value_is_def)
  with assms have "direct_column \<delta> st row deps (Suc f) c = r" by (simp add: direct_column.simps)
  with \<open>r \<noteq> _\<close> show "column_is \<delta> st row deps c r" by (auto simp: column_is_def)
qed

text \<open>How the values of parts determine the value of an expression.\<close>

definition is_value :: "eval_result \<Rightarrow> bool" where
  "is_value r \<longleftrightarrow> (\<exists>v. r = Inr (Inr v))"

lemma value_is_from:
  assumes "value_is \<delta> st row deps expr r"
  shows "\<exists>f. \<forall>g \<ge> f. direct_value \<delta> st row deps g expr = r"
  using assms direct_fuel_mono(1) unfolding value_is_def by metis

lemma value_isI: "\<forall>g \<ge> f. direct_value \<delta> st row deps g expr = r \<Longrightarrow> r \<noteq> Inl StackExhausted \<Longrightarrow> value_is \<delta> st row deps expr r"
  unfolding value_is_def by blast

lemma value_is_bind:
  assumes step: "\<And>g. direct_value \<delta> st row deps g expr = bind_result (direct_value \<delta> st row deps g e1) (k g)"
    and e1: "value_is \<delta> st row deps e1 r1"
  shows "\<not> is_value r1 \<Longrightarrow> value_is \<delta> st row deps expr r1"
    and "r1 = Inr (Inr v) \<Longrightarrow> \<forall>g \<ge> f. k g v = r \<Longrightarrow> r \<noteq> Inl StackExhausted \<Longrightarrow> value_is \<delta> st row deps expr r"
proof -
  from value_is_from [OF e1] obtain f1 where f1: "\<forall>g \<ge> f1. direct_value \<delta> st row deps g e1 = r1" by blast
  show "value_is \<delta> st row deps expr r1" if "\<not> is_value r1"
  proof (rule value_isI [of f1])
    from that have "bind_result r1 h = r1" for h
      by (auto simp: bind_result_def is_value_def split: sum.splits)
    with f1 show "\<forall>g \<ge> f1. direct_value \<delta> st row deps g expr = r1" by (simp add: step)
    from e1 show "r1 \<noteq> Inl StackExhausted" by (simp add: value_is_def)
  qed
  show "value_is \<delta> st row deps expr r"
    if "r1 = Inr (Inr v)" "\<forall>g \<ge> f. k g v = r" "r \<noteq> Inl StackExhausted"
    by (rule value_isI [of "max f1 f"]) (use f1 that in \<open>auto simp: step bind_result_def\<close>)
qed

lemma operators_do_not_nest:
  "apply_binary_operator \<delta> l op r \<noteq> Inl StackExhausted" "apply_unary_operator \<delta> uop v \<noteq> Inl StackExhausted"
proof -
  show "apply_binary_operator \<delta> l op r \<noteq> Inl StackExhausted"
    by (cases "(\<delta>, l, op, r)" rule: apply_binary_operator.cases)
      (auto simp: u64_binary_def f64_binary_def unsupported_def split: binary_operator.splits)
  show "apply_unary_operator \<delta> uop v \<noteq> Inl StackExhausted"
    by (cases "(\<delta>, uop, v)" rule: apply_unary_operator.cases) auto
qed

lemma direct_simps:
  "direct_value \<delta> st row deps g (ELiteral l) = Inr (Inr (literal_value l))"
  "direct_value \<delta> st row deps g (EIdentifier c) =
     (if hm_contains deps c then direct_column \<delta> st row deps g c else Inr (stored_value st c row))"
  "direct_value \<delta> st row deps g (EBinaryOp left op right) =
     bind_result (direct_value \<delta> st row deps g left) (\<lambda>l.
       bind_result (direct_value \<delta> st row deps g right) (apply_binary_operator \<delta> l op))"
  "direct_value \<delta> st row deps g (EUnaryOp uop operand) =
     bind_result (direct_value \<delta> st row deps g operand) (apply_unary_operator \<delta> uop)"
  "builtin name = Some fn \<Longrightarrow> direct_value \<delta> st row deps g (ECall (EIdentifier name) targs [a]) =
     bind_result (direct_value \<delta> st row deps g (arg_value a)) (\<lambda>v. Inr (fn v))"
  "direct_value \<delta> st row deps g (EIfExpr condition then_expr else_expr) =
     bind_result (direct_value \<delta> st row deps g condition) (\<lambda>v.
       if column_value_to_bool v then direct_value \<delta> st row deps g then_expr
       else (case else_expr of
               Some else_branch \<Rightarrow> direct_value \<delta> st row deps g else_branch
             | None \<Rightarrow> Inr (Inl (ExpressionEvaluationError
                 ''Inline if expression without else branch is unsupported''))))"
  by (simp_all add: direct_value.simps)

lemma value_is_binary:
  assumes "value_is \<delta> st row deps left l"
  shows "\<not> is_value l \<Longrightarrow> value_is \<delta> st row deps (EBinaryOp left op right) l"
    and "l = Inr (Inr lv) \<Longrightarrow> value_is \<delta> st row deps right r \<Longrightarrow> \<not> is_value r \<Longrightarrow>
      value_is \<delta> st row deps (EBinaryOp left op right) r"
    and "l = Inr (Inr lv) \<Longrightarrow> value_is \<delta> st row deps right (Inr (Inr rv)) \<Longrightarrow>
      value_is \<delta> st row deps (EBinaryOp left op right) (apply_binary_operator \<delta> lv op rv)"
proof -
  note bind = value_is_bind [OF direct_simps(3) assms]
  show "\<not> is_value l \<Longrightarrow> value_is \<delta> st row deps (EBinaryOp left op right) l" by (rule bind(1))
  show "value_is \<delta> st row deps (EBinaryOp left op right) r"
    if "l = Inr (Inr lv)" "value_is \<delta> st row deps right r" "\<not> is_value r"
  proof -
    from value_is_from [OF that(2)] obtain f where "\<forall>g \<ge> f. direct_value \<delta> st row deps g right = r" by blast
    with that show ?thesis
      by (intro bind(2) [OF that(1), of f]) (auto simp: bind_result_def is_value_def value_is_def split: sum.splits)
  qed
  show "value_is \<delta> st row deps (EBinaryOp left op right) (apply_binary_operator \<delta> lv op rv)"
    if "l = Inr (Inr lv)" "value_is \<delta> st row deps right (Inr (Inr rv))"
  proof -
    from value_is_from [OF that(2)] obtain f where "\<forall>g \<ge> f. direct_value \<delta> st row deps g right = Inr (Inr rv)" by blast
    then show ?thesis
      by (intro bind(2) [OF that(1), of f]) (auto simp: bind_result_def operators_do_not_nest)
  qed
qed

section \<open>The cached engine computes the reference\<close>

text \<open>Every cached entry that no row mark covers is the value of its column.\<close>

definition cache_right :: "(string \<Rightarrow> string) \<Rightarrow> columnar_storage \<Rightarrow> engine \<Rightarrow> bool" where
  "cache_right \<delta> st e \<longleftrightarrow>
     (\<forall>c row v. cached_at e c row = Some v \<and> \<not> row_is_dirty e c row \<longrightarrow>
        column_is \<delta> st row (dependencies (dependency_graph e)) c (Inr (Inr v)))"

text \<open>An outcome agrees with a set of results \<open>P\<close> when it is one of them, or a lack of stack, and
  leaves the cache right.\<close>

definition agrees ::
  "(string \<Rightarrow> string) \<Rightarrow> columnar_storage \<Rightarrow> dependency_graph \<Rightarrow> (eval_result \<Rightarrow> bool) \<Rightarrow> eval_outcome \<Rightarrow> bool" where
  "agrees \<delta> st g P out =
     (case out of
        Inl a \<Rightarrow> a = StackExhausted \<or> P (Inl a)
      | Inr (r, e) \<Rightarrow> P (Inr r) \<and> cache_right \<delta> st e \<and> dependency_graph e = g)"

lemma agrees_bind:
  assumes out: "agrees \<delta> st g P1 out"
    and ok: "\<And>v e. out = Inr (Inr v, e) \<Longrightarrow> cache_right \<delta> st e \<Longrightarrow> dependency_graph e = g \<Longrightarrow>
          P1 (Inr (Inr v)) \<Longrightarrow> agrees \<delta> st g P (k v e)"
    and err: "\<And>r. \<not> is_value r \<Longrightarrow> P1 r \<Longrightarrow> P r"
  shows "agrees \<delta> st g P (and_then out k)"
proof -
  consider a where "out = Inl a" | v e where "out = Inr (Inr v, e)" | x e where "out = Inr (Inl x, e)"
    by (metis surj_pair sumE)
  then show ?thesis
  proof cases
    case 1
    with out err show ?thesis by (auto simp: agrees_def and_then_def is_value_def)
  next
    case 2
    with out have "cache_right \<delta> st e" "dependency_graph e = g" "P1 (Inr (Inr v))" by (auto simp: agrees_def)
    from ok [OF 2 this] 2 show ?thesis by (simp add: and_then_def)
  next
    case 3
    with out err show ?thesis by (auto simp: agrees_def and_then_def is_value_def)
  qed
qed

lemma agrees_with_engine:
  "cache_right \<delta> st e \<Longrightarrow> dependency_graph e = g \<Longrightarrow> P r \<Longrightarrow> agrees \<delta> st g P (with_engine r e)"
  by (auto simp: agrees_def with_engine_def split: sum.splits)

lemma agrees_Inr: "agrees \<delta> st g P (Inr (r, e)) \<longleftrightarrow> P (Inr r) \<and> cache_right \<delta> st e \<and> dependency_graph e = g"
  by (simp add: agrees_def)

text \<open>Storing a value at a cell makes exactly that cell clean, and cached with the value.\<close>

lemma store_computed_cell:
  "cached_at (store_computed e c row v) c' row' = (if c' = c \<and> row' = row then Some v else cached_at e c' row')"
  "row_is_dirty (store_computed e c row v) c' row' \<longleftrightarrow> row_is_dirty e c' row' \<and> (c', row') \<noteq> (c, row)"
  "dependency_graph (store_computed e c row v) = dependency_graph e"
  by (auto simp: store_computed_def cached_at_def row_is_dirty_def map_of_update split: option.splits)

lemma store_computed_right:
  assumes "cache_right \<delta> st e"
    and "column_is \<delta> st row (dependencies (dependency_graph e)) c (Inr (Inr v))"
  shows "cache_right \<delta> st (store_computed e c row v)"
  using assms unfolding cache_right_def by (auto simp: store_computed_cell)

lemma value_is_unary:
  assumes "value_is \<delta> st row deps operand r"
  shows "\<not> is_value r \<Longrightarrow> value_is \<delta> st row deps (EUnaryOp uop operand) r"
    and "r = Inr (Inr v) \<Longrightarrow> value_is \<delta> st row deps (EUnaryOp uop operand) (apply_unary_operator \<delta> uop v)"
  using value_is_bind [OF direct_simps(4) assms] operators_do_not_nest(2) by blast+

lemma value_is_call:
  assumes "builtin name = Some fn" and "value_is \<delta> st row deps (arg_value a) r"
  shows "\<not> is_value r \<Longrightarrow> value_is \<delta> st row deps (ECall (EIdentifier name) targs [a]) r"
    and "r = Inr (Inr v) \<Longrightarrow> value_is \<delta> st row deps (ECall (EIdentifier name) targs [a]) (Inr (fn v))"
  using value_is_bind [OF direct_simps(5) [OF assms(1)] assms(2)] by blast+

lemma value_is_if:
  assumes "value_is \<delta> st row deps condition r"
  shows "\<not> is_value r \<Longrightarrow> value_is \<delta> st row deps (EIfExpr condition then_expr else_expr) r"
    and "r = Inr (Inr v) \<Longrightarrow> column_value_to_bool v \<Longrightarrow> value_is \<delta> st row deps then_expr r' \<Longrightarrow>
      value_is \<delta> st row deps (EIfExpr condition then_expr else_expr) r'"
    and "r = Inr (Inr v) \<Longrightarrow> \<not> column_value_to_bool v \<Longrightarrow> else_expr = Some x \<Longrightarrow> value_is \<delta> st row deps x r' \<Longrightarrow>
      value_is \<delta> st row deps (EIfExpr condition then_expr else_expr) r'"
    and "r = Inr (Inr v) \<Longrightarrow> \<not> column_value_to_bool v \<Longrightarrow> else_expr = None \<Longrightarrow>
      value_is \<delta> st row deps (EIfExpr condition then_expr else_expr)
        (Inr (Inl (ExpressionEvaluationError ''Inline if expression without else branch is unsupported'')))"
proof -
  note bind = value_is_bind [OF direct_simps(6) assms]
  show "\<not> is_value r \<Longrightarrow> value_is \<delta> st row deps (EIfExpr condition then_expr else_expr) r" by (rule bind(1))
  show "value_is \<delta> st row deps (EIfExpr condition then_expr else_expr) r'"
    if v: "r = Inr (Inr v)" "column_value_to_bool v" "value_is \<delta> st row deps then_expr r'"
  proof -
    from value_is_from [OF v(3)] obtain f where "\<forall>g \<ge> f. direct_value \<delta> st row deps g then_expr = r'" by blast
    with v show ?thesis by (intro bind(2) [OF v(1), of f]) (auto simp: value_is_def)
  qed
  show "value_is \<delta> st row deps (EIfExpr condition then_expr else_expr) r'"
    if v: "r = Inr (Inr v)" "\<not> column_value_to_bool v" "else_expr = Some x" "value_is \<delta> st row deps x r'"
  proof -
    from value_is_from [OF v(4)] obtain f where "\<forall>g \<ge> f. direct_value \<delta> st row deps g x = r'" by blast
    with v show ?thesis by (intro bind(2) [OF v(1), of f]) (auto simp: value_is_def)
  qed
  show "value_is \<delta> st row deps (EIfExpr condition then_expr else_expr)
        (Inr (Inl (ExpressionEvaluationError ''Inline if expression without else branch is unsupported'')))"
    if v: "r = Inr (Inr v)" "\<not> column_value_to_bool v" "else_expr = None"
    by (rule bind(2) [OF v(1), of 0]) (use v in auto)
qed

lemma value_is_unfueled:
  "(\<And>g. direct_value \<delta> st row deps g expr = r) \<Longrightarrow> r \<noteq> Inl StackExhausted \<Longrightarrow> value_is \<delta> st row deps expr r"
  by (rule value_isI) auto

lemma value_is_identifier:
  "hm_contains deps c \<Longrightarrow> column_is \<delta> st row deps c r \<Longrightarrow> value_is \<delta> st row deps (EIdentifier c) r"
  "\<not> hm_contains deps c \<Longrightarrow> value_is \<delta> st row deps (EIdentifier c) (Inr (stored_value st c row))"
  by (auto simp: value_is_def column_is_def direct_simps)

text \<open>The other forms of expressions are refused, and so are calls of anything but a builtin with one argument.\<close>

lemma evaluate_refused:
  assumes "\<And>g. direct_value \<delta> st row deps g expr = Inr (Inl err)"
    and "evaluate_expression \<delta> st row fuel expr e = Inr (Inl err, e)" and "cache_right \<delta> st e"
    and "dependency_graph e = g"
  shows "agrees \<delta> st g (value_is \<delta> st row deps expr) (evaluate_expression \<delta> st row fuel expr e)"
  unfolding assms(2) agrees_Inr using assms by (auto intro: value_is_unfueled)

lemma call_refused:
  assumes "\<nexists>name fn a. f = EIdentifier name \<and> builtin name = Some fn \<and> args = [a]"
  shows "\<exists>err. (\<forall>g. direct_value \<delta> st row deps g (ECall f targs args) = Inr (Inl err)) \<and>
     evaluate_expression \<delta> st row fuel (ECall f targs args) e = Inr (Inl err, e)"
proof (cases f)
  case (EIdentifier name)
  show ?thesis
  proof (cases "builtin name")
    case (Some fn)
    with EIdentifier assms show ?thesis
      by (cases args rule: remdups_adj.cases) (auto simp: direct_value.simps evaluate_expression.simps)
  qed (simp add: EIdentifier direct_value.simps evaluate_expression.simps)
qed (simp_all add: direct_value.simps evaluate_expression.simps)

lemma evaluation_agrees:
  "cache_right \<delta> st e \<longrightarrow>
     agrees \<delta> st (dependency_graph e) (value_is \<delta> st row (dependencies (dependency_graph e)) expr)
       (evaluate_expression \<delta> st row fuel expr e)"
  "cache_right \<delta> st e \<longrightarrow>
     agrees \<delta> st (dependency_graph e) (column_is \<delta> st row (dependencies (dependency_graph e)) c)
       (get_computed_value \<delta> st row fuel c e)"
proof (induction \<delta> st row fuel expr e and \<delta> st row fuel c e rule: evaluate_expression_get_computed_value.induct)
  case (1 \<delta> st row fuel expr e)
  let ?g = "dependency_graph e"
  let ?deps = "dependencies ?g"
  note step = evaluate_expression.simps [of \<delta> st row fuel expr e]
  show ?case
  proof (rule impI)
    assume right: "cache_right \<delta> st e"
    show "agrees \<delta> st ?g (value_is \<delta> st row ?deps expr) (evaluate_expression \<delta> st row fuel expr e)"
    proof (cases expr)
      case (ELiteral l)
      show ?thesis unfolding step unfolding ELiteral expression.case agrees_Inr
        using right by (auto intro: value_is_unfueled simp: direct_simps)
    next
      case (EIdentifier c)
      from 1(1) [OF EIdentifier] right show ?thesis unfolding step unfolding EIdentifier expression.case
        by (cases "hm_contains ?deps c")
          (auto simp: is_computed_column_def agrees_def value_is_identifier split: sum.splits prod.splits)
    next
      case (EBinaryOp left op rhs)
      show ?thesis unfolding step unfolding EBinaryOp expression.case
      proof (rule agrees_bind)
        show "agrees \<delta> st ?g (value_is \<delta> st row ?deps left) (evaluate_expression \<delta> st row fuel left e)"
          using 1(2) [OF EBinaryOp] right by blast
      next
        fix r assume "\<not> is_value r" "value_is \<delta> st row ?deps left r"
        then show "value_is \<delta> st row ?deps (EBinaryOp left op rhs) r" by (rule value_is_binary(1) [rotated])
      next
        fix l e1 assume l: "evaluate_expression \<delta> st row fuel left e = Inr (Inr l, e1)"
          "cache_right \<delta> st e1" "dependency_graph e1 = ?g" "value_is \<delta> st row ?deps left (Inr (Inr l))"
        note bin = value_is_binary(2,3) [OF l(4) refl]
        show "agrees \<delta> st ?g (value_is \<delta> st row ?deps (EBinaryOp left op rhs))
            (and_then (evaluate_expression \<delta> st row fuel rhs e1)
              (\<lambda>r e2. with_engine (apply_binary_operator \<delta> l op r) e2))"
        proof (rule agrees_bind)
          show "agrees \<delta> st ?g (value_is \<delta> st row ?deps rhs) (evaluate_expression \<delta> st row fuel rhs e1)"
            using 1(3) [OF EBinaryOp l(1)] l(2,3) by simp
        qed (use bin in \<open>auto intro: agrees_with_engine\<close>)
      qed
    next
      case (EUnaryOp uop operand)
      show ?thesis unfolding step unfolding EUnaryOp expression.case
      proof (rule agrees_bind)
        show "agrees \<delta> st ?g (value_is \<delta> st row ?deps operand) (evaluate_expression \<delta> st row fuel operand e)"
          using 1(4) [OF EUnaryOp] right by blast
      qed (auto intro: agrees_with_engine value_is_unary)
    next
      case (ECall f targs args)
      show ?thesis
      proof (cases "\<exists>name fn a. f = EIdentifier name \<and> builtin name = Some fn \<and> args = [a]")
        case True
        then obtain name fn a where a: "f = EIdentifier name" "builtin name = Some fn" "args = [a]" by blast
        show ?thesis unfolding step unfolding ECall a expression.case a(2) option.case list.case
        proof (rule agrees_bind)
          show "agrees \<delta> st ?g (value_is \<delta> st row ?deps (arg_value a))
              (evaluate_expression \<delta> st row fuel (arg_value a) e)"
            using 1(5) [OF ECall a] right by blast
        qed (auto simp: agrees_Inr intro: value_is_call [OF a(2)])
      next
        case False
        from call_refused [OF this, of \<delta> st row ?deps targs fuel e] obtain err where
          "\<And>g. direct_value \<delta> st row ?deps g expr = Inr (Inl err)"
          "evaluate_expression \<delta> st row fuel expr e = Inr (Inl err, e)"
          unfolding ECall by blast
        with right show ?thesis by (intro evaluate_refused) auto
      qed
    next
      case (EIfExpr condition then_expr else_expr)
      show ?thesis unfolding step unfolding EIfExpr expression.case
      proof (rule agrees_bind)
        show "agrees \<delta> st ?g (value_is \<delta> st row ?deps condition) (evaluate_expression \<delta> st row fuel condition e)"
          using 1(6) [OF EIfExpr] right by blast
      next
        fix r assume "\<not> is_value r" "value_is \<delta> st row ?deps condition r"
        then show "value_is \<delta> st row ?deps (EIfExpr condition then_expr else_expr) r" by (rule value_is_if(1) [rotated])
      next
        fix v e1 assume v: "evaluate_expression \<delta> st row fuel condition e = Inr (Inr v, e1)"
          "cache_right \<delta> st e1" "dependency_graph e1 = ?g" "value_is \<delta> st row ?deps condition (Inr (Inr v))"
        note cond = value_is_if(2-4) [OF v(4) refl]
        show "agrees \<delta> st ?g (value_is \<delta> st row ?deps (EIfExpr condition then_expr else_expr))
            (if column_value_to_bool v then evaluate_expression \<delta> st row fuel then_expr e1
             else case else_expr of
                 None \<Rightarrow> Inr (Inl (ExpressionEvaluationError
                   ''Inline if expression without else branch is unsupported''), e1)
               | Some else_branch \<Rightarrow> evaluate_expression \<delta> st row fuel else_branch e1)"
        proof (cases "column_value_to_bool v")
          case True
          from 1(7) [OF EIfExpr v(1) True] v(2,3) show ?thesis
            using True cond(1) [OF True] by (auto simp: agrees_def split: sum.splits prod.splits)
        next
          case False
          show ?thesis
          proof (cases else_expr)
            case None
            with False cond(3) v(2,3) show ?thesis by (simp add: agrees_Inr)
          next
            case (Some x)
            from 1(8) [OF EIfExpr v(1) False Some] v(2,3) show ?thesis
              using False Some cond(2) [OF False Some] by (auto simp: agrees_def split: sum.splits prod.splits)
          qed
        qed
      qed
    qed (unfold step, simp_all add: agrees_Inr right value_is_unfueled direct_value.simps)
  qed
next
  case (2 \<delta> st row fuel c e)
  let ?g = "dependency_graph e"
  let ?deps = "dependencies ?g"
  show ?case
  proof (rule impI)
    assume right: "cache_right \<delta> st e"
    show "agrees \<delta> st ?g (column_is \<delta> st row ?deps c) (get_computed_value \<delta> st row fuel c e)"
    proof (cases "cache_hit e c row")
      case (Some v)
      then have "cached_at e c row = Some v" "\<not> row_is_dirty e c row"
        by (auto simp: cache_hit_def split: option.splits if_splits)
      with right Some show ?thesis
        by (auto simp: get_computed_value.simps [of _ _ _ _ c] agrees_Inr cache_right_def)
    next
      case hit: None
      show ?thesis
      proof (cases "map_of ?deps c")
        case None
        then have "direct_column \<delta> st row ?deps 0 c =
            Inr (Inl (ExpressionEvaluationError (''Column '' @ squote c @ '' is not a computed column'')))"
          by (simp add: direct_column.simps)
        then have "column_is \<delta> st row ?deps c
            (Inr (Inl (ExpressionEvaluationError (''Column '' @ squote c @ '' is not a computed column''))))"
          unfolding column_is_def by blast
        with hit None right show ?thesis
          by (simp add: get_computed_value.simps [of _ _ _ _ c] agrees_Inr)
      next
        case d: (Some d)
        show ?thesis
        proof (cases fuel)
          case 0
          with hit d show ?thesis by (simp add: get_computed_value.simps [of _ _ _ _ c] agrees_def)
        next
          case (Suc fuel')
          have "agrees \<delta> st ?g (column_is \<delta> st row ?deps c)
              (and_then (evaluate_expression \<delta> st row fuel' (cd_expression d) e)
                (\<lambda>v e1. Inr (Inr v, store_computed e1 c row v)))"
          proof (rule agrees_bind)
            show "agrees \<delta> st ?g (value_is \<delta> st row ?deps (cd_expression d))
                (evaluate_expression \<delta> st row fuel' (cd_expression d) e)"
              using 2 [OF hit d Suc] right by blast
          qed (auto simp: agrees_Inr column_is_Some [OF d] store_computed_cell(3) intro!: store_computed_right)
          with hit d Suc show ?thesis by (simp add: get_computed_value.simps [of _ _ _ _ c])
        qed
      qed
    qed
  qed
qed

section \<open>The nesting bound suffices\<close>

lemma argument_part: "size (arg_value a) \<le> Suc (size_argument size a + n)"
  by (cases a) simp

text \<open>The identifiers an evaluation may look up.\<close>

function eval_refs :: "expression \<Rightarrow> string set" where
  "eval_refs expr =
     (case expr of
        EIdentifier c \<Rightarrow> {c}
      | EBinaryOp left op right \<Rightarrow> eval_refs left \<union> eval_refs right
      | EUnaryOp op operand \<Rightarrow> eval_refs operand
      | ECall f targs args \<Rightarrow> (case args of [a] \<Rightarrow> eval_refs (arg_value a) | _ \<Rightarrow> {})
      | EIfExpr condition then_expr else_expr \<Rightarrow>
          eval_refs condition \<union> eval_refs then_expr \<union>
          (case else_expr of None \<Rightarrow> {} | Some x \<Rightarrow> eval_refs x)
      | _ \<Rightarrow> {})"
  by pat_completeness auto
termination
proof (relation "measure size", goal_cases)
qed (auto simp: less_Suc_eq_le trans_le_add1 trans_le_add2 part_sizes argument_part)

declare eval_refs.simps [simp del]

lemma extends_mono: "set d \<subseteq> set (extract_expr \<pi> cols e d)"
  using extract_extends(1) [of cols d \<pi> e] by (simp add: extends_def)

lemma extract_covers: "eval_refs expr \<inter> set cols \<subseteq> set (extract_expr \<pi> cols expr d)"
proof (induction expr arbitrary: d rule: eval_refs.induct)
  case (1 expr)
  note step = eval_refs.simps [of expr]
  show ?case
  proof (cases expr)
    case (EIdentifier c)
    show ?thesis unfolding step unfolding EIdentifier expression.case by (auto simp: extract_expr.simps)
  next
    case (EBinaryOp left op right)
    have "eval_refs left \<inter> set cols \<subseteq> set (extract_expr \<pi> cols right (extract_expr \<pi> cols left d))"
      using 1(1) [OF EBinaryOp, of d] extends_mono [of "extract_expr \<pi> cols left d"] by blast
    with 1(2) [OF EBinaryOp] show ?thesis
      unfolding step unfolding EBinaryOp expression.case by (auto simp: extract_expr.simps)
  next
    case (EUnaryOp op operand)
    from 1(3) [OF EUnaryOp] show ?thesis
      unfolding step unfolding EUnaryOp expression.case by (simp add: extract_expr.simps)
  next
    case (ECall f targs args)
    show ?thesis
    proof (cases "\<exists>a. args = [a]")
      case True
      then obtain a where a: "args = [a]" by blast
      from 1(4) [OF ECall a] a show ?thesis
        unfolding step unfolding ECall expression.case by (simp add: extract_expr.simps)
    next
      case False
      then show ?thesis
        unfolding step unfolding ECall expression.case by (auto split: list.splits)
    qed
  next
    case (EIfExpr condition then_expr else_expr)
    let ?d1 = "extract_expr \<pi> cols condition d"
    let ?d2 = "extract_expr \<pi> cols then_expr ?d1"
    have sub: "eval_refs condition \<inter> set cols \<subseteq> set ?d2" "eval_refs then_expr \<inter> set cols \<subseteq> set ?d2"
      using 1(5) [OF EIfExpr, of d] 1(6) [OF EIfExpr, of ?d1] extends_mono [of ?d1] by blast+
    show ?thesis
    proof (cases else_expr)
      case None
      with sub show ?thesis
        unfolding step unfolding EIfExpr expression.case by (auto simp: extract_expr.simps)
    next
      case (Some x)
      with sub 1(7) [OF EIfExpr Some, of ?d2] extends_mono [of ?d2 \<pi> cols x] show ?thesis
        unfolding step unfolding EIfExpr expression.case by (auto simp: extract_expr.simps)
    qed
  qed (unfold step, simp_all)
qed

text \<open>An outcome that keeps the graph and, if \<open>b\<close>, has stack enough.\<close>

definition stays :: "dependency_graph \<Rightarrow> bool \<Rightarrow> eval_outcome \<Rightarrow> bool" where
  "stays g b out = (case out of Inl a \<Rightarrow> b \<longrightarrow> a \<noteq> StackExhausted | Inr (r, e) \<Rightarrow> dependency_graph e = g)"

lemma stays_bind:
  assumes "stays g b out"
    and "\<And>v e. out = Inr (Inr v, e) \<Longrightarrow> dependency_graph e = g \<Longrightarrow> stays g b (k v e)"
  shows "stays g b (and_then out k)"
proof -
  consider a where "out = Inl a" | v e where "out = Inr (Inr v, e)" | x e where "out = Inr (Inl x, e)"
    by (metis surj_pair sumE)
  then show ?thesis using assms by cases (auto simp: stays_def and_then_def)
qed

lemma stays_with_engine:
  "dependency_graph e = g \<Longrightarrow> r \<noteq> Inl StackExhausted \<Longrightarrow> stays g b (with_engine r e)"
  by (auto simp: stays_def with_engine_def split: sum.splits)

lemma stays_Inr [simp]: "stays g b (Inr (r, e)) \<longleftrightarrow> dependency_graph e = g"
  by (simp add: stays_def)

lemma stays_weaken: "stays g b out \<Longrightarrow> (b' \<Longrightarrow> b) \<Longrightarrow> stays g b' out"
  by (auto simp: stays_def split: sum.splits)

definition ranked :: "dependency_graph \<Rightarrow> (string \<Rightarrow> nat) \<Rightarrow> bool" where
  "ranked g rank \<longleftrightarrow>
     (\<forall>c deps. map_of (dependencies g) c = Some deps \<longrightarrow>
        (\<forall>d \<in> eval_refs (cd_expression deps). hm_contains (dependencies g) d \<longrightarrow> rank d < rank c))"

definition refs_below :: "dependency_graph \<Rightarrow> (string \<Rightarrow> nat) \<Rightarrow> nat \<Rightarrow> expression \<Rightarrow> bool" where
  "refs_below g rank fuel expr \<longleftrightarrow>
     (\<forall>d \<in> eval_refs expr. hm_contains (dependencies g) d \<longrightarrow> rank d < fuel)"

lemma evaluation_stays:
  "dependency_graph e = g \<longrightarrow> stays g (ranked g rank \<and> refs_below g rank fuel expr) (evaluate_expression \<delta> st row fuel expr e)"
  "dependency_graph e = g \<longrightarrow>
     stays g (ranked g rank \<and> (hm_contains (dependencies g) c \<longrightarrow> rank c < fuel)) (get_computed_value \<delta> st row fuel c e)"
proof (induction \<delta> st row fuel expr e and \<delta> st row fuel c e rule: evaluate_expression_get_computed_value.induct)
  case (1 \<delta> st row fuel expr e)
  note step = evaluate_expression.simps [of \<delta> st row fuel expr e]
  note refs = eval_refs.simps [of expr]
  show ?case
  proof (rule impI)
    assume g: "dependency_graph e = g"
    show "stays g (ranked g rank \<and> refs_below g rank fuel expr) (evaluate_expression \<delta> st row fuel expr e)"
    proof (cases expr)
      case (EIdentifier c)
      have "stays g (ranked g rank \<and> refs_below g rank fuel expr) (get_computed_value \<delta> st row fuel c e)"
        if "is_computed_column (dependency_graph e) c"
        using 1(1) [OF EIdentifier that] g
        by (rule stays_weaken [OF mp]) (simp add: refs_below_def refs EIdentifier, simp add: eval_refs.simps)
      then show ?thesis unfolding step unfolding EIdentifier expression.case by (simp add: g)
    next
      case (EBinaryOp left op right)
      have sub: "refs_below g rank fuel left" "refs_below g rank fuel right" if "refs_below g rank fuel expr"
        using that unfolding refs_below_def refs unfolding EBinaryOp expression.case by blast+
      have "stays g (ranked g rank \<and> refs_below g rank fuel expr)
          (and_then (evaluate_expression \<delta> st row fuel left e) (\<lambda>l e1.
             and_then (evaluate_expression \<delta> st row fuel right e1) (\<lambda>r e2.
               with_engine (apply_binary_operator \<delta> l op r) e2)))"
      proof (rule stays_bind)
        show "stays g (ranked g rank \<and> refs_below g rank fuel expr) (evaluate_expression \<delta> st row fuel left e)"
          using 1(2) [OF EBinaryOp] g sub(1) by (blast intro: stays_weaken)
      next
        fix l e1 assume l: "evaluate_expression \<delta> st row fuel left e = Inr (Inr l, e1)" "dependency_graph e1 = g"
        have "stays g (ranked g rank \<and> refs_below g rank fuel expr) (evaluate_expression \<delta> st row fuel right e1)"
          using 1(3) [OF EBinaryOp l(1)] l(2) sub(2) by (blast intro: stays_weaken)
        then show "stays g (ranked g rank \<and> refs_below g rank fuel expr)
            (and_then (evaluate_expression \<delta> st row fuel right e1) (\<lambda>r e2.
               with_engine (apply_binary_operator \<delta> l op r) e2))"
          by (rule stays_bind) (simp add: stays_with_engine operators_do_not_nest)
      qed
      then show ?thesis unfolding step unfolding EBinaryOp expression.case .
    next
      case (EUnaryOp op operand)
      have "refs_below g rank fuel operand" if "refs_below g rank fuel expr"
        using that unfolding refs_below_def refs unfolding EUnaryOp expression.case .
      then have "stays g (ranked g rank \<and> refs_below g rank fuel expr) (evaluate_expression \<delta> st row fuel operand e)"
        using 1(4) [OF EUnaryOp] g by (blast intro: stays_weaken)
      then have "stays g (ranked g rank \<and> refs_below g rank fuel expr)
          (and_then (evaluate_expression \<delta> st row fuel operand e) (\<lambda>v e1.
             with_engine (apply_unary_operator \<delta> op v) e1))"
        by (rule stays_bind) (simp add: stays_with_engine operators_do_not_nest)
      then show ?thesis unfolding step unfolding EUnaryOp expression.case .
    next
      case (ECall f targs args)
      show ?thesis
      proof (cases "\<exists>name fn a. f = EIdentifier name \<and> builtin name = Some fn \<and> args = [a]")
        case True
        then obtain name fn a where a: "f = EIdentifier name" "builtin name = Some fn" "args = [a]" by blast
        have "refs_below g rank fuel (arg_value a)" if "refs_below g rank fuel expr"
          using that unfolding refs_below_def refs unfolding ECall a expression.case list.case .
        then have "stays g (ranked g rank \<and> refs_below g rank fuel expr) (evaluate_expression \<delta> st row fuel (arg_value a) e)"
          using 1(5) [OF ECall a] g by (blast intro: stays_weaken)
        then have "stays g (ranked g rank \<and> refs_below g rank fuel expr)
            (and_then (evaluate_expression \<delta> st row fuel (arg_value a) e) (\<lambda>v e1. Inr (fn v, e1)))"
          by (rule stays_bind) simp
        then show ?thesis unfolding step unfolding ECall a expression.case a(2) option.case list.case .
      next
        case False
        from call_refused [OF this] show ?thesis unfolding ECall using g by (metis stays_Inr)
      qed
    next
      case (EIfExpr condition then_expr else_expr)
      have sub: "refs_below g rank fuel condition" "refs_below g rank fuel then_expr"
        "else_expr = Some x \<Longrightarrow> refs_below g rank fuel x" if "refs_below g rank fuel expr" for x
        using that unfolding refs_below_def refs unfolding EIfExpr expression.case by auto
      let ?b = "ranked g rank \<and> refs_below g rank fuel expr"
      have "stays g ?b (evaluate_expression \<delta> st row fuel condition e)"
        using 1(6) [OF EIfExpr] g sub(1) by (blast intro: stays_weaken)
      moreover have "stays g ?b
          (if column_value_to_bool v then evaluate_expression \<delta> st row fuel then_expr e1
           else case else_expr of
               None \<Rightarrow> Inr (Inl (ExpressionEvaluationError
                 ''Inline if expression without else branch is unsupported''), e1)
             | Some else_branch \<Rightarrow> evaluate_expression \<delta> st row fuel else_branch e1)"
        if v: "evaluate_expression \<delta> st row fuel condition e = Inr (Inr v, e1)" "dependency_graph e1 = g" for v e1
      proof (cases "column_value_to_bool v")
        case True
        from 1(7) [OF EIfExpr v(1) True] v(2) True sub(2) show ?thesis
          unfolding if_P [OF True] by (blast intro: stays_weaken)
      next
        case False
        show ?thesis
        proof (cases else_expr)
          case (Some x)
          from 1(8) [OF EIfExpr v(1) False Some] v(2) sub(3) [OF _ Some] show ?thesis
            unfolding if_not_P [OF False] Some option.case by (blast intro: stays_weaken)
        qed (simp add: False v(2))
      qed
      ultimately show ?thesis unfolding step unfolding EIfExpr expression.case by (rule stays_bind)
    qed (unfold step, simp_all add: g)
  qed
next
  case (2 \<delta> st row fuel c e)
  note step = get_computed_value.simps [of \<delta> st row fuel c e]
  show ?case
  proof (rule impI)
    assume g: "dependency_graph e = g"
    show "stays g (ranked g rank \<and> (hm_contains (dependencies g) c \<longrightarrow> rank c < fuel)) (get_computed_value \<delta> st row fuel c e)"
    proof (cases "cache_hit e c row")
      case hit: None
      show ?thesis
      proof (cases "map_of (dependencies g) c")
        case d: (Some d)
        show ?thesis
        proof (cases fuel)
          case 0
          with hit d g show ?thesis unfolding step by (simp add: stays_def hm_contains_def)
        next
          case (Suc fuel')
          let ?b = "ranked g rank \<and> (hm_contains (dependencies g) c \<longrightarrow> rank c < fuel)"
          have "refs_below g rank fuel' (cd_expression d)" if ?b
            using that d Suc unfolding ranked_def refs_below_def hm_contains_def by fastforce
          then have "stays g ?b (evaluate_expression \<delta> st row fuel' (cd_expression d) e)"
            using 2 [OF hit _ Suc] d g by (blast intro: stays_weaken)
          then have "stays g ?b (and_then (evaluate_expression \<delta> st row fuel' (cd_expression d) e)
              (\<lambda>v e1. Inr (Inr v, store_computed e1 c row v)))"
            by (rule stays_bind) (simp add: store_computed_cell(3))
          with hit d g Suc show ?thesis unfolding step by simp
        qed
      qed (simp add: step hit g)
    qed (simp add: step g)
  qed
qed

text \<open>A graph built from a table is ranked by its evaluation order.\<close>

lemma column_names_set: "set (column_names t) = col_name ` set (columns t)"
proof -
  have "set (fold List.insert xs ys) = set xs \<union> set ys" for xs ys :: "string list"
    by (induction xs arbitrary: ys) auto
  then show ?thesis by (simp add: column_names_def)
qed

lemma built_graph_ranked:
  assumes "is_hash_order \<pi>" and "build_from_table \<pi> t = Some (Inr g)"
  shows "ranked g (index_of (evaluation_order g))"
    and "hm_contains (dependencies g) c \<Longrightarrow> index_of (evaluation_order g) c < length (dependencies g)"
proof -
  from evaluation_order_result [OF assms(1), of t] assms(2) have o:
    "dependencies g = dependencies (unordered_graph \<pi> t)" "distinct (evaluation_order g)"
    "set (evaluation_order g) = set (hm_keys (dependencies g))"
    "\<forall>c \<in> set (evaluation_order g). \<forall>d \<in> computed_reads g c.
        index_of (evaluation_order g) d < index_of (evaluation_order g) c" by auto
  have wf: "hm_wf (dependencies g)" and entry: "\<And>c deps. map_of (dependencies g) c = Some deps \<Longrightarrow> entry_from \<pi> t c deps"
    using unordered_graph_entries [of \<pi> t] unfolding o(1) entries_from_def by blast+
  have key: "hm_contains (dependencies g) c \<longleftrightarrow> c \<in> set (evaluation_order g)" for c
    by (simp add: o(3) hm_contains_iff hm_keys_def)
  show "ranked g (index_of (evaluation_order g))"
    unfolding ranked_def
  proof (intro allI impI ballI)
    fix c deps d
    assume c: "map_of (dependencies g) c = Some deps" and d: "d \<in> eval_refs (cd_expression deps)"
      "hm_contains (dependencies g) d"
    from d(2) obtain ddeps where "map_of (dependencies g) d = Some ddeps" by (auto simp: hm_contains_def)
    from entry [OF this] have "d \<in> set (column_names t)" by (auto simp: entry_from_def column_names_set)
    with d(1) entry [OF c] extract_covers [of "cd_expression deps" "column_names t" \<pi> "[]"]
    have "d \<in> set (depends_on deps)" by (auto simp: entry_from_def extract_column_dependencies_def)
    with c d(2) key o(3) have "d \<in> computed_reads g c" by (auto simp: computed_reads_def)
    moreover from c key have "c \<in> set (evaluation_order g)" by (auto simp: hm_contains_def)
    ultimately show "index_of (evaluation_order g) d < index_of (evaluation_order g) c" using o(4) by blast
  qed
  have "length (evaluation_order g) = length (dependencies g)"
    using o(2,3) wf by (metis distinct_card hm_keys_def hm_wf_def length_map)
  then show "hm_contains (dependencies g) c \<Longrightarrow> index_of (evaluation_order g) c < length (dependencies g)"
    using index_of_nth [of c "evaluation_order g"] key by simp
qed

text \<open>Evaluation keeps the graph, and a depth of the number of computed columns suffices for it.\<close>

lemma get_computed_value_graph:
  "get_computed_value \<delta> st row fuel c e = Inr (r, e') \<Longrightarrow> dependency_graph e' = dependency_graph e"
  using evaluation_stays(2) [where e = e and g = "dependency_graph e" and c = c and fuel = fuel and row = row
      and st = st] by (metis stays_Inr)

lemma evaluation_stack_suffices:
  assumes "is_hash_order \<pi>" and "build_from_table \<pi> t = Some (Inr (dependency_graph e))"
    and "length (dependencies (dependency_graph e)) \<le> fuel"
  shows "get_computed_value \<delta> st row fuel c e \<noteq> Inl StackExhausted"
proof -
  note ranked = built_graph_ranked [OF assms(1,2)]
  have "stays (dependency_graph e) True (get_computed_value \<delta> st row fuel c e)"
    using evaluation_stays(2) [of e "dependency_graph e" "index_of (evaluation_order (dependency_graph e))"]
      ranked(1) ranked(2) [of c] assms(3) by (blast intro: stays_weaken order_less_le_trans)
  then show ?thesis by (auto simp: stays_def)
qed

section \<open>Properties\<close>

text \<open>
  C17: The evaluation of computed columns of a table never runs out of stack: a nesting depth of the
  number of computed columns suffices for every expression, whatever is cached.
\<close>

theorem evaluation_depth_bounded:
  assumes "is_hash_order \<pi>" and "build_from_table \<pi> t = Some (Inr (dependency_graph e))"
    and "length (dependencies (dependency_graph e)) \<le> fuel"
  shows "get_computed_value \<delta> st row fuel c e \<noteq> Inl StackExhausted"
  using assms by (rule evaluation_stack_suffices)

text \<open>
  C18: Caching is transparent from a right cache: as long as every cached entry whose row is not marked
  is the value of its column, entries of columns that are marked as a whole included, the lazy engine
  returns exactly the result that evaluation without a cache has (an error included), leaves the cache
  right in the same sense, and does not touch the graph. (A column mark alone does not make wrong
  entries harmless: \<open>column_mark_lost_after_one_row\<close>.)
\<close>

theorem cached_evaluation_correct:
  assumes "cache_right \<delta> st e" and "get_computed_value \<delta> st row fuel c e = Inr (r, e')"
  shows "column_is \<delta> st row (dependencies (dependency_graph e)) c (Inr r) \<and>
     cache_right \<delta> st e' \<and> dependency_graph e' = dependency_graph e"
  using evaluation_agrees(2) [of \<delta> st e row c fuel] assms by (simp add: agrees_Inr)

section \<open>Concrete engines\<close>

definition demo_engine :: engine where
  "demo_engine = (case engine_new rev demo_table of Some (Inr e) \<Rightarrow> e | _ \<Rightarrow> undefined)"

definition demo_storage :: "u64 \<Rightarrow> u64 \<Rightarrow> columnar_storage" where
  "demo_storage x0 x1 = [(''x'', CU64 [Some x0, Some x1])]"

definition demo_get :: "columnar_storage \<Rightarrow> row_id \<Rightarrow> string \<Rightarrow> engine \<Rightarrow> eval_outcome" where
  "demo_get st row c e = get_computed_value (\<lambda>s. s) st row 2 c e"

definition engine_of :: "eval_outcome \<Rightarrow> engine" where
  "engine_of out = (case out of Inr (_, e) \<Rightarrow> e | _ \<Rightarrow> demo_engine)"

lemma demo_engine_built:
  "build_from_table rev demo_table = Some (Inr (dependency_graph demo_engine)) \<and>
   length (dependencies (dependency_graph demo_engine)) = 2 \<and> cached_values demo_engine = []"
proof -
  have "\<exists>g. build_from_table rev demo_table = Some (Inr g) \<and> length (dependencies g) = 2"
  proof -
    have "map_option (map_sum id (\<lambda>g. length (dependencies g))) (build_from_table rev demo_table) = Some (Inr 2)"
      by code_simp
    then show ?thesis by (auto simp: map_option_case map_sum_def split: option.splits sum.splits)
  qed
  then show ?thesis by (auto simp: demo_engine_def engine_new_def)
qed

lemma demo_engine_right: "cache_right \<delta> st demo_engine"
  using demo_engine_built by (simp add: cache_right_def cached_at_def)

theorem evaluation_depth_bounded_witness:
  "demo_get (demo_storage 3 5) 0 ''b'' demo_engine \<noteq> Inl StackExhausted"
  using evaluation_depth_bounded [OF hash_order_rev, of demo_table demo_engine 2] demo_engine_built
  unfolding demo_get_def by simp

theorem cached_evaluation_correct_witness:
  "\<exists>e'. demo_get (demo_storage 3 5) 0 ''b'' demo_engine = Inr (Inr (VU64 36), e') \<and>
     column_is (\<lambda>s. s) (demo_storage 3 5) 0 (dependencies (dependency_graph demo_engine)) ''b'' (Inr (Inr (VU64 36))) \<and>
     cache_right (\<lambda>s. s) (demo_storage 3 5) e'"
proof -
  have "map_sum id fst (demo_get (demo_storage 3 5) 0 ''b'' demo_engine) = Inr (Inr (VU64 36))"
    by code_simp
  then obtain e' where e': "demo_get (demo_storage 3 5) 0 ''b'' demo_engine = Inr (Inr (VU64 36), e')"
    by (auto simp: map_sum_def split: sum.splits)
  from cached_evaluation_correct [OF demo_engine_right e' [unfolded demo_get_def]] e' show ?thesis by blast
qed

section \<open>Stale values\<close>

text \<open>
  Recomputing one row clears the mark of the whole column. With the column \<open>a = x + x\<close> cached for
  two rows, a change of \<open>x\<close> in both and \<open>mark_column_dirty\<close>, reading row 0 recomputes it, and row
  1 is then served from the cache with its old value.
\<close>

theorem column_mark_lost_after_one_row:
  "let e1 = engine_of (demo_get (demo_storage 3 5) 1 ''a'' (engine_of (demo_get (demo_storage 3 5) 0 ''a'' demo_engine)));
       e2 = mark_column_dirty rev e1 ''x'';
       e3 = engine_of (demo_get (demo_storage 30 50) 0 ''a'' e2)
   in map_sum id fst (demo_get (demo_storage 30 50) 0 ''a'' e2) = Inr (Inr (VU64 60)) \<and>
      map_sum id fst (demo_get (demo_storage 30 50) 1 ''a'' e3) = Inr (Inr (VU64 10))"
  by code_simp

text \<open>
  A row mark reaches the columns that read the changed one, not the columns that read those: the
  column \<open>b = a * a\<close> keeps its value when \<open>x\<close>, which \<open>a\<close> reads, is marked.
\<close>

theorem row_mark_not_transitive:
  "let e1 = engine_of (demo_get (demo_storage 3 5) 0 ''b'' demo_engine);
       e2 = mark_row_dirty rev e1 ''x'' 0
   in map_sum id fst (demo_get (demo_storage 30 50) 0 ''a'' e2) = Inr (Inr (VU64 60)) \<and>
      map_sum id fst (demo_get (demo_storage 30 50) 0 ''b'' e2) = Inr (Inr (VU64 36))"
  by code_simp

end
