(* ===== verification/Table.thy ===== *)
theory Table
  imports Bitmap Computed_Reference
begin

text \<open>
  \<open>TableRuntime\<close> of \<open>src/table_runtime.rs\<close>: its state and the operations that create, read
  and change rows. Methods with \<open>&mut self\<close> return the table they leave behind beside their
  result, so an error that comes after a partial change keeps that change. Reading a row evaluates
  its computed columns, which can bring the process down (\<open>abort\<close>, theory Computed).
\<close>

section \<open>State\<close>

record primary_key_index =
  pk_column :: "string option"
  pk_index :: "(column_value, row_id) hmap"

record bitmap_index =
  bi_column :: string
  value_bitmaps :: "(column_value, row_bitmap) hmap"
  null_bitmap :: row_bitmap

text \<open>A \<open>BTreeMap\<close> is an association list that is sorted by its keys.\<close>

record secondary_index =
  si_column :: string
  ordered_index :: "(column_value \<times> row_id list) list"
  si_bitmap :: "bitmap_index option"

record table_runtime =
  schema :: tabledef
  storage :: columnar_storage
  primary_index :: primary_key_index
  secondary_indexes :: "(string, secondary_index) hmap"
  row_count :: usize
  deleted_rows :: "usize hset"
  next_row_id :: usize
  computed_engine :: "engine option"

datatype table_row = TableRow (row_values: "(string, column_value) hmap")

definition find_column :: "tabledef \<Rightarrow> string \<Rightarrow> tablecol option" where
  "find_column s c = List.find (\<lambda>col. col_name col = c) (columns s)"

section \<open>Creation\<close>

definition storage_type :: "tablecol \<Rightarrow> string" where
  "storage_type col = (case column_type col of TIdentifier n _ \<Rightarrow> n | _ \<Rightarrow> ''String'')"

definition initial_storage :: "tablecol list \<Rightarrow> columnar_storage" where
  "initial_storage cols = fold (\<lambda>col. AList.update (col_name col) (new_for_type (storage_type col))) cols []"

definition primary_column :: "tabledef \<Rightarrow> string option" where
  "primary_column s =
     map_option col_name
       (List.find (\<lambda>col. \<exists>ann \<in> set (col_annotations col). ann_name ann = ''primary'') (columns s))"

text \<open>The derived \<open>Debug\<close> of an evaluation error, whose text ends up in a table error.\<close>

definition debug_strings :: "(string \<Rightarrow> string) \<Rightarrow> string list \<Rightarrow> string" where
  "debug_strings \<delta> ss = ''['' @ join_with '', '' (map \<delta> ss) @ '']''"

fun debug_dependency_error :: "(string \<Rightarrow> string) \<Rightarrow> dependency_error \<Rightarrow> string" where
  "debug_dependency_error \<delta> (CircularDependency cs) = ''CircularDependency('' @ debug_strings \<delta> cs @ '')''"
| "debug_dependency_error \<delta> (UnknownColumnReference c) = ''UnknownColumnReference('' @ \<delta> c @ '')''"
| "debug_dependency_error \<delta> (InvalidExpression s) = ''InvalidExpression('' @ \<delta> s @ '')''"

fun debug_evaluation_error :: "(string \<Rightarrow> string) \<Rightarrow> evaluation_error \<Rightarrow> string" where
  "debug_evaluation_error \<delta> (DependencyErr e) = ''DependencyError('' @ debug_dependency_error \<delta> e @ '')''"
| "debug_evaluation_error \<delta> (ExpressionEvaluationError s) = ''ExpressionEvaluationError('' @ \<delta> s @ '')''"
| "debug_evaluation_error \<delta> (TypeMismatchError s) = ''TypeMismatchError('' @ \<delta> s @ '')''"
| "debug_evaluation_error \<delta> (MissingDependencyValue c row) =
     ''MissingDependencyValue('' @ \<delta> c @ '', RowId('' @ show_nat row @ ''))''"

definition table_new :: "(string \<Rightarrow> string) \<Rightarrow> hash_order \<Rightarrow> tabledef \<Rightarrow> (table_error + table_runtime) option" where
  "table_new \<delta> \<pi> s =
     (let built = (\<lambda>engine. \<lparr>schema = s, storage = initial_storage (columns s),
          primary_index = \<lparr>pk_column = primary_column s, pk_index = []\<rparr>,
          secondary_indexes = [], row_count = 0, deleted_rows = [], next_row_id = 0,
          computed_engine = engine\<rparr>)
      in if \<exists>col \<in> set (columns s). is_computed col then
           (case engine_new \<pi> s of
              None \<Rightarrow> None
            | Some (Inl e) \<Rightarrow> Some (Inl (TypeMismatch ''computed_engine'' ''valid computed column configuration''
                (''evaluation error: '' @ debug_evaluation_error \<delta> e)))
            | Some (Inr engine) \<Rightarrow> Some (Inr (built (Some engine))))
         else Some (Inr (built None)))"

section \<open>Reading\<close>

text \<open>
  The nesting an evaluation may need is bounded by the number of computed columns
  (theory Computed_Reference), so that is the fuel it gets.
\<close>

definition engine_depth :: "engine \<Rightarrow> nat" where
  "engine_depth e = length (dependencies (dependency_graph e))"

definition table_column_value ::
    "(string \<Rightarrow> string) \<Rightarrow> table_runtime \<Rightarrow> row_id \<Rightarrow> string \<Rightarrow> abort + (table_error + column_value) \<times> table_runtime" where
  "table_column_value \<delta> t row c =
     (let stored = Inr (case map_of (storage t) c of
            None \<Rightarrow> Inl (ColumnNotFound c)
          | Some d \<Rightarrow> (case get_value d row of None \<Rightarrow> Inl (RowNotFound row) | Some v \<Rightarrow> Inr v), t)
      in case find_column (schema t) c of
           None \<Rightarrow> stored
         | Some col \<Rightarrow>
             if is_computed col then
               (case computed_engine t of
                  Some e \<Rightarrow>
                    (case get_computed_value \<delta> (storage t) row (engine_depth e) c e of
                       Inl a \<Rightarrow> Inl a
                     | Inr (r, e') \<Rightarrow>
                         Inr (map_sum (\<lambda>err. TypeMismatch c ''computed value''
                                (''evaluation error: '' @ debug_evaluation_error \<delta> err)) id r,
                              t\<lparr>computed_engine := Some e'\<rparr>))
                | None \<Rightarrow> Inr (Inl (TypeMismatch c ''computed column support'' ''no computed engine available''), t))
             else stored)"

definition table_mark_column_dirty :: "hash_order \<Rightarrow> table_runtime \<Rightarrow> string \<Rightarrow> table_runtime" where
  "table_mark_column_dirty \<pi> t c =
     (case computed_engine t of None \<Rightarrow> t | Some e \<Rightarrow> t\<lparr>computed_engine := Some (mark_column_dirty \<pi> e c)\<rparr>)"

definition table_mark_row_dirty :: "hash_order \<Rightarrow> table_runtime \<Rightarrow> string \<Rightarrow> row_id \<Rightarrow> table_runtime" where
  "table_mark_row_dirty \<pi> t c row =
     (case computed_engine t of None \<Rightarrow> t | Some e \<Rightarrow> t\<lparr>computed_engine := Some (mark_row_dirty \<pi> e c row)\<rparr>)"

definition table_is_computed :: "table_runtime \<Rightarrow> string \<Rightarrow> bool" where
  "table_is_computed t c = (case find_column (schema t) c of None \<Rightarrow> False | Some col \<Rightarrow> is_computed col)"

definition get_computed_cache_stats :: "table_runtime \<Rightarrow> (string, usize) hmap" where
  "get_computed_cache_stats t = (case computed_engine t of None \<Rightarrow> [] | Some e \<Rightarrow> get_cache_stats e)"

text \<open>\<open>get_row\<close> evaluates each computed column in a copy of the engine that it then drops.\<close>

fun collect_row ::
    "(string \<Rightarrow> string) \<Rightarrow> table_runtime \<Rightarrow> row_id \<Rightarrow> tablecol list \<Rightarrow> (string, column_value) hmap \<Rightarrow>
       abort + table_error + table_row" where
  "collect_row \<delta> t row [] vals = Inr (Inr (TableRow vals))"
| "collect_row \<delta> t row (col # cols) vals =
     (if is_computed col then
        (case computed_engine t of
           None \<Rightarrow> collect_row \<delta> t row cols vals
         | Some e \<Rightarrow>
             (case get_computed_value \<delta> (storage t) row (engine_depth e) (col_name col) e of
                Inl a \<Rightarrow> Inl a
              | Inr (Inr v, _) \<Rightarrow> collect_row \<delta> t row cols (AList.update (col_name col) v vals)
              | Inr (Inl _, _) \<Rightarrow> collect_row \<delta> t row cols vals))
      else
        (case map_of (storage t) (col_name col) of
           None \<Rightarrow> collect_row \<delta> t row cols vals
         | Some d \<Rightarrow>
             (case get_value d row of
                Some v \<Rightarrow> collect_row \<delta> t row cols (AList.update (col_name col) v vals)
              | None \<Rightarrow> Inr (Inl (RowNotFound row)))))"

definition get_row :: "(string \<Rightarrow> string) \<Rightarrow> table_runtime \<Rightarrow> row_id \<Rightarrow> abort + table_error + table_row" where
  "get_row \<delta> t row =
     (if row \<in> set (deleted_rows t) then Inr (Inl (RowNotFound row))
      else if next_row_id t \<le> row then Inr (Inl (RowNotFound row))
      else collect_row \<delta> t row (columns (schema t)) [])"

text \<open>The loop of \<open>scan_filtered\<close> over row identifiers; \<open>scan_all\<close> is the one that keeps every row.\<close>

fun scan_rows ::
    "(string \<Rightarrow> string) \<Rightarrow> table_runtime \<Rightarrow> (table_row \<Rightarrow> bool) \<Rightarrow> row_id list \<Rightarrow> (row_id \<times> table_row) list \<Rightarrow>
       abort + (row_id \<times> table_row) list" where
  "scan_rows \<delta> t keep [] result = Inr result"
| "scan_rows \<delta> t keep (i # is) result =
     (if i \<notin> set (deleted_rows t) then
        (case get_row \<delta> t i of
           Inl a \<Rightarrow> Inl a
         | Inr (Inr row) \<Rightarrow> scan_rows \<delta> t keep is (if keep row then result @ [(i, row)] else result)
         | Inr (Inl _) \<Rightarrow> scan_rows \<delta> t keep is result)
      else scan_rows \<delta> t keep is result)"

definition scan_all :: "(string \<Rightarrow> string) \<Rightarrow> table_runtime \<Rightarrow> abort + (row_id \<times> table_row) list" where
  "scan_all \<delta> t = scan_rows \<delta> t (\<lambda>_. True) [0..<next_row_id t] []"

definition scan_filtered ::
    "(string \<Rightarrow> string) \<Rightarrow> table_runtime \<Rightarrow> (table_row \<Rightarrow> bool) \<Rightarrow> abort + (row_id \<times> table_row) list" where
  "scan_filtered \<delta> t keep = scan_rows \<delta> t keep [0..<next_row_id t] []"

text \<open>
  The iterators yield one item at a time; an item \<open>Inl a\<close> is where the pull of the next item aborts.
\<close>

definition iter_rows :: "(string \<Rightarrow> string) \<Rightarrow> table_runtime \<Rightarrow> (row_id \<times> (abort + table_row)) list" where
  "iter_rows \<delta> t =
     List.map_filter (\<lambda>i. case get_row \<delta> t i of
         Inl a \<Rightarrow> Some (i, Inl a)
       | Inr (Inl _) \<Rightarrow> None
       | Inr (Inr row) \<Rightarrow> Some (i, Inr row))
     (filter (\<lambda>i. i \<notin> set (deleted_rows t)) [0..<next_row_id t])"

definition iter_filtered ::
    "(string \<Rightarrow> string) \<Rightarrow> table_runtime \<Rightarrow> (table_row \<Rightarrow> bool) \<Rightarrow> (row_id \<times> (abort + table_row)) list" where
  "iter_filtered \<delta> t keep =
     filter (\<lambda>(_, item). case item of Inl _ \<Rightarrow> True | Inr row \<Rightarrow> keep row) (iter_rows \<delta> t)"

definition find_by_primary_key :: "table_runtime \<Rightarrow> column_value \<Rightarrow> row_id option" where
  "find_by_primary_key t key = map_of (pk_index (primary_index t)) key"

definition get_by_primary_key ::
    "(string \<Rightarrow> string) \<Rightarrow> table_runtime \<Rightarrow> column_value \<Rightarrow> abort + table_error + row_id \<times> table_row" where
  "get_by_primary_key \<delta> t key =
     (case find_by_primary_key t key of
        None \<Rightarrow> Inr (Inl (RowNotFound 0))
      | Some row \<Rightarrow> map_sum id (map_sum id (Pair row)) (get_row \<delta> t row))"

text \<open>Numbers are converted with \<open>as\<close>: sign extension, truncation and saturation.\<close>

definition normalize_value_for_column :: "table_runtime \<Rightarrow> string \<Rightarrow> column_value \<Rightarrow> column_value" where
  "normalize_value_for_column t c v =
     (case (case find_column (schema t) c of
              None \<Rightarrow> None
            | Some col \<Rightarrow> (case column_type col of TIdentifier n _ \<Rightarrow> Some n | _ \<Rightarrow> None)) of
        None \<Rightarrow> v
      | Some n \<Rightarrow>
          (case v of
             VU64 x \<Rightarrow> if n = ''f64'' then VF64 (f64_of_u64 x) else if n = ''i32'' then VI32 (ucast x) else v
           | VI32 x \<Rightarrow> if n = ''f64'' then VF64 (f64_of_i32 x) else if n = ''u64'' then VU64 (scast x) else v
           | VF64 x \<Rightarrow> if n = ''i32'' then VI32 (f64_to_i32 x) else v
           | _ \<Rightarrow> v))"

definition scan_by_column_value ::
    "(string \<Rightarrow> string) \<Rightarrow> table_runtime \<Rightarrow> string \<Rightarrow> column_value \<Rightarrow> abort + (row_id \<times> table_row) list" where
  "scan_by_column_value \<delta> t c v =
     (if pk_column (primary_index t) = Some c then
        (case get_by_primary_key \<delta> t v of
           Inl a \<Rightarrow> Inl a
         | Inr (Inr found) \<Rightarrow> Inr [found]
         | Inr (Inl _) \<Rightarrow> Inr [])
      else
        (let normalized = normalize_value_for_column t c v in
         scan_filtered \<delta> t (\<lambda>row. case map_of (row_values row) c of
             None \<Rightarrow> False
           | Some w \<Rightarrow> values_equal w normalized)))"

definition at_least :: "column_value \<Rightarrow> column_value \<Rightarrow> bool" where
  "at_least v w = (compare_column_values v w = Some True)"

definition in_range :: "column_value option \<Rightarrow> column_value option \<Rightarrow> column_value \<Rightarrow> bool" where
  "in_range min_value max_value v \<longleftrightarrow>
     (case min_value of None \<Rightarrow> True | Some lo \<Rightarrow> at_least v lo) \<and>
     (case max_value of None \<Rightarrow> True | Some hi \<Rightarrow> at_least hi v)"

definition scan_by_column_range ::
    "(string \<Rightarrow> string) \<Rightarrow> table_runtime \<Rightarrow> string \<Rightarrow> column_value option \<Rightarrow> column_value option \<Rightarrow>
       abort + (row_id \<times> table_row) list" where
  "scan_by_column_range \<delta> t c min_value max_value =
     scan_filtered \<delta> t (\<lambda>row. case map_of (row_values row) c of
         None \<Rightarrow> False
       | Some v \<Rightarrow> in_range min_value max_value v)"

definition get_column_data :: "table_runtime \<Rightarrow> string \<Rightarrow> column_data option" where
  "get_column_data t c = map_of (storage t) c"

section \<open>Insertion\<close>

definition expected_type :: "tablecol \<Rightarrow> string" where
  "expected_type col = (case column_type col of TIdentifier n _ \<Rightarrow> n | _ \<Rightarrow> ''unknown'')"

fun actual_type :: "column_value \<Rightarrow> string" where
  "actual_type (VU64 _) = ''u64''"
| "actual_type (VI32 _) = ''i32''"
| "actual_type (VString _) = ''String''"
| "actual_type (VBool _) = ''bool''"
| "actual_type (VF64 _) = ''f64''"

definition validate_column_value :: "table_runtime \<Rightarrow> string \<Rightarrow> column_value \<Rightarrow> table_error + unit" where
  "validate_column_value t c v =
     (case find_column (schema t) c of
        None \<Rightarrow> Inl (ColumnNotFound c)
      | Some col \<Rightarrow>
          if expected_type col \<noteq> actual_type v then Inl (TypeMismatch c (expected_type col) (actual_type v))
          else Inr ())"

fun evaluate_default_expression :: "expression \<Rightarrow> table_error + column_value" where
  "evaluate_default_expression (ELiteral l) = Inr (literal_value l)"
| "evaluate_default_expression _ = Inl (TypeMismatch ''default'' ''literal'' ''complex expression'')"

fun complete_columns ::
    "table_runtime \<Rightarrow> (string, column_value) hmap \<Rightarrow> tablecol list \<Rightarrow> (string, column_value) hmap \<Rightarrow>
       table_error + (string, column_value) hmap" where
  "complete_columns t given [] complete = Inr complete"
| "complete_columns t given (col # cols) complete =
     (if is_computed col then complete_columns t given cols complete
      else
        (case map_of given (col_name col) of
           Some v \<Rightarrow>
             (case validate_column_value t (col_name col) v of
                Inl err \<Rightarrow> Inl err
              | Inr _ \<Rightarrow> complete_columns t given cols (AList.update (col_name col) v complete))
         | None \<Rightarrow>
             (case default_value col of
                None \<Rightarrow> Inl (ColumnNotFound (col_name col))
              | Some expr \<Rightarrow>
                  (case evaluate_default_expression expr of
                     Inl err \<Rightarrow> Inl err
                   | Inr v \<Rightarrow> complete_columns t given cols (AList.update (col_name col) v complete)))))"

fun store_row :: "row_id \<Rightarrow> (string \<times> column_value) list \<Rightarrow> columnar_storage \<Rightarrow> table_error option \<times> columnar_storage" where
  "store_row row [] st = (None, st)"
| "store_row row ((c, v) # cvs) st =
     (case map_of st c of
        None \<Rightarrow> store_row row cvs st
      | Some d \<Rightarrow>
          (case set_value_at d row (Some v) of
             (Some err, d') \<Rightarrow> (Some err, AList.update c d' st)
           | (None, d') \<Rightarrow> store_row row cvs (AList.update c d' st)))"

text \<open>The value of the primary key in a complete row.\<close>

definition key_of :: "primary_key_index \<Rightarrow> (string, column_value) hmap \<Rightarrow> column_value option" where
  "key_of p complete = (case pk_column p of None \<Rightarrow> None | Some c \<Rightarrow> map_of complete c)"

definition duplicate_key :: "primary_key_index \<Rightarrow> (string, column_value) hmap \<Rightarrow> column_value option" where
  "duplicate_key p complete =
     (case key_of p complete of
        None \<Rightarrow> None
      | Some key \<Rightarrow> if hm_contains (pk_index p) key then Some key else None)"

definition register_key :: "primary_key_index \<Rightarrow> (string, column_value) hmap \<Rightarrow> row_id \<Rightarrow> primary_key_index" where
  "register_key p complete row =
     (case key_of p complete of None \<Rightarrow> p | Some key \<Rightarrow> p\<lparr>pk_index := AList.update key row (pk_index p)\<rparr>)"

definition insert_row :: "hash_order \<Rightarrow> table_runtime \<Rightarrow> table_row \<Rightarrow> (table_error + row_id) \<times> table_runtime" where
  "insert_row \<pi> t r =
     (case complete_columns t (row_values r) (columns (schema t)) [] of
        Inl err \<Rightarrow> (Inl err, t)
      | Inr complete \<Rightarrow>
          (case duplicate_key (primary_index t) complete of
             Some key \<Rightarrow> (Inl (DuplicatePrimaryKey key), t)
           | None \<Rightarrow>
               (let row = next_row_id t in
                case store_row row (hm_iter \<pi> complete) (storage t) of
                  (Some err, st) \<Rightarrow> (Inl err, t\<lparr>storage := st\<rparr>)
                | (None, st) \<Rightarrow>
                    (Inr row, t\<lparr>storage := st, primary_index := register_key (primary_index t) complete row,
                       row_count := row_count t + 1, next_row_id := next_row_id t + 1\<rparr>))))"

section \<open>Deletion and update\<close>

definition unregister_key :: "primary_key_index \<Rightarrow> columnar_storage \<Rightarrow> row_id \<Rightarrow> primary_key_index" where
  "unregister_key p st row =
     (case pk_column p of
        None \<Rightarrow> p
      | Some c \<Rightarrow>
          (case map_of st c of
             None \<Rightarrow> p
           | Some d \<Rightarrow>
               (case get_value d row of None \<Rightarrow> p | Some key \<Rightarrow> p\<lparr>pk_index := AList.delete key (pk_index p)\<rparr>)))"

definition delete_row :: "table_runtime \<Rightarrow> row_id \<Rightarrow> (table_error + unit) \<times> table_runtime" where
  "delete_row t row =
     (if row \<in> set (deleted_rows t) \<or> next_row_id t \<le> row then (Inl (RowNotFound row), t)
      else (Inr (), t\<lparr>primary_index := unregister_key (primary_index t) (storage t) row,
              storage := map (\<lambda>(c, d). (c, mark_deleted d row)) (storage t),
              deleted_rows := List.insert row (deleted_rows t), row_count := row_count t - 1\<rparr>))"

fun apply_updates ::
    "table_runtime \<Rightarrow> row_id \<Rightarrow> (string \<times> column_value) list \<Rightarrow> columnar_storage \<Rightarrow>
       (table_error + unit) \<times> columnar_storage" where
  "apply_updates t row [] st = (Inr (), st)"
| "apply_updates t row ((c, v) # cvs) st =
     (case validate_column_value t c v of
        Inl err \<Rightarrow> (Inl err, st)
      | Inr _ \<Rightarrow>
          (case map_of st c of
             None \<Rightarrow> (Inl (ColumnNotFound c), st)
           | Some d \<Rightarrow>
               (case set_value d row v of
                  Inl err \<Rightarrow> (Inl err, st)
                | Inr d' \<Rightarrow> apply_updates t row cvs (AList.update c d' st))))"

definition updates_key :: "primary_key_index \<Rightarrow> (string, column_value) hmap \<Rightarrow> string option" where
  "updates_key p updates =
     (case pk_column p of None \<Rightarrow> None | Some c \<Rightarrow> if hm_contains updates c then Some c else None)"

definition update_row ::
    "hash_order \<Rightarrow> table_runtime \<Rightarrow> row_id \<Rightarrow> (string, column_value) hmap \<Rightarrow> (table_error + unit) \<times> table_runtime" where
  "update_row \<pi> t row updates =
     (if row \<in> set (deleted_rows t) \<or> next_row_id t \<le> row then (Inl (RowNotFound row), t)
      else
        (case updates_key (primary_index t) updates of
           Some c \<Rightarrow> (Inl (TypeMismatch c ''immutable primary key'' ''update attempt''), t)
         | None \<Rightarrow>
             (case apply_updates t row (hm_iter \<pi> updates) (storage t) of
                (r, st) \<Rightarrow> (r, t\<lparr>storage := st\<rparr>))))"

end
