(* ===== verification/Predicates.thy ===== *)
theory Predicates
  imports Table
begin

text \<open>
  The query side of \<open>TableRuntime\<close> (\<open>src/table_runtime.rs\<close>): statistics, secondary and bitmap
  indexes, predicate evaluation on columns, the scans that use it, and \<open>IndexedIterator\<close>. The
  statistics records are those of \<open>src/query.rs\<close>. A predicate on a computed column reads the
  whole row, so the evaluation of a predicate may abort as the evaluation of a row may.
\<close>

section \<open>Statistics\<close>

record column_statistics =
  cs_column_name :: string
  distinct_count :: usize
  null_count :: usize
  min_value :: "column_value option"
  max_value :: "column_value option"
  is_indexed :: bool

record table_statistics =
  ts_table_name :: string
  ts_row_count :: usize
  column_stats :: "(string, column_statistics) hmap"
  indexed_columns :: "string list"
  primary_key_column :: "string option"

type_synonym column_summary = "column_value hset \<times> usize \<times> column_value option \<times> column_value option"

definition summarize_cell :: "table_runtime \<Rightarrow> column_data \<Rightarrow> usize \<Rightarrow> column_summary \<Rightarrow> column_summary" where
  "summarize_cell t d i summary =
     (case summary of (seen, nulls, lo, hi) \<Rightarrow>
        if i \<in> set (deleted_rows t) then summary
        else
          (case get_value d i of
             None \<Rightarrow> (seen, nulls + 1, lo, hi)
           | Some v \<Rightarrow>
               (List.insert v seen, nulls,
                case lo of None \<Rightarrow> Some v | Some m \<Rightarrow> if at_least v m then Some v else lo,
                case hi of None \<Rightarrow> Some v | Some m \<Rightarrow> if at_least m v then Some v else hi)))"

definition summarize_column :: "table_runtime \<Rightarrow> string \<Rightarrow> column_data \<Rightarrow> column_statistics" where
  "summarize_column t c d =
     (case fold (summarize_cell t d) [0..<next_row_id t] ([], 0, None, None) of
        (seen, nulls, lo, hi) \<Rightarrow>
          \<lparr>cs_column_name = c, distinct_count = length seen, null_count = nulls, min_value = lo,
           max_value = hi, is_indexed = (pk_column (primary_index t) = Some c)\<rparr>)"

definition generate_statistics :: "table_runtime \<Rightarrow> table_statistics" where
  "generate_statistics t =
     \<lparr>ts_table_name = table_name (schema t), ts_row_count = row_count t,
      column_stats = fold (\<lambda>col stats.
          case map_of (storage t) (col_name col) of
            None \<Rightarrow> stats
          | Some d \<Rightarrow> AList.update (col_name col) (summarize_column t (col_name col) d) stats)
        (columns (schema t)) [],
      indexed_columns = (case pk_column (primary_index t) of None \<Rightarrow> [] | Some c \<Rightarrow> [c]),
      primary_key_column = pk_column (primary_index t)\<rparr>"

definition estimate_column_cardinality :: "table_runtime \<Rightarrow> string \<Rightarrow> column_value \<Rightarrow> usize" where
  "estimate_column_cardinality t c v =
     (if pk_column (primary_index t) = Some c then
        (if hm_contains (pk_index (primary_index t)) v then 1 else 0)
      else
        (case map_of (storage t) c of
           None \<Rightarrow> 0
         | Some d \<Rightarrow>
             fold (\<lambda>i matches.
                 if i \<in> set (deleted_rows t) then matches
                 else (case get_value d i of
                         None \<Rightarrow> matches
                       | Some w \<Rightarrow> if values_equal w v then matches + 1 else matches))
               [0..<next_row_id t] 0))"

section \<open>Indexes\<close>

text \<open>\<open>entry(key).or_insert_with(Vec::new).push(row)\<close> on a \<open>BTreeMap\<close>\<close>

fun btree_push :: "'k::linorder \<Rightarrow> 'v \<Rightarrow> ('k \<times> 'v list) list \<Rightarrow> ('k \<times> 'v list) list" where
  "btree_push k v [] = [(k, [v])]"
| "btree_push k v ((k', vs) # m) =
     (if k = k' then (k', vs @ [v]) # m
      else if k < k' then (k, [v]) # (k', vs) # m
      else (k', vs) # btree_push k v m)"

definition index_cell :: "table_runtime \<Rightarrow> column_data \<Rightarrow> usize \<Rightarrow>
    (column_value \<times> row_id list) list \<Rightarrow> (column_value \<times> row_id list) list" where
  "index_cell t d i m =
     (if i \<in> set (deleted_rows t) then m
      else case get_value d i of None \<Rightarrow> m | Some v \<Rightarrow> btree_push v i m)"

definition build_ordered_index :: "table_runtime \<Rightarrow> string \<Rightarrow> (column_value \<times> row_id list) list" where
  "build_ordered_index t c =
     (case map_of (storage t) c of None \<Rightarrow> [] | Some d \<Rightarrow> fold (index_cell t d) [0..<next_row_id t] [])"

definition bitmap_of_ids :: "usize \<Rightarrow> row_id list \<Rightarrow> row_bitmap" where
  "bitmap_of_ids n ids = fold (\<lambda>i b. bitmap_set b i True) ids (bitmap_new n)"

definition mark_null :: "table_runtime \<Rightarrow> column_data \<Rightarrow> usize \<Rightarrow> row_bitmap \<Rightarrow> row_bitmap" where
  "mark_null t d i b =
     (if i \<in> set (deleted_rows t) then b else if get_value d i = None then bitmap_set b i True else b)"

definition build_bitmap_index :: "table_runtime \<Rightarrow> string \<Rightarrow> (column_value \<times> row_id list) list \<Rightarrow> bitmap_index" where
  "build_bitmap_index t c ordered =
     \<lparr>bi_column = c,
      value_bitmaps = fold (\<lambda>(v, ids). AList.update v (bitmap_of_ids (next_row_id t) ids)) ordered [],
      null_bitmap =
        (case map_of (storage t) c of
           None \<Rightarrow> bitmap_new (next_row_id t)
         | Some d \<Rightarrow> fold (mark_null t d) [0..<next_row_id t] (bitmap_new (next_row_id t)))\<rparr>"

definition add_secondary_index :: "table_runtime \<Rightarrow> string \<Rightarrow> table_runtime" where
  "add_secondary_index t c =
     (if hm_contains (secondary_indexes t) c then t
      else
        (let ordered = build_ordered_index t c;
             index = \<lparr>si_column = c, ordered_index = ordered,
               si_bitmap = (if length ordered \<le> 100 then Some (build_bitmap_index t c ordered) else None)\<rparr>
         in t\<lparr>secondary_indexes := AList.update c index (secondary_indexes t)\<rparr>))"

section \<open>Predicate evaluation\<close>

datatype predicate_result = PBitmap row_bitmap | PIndexLookup "row_id list" | PFullScan

type_synonym predicate_outcome = "abort + table_error + predicate_result"

definition pred_then :: "predicate_outcome \<Rightarrow> (predicate_result \<Rightarrow> predicate_outcome) \<Rightarrow> predicate_outcome" where
  "pred_then x k =
     (case x of Inl a \<Rightarrow> Inl a | Inr (Inl err) \<Rightarrow> Inr (Inl err) | Inr (Inr r) \<Rightarrow> k r)"

lemma pred_then_cong [fundef_cong]:
  "x = x' \<Longrightarrow> (\<And>r. x' = Inr (Inr r) \<Longrightarrow> k r = k' r) \<Longrightarrow> pred_then x k = pred_then x' k'"
  by (auto simp: pred_then_def split: sum.splits)

definition get_value_for_row ::
    "(string \<Rightarrow> string) \<Rightarrow> table_runtime \<Rightarrow> row_id \<Rightarrow> string \<Rightarrow> abort + column_value option" where
  "get_value_for_row \<delta> t row c =
     (if table_is_computed t c then
        (case get_row \<delta> t row of
           Inl a \<Rightarrow> Inl a
         | Inr (Inl _) \<Rightarrow> Inr None
         | Inr (Inr r) \<Rightarrow> Inr (map_of (row_values r) c))
      else Inr (case map_of (storage t) c of None \<Rightarrow> None | Some d \<Rightarrow> get_value d row))"

text \<open>The loop of \<open>create_equality_bitmap\<close> and \<open>create_range_bitmap\<close>, over the rows.\<close>

fun fill_bitmap ::
    "(string \<Rightarrow> string) \<Rightarrow> table_runtime \<Rightarrow> string \<Rightarrow> (column_value \<Rightarrow> bool) \<Rightarrow> usize list \<Rightarrow> row_bitmap \<Rightarrow>
       abort + row_bitmap" where
  "fill_bitmap \<delta> t c matches [] b = Inr b"
| "fill_bitmap \<delta> t c matches (i # is) b =
     (if i \<in> set (deleted_rows t) then fill_bitmap \<delta> t c matches is b
      else
        (case get_value_for_row \<delta> t i c of
           Inl a \<Rightarrow> Inl a
         | Inr None \<Rightarrow> fill_bitmap \<delta> t c matches is b
         | Inr (Some v) \<Rightarrow> fill_bitmap \<delta> t c matches is (if matches v then bitmap_set b i True else b)))"

definition create_bitmap ::
    "(string \<Rightarrow> string) \<Rightarrow> table_runtime \<Rightarrow> string \<Rightarrow> (column_value \<Rightarrow> bool) \<Rightarrow> predicate_outcome" where
  "create_bitmap \<delta> t c matches =
     (if find_column (schema t) c = None then Inr (Inl (ColumnNotFound c))
      else map_sum id (\<lambda>b. Inr (PBitmap b))
        (fill_bitmap \<delta> t c matches [0..<next_row_id t] (bitmap_new (next_row_id t))))"

definition create_equality_bitmap ::
    "(string \<Rightarrow> string) \<Rightarrow> table_runtime \<Rightarrow> string \<Rightarrow> column_value \<Rightarrow> predicate_outcome" where
  "create_equality_bitmap \<delta> t c v =
     (let goal = normalize_value_for_column t c v in create_bitmap \<delta> t c (\<lambda>w. values_equal w goal))"

fun column_matches :: "binary_operator \<Rightarrow> column_value \<Rightarrow> column_value \<Rightarrow> bool" where
  "column_matches Less goal v = at_least goal v"
| "column_matches LessEqual goal v = (at_least goal v \<or> values_equal v goal)"
| "column_matches Greater goal v = at_least v goal"
| "column_matches GreaterEqual goal v = (at_least v goal \<or> values_equal v goal)"
| "column_matches _ goal v = False"

definition create_range_bitmap ::
    "(string \<Rightarrow> string) \<Rightarrow> table_runtime \<Rightarrow> string \<Rightarrow> binary_operator \<Rightarrow> column_value \<Rightarrow> predicate_outcome" where
  "create_range_bitmap \<delta> t c op v =
     (let goal = normalize_value_for_column t c v in create_bitmap \<delta> t c (column_matches op goal))"

definition evaluate_equality_predicate ::
    "(string \<Rightarrow> string) \<Rightarrow> table_runtime \<Rightarrow> expression \<Rightarrow> expression \<Rightarrow> predicate_outcome" where
  "evaluate_equality_predicate \<delta> t left right =
     (case (left, right) of
        (EIdentifier c, ELiteral l) \<Rightarrow>
          (let v = normalize_value_for_column t c (literal_value l) in
           if pk_column (primary_index t) = Some c then
             Inr (Inr (PIndexLookup (case find_by_primary_key t v of Some row \<Rightarrow> [row] | None \<Rightarrow> [])))
           else
             (case map_of (secondary_indexes t) c of
                Some index \<Rightarrow>
                  Inr (Inr (PIndexLookup (case map_of (ordered_index index) v of Some ids \<Rightarrow> ids | None \<Rightarrow> [])))
              | None \<Rightarrow> create_equality_bitmap \<delta> t c v))
      | _ \<Rightarrow> Inr (Inr PFullScan))"

fun index_matches :: "binary_operator \<Rightarrow> column_value \<Rightarrow> column_value \<Rightarrow> bool" where
  "index_matches Less goal v = at_least goal v"
| "index_matches LessEqual goal v = (at_least goal v \<or> v = goal)"
| "index_matches Greater goal v = at_least v goal"
| "index_matches GreaterEqual goal v = (at_least v goal \<or> v = goal)"
| "index_matches _ goal v = False"

definition evaluate_range_predicate ::
    "(string \<Rightarrow> string) \<Rightarrow> table_runtime \<Rightarrow> expression \<Rightarrow> binary_operator \<Rightarrow> expression \<Rightarrow> predicate_outcome" where
  "evaluate_range_predicate \<delta> t left op right =
     (case (left, right) of
        (EIdentifier c, ELiteral l) \<Rightarrow>
          (let v = normalize_value_for_column t c (literal_value l) in
           (case map_of (secondary_indexes t) c of
              Some index \<Rightarrow>
                Inr (Inr (PIndexLookup
                  (concat (map snd (filter (\<lambda>(w, ids). index_matches op v w) (ordered_index index))))))
            | None \<Rightarrow> create_range_bitmap \<delta> t c op v))
      | _ \<Rightarrow> Inr (Inr PFullScan))"

fun intersect_predicate_results :: "predicate_result \<Rightarrow> predicate_result \<Rightarrow> predicate_result" where
  "intersect_predicate_results (PBitmap b) (PBitmap c) = PBitmap (bitmap_and b c)"
| "intersect_predicate_results (PIndexLookup is) (PIndexLookup js) =
     PIndexLookup (filter (\<lambda>i. i \<in> set js) is)"
| "intersect_predicate_results _ _ = PFullScan"

fun union_predicate_results :: "predicate_result \<Rightarrow> predicate_result \<Rightarrow> predicate_result" where
  "union_predicate_results (PBitmap b) (PBitmap c) = PBitmap (bitmap_or b c)"
| "union_predicate_results (PIndexLookup is) (PIndexLookup js) =
     PIndexLookup (fold (\<lambda>j is. if j \<notin> set is then is @ [j] else is) js is)"
| "union_predicate_results _ _ = PFullScan"

definition invert_bitmap :: "usize \<Rightarrow> row_bitmap \<Rightarrow> row_bitmap" where
  "invert_bitmap n b =
     fold (\<lambda>i inverted. if bits b ! i then bitmap_set inverted i False else inverted)
       [0..<length (bits b)] (bitmap_all_true n)"

fun evaluate_predicate_columnar ::
    "(string \<Rightarrow> string) \<Rightarrow> table_runtime \<Rightarrow> expression \<Rightarrow> predicate_outcome" where
  "evaluate_predicate_columnar \<delta> t (EBinaryOp left op right) =
     (case op of
        And \<Rightarrow>
          pred_then (evaluate_predicate_columnar \<delta> t left) (\<lambda>l.
            pred_then (evaluate_predicate_columnar \<delta> t right) (\<lambda>r.
              Inr (Inr (intersect_predicate_results l r))))
      | Or \<Rightarrow>
          pred_then (evaluate_predicate_columnar \<delta> t left) (\<lambda>l.
            pred_then (evaluate_predicate_columnar \<delta> t right) (\<lambda>r.
              Inr (Inr (union_predicate_results l r))))
      | Equal \<Rightarrow> evaluate_equality_predicate \<delta> t left right
      | NotEqual \<Rightarrow>
          pred_then (evaluate_equality_predicate \<delta> t left right) (\<lambda>r.
            case r of
              PBitmap b \<Rightarrow> Inr (Inr (PBitmap (invert_bitmap (next_row_id t) b)))
            | other \<Rightarrow> Inr (Inr other))
      | Less \<Rightarrow> evaluate_range_predicate \<delta> t left op right
      | Greater \<Rightarrow> evaluate_range_predicate \<delta> t left op right
      | LessEqual \<Rightarrow> evaluate_range_predicate \<delta> t left op right
      | GreaterEqual \<Rightarrow> evaluate_range_predicate \<delta> t left op right
      | _ \<Rightarrow> Inr (Inr PFullScan))"
| "evaluate_predicate_columnar \<delta> t _ = Inr (Inr PFullScan)"

text \<open>The loop over the rows found; a full scan keeps every row, whatever the predicate.\<close>

definition scan_filtered_optimized ::
    "(string \<Rightarrow> string) \<Rightarrow> table_runtime \<Rightarrow> expression \<Rightarrow> abort + table_error + (row_id \<times> table_row) list" where
  "scan_filtered_optimized \<delta> t predicate =
     (case evaluate_predicate_columnar \<delta> t predicate of
        Inl a \<Rightarrow> Inl a
      | Inr (Inl err) \<Rightarrow> Inr (Inl err)
      | Inr (Inr r) \<Rightarrow>
          map_sum id Inr
            (case r of
               PIndexLookup ids \<Rightarrow> scan_rows \<delta> t (\<lambda>_. True) ids []
             | PBitmap b \<Rightarrow> scan_rows \<delta> t (\<lambda>_. True) (true_row_ids b) []
             | PFullScan \<Rightarrow> scan_filtered \<delta> t (\<lambda>_. True)))"

definition create_equality_bitmap_optimized ::
    "(string \<Rightarrow> string) \<Rightarrow> table_runtime \<Rightarrow> string \<Rightarrow> column_value \<Rightarrow> predicate_outcome" where
  "create_equality_bitmap_optimized \<delta> t c v =
     (case (case map_of (secondary_indexes t) c of None \<Rightarrow> None | Some index \<Rightarrow> si_bitmap index) of
        Some bi \<Rightarrow>
          (case map_of (value_bitmaps bi) v of
             Some b \<Rightarrow> Inr (Inr (PBitmap b))
           | None \<Rightarrow> Inr (Inr (PBitmap (bitmap_new (next_row_id t)))))
      | None \<Rightarrow> create_equality_bitmap \<delta> t c v)"

fun evaluate_predicate_with_bitmap_indexes ::
    "(string \<Rightarrow> string) \<Rightarrow> table_runtime \<Rightarrow> expression \<Rightarrow> predicate_outcome" where
  "evaluate_predicate_with_bitmap_indexes \<delta> t (EBinaryOp left op right) =
     (case op of
        Equal \<Rightarrow>
          (case (left, right) of
             (EIdentifier c, ELiteral l) \<Rightarrow>
               create_equality_bitmap_optimized \<delta> t c (normalize_value_for_column t c (literal_value l))
           | _ \<Rightarrow> evaluate_predicate_columnar \<delta> t (EBinaryOp left op right))
      | And \<Rightarrow>
          pred_then (evaluate_predicate_with_bitmap_indexes \<delta> t left) (\<lambda>l.
            pred_then (evaluate_predicate_with_bitmap_indexes \<delta> t right) (\<lambda>r.
              Inr (Inr (intersect_predicate_results l r))))
      | Or \<Rightarrow>
          pred_then (evaluate_predicate_with_bitmap_indexes \<delta> t left) (\<lambda>l.
            pred_then (evaluate_predicate_with_bitmap_indexes \<delta> t right) (\<lambda>r.
              Inr (Inr (union_predicate_results l r))))
      | _ \<Rightarrow> evaluate_predicate_columnar \<delta> t (EBinaryOp left op right))"
| "evaluate_predicate_with_bitmap_indexes \<delta> t predicate = evaluate_predicate_columnar \<delta> t predicate"

section \<open>Projections and iterators\<close>

fun project_columns ::
    "table_runtime \<Rightarrow> row_id \<Rightarrow> string list \<Rightarrow> (string, column_value) hmap \<Rightarrow> table_error + table_row" where
  "project_columns t row [] vals = Inr (TableRow vals)"
| "project_columns t row (c # cs) vals =
     (case find_column (schema t) c of
        None \<Rightarrow> project_columns t row cs vals
      | Some col \<Rightarrow>
          if is_computed col then project_columns t row cs vals
          else
            (case map_of (storage t) c of
               None \<Rightarrow> project_columns t row cs vals
             | Some d \<Rightarrow>
                 (case get_value d row of
                    Some v \<Rightarrow> project_columns t row cs (AList.update c v vals)
                  | None \<Rightarrow> Inl (RowNotFound row))))"

definition get_row_projected :: "table_runtime \<Rightarrow> row_id \<Rightarrow> string list \<Rightarrow> table_error + table_row" where
  "get_row_projected t row projection = project_columns t row projection []"

text \<open>The iterator borrows the table, which is an argument here.\<close>

record indexed_iterator =
  it_row_ids :: "row_id list"
  it_projection :: "string list"

definition iterator_new :: "row_id list \<Rightarrow> string list \<Rightarrow> indexed_iterator" where
  "iterator_new ids projection = \<lparr>it_row_ids = ids, it_projection = projection\<rparr>"

definition iterator_from_bitmap :: "row_bitmap \<Rightarrow> string list \<Rightarrow> indexed_iterator" where
  "iterator_from_bitmap b projection = iterator_new (true_row_ids b) projection"

definition iterator_primary_key_lookup :: "table_runtime \<Rightarrow> column_value \<Rightarrow> string list \<Rightarrow> indexed_iterator" where
  "iterator_primary_key_lookup t key projection =
     iterator_new (case find_by_primary_key t key of Some row \<Rightarrow> [row] | None \<Rightarrow> []) projection"

definition iterator_range_scan ::
    "table_runtime \<Rightarrow> string \<Rightarrow> column_value option \<Rightarrow> column_value option \<Rightarrow> string list \<Rightarrow> indexed_iterator" where
  "iterator_range_scan t c lo hi projection =
     (case map_of (secondary_indexes t) c of
        Some index \<Rightarrow>
          iterator_new
            (concat (map snd (filter (\<lambda>(v, ids).
               (case lo of None \<Rightarrow> True | Some m \<Rightarrow> \<not> at_least v m) \<and>
               (case hi of None \<Rightarrow> True | Some m \<Rightarrow> \<not> at_least m v)) (ordered_index index))))
            projection
      | None \<Rightarrow> iterator_new (filter (\<lambda>i. i \<notin> set (deleted_rows t)) [0..<next_row_id t]) projection)"

fun next_row :: "table_runtime \<Rightarrow> string list \<Rightarrow> row_id list \<Rightarrow> (row_id \<times> table_row) option \<times> row_id list" where
  "next_row t projection [] = (None, [])"
| "next_row t projection (i # is) =
     (if i \<notin> set (deleted_rows t) then
        (case get_row_projected t i projection of
           Inr row \<Rightarrow> (Some (i, row), is)
         | Inl _ \<Rightarrow> next_row t projection is)
      else next_row t projection is)"

definition iterator_next :: "table_runtime \<Rightarrow> indexed_iterator \<Rightarrow> (row_id \<times> table_row) option \<times> indexed_iterator" where
  "iterator_next t it =
     (case next_row t (it_projection it) (it_row_ids it) of
        (item, ids) \<Rightarrow> (item, it\<lparr>it_row_ids := ids\<rparr>))"

end
