(* ===== verification/Table_Invariant.thy ===== *)
theory Table_Invariant
  imports Predicates
begin

text \<open>
  The invariant of a table (\<open>table_ok\<close>), the abstract table it stands for (\<open>table_rows\<close>: a
  finite map from row identifiers to rows), and what every operation does to both. An operation
  that fails may leave cells behind beyond the last row; no live row shows them.
\<close>

section \<open>The invariant and the abstract table\<close>

definition schema_ok :: "tabledef \<Rightarrow> bool" where
  "schema_ok s \<longleftrightarrow> distinct (map col_name (columns s))"

definition column_type_kind :: "tablecol \<Rightarrow> kind" where
  "column_type_kind col = column_kind (new_for_type (storage_type col))"

definition stored_column_of :: "tabledef \<Rightarrow> string \<Rightarrow> tablecol option" where
  "stored_column_of s c =
     (case find_column s c of None \<Rightarrow> None | Some col \<Rightarrow> if is_computed col then None else Some col)"

definition storage_cell :: "columnar_storage \<Rightarrow> string \<Rightarrow> row_id \<Rightarrow> column_value option" where
  "storage_cell st c i = (case map_of st c of None \<Rightarrow> None | Some d \<Rightarrow> get_value d i)"

definition storage_ok :: "tabledef \<Rightarrow> columnar_storage \<Rightarrow> bool" where
  "storage_ok s st \<longleftrightarrow> hm_wf st \<and>
     (\<forall>c. find_column s c = None \<longrightarrow> map_of st c = None) \<and>
     (\<forall>c col. find_column s c = Some col \<longrightarrow>
        (\<exists>d. map_of st c = Some d \<and> column_kind d = column_type_kind col \<and>
           (is_computed col \<longrightarrow> column_len d = 0)))"

definition live :: "table_runtime \<Rightarrow> row_id \<Rightarrow> bool" where
  "live t i \<longleftrightarrow> i < next_row_id t \<and> i \<notin> set (deleted_rows t)"

definition engine_ok :: "tabledef \<Rightarrow> engine option \<Rightarrow> bool" where
  "engine_ok s engine \<longleftrightarrow>
     (case engine of
        None \<Rightarrow> \<forall>col \<in> set (columns s). \<not> is_computed col
      | Some e \<Rightarrow> \<exists>\<pi>. is_hash_order \<pi> \<and> build_from_table \<pi> s = Some (Inr (dependency_graph e)))"

definition index_exact :: "table_runtime \<Rightarrow> bool" where
  "index_exact t \<longleftrightarrow>
     (\<forall>v i. map_of (pk_index (primary_index t)) v = Some i \<longleftrightarrow>
        live t i \<and> (\<exists>c. primary_column (schema t) = Some c \<and> storage_cell (storage t) c i = Some v))"

definition table_ok :: "table_runtime \<Rightarrow> bool" where
  "table_ok t \<longleftrightarrow> schema_ok (schema t) \<and> storage_ok (schema t) (storage t) \<and>
     pk_column (primary_index t) = primary_column (schema t) \<and> index_exact t \<and>
     distinct (deleted_rows t) \<and> (\<forall>i \<in> set (deleted_rows t). i < next_row_id t) \<and>
     row_count t + length (deleted_rows t) = next_row_id t \<and>
     (\<forall>i. live t i \<longrightarrow> (\<forall>c. stored_column_of (schema t) c \<noteq> None \<longrightarrow> storage_cell (storage t) c i \<noteq> None)) \<and>
     (\<forall>i \<in> set (deleted_rows t). \<forall>c. storage_cell (storage t) c i = None) \<and>
     engine_ok (schema t) (computed_engine t)"

definition table_rows :: "table_runtime \<Rightarrow> (row_id \<rightharpoonup> (string \<rightharpoonup> column_value))" where
  "table_rows t = (\<lambda>i. if live t i then Some (\<lambda>c. storage_cell (storage t) c i) else None)"

section \<open>Schemas and storage\<close>

lemma find_column_mem: "find_column s c = Some col \<Longrightarrow> col \<in> set (columns s) \<and> col_name col = c"
  unfolding find_column_def by (auto dest: find_Some_set)

lemma find_column_of: "schema_ok s \<Longrightarrow> col \<in> set (columns s) \<Longrightarrow> find_column s (col_name col) = Some col"
proof -
  have "distinct (map col_name cols) \<Longrightarrow> col \<in> set cols \<Longrightarrow>
     List.find (\<lambda>x. col_name x = col_name col) cols = Some col" for cols :: "tablecol list"
    by (induction cols) (auto simp: image_iff)
  then show "schema_ok s \<Longrightarrow> col \<in> set (columns s) \<Longrightarrow> find_column s (col_name col) = Some col"
    unfolding find_column_def schema_ok_def by blast
qed

lemma find_column_None: "find_column s c = None \<longleftrightarrow> c \<notin> col_name ` set (columns s)"
  unfolding find_column_def by (auto simp: find_None_set)

lemma stored_column_of_iff:
  "schema_ok s \<Longrightarrow> stored_column_of s c = Some col \<longleftrightarrow>
     col \<in> set (columns s) \<and> col_name col = c \<and> \<not> is_computed col"
  unfolding stored_column_of_def
  by (auto split: option.splits if_splits dest: find_column_mem find_column_of)

lemma storage_column:
  assumes "storage_ok s st" and "find_column s c = Some col"
  obtains d where "map_of st c = Some d" "column_kind d = column_type_kind col"
    "is_computed col \<Longrightarrow> column_len d = 0"
  using assms unfolding storage_ok_def by blast

lemma storage_column_None: "storage_ok s st \<Longrightarrow> map_of st c = None \<longleftrightarrow> find_column s c = None"
  unfolding storage_ok_def by (metis not_None_eq)

lemma storage_update:
  assumes "storage_ok s st" and "find_column s c = Some col" and "column_kind d = column_type_kind col"
    and "is_computed col \<longrightarrow> column_len d = 0"
  shows "storage_ok s (AList.update c d st)"
  using assms unfolding storage_ok_def map_of_update by (metis hm_wf_update option.distinct(1) option.inject)

lemma storage_cell_update:
  "storage_cell (AList.update c d st) c' i = (if c' = c then get_value d i else storage_cell st c' i)"
  by (simp add: storage_cell_def map_of_update)

lemma computed_cell_empty:
  assumes "storage_ok s st" and "stored_column_of s c = None"
  shows "storage_cell st c i = None"
proof (cases "find_column s c")
  case None
  with assms(1) show ?thesis by (simp add: storage_cell_def storage_ok_def)
next
  case (Some col)
  with assms(2) have "is_computed col" by (auto simp: stored_column_of_def split: if_splits)
  with storage_column [OF assms(1) Some] obtain d where "map_of st c = Some d" "column_len d = 0" by blast
  then show ?thesis by (simp add: storage_cell_def get_value_cells)
qed

lemma initial_storage_map:
  "distinct (map col_name cols) \<Longrightarrow> hm_wf st \<Longrightarrow>
     hm_wf (fold (\<lambda>col. AList.update (col_name col) (new_for_type (storage_type col))) cols st) \<and>
     map_of (fold (\<lambda>col. AList.update (col_name col) (new_for_type (storage_type col))) cols st) c =
       (case List.find (\<lambda>col. col_name col = c) cols of
          None \<Rightarrow> map_of st c
        | Some col \<Rightarrow> Some (new_for_type (storage_type col)))"
proof (induction cols arbitrary: st)
  case (Cons col cols)
  have "List.find (\<lambda>x. col_name x = col_name col) cols = None" if "col_name col \<notin> col_name ` set cols"
    using that unfolding find_None_set by (metis image_eqI)
  with Cons show ?case by (auto simp: map_of_update split: option.splits)
qed simp

lemma new_for_type_empty: "get_value (new_for_type n) i = None" "column_len (new_for_type n) = 0"
  by (auto simp: new_for_type_def vec_get_def)

lemma initial_storage_ok:
  assumes "schema_ok s"
  shows "storage_ok s (initial_storage (columns s))" and "storage_cell (initial_storage (columns s)) c i = None"
proof -
  from initial_storage_map [of "columns s" "[]"] assms
  have m: "map_of (initial_storage (columns s)) c = map_option (\<lambda>col. new_for_type (storage_type col)) (find_column s c)"
    and wf: "hm_wf (initial_storage (columns s))" for c
    by (auto simp: schema_ok_def initial_storage_def find_column_def split: option.splits)
  show "storage_ok s (initial_storage (columns s))"
    unfolding storage_ok_def m using wf
    by (auto simp: column_type_kind_def new_for_type_empty)
  show "storage_cell (initial_storage (columns s)) c i = None"
    unfolding storage_cell_def m by (auto simp: new_for_type_empty split: option.splits)
qed

lemma table_new_result:
  assumes "is_hash_order \<pi>" and "table_new \<delta> \<pi> s = Some (Inr t)"
  obtains engine where "t = \<lparr>schema = s, storage = initial_storage (columns s),
      primary_index = \<lparr>pk_column = primary_column s, pk_index = []\<rparr>, secondary_indexes = [],
      row_count = 0, deleted_rows = [], next_row_id = 0, computed_engine = engine\<rparr>"
    and "engine_ok s engine"
proof (cases "\<exists>col \<in> set (columns s). is_computed col")
  case True
  with assms(2) obtain e where e: "engine_new \<pi> s = Some (Inr e)"
    by (auto simp: table_new_def Let_def split: option.splits sum.splits)
  then have "build_from_table \<pi> s = Some (Inr (dependency_graph e))"
    by (auto simp: engine_new_def split: option.splits sum.splits)
  with assms(1) have "engine_ok s (Some e)" by (auto simp: engine_ok_def)
  with True e assms(2) that [of "Some e"] show thesis by (simp add: table_new_def Let_def)
next
  case False
  then have "engine_ok s None" by (simp add: engine_ok_def)
  with False assms(2) that [of None] show thesis by (auto simp: table_new_def Let_def)
qed

lemma table_new_ok:
  assumes "is_hash_order \<pi>" and "schema_ok s" and "table_new \<delta> \<pi> s = Some (Inr t)"
  shows "table_ok t" and "table_rows t = Map.empty" and "schema t = s"
proof -
  from table_new_result [OF assms(1,3)] obtain engine where t: "t = \<lparr>schema = s, storage = initial_storage (columns s),
      primary_index = \<lparr>pk_column = primary_column s, pk_index = []\<rparr>, secondary_indexes = [],
      row_count = 0, deleted_rows = [], next_row_id = 0, computed_engine = engine\<rparr>"
    and "engine_ok s engine" by blast
  with assms(2) show "table_ok t" by (auto simp: table_ok_def initial_storage_ok index_exact_def live_def)
  from t show "table_rows t = Map.empty" "schema t = s" by (auto simp: table_rows_def live_def)
qed

section \<open>Storing a row\<close>

definition fits :: "tabledef \<Rightarrow> string \<times> column_value \<Rightarrow> bool" where
  "fits s = (\<lambda>(c, v). \<exists>col. stored_column_of s c = Some col \<and> value_kind v = column_type_kind col)"

text \<open>A loop that stores cells of one row touches nothing else, and fails exactly when a value does not fit.\<close>

lemma store_row_effect:
  assumes "storage_ok s st" and "distinct (map fst cvs)" and "\<forall>(c, v) \<in> set cvs. stored_column_of s c \<noteq> None"
    and "store_row row cvs st = (err, st')"
  shows "storage_ok s st' \<and> (\<forall>c j. j \<noteq> row \<longrightarrow> storage_cell st' c j = storage_cell st c j) \<and>
     (err = None \<longleftrightarrow> (\<forall>cv \<in> set cvs. fits s cv)) \<and>
     (err = None \<longrightarrow> (\<forall>c. storage_cell st' c row =
        (case map_of cvs c of None \<Rightarrow> storage_cell st c row | Some v \<Rightarrow> Some v)))"
  using assms
proof (induction cvs arbitrary: st)
  case (Cons cv cvs)
  obtain c v where cv: "cv = (c, v)" by (cases cv)
  from Cons.prems(3) cv obtain col where s: "stored_column_of s c = Some col" by auto
  then have col: "find_column s c = Some col" "\<not> is_computed col"
    by (auto simp: stored_column_of_def split: option.splits if_splits)
  from storage_column [OF Cons.prems(1) col(1)] obtain d where
    d: "map_of st c = Some d" "column_kind d = column_type_kind col" by blast
  have cell: "storage_cell st c j = get_value d j" for j using d(1) by (simp add: storage_cell_def)
  show ?case
  proof (cases "value_kind v = column_kind d")
    case True
    from set_value_at_get [OF this, of row] obtain d' where
      d': "set_value_at d row (Some v) = (None, d')" "column_kind d' = column_kind d"
        "\<forall>j. get_value d' j = (if j = row then Some v else get_value d j)" by blast
    have ok: "storage_ok s (AList.update c d' st)"
      using storage_update [OF Cons.prems(1) col(1)] d'(2) d(2) col(2) by simp
    from Cons.prems(2,4) cv d(1) d'(1) have rest: "distinct (map fst cvs)"
      "store_row row cvs (AList.update c d' st) = (err, st')" by auto
    have "\<forall>(c, v) \<in> set cvs. stored_column_of s c \<noteq> None" using Cons.prems(3) by simp
    note IH = Cons.IH [OF ok rest(1) this rest(2)]
    from Cons.prems(2) cv have "map_of cvs c = None" by (simp add: map_of_eq_None_iff)
    with IH True show ?thesis
      unfolding cv using s d(2) d'(3) cell
      by (auto simp: fits_def storage_cell_update split: option.splits)
  next
    case False
    from set_value_at_misfit [OF this, of row] obtain d' where
      d': "set_value_at d row (Some v) = (Some incompatible, d')" "column_kind d' = column_kind d"
        "\<forall>j. get_value d' j = get_value d j" by blast
    have "storage_ok s (AList.update c d' st)"
      using storage_update [OF Cons.prems(1) col(1)] d'(2) d(2) col(2) by simp
    moreover from Cons.prems(4) cv d(1) d'(1) have "err = Some incompatible" "st' = AList.update c d' st"
      by auto
    moreover have "\<not> fits s cv" using cv s d(2) False by (simp add: fits_def)
    ultimately show ?thesis using d'(3) cell by (auto simp: storage_cell_update)
  qed
qed simp

lemma hm_iter_map_of:
  assumes "is_hash_order \<pi>" and "hm_wf m"
  shows "map_of (hm_iter \<pi> m) = map_of m"
proof (rule ext)
  fix k
  have "distinct (map fst (hm_iter \<pi> m))" using assms by (rule hm_iter_distinct)
  then have "map_of (hm_iter \<pi> m) k = Some v \<longleftrightarrow> map_of m k = Some v" for v
    using hm_iter_mem [OF assms(1), of k v m] by (simp add: map_of_eq_Some_iff)
  then show "map_of (hm_iter \<pi> m) k = map_of m k" by (metis not_Some_eq)
qed

section \<open>Insertion\<close>

text \<open>The value an insertion gives a stored column: the one supplied, if its type is right, or the default.\<close>

definition supplied :: "(string, column_value) hmap \<Rightarrow> tablecol \<Rightarrow> column_value option" where
  "supplied given col =
     (case map_of given (col_name col) of
        Some v \<Rightarrow> if expected_type col = actual_type v then Some v else None
      | None \<Rightarrow> (case default_value col of Some (ELiteral l) \<Rightarrow> Some (literal_value l) | _ \<Rightarrow> None))"

definition completed :: "tabledef \<Rightarrow> (string, column_value) hmap \<Rightarrow> string \<rightharpoonup> column_value" where
  "completed s given = (\<lambda>c. case stored_column_of s c of None \<Rightarrow> None | Some col \<Rightarrow> supplied given col)"

definition key_taken :: "table_runtime \<Rightarrow> column_value \<Rightarrow> bool" where
  "key_taken t v \<longleftrightarrow> (\<exists>c i row. primary_column (schema t) = Some c \<and> table_rows t i = Some row \<and> row c = Some v)"

definition insertable :: "table_runtime \<Rightarrow> (string, column_value) hmap \<Rightarrow> bool" where
  "insertable t given \<longleftrightarrow>
     (\<forall>c col. stored_column_of (schema t) c = Some col \<longrightarrow>
        (\<exists>v. supplied given col = Some v \<and> value_kind v = column_type_kind col)) \<and>
     (\<forall>c v. primary_column (schema t) = Some c \<longrightarrow> completed (schema t) given c = Some v \<longrightarrow> \<not> key_taken t v)"

lemma completed_iff:
  "completed s given c = Some v \<longleftrightarrow> (\<exists>col. stored_column_of s c = Some col \<and> supplied given col = Some v)"
  by (simp add: completed_def split: option.split)

lemma insertable_completed:
  assumes "insertable t given" and "stored_column_of (schema t) c \<noteq> None"
  shows "completed (schema t) given c \<noteq> None"
proof -
  from assms(2) obtain col where "stored_column_of (schema t) c = Some col" by blast
  with assms(1) show ?thesis by (metis completed_iff insertable_def option.distinct(1))
qed

lemma insertable_iff:
  assumes "\<forall>c col. stored_column_of (schema t) c = Some col \<longrightarrow> supplied given col \<noteq> None"
    and "\<forall>c v. primary_column (schema t) = Some c \<longrightarrow> completed (schema t) given c = Some v \<longrightarrow> \<not> key_taken t v"
  shows "insertable t given \<longleftrightarrow> (\<forall>c v. completed (schema t) given c = Some v \<longrightarrow> fits (schema t) (c, v))"
proof
  assume "insertable t given"
  then show "\<forall>c v. completed (schema t) given c = Some v \<longrightarrow> fits (schema t) (c, v)"
    unfolding insertable_def completed_iff fits_def by force
next
  assume fits: "\<forall>c v. completed (schema t) given c = Some v \<longrightarrow> fits (schema t) (c, v)"
  have "\<exists>v. supplied given col = Some v \<and> value_kind v = column_type_kind col"
    if col: "stored_column_of (schema t) c = Some col" for c col
  proof -
    from assms(1) col obtain v where v: "supplied given col = Some v" by blast
    with fits col have "fits (schema t) (c, v)" unfolding completed_iff by blast
    with v col show ?thesis by (simp add: fits_def)
  qed
  with assms(2) show "insertable t given" by (simp add: insertable_def)
qed

lemma default_result:
  "evaluate_default_expression expr = (case expr of ELiteral l \<Rightarrow> Inr (literal_value l)
     | _ \<Rightarrow> Inl (TypeMismatch ''default'' ''literal'' ''complex expression''))"
  by (cases expr) simp_all

lemma validate_result:
  "find_column (schema t) c = Some col \<Longrightarrow>
     validate_column_value t c v = (if expected_type col = actual_type v then Inr ()
       else Inl (TypeMismatch c (expected_type col) (actual_type v)))"
  by (simp add: validate_column_value_def)

lemma valid_kind: "expected_type col = actual_type v \<Longrightarrow> value_kind v = column_type_kind col"
  by (cases v; cases "column_type col")
    (auto simp: expected_type_def column_type_kind_def storage_type_def new_for_type_def)

text \<open>One round of the loop that completes a row\<close>

lemma complete_columns_step:
  assumes "find_column (schema t) (col_name col) = Some col" and "\<not> is_computed col"
  shows "\<exists>err. complete_columns t given (col # cols) acc =
     (case supplied given col of
        None \<Rightarrow> Inl err
      | Some v \<Rightarrow> complete_columns t given cols (AList.update (col_name col) v acc))"
proof (cases "map_of given (col_name col)")
  case None
  then show ?thesis
    using assms(2) by (cases "default_value col")
      (auto simp: supplied_def default_result split: expression.split option.splits)
next
  case (Some v)
  with assms show ?thesis by (auto simp: supplied_def validate_result)
qed

lemma complete_columns_result:
  assumes "\<forall>col \<in> set cols. find_column (schema t) (col_name col) = Some col" and "distinct (map col_name cols)"
    and "hm_wf acc"
  shows "if \<forall>col \<in> set cols. \<not> is_computed col \<longrightarrow> supplied given col \<noteq> None
     then \<exists>complete. complete_columns t given cols acc = Inr complete \<and> hm_wf complete \<and>
       (\<forall>c. map_of complete c =
          (if \<exists>col \<in> set cols. \<not> is_computed col \<and> col_name col = c
           then case find_column (schema t) c of None \<Rightarrow> None | Some col \<Rightarrow> supplied given col
           else map_of acc c))
     else \<exists>err. complete_columns t given cols acc = Inl err"
  using assms
proof (induction cols arbitrary: acc)
  case (Cons col cols)
  from Cons.prems have prems: "\<forall>col \<in> set cols. find_column (schema t) (col_name col) = Some col"
    "distinct (map col_name cols)" and col: "find_column (schema t) (col_name col) = Some col"
    and fresh: "col_name col \<notin> col_name ` set cols" by auto
  show ?case
  proof (cases "is_computed col")
    case True
    with Cons.IH [OF prems Cons.prems(3)] show ?thesis by simp
  next
    case False
    from complete_columns_step [OF col False] obtain err where
      step: "complete_columns t given (col # cols) acc =
       (case supplied given col of
          None \<Rightarrow> Inl err
        | Some v \<Rightarrow> complete_columns t given cols (AList.update (col_name col) v acc))" by blast
    show ?thesis
    proof (cases "supplied given col")
      case None
      with step False show ?thesis by auto
    next
      case (Some v)
      have wf: "hm_wf (AList.update (col_name col) v acc)" using Cons.prems(3) by simp
      have eq: "complete_columns t given (col # cols) acc =
          complete_columns t given cols (AList.update (col_name col) v acc)"
        unfolding step Some by simp
      show ?thesis
        unfolding eq using Cons.IH [OF prems wf] Some False fresh col
        by (auto simp: map_of_update split: if_splits)
    qed
  qed
qed simp

lemma complete_row_result:
  assumes "schema_ok (schema t)"
  shows "if \<forall>c col. stored_column_of (schema t) c = Some col \<longrightarrow> supplied given col \<noteq> None
     then \<exists>complete. complete_columns t given (columns (schema t)) [] = Inr complete \<and> hm_wf complete \<and>
       map_of complete = completed (schema t) given
     else \<exists>err. complete_columns t given (columns (schema t)) [] = Inl err"
proof -
  let ?cols = "columns (schema t)"
  have iff: "(\<forall>col \<in> set ?cols. \<not> is_computed col \<longrightarrow> supplied given col \<noteq> None) \<longleftrightarrow>
     (\<forall>c col. stored_column_of (schema t) c = Some col \<longrightarrow> supplied given col \<noteq> None)"
    using stored_column_of_iff [OF assms] by blast
  have c: "(if \<exists>col \<in> set ?cols. \<not> is_computed col \<and> col_name col = c
        then case find_column (schema t) c of None \<Rightarrow> None | Some col \<Rightarrow> supplied given col
        else map_of [] c) = completed (schema t) given c" for c
  proof (cases "stored_column_of (schema t) c")
    case None
    then have "\<not> (\<exists>col \<in> set ?cols. \<not> is_computed col \<and> col_name col = c)"
      using stored_column_of_iff [OF assms, of c] by auto
    with None show ?thesis unfolding completed_def by (simp only: if_False option.case map_of.simps)
  next
    case (Some col)
    then have "\<exists>col \<in> set ?cols. \<not> is_computed col \<and> col_name col = c"
      using stored_column_of_iff [OF assms, of c] by auto
    moreover have "find_column (schema t) c = Some col"
      using Some by (auto simp: stored_column_of_def split: option.splits if_splits)
    ultimately show ?thesis using Some by (simp add: completed_def)
  qed
  have "\<forall>col \<in> set ?cols. find_column (schema t) (col_name col) = Some col" "distinct (map col_name ?cols)"
    using assms by (auto simp: find_column_of schema_ok_def)
  from complete_columns_result [OF this hm_wf_Nil, of given] show ?thesis
    unfolding iff c fun_eq_iff [symmetric] .
qed

text \<open>Cells beyond the last row do not matter.\<close>

lemma table_ok_beyond:
  assumes "table_ok t" and "storage_ok (schema t) st"
    and "\<forall>c j. j < next_row_id t \<longrightarrow> storage_cell st c j = storage_cell (storage t) c j"
  shows "table_ok (t\<lparr>storage := st\<rparr>)" and "table_rows (t\<lparr>storage := st\<rparr>) = table_rows t"
proof -
  have live: "live (t\<lparr>storage := st\<rparr>) = live t" by (simp add: live_def fun_eq_iff)
  have cell: "live t i \<Longrightarrow> storage_cell st c i = storage_cell (storage t) c i" for i c
    using assms(3) by (simp add: live_def)
  from assms(1) have "index_exact t" by (simp add: table_ok_def)
  then have "index_exact (t\<lparr>storage := st\<rparr>)" unfolding index_exact_def live using cell by auto
  with assms cell show "table_ok (t\<lparr>storage := st\<rparr>)" unfolding table_ok_def live by auto
  show "table_rows (t\<lparr>storage := st\<rparr>) = table_rows t" by (auto simp: table_rows_def live cell)
qed

lemma key_taken_iff:
  assumes "table_ok t"
  shows "key_taken t v \<longleftrightarrow> hm_contains (pk_index (primary_index t)) v"
proof -
  from assms have "index_exact t" by (simp add: table_ok_def)
  then have "hm_contains (pk_index (primary_index t)) v \<longleftrightarrow>
     (\<exists>i c. live t i \<and> primary_column (schema t) = Some c \<and> storage_cell (storage t) c i = Some v)"
    unfolding index_exact_def hm_contains_def by blast
  then show ?thesis unfolding key_taken_def table_rows_def by auto
qed

lemma appended_row_ok:
  assumes ok: "table_ok t" and st: "storage_ok (schema t) st"
    and other: "\<forall>c j. j \<noteq> next_row_id t \<longrightarrow> storage_cell st c j = storage_cell (storage t) c j"
    and row: "\<forall>c. storage_cell st c (next_row_id t) = completed (schema t) given c"
    and fit: "insertable t given" and complete: "map_of complete = completed (schema t) given"
    and t': "t' = t\<lparr>storage := st, primary_index := register_key (primary_index t) complete (next_row_id t),
       row_count := row_count t + 1, next_row_id := next_row_id t + 1\<rparr>"
  shows "table_ok t'" and "table_rows t' = (table_rows t)(next_row_id t \<mapsto> completed (schema t) given)"
proof -
  let ?n = "next_row_id t"
  from ok have fresh: "?n \<notin> set (deleted_rows t)" and pk: "pk_column (primary_index t) = primary_column (schema t)"
    and exact: "index_exact t" by (auto simp: table_ok_def)
  have sel: "storage t' = st" "schema t' = schema t" "deleted_rows t' = deleted_rows t" "next_row_id t' = Suc ?n"
    "row_count t' = Suc (row_count t)" "computed_engine t' = computed_engine t"
    "primary_index t' = register_key (primary_index t) complete ?n"
    by (simp_all add: t')
  have live: "live t' i \<longleftrightarrow> i = ?n \<or> live t i" for i using fresh by (auto simp: live_def sel)
  have n: "\<not> live t ?n" by (simp add: live_def)
  have cell: "storage_cell st c i = (if i = ?n then completed (schema t) given c else storage_cell (storage t) c i)"
    for c i using other row by simp
  show "table_rows t' = (table_rows t)(?n \<mapsto> completed (schema t) given)"
    by (rule ext) (auto simp: table_rows_def live sel cell n)
  have key: "key_of (primary_index t) complete =
      (case primary_column (schema t) of None \<Rightarrow> None | Some c \<Rightarrow> completed (schema t) given c)"
    by (simp add: key_of_def pk complete split: option.split)
  have new: "map_of (pk_index (primary_index t')) v =
      (if key_of (primary_index t) complete = Some v then Some ?n else map_of (pk_index (primary_index t)) v)" for v
    by (auto simp: sel register_key_def map_of_update split: option.split)
  have "map_of (pk_index (primary_index t)) v = None" if "key_of (primary_index t) complete = Some v" for v
    using that fit key_taken_iff [OF ok, of v]
    by (auto simp: key insertable_def hm_contains_def split: option.splits)
  note unused = this
  have "index_exact t'"
    unfolding index_exact_def
  proof (intro allI)
    fix v i
    have old: "map_of (pk_index (primary_index t)) v = Some j \<longleftrightarrow>
       live t j \<and> (\<exists>c. primary_column (schema t) = Some c \<and> storage_cell (storage t) c j = Some v)" for j
      using exact unfolding index_exact_def by blast
    show "map_of (pk_index (primary_index t')) v = Some i \<longleftrightarrow>
       live t' i \<and> (\<exists>c. primary_column (schema t') = Some c \<and> storage_cell (storage t') c i = Some v)"
    proof (cases "key_of (primary_index t) complete = Some v")
      case True
      then obtain c where c: "primary_column (schema t) = Some c" "completed (schema t) given c = Some v"
        by (auto simp: key split: option.splits)
      with old [of i] unused [OF True] have "live t i \<Longrightarrow> storage_cell (storage t) c i \<noteq> Some v" by simp
      with True c show ?thesis unfolding new live sel(1,2) by (auto simp: cell)
    next
      case False
      then have "primary_column (schema t) = Some c \<Longrightarrow> completed (schema t) given c \<noteq> Some v" for c
        by (auto simp: key)
      with False old [of i] n show ?thesis unfolding new live sel(1,2) by (auto simp: cell)
    qed
  qed
  moreover note insertable_completed [OF fit]
  moreover have "pk_column (register_key (primary_index t) complete ?n) = pk_column (primary_index t)"
    by (simp add: register_key_def split: option.split)
  moreover have "\<forall>i \<in> set (deleted_rows t). i \<noteq> ?n" using fresh by blast
  ultimately show "table_ok t'"
    using ok st unfolding table_ok_def live by (auto simp: sel cell)
qed

text \<open>
  An insertion that succeeds adds exactly the completed row under a fresh identifier; one that
  fails leaves the abstract table as it was. It succeeds exactly when the row is insertable.
\<close>

lemma insert_row_result:
  assumes \<pi>: "is_hash_order \<pi>" and ok: "table_ok t" and run: "insert_row \<pi> t (TableRow given) = (r, t')"
  shows "if insertable t given
     then r = Inr (next_row_id t) \<and> table_ok t' \<and> next_row_id t' = Suc (next_row_id t) \<and>
       table_rows t' = (table_rows t)(next_row_id t \<mapsto> completed (schema t) given)
     else (\<exists>err. r = Inl err) \<and> table_ok t' \<and> table_rows t' = table_rows t"
    and "schema t' = schema t"
proof -
  let ?s = "schema t" and ?n = "next_row_id t"
  from ok have schema: "schema_ok ?s" and st: "storage_ok ?s (storage t)"
    and pk: "pk_column (primary_index t) = primary_column ?s" by (auto simp: table_ok_def)
  note complete_row = complete_row_result [OF schema, of given]
  have "(if insertable t given
     then r = Inr ?n \<and> table_ok t' \<and> next_row_id t' = Suc ?n \<and>
       table_rows t' = (table_rows t)(?n \<mapsto> completed ?s given)
     else (\<exists>err. r = Inl err) \<and> table_ok t' \<and> table_rows t' = table_rows t) \<and> schema t' = ?s"
  proof (cases "complete_columns t given (columns ?s) []")
    case (Inl err)
    with complete_row have "\<not> (\<forall>c col. stored_column_of ?s c = Some col \<longrightarrow> supplied given col \<noteq> None)"
      by (auto split: if_splits)
    then have "\<not> insertable t given" unfolding insertable_def by (metis option.distinct(1))
    with Inl run ok show ?thesis by (auto simp: insert_row_def)
  next
    case (Inr complete)
    with complete_row have wf: "hm_wf complete" and complete: "map_of complete = completed ?s given"
      by (auto split: if_splits)
    show ?thesis
    proof (cases "duplicate_key (primary_index t) complete")
      case (Some key)
      then have "hm_contains (pk_index (primary_index t)) key" "key_of (primary_index t) complete = Some key"
        by (auto simp: duplicate_key_def split: option.splits if_splits)
      then have "\<not> insertable t given"
        using key_taken_iff [OF ok, of key] complete pk
        by (auto simp: insertable_def key_of_def split: option.splits)
      with Inr Some run ok show ?thesis by (auto simp: insert_row_def)
    next
      case None
      obtain err st' where store: "store_row ?n (hm_iter \<pi> complete) (storage t) = (err, st')"
        by (cases "store_row ?n (hm_iter \<pi> complete) (storage t)")
      have "distinct (map fst (hm_iter \<pi> complete))" using \<pi> wf by (rule hm_iter_distinct)
      moreover have "\<forall>(c, v) \<in> set (hm_iter \<pi> complete). stored_column_of ?s c \<noteq> None"
        by (auto simp: hm_iter_mem [OF \<pi>] complete completed_def split: option.splits)
      ultimately have eff: "storage_ok ?s st'"
        "\<forall>c j. j \<noteq> ?n \<longrightarrow> storage_cell st' c j = storage_cell (storage t) c j"
        "err = None \<longleftrightarrow> (\<forall>cv \<in> set (hm_iter \<pi> complete). fits ?s cv)"
        "err = None \<Longrightarrow> storage_cell st' c ?n =
          (case map_of complete c of None \<Rightarrow> storage_cell (storage t) c ?n | Some v \<Rightarrow> Some v)" for c
        using store_row_effect [OF st _ _ store] hm_iter_map_of [OF \<pi> wf] by auto
      have "supplied given col \<noteq> None" if "stored_column_of ?s c = Some col" for c col
        using complete_row Inr that by (auto split: if_splits)
      moreover have "\<not> key_taken t v" if "primary_column ?s = Some c" "completed ?s given c = Some v" for c v
        using None that key_taken_iff [OF ok, of v] complete pk
        by (auto simp: duplicate_key_def key_of_def split: option.splits if_splits)
      ultimately have "insertable t given \<longleftrightarrow> (\<forall>c v. completed ?s given c = Some v \<longrightarrow> fits ?s (c, v))"
        by (intro insertable_iff) blast+
      then have fit: "insertable t given \<longleftrightarrow> err = None"
        unfolding eff(3) by (auto simp: hm_iter_mem [OF \<pi>] complete)
      show ?thesis
      proof (cases err)
        case None': None
        have row: "\<forall>c. storage_cell st' c ?n = completed ?s given c"
        proof
          fix c show "storage_cell st' c ?n = completed ?s given c"
          proof (cases "completed ?s given c")
            case None
            then have "stored_column_of ?s c = None" using insertable_completed fit None' by blast
            with None show ?thesis using computed_cell_empty [OF eff(1)] by simp
          qed (simp add: eff(4) [OF None'] complete)
        qed
        define u where "u = t\<lparr>storage := st', primary_index := register_key (primary_index t) complete ?n,
          row_count := row_count t + 1, next_row_id := ?n + 1\<rparr>"
        note appended = appended_row_ok [OF ok eff(1,2) row fit [THEN iffD2, OF None'] complete u_def]
        have "insert_row \<pi> t (TableRow given) = (Inr ?n, u)"
          using Inr None store None' by (simp add: insert_row_def u_def Let_def)
        with appended run fit None' show ?thesis by (auto simp: u_def)
      next
        case (Some e)
        have "\<forall>c j. j < ?n \<longrightarrow> storage_cell st' c j = storage_cell (storage t) c j" using eff(2) by simp
        note beyond = table_ok_beyond [OF ok eff(1) this]
        have "insert_row \<pi> t (TableRow given) = (Inl e, t\<lparr>storage := st'\<rparr>)"
          using Inr None store Some by (simp add: insert_row_def Let_def)
        with beyond run fit Some show ?thesis by auto
      qed
    qed
  qed
  then show "if insertable t given
     then r = Inr ?n \<and> table_ok t' \<and> next_row_id t' = Suc ?n \<and>
       table_rows t' = (table_rows t)(?n \<mapsto> completed ?s given)
     else (\<exists>err. r = Inl err) \<and> table_ok t' \<and> table_rows t' = table_rows t" and "schema t' = ?s" by auto
qed

section \<open>Deletion\<close>

lemma mark_all_map: "map_of (map (\<lambda>(c, d). (c, mark_deleted d row)) st) c = map_option (\<lambda>d. mark_deleted d row) (map_of st c)"
  by (induction st) auto

lemma mark_all_ok:
  assumes "storage_ok s st"
  shows "storage_ok s (map (\<lambda>(c, d). (c, mark_deleted d row)) st)"
    and "storage_cell (map (\<lambda>(c, d). (c, mark_deleted d row)) st) c i = (if i = row then None else storage_cell st c i)"
proof -
  have "map fst (map (\<lambda>(c, d). (c, mark_deleted d row)) st) = map fst st" by (simp add: case_prod_beta)
  then have "hm_wf (map (\<lambda>(c, d). (c, mark_deleted d row)) st)"
    using assms unfolding storage_ok_def hm_wf_def by metis
  moreover have "\<exists>d. map_option (\<lambda>d. mark_deleted d row) (map_of st c) = Some d \<and> column_kind d = column_type_kind col \<and>
      (is_computed col \<longrightarrow> column_len d = 0)" if "find_column s c = Some col" for c col
    using storage_column [OF assms that] by force
  ultimately show "storage_ok s (map (\<lambda>(c, d). (c, mark_deleted d row)) st)"
    using assms unfolding storage_ok_def mark_all_map by blast
  show "storage_cell (map (\<lambda>(c, d). (c, mark_deleted d row)) st) c i = (if i = row then None else storage_cell st c i)"
    unfolding storage_cell_def mark_all_map by (simp add: mark_deleted_get split: option.split)
qed

lemma unregister_index:
  assumes "table_ok t"
  shows "map_of (pk_index (unregister_key (primary_index t) (storage t) row)) v =
     (if \<exists>c. primary_column (schema t) = Some c \<and> storage_cell (storage t) c row = Some v then None
      else map_of (pk_index (primary_index t)) v)"
    and "pk_column (unregister_key (primary_index t) (storage t) row) = primary_column (schema t)"
  using assms by (auto simp: table_ok_def unregister_key_def storage_cell_def map_of_delete split: option.splits)

text \<open>Deletion removes exactly the row, and its key from the index; a missing row is refused.\<close>

lemma delete_row_result:
  assumes ok: "table_ok t" and run: "delete_row t row = (r, t')"
  shows "table_ok t'" and "schema t' = schema t" and "next_row_id t' = next_row_id t"
    and "r = (if table_rows t row = None then Inl (RowNotFound row) else Inr ())"
    and "table_rows t' = (table_rows t)(row := None)"
proof -
  have "table_ok t' \<and> schema t' = schema t \<and> next_row_id t' = next_row_id t \<and>
     r = (if table_rows t row = None then Inl (RowNotFound row) else Inr ()) \<and>
     table_rows t' = (table_rows t)(row := None)"
  proof (cases "live t row")
    case False
    then have "table_rows t row = None" by (simp add: table_rows_def)
    moreover from this have "(table_rows t)(row := None) = table_rows t" by (simp add: fun_eq_iff)
    ultimately show ?thesis using False run ok by (auto simp: delete_row_def live_def split: if_splits)
  next
    case True
    then have rows: "table_rows t row \<noteq> None" by (simp add: table_rows_def)
    let ?st = "map (\<lambda>(c, d). (c, mark_deleted d row)) (storage t)"
    from True run have r: "r = Inr ()" and t': "t' = t\<lparr>primary_index := unregister_key (primary_index t) (storage t) row,
        storage := ?st, deleted_rows := List.insert row (deleted_rows t), row_count := row_count t - 1\<rparr>"
      by (auto simp: delete_row_def live_def)
    have sel: "storage t' = ?st" "schema t' = schema t" "next_row_id t' = next_row_id t"
      "set (deleted_rows t') = insert row (set (deleted_rows t))" "computed_engine t' = computed_engine t"
      "primary_index t' = unregister_key (primary_index t) (storage t) row"
      by (simp_all add: t')
    from True have fresh: "row \<notin> set (deleted_rows t)" "row < next_row_id t" by (simp_all add: live_def)
    have live: "live t' i \<longleftrightarrow> i \<noteq> row \<and> live t i" for i by (auto simp: live_def sel)
    from ok have st: "storage_ok (schema t) (storage t)" by (simp add: table_ok_def)
    note marked = mark_all_ok [OF st, of row]
    from ok have counts: "distinct (deleted_rows t)" "row_count t + length (deleted_rows t) = next_row_id t"
      "\<forall>i \<in> set (deleted_rows t). i < next_row_id t" by (simp_all add: table_ok_def)
    have "length (deleted_rows t) < next_row_id t"
    proof -
      have "insert row (set (deleted_rows t)) \<subseteq> {..<next_row_id t}" using counts(3) fresh(2) by auto
      from card_mono [OF finite_lessThan this] have "card (insert row (set (deleted_rows t))) \<le> next_row_id t" by simp
      with fresh(1) counts(1) show ?thesis by (simp add: distinct_card)
    qed
    with counts fresh have count: "row_count t' + length (deleted_rows t') = next_row_id t'"
      "distinct (deleted_rows t')" by (simp_all add: t')
    have exact: "index_exact t'"
      unfolding index_exact_def
    proof (intro allI)
      fix v i
      from ok have old: "map_of (pk_index (primary_index t)) v = Some j \<longleftrightarrow>
         live t j \<and> (\<exists>c. primary_column (schema t) = Some c \<and> storage_cell (storage t) c j = Some v)" for j
        unfolding table_ok_def index_exact_def by blast
      show "map_of (pk_index (primary_index t')) v = Some i \<longleftrightarrow>
         live t' i \<and> (\<exists>c. primary_column (schema t') = Some c \<and> storage_cell (storage t') c i = Some v)"
        using old [of i] old [of row] True
        unfolding sel(1,2,6) live unregister_index [OF ok] marked(2) by auto
    qed
    have "table_ok t'"
      using ok unfolding table_ok_def
    proof (elim conjE, intro conjI)
      assume cells: "\<forall>i. live t i \<longrightarrow> (\<forall>c. stored_column_of (schema t) c \<noteq> None \<longrightarrow>
          storage_cell (storage t) c i \<noteq> None)"
        and gone: "\<forall>i \<in> set (deleted_rows t). \<forall>c. storage_cell (storage t) c i = None"
      show "\<forall>i. live t' i \<longrightarrow> (\<forall>c. stored_column_of (schema t') c \<noteq> None \<longrightarrow> storage_cell (storage t') c i \<noteq> None)"
        unfolding live sel marked(2) using cells by simp
      show "\<forall>i \<in> set (deleted_rows t'). \<forall>c. storage_cell (storage t') c i = None"
        unfolding sel marked(2) using gone by simp
      show "storage_ok (schema t') (storage t')" unfolding sel using marked(1) .
      show "pk_column (primary_index t') = primary_column (schema t')"
        unfolding sel using unregister_index(2) [OF ok] .
      show "\<forall>i \<in> set (deleted_rows t'). i < next_row_id t'" unfolding sel using counts(3) fresh(2) by simp
    qed (simp_all add: sel count exact)
    moreover have "table_rows t' = (table_rows t)(row := None)"
      by (rule ext) (auto simp: table_rows_def live sel marked(2))
    ultimately show ?thesis using r rows sel by simp
  qed
  then show "table_ok t'" "schema t' = schema t" "next_row_id t' = next_row_id t"
    "r = (if table_rows t row = None then Inl (RowNotFound row) else Inr ())"
    "table_rows t' = (table_rows t)(row := None)" by auto
qed

section \<open>Update\<close>

text \<open>A row with some of its columns replaced; a column without a stored cell stays without.\<close>

definition overlay :: "(string \<rightharpoonup> column_value) \<Rightarrow> (string \<rightharpoonup> column_value) \<Rightarrow> string \<rightharpoonup> column_value" where
  "overlay row updates = (\<lambda>c. case row c of None \<Rightarrow> None
     | Some w \<Rightarrow> Some (case updates c of None \<Rightarrow> w | Some v \<Rightarrow> v))"

definition updatable :: "tabledef \<Rightarrow> string \<times> column_value \<Rightarrow> bool" where
  "updatable s = (\<lambda>(c, v). case find_column s c of None \<Rightarrow> False | Some col \<Rightarrow> expected_type col = actual_type v)"

lemma overlay_simps: "overlay row Map.empty = row" "overlay row u c = None \<longleftrightarrow> row c = None"
  "u c = None \<Longrightarrow> overlay row u c = row c"
  by (auto simp: overlay_def fun_eq_iff split: option.split)

lemma validate_iff: "validate_column_value t c v = Inr x \<longleftrightarrow> updatable (schema t) (c, v)"
  by (auto simp: validate_column_value_def updatable_def split: option.splits)

lemma validate_not: "\<not> updatable (schema t) (c, v) \<Longrightarrow> \<exists>err. validate_column_value t c v = Inl err"
  by (metis validate_iff sum.exhaust)

text \<open>One update that passes the check: a cell of the row is replaced, if it has a value.\<close>

lemma set_cell_effect:
  assumes st: "storage_ok s st" and up: "updatable s (c, v)"
  obtains d d' where "map_of st c = Some d" "set_value d row v = Inr d'" "storage_ok s (AList.update c d' st)"
    "\<And>c' j. storage_cell (AList.update c d' st) c' j =
       (if j = row \<and> c' = c \<and> row < column_len d then Some v else storage_cell st c' j)"
    "stored_column_of s c = None \<Longrightarrow> column_len d = 0"
proof -
  from up obtain col where col: "find_column s c = Some col" "expected_type col = actual_type v"
    by (auto simp: updatable_def split: option.splits)
  from storage_column [OF st col(1)] obtain d where
    d: "map_of st c = Some d" "column_kind d = column_type_kind col" "is_computed col \<longrightarrow> column_len d = 0" by blast
  from d(2) valid_kind [OF col(2)] set_value_get [of v d row] obtain d' where
    d': "set_value d row v = Inr d'" "column_kind d' = column_kind d" "column_len d' = column_len d"
      "\<forall>j. get_value d' j = (if j = row \<and> row < column_len d then Some v else get_value d j)" by auto
  have ok: "storage_ok s (AList.update c d' st)"
    using storage_update [OF st col(1)] d d' by simp
  have "storage_cell st c j = get_value d j" for j using d(1) by (simp add: storage_cell_def)
  then have cell: "storage_cell (AList.update c d' st) c' j =
     (if j = row \<and> c' = c \<and> row < column_len d then Some v else storage_cell st c' j)" for c' j
    using d'(4) by (simp add: storage_cell_update)
  have "stored_column_of s c = None \<Longrightarrow> column_len d = 0"
    using col(1) d(3) by (simp add: stored_column_of_def split: if_splits)
  with cell show thesis by (rule that [OF d(1) d'(1) ok])
qed

text \<open>The loop applies the updates up to the first that the check refuses.\<close>

lemma apply_updates_effect:
  assumes "storage_ok (schema t) st" and "distinct (map fst cvs)"
    and "\<forall>c. stored_column_of (schema t) c \<noteq> None \<longrightarrow> storage_cell st c row \<noteq> None"
    and "apply_updates t row cvs st = (r, st')"
  shows "storage_ok (schema t) st' \<and> (\<forall>c j. j \<noteq> row \<longrightarrow> storage_cell st' c j = storage_cell st c j) \<and>
     (\<lambda>c. storage_cell st' c row) =
       overlay (\<lambda>c. storage_cell st c row) (map_of (takeWhile (updatable (schema t)) cvs)) \<and>
     (r = Inr () \<longleftrightarrow> (\<forall>cv \<in> set cvs. updatable (schema t) cv))"
  using assms
proof (induction cvs arbitrary: st)
  case Nil
  then show ?case by (simp add: overlay_simps)
next
  case (Cons cv cvs)
  let ?s = "schema t"
  obtain c v where cv: "cv = (c, v)" by (cases cv)
  show ?case
  proof (cases "updatable ?s (c, v)")
    case False
    from validate_not [OF this] obtain err where "validate_column_value t c v = Inl err" by blast
    with Cons.prems(4) cv have "r = Inl err" "st' = st" by auto
    with False Cons.prems(1) cv show ?thesis by (auto simp: overlay_simps)
  next
    case True
    from set_cell_effect [OF Cons.prems(1) True, of row] obtain d d' where
      d: "map_of st c = Some d" "set_value d row v = Inr d'" "storage_ok ?s (AList.update c d' st)"
        "\<And>c' j. storage_cell (AList.update c d' st) c' j =
          (if j = row \<and> c' = c \<and> row < column_len d then Some v else storage_cell st c' j)"
        "stored_column_of ?s c = None \<Longrightarrow> column_len d = 0" by metis
    have "validate_column_value t c v = Inr ()" using True by (simp add: validate_iff)
    with Cons.prems(4) cv d(1,2) have rest: "apply_updates t row cvs (AList.update c d' st) = (r, st')" by simp
    have "\<forall>c'. stored_column_of ?s c' \<noteq> None \<longrightarrow> storage_cell (AList.update c d' st) c' row \<noteq> None"
      using Cons.prems(3) d(4) by simp
    moreover have "distinct (map fst cvs)" using Cons.prems(2) by simp
    ultimately have IH: "storage_ok ?s st'"
      "\<forall>c' j. j \<noteq> row \<longrightarrow> storage_cell st' c' j = storage_cell (AList.update c d' st) c' j"
      "(\<lambda>c'. storage_cell st' c' row) = overlay (\<lambda>c'. storage_cell (AList.update c d' st) c' row)
         (map_of (takeWhile (updatable ?s) cvs))"
      "r = Inr () \<longleftrightarrow> (\<forall>cv \<in> set cvs. updatable ?s cv)"
      using Cons.IH [OF d(3) _ _ rest] by simp_all
    have "map_of (takeWhile (updatable ?s) cvs) c = None"
      using Cons.prems(2) cv by (auto simp: map_of_eq_None_iff dest: set_takeWhileD)
    moreover have "storage_cell st c row = None" if "\<not> row < column_len d"
      using d(1) that by (simp add: storage_cell_def get_value_cells)
    moreover have "storage_cell st c row \<noteq> None" if "row < column_len d"
      using that d(5) Cons.prems(3) by (cases "stored_column_of ?s c") auto
    ultimately have "overlay (\<lambda>c'. storage_cell (AList.update c d' st) c' row) (map_of (takeWhile (updatable ?s) cvs)) =
       overlay (\<lambda>c'. storage_cell st c' row) (map_of (takeWhile (updatable ?s) (cv # cvs)))"
      using True cv d(4) by (auto simp: overlay_def fun_eq_iff split: option.split)
    with IH d(4) True cv show ?thesis by (simp add: fun_upd_def)
  qed
qed

text \<open>A change of cells that keeps every live row complete and every key keeps the invariant.\<close>

lemma table_ok_cells:
  assumes "table_ok t" and "storage_ok (schema t) st"
    and "\<And>c i. live t i \<Longrightarrow> stored_column_of (schema t) c \<noteq> None \<Longrightarrow> storage_cell st c i \<noteq> None"
    and "\<And>c i. i \<in> set (deleted_rows t) \<Longrightarrow> storage_cell st c i = None"
    and "\<And>c i. live t i \<Longrightarrow> primary_column (schema t) = Some c \<Longrightarrow> storage_cell st c i = storage_cell (storage t) c i"
  shows "table_ok (t\<lparr>storage := st\<rparr>)"
proof -
  have live: "live (t\<lparr>storage := st\<rparr>) = live t" by (simp add: live_def fun_eq_iff)
  from assms(1) have "index_exact t" by (simp add: table_ok_def)
  then have "index_exact (t\<lparr>storage := st\<rparr>)" unfolding index_exact_def live using assms(5) by auto
  with assms(1-4) show ?thesis unfolding table_ok_def live by auto
qed

text \<open>
  An update of a live row applies the changes up to the first that is refused, in the order of the
  iteration over them, and succeeds when none is. It never changes a key, nor another row.
\<close>

lemma update_row_result:
  assumes \<pi>: "is_hash_order \<pi>" and wf: "hm_wf updates" and ok: "table_ok t"
    and run: "update_row \<pi> t row updates = (r, t')"
  shows "table_ok t' \<and> schema t' = schema t \<and> next_row_id t' = next_row_id t \<and>
    (case table_rows t row of
       None \<Rightarrow> r = Inl (RowNotFound row) \<and> table_rows t' = table_rows t
     | Some old \<Rightarrow>
         (case updates_key (primary_index t) updates of
            Some c \<Rightarrow> is_ok r = False \<and> table_rows t' = table_rows t
          | None \<Rightarrow>
              (r = Inr () \<longleftrightarrow> (\<forall>c v. map_of updates c = Some v \<longrightarrow> updatable (schema t) (c, v))) \<and>
              table_rows t' = (table_rows t)(row \<mapsto> overlay old
                (map_of (takeWhile (updatable (schema t)) (hm_iter \<pi> updates))))))"
proof (cases "live t row")
  case False
  then show ?thesis using run ok by (auto simp: update_row_def live_def table_rows_def)
next
  case True
  then have old: "table_rows t row = Some (\<lambda>c. storage_cell (storage t) c row)" by (simp add: table_rows_def)
  show ?thesis
  proof (cases "updates_key (primary_index t) updates")
    case (Some c)
    then show ?thesis using run ok True old by (auto simp: update_row_def live_def)
  next
    case None
    let ?s = "schema t" and ?u = "map_of (takeWhile (updatable (schema t)) (hm_iter \<pi> updates))"
    obtain st' where st': "apply_updates t row (hm_iter \<pi> updates) (storage t) = (r, st')"
      and t': "t' = t\<lparr>storage := st'\<rparr>"
      using run None True by (auto simp: update_row_def live_def split: prod.splits)
    from ok have st: "storage_ok ?s (storage t)" and pk: "pk_column (primary_index t) = primary_column ?s"
      and cells: "\<And>i c. live t i \<Longrightarrow> stored_column_of ?s c \<noteq> None \<Longrightarrow> storage_cell (storage t) c i \<noteq> None"
      and gone: "\<And>i c. i \<in> set (deleted_rows t) \<Longrightarrow> storage_cell (storage t) c i = None"
      unfolding table_ok_def by blast+
    have dist: "distinct (map fst (hm_iter \<pi> updates))" using \<pi> wf by (rule hm_iter_distinct)
    have "\<forall>c. stored_column_of ?s c \<noteq> None \<longrightarrow> storage_cell (storage t) c row \<noteq> None"
      using cells True by blast
    from apply_updates_effect [OF st dist this st'] have eff: "storage_ok ?s st'"
      "\<And>c j. j \<noteq> row \<Longrightarrow> storage_cell st' c j = storage_cell (storage t) c j"
      "(\<lambda>c. storage_cell st' c row) = overlay (\<lambda>c. storage_cell (storage t) c row) ?u"
      "r = Inr () \<longleftrightarrow> (\<forall>cv \<in> set (hm_iter \<pi> updates). updatable ?s cv)" by auto
    have at: "storage_cell st' c row = overlay (\<lambda>c. storage_cell (storage t) c row) ?u c" for c
      by (fact fun_cong [OF eff(3)])
    have "table_ok t'"
      unfolding t'
    proof (rule table_ok_cells [OF ok eff(1)])
      fix c i assume "live t i" "stored_column_of ?s c \<noteq> None"
      then show "storage_cell st' c i \<noteq> None"
        using cells eff(2) [of i c] by (cases "i = row") (simp_all add: at overlay_simps)
    next
      fix c i assume "i \<in> set (deleted_rows t)"
      then show "storage_cell st' c i = None" using gone eff(2) [of i c] True by (auto simp: live_def)
    next
      fix c i assume c: "primary_column ?s = Some c"
      with None pk have "map_of updates c = None" by (auto simp: updates_key_def hm_contains_def split: if_splits)
      then have "(c, v) \<notin> set (hm_iter \<pi> updates)" for v by (simp add: hm_iter_mem [OF \<pi>])
      then have "?u c = None" by (force simp: map_of_eq_None_iff dest: set_takeWhileD)
      then show "storage_cell st' c i = storage_cell (storage t) c i"
        using eff(2) [of i c] by (cases "i = row") (simp_all add: at overlay_simps)
    qed
    moreover have "table_rows t' = (table_rows t)(row \<mapsto> overlay (\<lambda>c. storage_cell (storage t) c row) ?u)"
      by (rule ext) (simp add: t' table_rows_def live_def True [unfolded live_def] at eff(2))
    moreover have "r = Inr () \<longleftrightarrow> (\<forall>c v. map_of updates c = Some v \<longrightarrow> updatable ?s (c, v))"
      unfolding eff(4) by (auto simp: hm_iter_mem [OF \<pi>])
    ultimately show ?thesis using old None t' by simp
  qed
qed

end
