(* ===== verification/Table_Properties.thy ===== *)
theory Table_Properties
  imports Table_Invariant
begin

text \<open>
  Properties of the tables that a program can reach (\<open>table_run\<close>): the invariant, insertion,
  deletion and update as operations of the abstract table, what reading a row returns, and scans.
\<close>

section \<open>Reachable tables\<close>

inductive table_run :: "(string \<Rightarrow> string) \<Rightarrow> tabledef \<Rightarrow> table_runtime \<Rightarrow> bool" for \<delta> s where
  created: "is_hash_order \<pi> \<Longrightarrow> table_new \<delta> \<pi> s = Some (Inr t) \<Longrightarrow> table_run \<delta> s t"
| inserted: "table_run \<delta> s t \<Longrightarrow> is_hash_order \<pi> \<Longrightarrow> insert_row \<pi> t row = (r, t') \<Longrightarrow> table_run \<delta> s t'"
| deleted: "table_run \<delta> s t \<Longrightarrow> delete_row t i = (r, t') \<Longrightarrow> table_run \<delta> s t'"
| updated: "table_run \<delta> s t \<Longrightarrow> is_hash_order \<pi> \<Longrightarrow> hm_wf updates \<Longrightarrow> update_row \<pi> t i updates = (r, t') \<Longrightarrow>
    table_run \<delta> s t'"
| value_read: "table_run \<delta> s t \<Longrightarrow> table_column_value \<delta> t i c = Inr (r, t') \<Longrightarrow> table_run \<delta> s t'"
| column_marked: "table_run \<delta> s t \<Longrightarrow> is_hash_order \<pi> \<Longrightarrow> table_run \<delta> s (table_mark_column_dirty \<pi> t c)"
| row_marked: "table_run \<delta> s t \<Longrightarrow> is_hash_order \<pi> \<Longrightarrow> table_run \<delta> s (table_mark_row_dirty \<pi> t c i)"
| indexed: "table_run \<delta> s t \<Longrightarrow> table_run \<delta> s (add_secondary_index t c)"

text \<open>The engine and the secondary indexes are no part of the rows.\<close>

lemma table_ok_engine:
  assumes "table_ok t" and "engine_ok (schema t) engine"
  shows "table_ok (t\<lparr>computed_engine := engine\<rparr>)"
    and "table_rows (t\<lparr>computed_engine := engine\<rparr>) = table_rows t"
proof -
  have live: "live (t\<lparr>computed_engine := engine\<rparr>) = live t" by (simp add: live_def fun_eq_iff)
  from assms show "table_ok (t\<lparr>computed_engine := engine\<rparr>)"
    unfolding table_ok_def index_exact_def live by simp
  show "table_rows (t\<lparr>computed_engine := engine\<rparr>) = table_rows t"
    unfolding table_rows_def live by (simp cong: if_cong)
qed

lemma table_ok_indexes:
  "table_ok (t\<lparr>secondary_indexes := m\<rparr>) \<longleftrightarrow> table_ok t"
  "table_rows (t\<lparr>secondary_indexes := m\<rparr>) = table_rows t"
proof -
  have live: "live (t\<lparr>secondary_indexes := m\<rparr>) = live t" by (simp add: live_def fun_eq_iff)
  show "table_ok (t\<lparr>secondary_indexes := m\<rparr>) \<longleftrightarrow> table_ok t"
    unfolding table_ok_def index_exact_def live by simp
  show "table_rows (t\<lparr>secondary_indexes := m\<rparr>) = table_rows t"
    unfolding table_rows_def live by (simp cong: if_cong)
qed

lemma engine_ok_graph:
  "engine_ok s (Some e) \<Longrightarrow> dependency_graph e' = dependency_graph e \<Longrightarrow> engine_ok s (Some e')"
  by (simp add: engine_ok_def)

lemma marks_keep_graph:
  "dependency_graph (mark_column_dirty \<pi> e c) = dependency_graph e"
  "dependency_graph (mark_row_dirty \<pi> e c i) = dependency_graph e"
proof -
  have "dependency_graph (fold (\<lambda>d e. e\<lparr>dirty_columns := List.insert d (dirty_columns e)\<rparr>) ds e) = dependency_graph e"
    for ds and e :: engine by (induction ds arbitrary: e) simp_all
  then show "dependency_graph (mark_column_dirty \<pi> e c) = dependency_graph e" by (simp add: mark_column_dirty_def)
  have "dependency_graph (fold (\<lambda>d. insert_dirty_row d i) ds e) = dependency_graph e" for ds e
    by (induction ds arbitrary: e) (simp_all add: insert_dirty_row_def)
  then show "dependency_graph (mark_row_dirty \<pi> e c i) = dependency_graph e"
    by (simp add: mark_row_dirty_def) (simp add: insert_dirty_row_def)
qed

text \<open>An operation that changes nothing but the engine, and keeps its graph\<close>

lemma table_ok_read:
  assumes ok: "table_ok t" and run: "table_column_value \<delta> t i c = Inr (r, t')"
  shows "table_ok t' \<and> schema t' = schema t \<and> table_rows t' = table_rows t"
proof (cases "t' = t")
  case False
  with run obtain e e' r' where e: "computed_engine t = Some e"
    "get_computed_value \<delta> (storage t) i (engine_depth e) c e = Inr (r', e')" "t' = t\<lparr>computed_engine := Some e'\<rparr>"
    by (auto simp: table_column_value_def Let_def split: option.splits if_splits sum.splits)
  from ok e(1) have "engine_ok (schema t) (Some e)" by (simp add: table_ok_def)
  from engine_ok_graph [OF this get_computed_value_graph [OF e(2)]] ok e(3) show ?thesis
    by (simp add: table_ok_engine)
qed (use ok in simp)

lemma table_ok_marked:
  assumes ok: "table_ok t"
  shows "table_ok (table_mark_column_dirty \<pi> t c) \<and> schema (table_mark_column_dirty \<pi> t c) = schema t"
    and "table_ok (table_mark_row_dirty \<pi> t c i) \<and> schema (table_mark_row_dirty \<pi> t c i) = schema t"
proof -
  have "table_ok (t\<lparr>computed_engine := Some e'\<rparr>)"
    if "computed_engine t = Some e" "dependency_graph e' = dependency_graph e" for e e'
  proof (rule table_ok_engine(1) [OF ok])
    from ok that(1) have "engine_ok (schema t) (Some e)" by (simp add: table_ok_def)
    then show "engine_ok (schema t) (Some e')" using that(2) by (rule engine_ok_graph)
  qed
  with ok marks_keep_graph show
    "table_ok (table_mark_column_dirty \<pi> t c) \<and> schema (table_mark_column_dirty \<pi> t c) = schema t"
    "table_ok (table_mark_row_dirty \<pi> t c i) \<and> schema (table_mark_row_dirty \<pi> t c i) = schema t"
    by (auto simp: table_mark_column_dirty_def table_mark_row_dirty_def split: option.split)
qed

lemma table_run_ok:
  assumes "table_run \<delta> s t" and "schema_ok s"
  shows "table_ok t \<and> schema t = s"
  using assms
proof (induction rule: table_run.induct)
  case (created \<pi> t)
  then show ?case using table_new_ok by blast
next
  case (inserted t \<pi> row r t')
  obtain given where row: "row = TableRow given" by (cases row)
  from inserted insert_row_result [of \<pi> t given r t'] show ?case by (auto simp: row split: if_splits)
next
  case (deleted t i r t')
  then show ?case using delete_row_result [of t i r t'] by simp
next
  case (updated t \<pi> updates i r t')
  then show ?case using update_row_result [of \<pi> updates t i r t'] by simp
next
  case (value_read t i c r t')
  then show ?case using table_ok_read [of t \<delta> i c r t'] by simp
next
  case (column_marked t \<pi> c)
  then show ?case using table_ok_marked(1) [of t \<pi> c] by simp
next
  case (row_marked t \<pi> c i)
  then show ?case using table_ok_marked(2) [of t \<pi> c i] by simp
next
  case (indexed t c)
  then show ?case by (simp add: add_secondary_index_def Let_def table_ok_indexes)
qed

section \<open>Reading rows\<close>

text \<open>What a row shows in a column: the stored cell, or the value the engine computes.\<close>

definition visible :: "(string \<Rightarrow> string) \<Rightarrow> table_runtime \<Rightarrow> row_id \<Rightarrow> tablecol \<Rightarrow> abort + column_value option" where
  "visible \<delta> t i col =
     (if is_computed col then
        (case computed_engine t of
           None \<Rightarrow> Inr None
         | Some e \<Rightarrow>
             (case get_computed_value \<delta> (storage t) i (engine_depth e) (col_name col) e of
                Inl a \<Rightarrow> Inl a
              | Inr (Inr v, _) \<Rightarrow> Inr (Some v)
              | Inr (Inl _, _) \<Rightarrow> Inr None))
      else Inr (storage_cell (storage t) (col_name col) i))"

lemma collect_row_result:
  assumes "\<forall>col \<in> set cols. \<not> is_computed col \<longrightarrow> storage_cell (storage t) (col_name col) i \<noteq> None"
    and "distinct (map col_name cols)"
  shows "case collect_row \<delta> t i cols vals of
      Inl a \<Rightarrow> \<exists>col \<in> set cols. is_computed col \<and> visible \<delta> t i col = Inl a
    | Inr (Inl err) \<Rightarrow> False
    | Inr (Inr r) \<Rightarrow>
        (\<forall>col \<in> set cols. \<exists>v. visible \<delta> t i col = Inr v \<and>
           map_of (row_values r) (col_name col) = (case v of None \<Rightarrow> map_of vals (col_name col) | Some w \<Rightarrow> Some w)) \<and>
        (\<forall>c. c \<notin> col_name ` set cols \<longrightarrow> map_of (row_values r) c = map_of vals c)"
  using assms
proof (induction cols arbitrary: vals)
  case (Cons col cols)
  from Cons.prems have prems: "\<forall>col \<in> set cols. \<not> is_computed col \<longrightarrow> storage_cell (storage t) (col_name col) i \<noteq> None"
    "distinct (map col_name cols)" and fresh: "col_name col \<notin> col_name ` set cols" by auto
  have seen: "\<And>x. x \<in> set cols \<Longrightarrow> col_name x \<noteq> col_name col" using fresh by (metis image_eqI)
  have stored: "\<not> is_computed col \<Longrightarrow> storage_cell (storage t) (col_name col) i \<noteq> None" using Cons.prems(1) by simp
  show ?case
  proof (cases "visible \<delta> t i col")
    case (Inl a)
    then have "is_computed col" by (auto simp: visible_def split: if_splits)
    moreover from this Inl have "collect_row \<delta> t i (col # cols) vals = Inl a"
      by (auto simp: visible_def split: option.splits sum.splits prod.splits)
    ultimately show ?thesis using Inl by auto
  next
    case (Inr v)
    define vals' where "vals' = (case v of None \<Rightarrow> vals | Some w \<Rightarrow> AList.update (col_name col) w vals)"
    have vals': "map_of vals' c = (if c = col_name col \<and> v \<noteq> None then v else map_of vals c)" for c
      by (auto simp: vals'_def map_of_update split: option.split)
    have step: "collect_row \<delta> t i (col # cols) vals = collect_row \<delta> t i cols vals'"
      using Inr stored by (auto simp: vals'_def visible_def storage_cell_def split: option.splits sum.splits prod.splits if_splits)
    note IH = Cons.IH [OF prems, of vals']
    show ?thesis
    proof (cases "collect_row \<delta> t i cols vals'")
      case Inl': (Inl a)
      with IH show ?thesis unfolding step by auto
    next
      case Inr': (Inr res)
      with IH obtain r where r: "res = Inr r" by (cases res) simp_all
      with IH Inr' have cells: "\<And>x. x \<in> set cols \<Longrightarrow> \<exists>v. visible \<delta> t i x = Inr v \<and>
            map_of (row_values r) (col_name x) = (case v of None \<Rightarrow> map_of vals' (col_name x) | Some w \<Rightarrow> Some w)"
        and other: "\<And>c. c \<notin> col_name ` set cols \<Longrightarrow> map_of (row_values r) c = map_of vals' c" by simp_all
      have "map_of (row_values r) (col_name col) = (case v of None \<Rightarrow> map_of vals (col_name col) | Some w \<Rightarrow> Some w)"
        using other [OF fresh] by (simp add: vals' split: option.split)
      moreover have "\<exists>v. visible \<delta> t i x = Inr v \<and>
          map_of (row_values r) (col_name x) = (case v of None \<Rightarrow> map_of vals (col_name x) | Some w \<Rightarrow> Some w)"
        if "x \<in> set cols" for x
      proof -
        have "map_of vals' (col_name x) = map_of vals (col_name x)" using seen [OF that] by (simp add: vals')
        with cells [OF that] show ?thesis by metis
      qed
      moreover have "map_of (row_values r) c = map_of vals c" if "c \<notin> col_name ` set (col # cols)" for c
        using other [of c] that by (simp add: vals')
      ultimately show ?thesis using Inr unfolding step Inr' r by simp
    qed
  qed
qed simp

lemma get_row_result:
  assumes ok: "table_ok t"
  shows "case get_row \<delta> t i of
      Inl a \<Rightarrow> live t i \<and> (\<exists>col \<in> set (columns (schema t)). is_computed col \<and> visible \<delta> t i col = Inl a)
    | Inr (Inl err) \<Rightarrow> err = RowNotFound i \<and> \<not> live t i
    | Inr (Inr r) \<Rightarrow> live t i \<and>
        (\<forall>c. case find_column (schema t) c of
               None \<Rightarrow> map_of (row_values r) c = None
             | Some col \<Rightarrow> visible \<delta> t i col = Inr (map_of (row_values r) c))"
proof (cases "live t i")
  case False
  then show ?thesis by (auto simp: get_row_def live_def)
next
  case True
  let ?s = "schema t"
  from ok have schema: "schema_ok ?s"
    and cells: "\<And>c. stored_column_of ?s c \<noteq> None \<Longrightarrow> storage_cell (storage t) c i \<noteq> None"
    using True unfolding table_ok_def by blast+
  have "\<forall>col \<in> set (columns ?s). \<not> is_computed col \<longrightarrow> storage_cell (storage t) (col_name col) i \<noteq> None"
    using cells stored_column_of_iff [OF schema] by (metis option.distinct(1))
  moreover have "distinct (map col_name (columns ?s))" using schema by (simp add: schema_ok_def)
  ultimately have res: "case collect_row \<delta> t i (columns ?s) [] of
      Inl a \<Rightarrow> \<exists>col \<in> set (columns ?s). is_computed col \<and> visible \<delta> t i col = Inl a
    | Inr (Inl err) \<Rightarrow> False
    | Inr (Inr r) \<Rightarrow>
        (\<forall>col \<in> set (columns ?s). \<exists>v. visible \<delta> t i col = Inr v \<and>
           map_of (row_values r) (col_name col) = (case v of None \<Rightarrow> map_of [] (col_name col) | Some w \<Rightarrow> Some w)) \<and>
        (\<forall>c. c \<notin> col_name ` set (columns ?s) \<longrightarrow> map_of (row_values r) c = map_of [] c)"
    by (rule collect_row_result)
  have "get_row \<delta> t i = collect_row \<delta> t i (columns ?s) []" using True by (simp add: get_row_def live_def)
  moreover have "case find_column ?s c of None \<Rightarrow> map_of (row_values r) c = None
      | Some col \<Rightarrow> visible \<delta> t i col = Inr (map_of (row_values r) c)"
    if "collect_row \<delta> t i (columns ?s) [] = Inr (Inr r)" for r c
  proof (cases "find_column ?s c")
    case None
    then have "c \<notin> col_name ` set (columns ?s)" by (simp add: find_column_None)
    with None res that show ?thesis by simp
  next
    case (Some col)
    from find_column_mem [OF this] res that Some show ?thesis by (auto split: option.splits)
  qed
  ultimately show ?thesis using res True by (auto split: sum.splits)
qed

section \<open>Scans\<close>

definition row_if :: "(string \<Rightarrow> string) \<Rightarrow> table_runtime \<Rightarrow> (table_row \<Rightarrow> bool) \<Rightarrow> row_id \<Rightarrow> (row_id \<times> table_row) option" where
  "row_if \<delta> t keep i =
     (case get_row \<delta> t i of Inr (Inr r) \<Rightarrow> if keep r then Some (i, r) else None | _ \<Rightarrow> None)"

lemma row_if_iff: "row_if \<delta> t keep x = Some (i, r) \<longleftrightarrow> x = i \<and> get_row \<delta> t x = Inr (Inr r) \<and> keep r"
proof -
  consider a where "get_row \<delta> t x = Inl a" | e where "get_row \<delta> t x = Inr (Inl e)" | r where "get_row \<delta> t x = Inr (Inr r)"
    by (metis sum.exhaust)
  then show ?thesis by cases (auto simp: row_if_def)
qed

lemma scan_rows_result:
  "scan_rows \<delta> t keep is acc = Inr rs \<longleftrightarrow>
     (\<forall>i \<in> set is. \<forall>a. get_row \<delta> t i \<noteq> Inl a) \<and> rs = acc @ List.map_filter (row_if \<delta> t keep) is"
proof (induction "is" arbitrary: acc)
  case (Cons i "is")
  have dead: "get_row \<delta> t i = Inr (Inl (RowNotFound i))" if "i \<in> set (deleted_rows t)"
    using that by (simp add: get_row_def)
  show ?case
  proof (cases "get_row \<delta> t i")
    case (Inl a)
    then have "i \<notin> set (deleted_rows t)" using dead by fastforce
    with Inl show ?thesis by auto
  next
    case (Inr r)
    then show ?thesis using Cons.IH dead
      by (cases r) (auto simp: row_if_def List.map_filter_simps)
  qed
qed (auto simp: List.map_filter_simps)

lemma scan_filtered_result:
  assumes "scan_filtered \<delta> t keep = Inr rs"
  shows "rs = List.map_filter (row_if \<delta> t keep) [0..<next_row_id t]"
    and "(i, r) \<in> set rs \<longleftrightarrow> get_row \<delta> t i = Inr (Inr r) \<and> keep r"
    and "sorted_wrt (<) (map fst rs)"
proof -
  from assms show rs: "rs = List.map_filter (row_if \<delta> t keep) [0..<next_row_id t]"
    by (simp add: scan_filtered_def scan_rows_result)
  have "get_row \<delta> t i = Inr (Inr r) \<Longrightarrow> i < next_row_id t" by (auto simp: get_row_def split: if_splits)
  then show "(i, r) \<in> set rs \<longleftrightarrow> get_row \<delta> t i = Inr (Inr r) \<and> keep r"
    unfolding rs by (auto simp: mem_map_filter_iff row_if_iff)
  have "sorted_wrt (<) (map fst (List.map_filter (row_if \<delta> t keep) is))" if "sorted_wrt (<) is" for "is"
    using that
  proof (induction "is")
    case (Cons i "is")
    have "x \<in> set is" if "x \<in> fst ` set (List.map_filter (row_if \<delta> t keep) is)" for x
      using that by (auto simp: mem_map_filter_iff row_if_iff)
    with Cons show ?case
    proof (cases "row_if \<delta> t keep i")
      case (Some p)
      then have "fst p = i" by (cases p) (simp add: row_if_iff)
      with Some Cons \<open>\<And>x. x \<in> fst ` _ \<Longrightarrow> x \<in> set is\<close> show ?thesis by (simp add: List.map_filter_simps)
    qed (simp add: List.map_filter_simps)
  qed (simp add: List.map_filter_simps)
  then show "sorted_wrt (<) (map fst rs)" unfolding rs by simp
qed

lemma get_value_kind: "get_value d i = Some v \<Longrightarrow> value_kind v = column_kind d"
  by (cases d) auto

lemma index_lookup:
  assumes "table_ok t"
  shows "find_by_primary_key t v = Some i \<longleftrightarrow>
     (\<exists>c row. primary_column (schema t) = Some c \<and> table_rows t i = Some row \<and> row c = Some v)"
  using assms unfolding table_ok_def index_exact_def find_by_primary_key_def table_rows_def by auto

section \<open>A concrete table\<close>

definition demo_users :: tabledef where
  "demo_users = TableDef ''Users''
     [TableColumn ''id'' (TIdentifier ''u64'' []) [TableAnnotation ''primary'' []] None False None,
      TableColumn ''x'' (TIdentifier ''u64'' []) [] (Some (ELiteral (LInteger (IntegerLiteral ''7'' 7 None)))) False None,
      computed_column ''a'' (EBinaryOp (EIdentifier ''x'') Add (EIdentifier ''x''))]"

definition empty_users :: table_runtime where
  "empty_users = (case table_new (\<lambda>s. s) rev demo_users of Some (Inr t) \<Rightarrow> t | _ \<Rightarrow> undefined)"

definition two_users :: table_runtime where
  "two_users =
     snd (insert_row rev (snd (insert_row rev empty_users (TableRow [(''id'', VU64 1), (''x'', VU64 3)])))
       (TableRow [(''id'', VU64 2)]))"

lemma demo_schema_ok: "schema_ok demo_users"
  by code_simp

lemma empty_users_run: "table_run (\<lambda>s. s) demo_users empty_users"
proof -
  have "map_option is_ok (table_new (\<lambda>s. s) rev demo_users) = Some True" by code_simp
  then obtain t where "table_new (\<lambda>s. s) rev demo_users = Some (Inr t)"
    by (auto simp: is_ok_iff map_option_case split: option.splits)
  then show ?thesis using table_run.created [OF hash_order_rev] by (simp add: empty_users_def)
qed

lemma two_users_run: "table_run (\<lambda>s. s) demo_users two_users"
  unfolding two_users_def
  by (rule table_run.inserted [OF table_run.inserted [OF empty_users_run hash_order_rev surjective_pairing]
        hash_order_rev surjective_pairing])

text \<open>Cells have the type of their column.\<close>

lemma cell_kind:
  assumes "storage_ok s st" and "stored_column_of s c = Some col" and "storage_cell st c i = Some v"
  shows "value_kind v = column_type_kind col"
proof -
  from assms(2) have "find_column s c = Some col" by (auto simp: stored_column_of_def split: option.splits if_splits)
  from storage_column [OF assms(1) this] obtain d where
    "map_of st c = Some d" "column_kind d = column_type_kind col" by blast
  with assms(3) show ?thesis by (simp add: storage_cell_def get_value_kind)
qed

lemma row_cells:
  assumes "table_ok t" and "table_rows t i = Some row"
  shows "row c = storage_cell (storage t) c i" and "row c = None \<longleftrightarrow> stored_column_of (schema t) c = None"
    and "row c = Some v \<Longrightarrow> stored_column_of (schema t) c = Some col \<Longrightarrow> value_kind v = column_type_kind col"
proof -
  from assms(2) have i: "live t i" and row: "row = (\<lambda>c. storage_cell (storage t) c i)"
    by (auto simp: table_rows_def split: if_splits)
  from assms(1) have st: "storage_ok (schema t) (storage t)"
    and cells: "stored_column_of (schema t) c \<noteq> None \<Longrightarrow> storage_cell (storage t) c i \<noteq> None" for c
    using i unfolding table_ok_def by blast+
  show "row c = storage_cell (storage t) c i" by (simp add: row)
  show "row c = None \<longleftrightarrow> stored_column_of (schema t) c = None"
    using computed_cell_empty [OF st] cells unfolding row by blast
  show "row c = Some v \<Longrightarrow> stored_column_of (schema t) c = Some col \<Longrightarrow> value_kind v = column_type_kind col"
    using cell_kind [OF st] unfolding row by blast
qed

lemma live_count:
  assumes "table_ok t"
  shows "row_count t = card (dom (table_rows t))"
proof -
  have "dom (table_rows t) = {..<next_row_id t} - set (deleted_rows t)"
    by (auto simp: table_rows_def live_def dom_def)
  moreover from assms have "set (deleted_rows t) \<subseteq> {..<next_row_id t}" "distinct (deleted_rows t)"
    "row_count t + length (deleted_rows t) = next_row_id t" by (auto simp: table_ok_def)
  ultimately show ?thesis by (simp add: card_Diff_subset distinct_card)
qed

section \<open>Properties\<close>

text \<open>
  C19: In every reachable table the row count is the number of live rows, every live row has a value
  of the right type in exactly the stored columns, and the primary key index maps exactly the keys
  of the live rows to them, so that no two live rows have the same key.
\<close>

theorem table_invariant:
  assumes "table_run \<delta> s t" and "schema_ok s"
  shows "row_count t = card (dom (table_rows t)) \<and>
    (\<forall>i row. table_rows t i = Some row \<longrightarrow> i < next_row_id t \<and>
       (\<forall>c. row c \<noteq> None \<longleftrightarrow> stored_column_of s c \<noteq> None) \<and>
       (\<forall>c v col. row c = Some v \<longrightarrow> stored_column_of s c = Some col \<longrightarrow> value_kind v = column_type_kind col)) \<and>
    (\<forall>v i. find_by_primary_key t v = Some i \<longleftrightarrow>
       (\<exists>c row. primary_column s = Some c \<and> table_rows t i = Some row \<and> row c = Some v))"
proof -
  from table_run_ok [OF assms] have ok: "table_ok t" and s: "schema t = s" by auto
  have "i < next_row_id t" if "table_rows t i = Some row" for i row
    using that by (auto simp: table_rows_def live_def split: if_splits)
  moreover have "row c \<noteq> None \<longleftrightarrow> stored_column_of s c \<noteq> None" if "table_rows t i = Some row" for i row c
    using row_cells(2) [OF ok that] s by simp
  moreover note row_cells(3) [OF ok] live_count [OF ok]
  ultimately show ?thesis unfolding s index_lookup [OF ok] by blast
qed

text \<open>
  C20: An insertion succeeds exactly when every stored column gets a value of its type, supplied or
  by default, and the key is free. It then adds the completed row under a fresh identifier; an
  insertion that fails leaves all rows as they were.
\<close>

theorem insert_refines:
  assumes "table_run \<delta> s t" and "schema_ok s" and "is_hash_order \<pi>"
    and "insert_row \<pi> t (TableRow given) = (r, t')"
  shows "if insertable t given
    then r = Inr (next_row_id t) \<and> table_rows t (next_row_id t) = None \<and>
      table_rows t' = (table_rows t)(next_row_id t \<mapsto> completed s given)
    else (\<exists>err. r = Inl err) \<and> table_rows t' = table_rows t"
proof -
  from table_run_ok [OF assms(1,2)] have ok: "table_ok t" and s: "schema t = s" by auto
  have "table_rows t (next_row_id t) = None" by (simp add: table_rows_def live_def)
  with insert_row_result(1) [OF assms(3) ok assms(4)] show ?thesis unfolding s by (simp split: if_splits)
qed

text \<open>
  C21: What an insertion stored is what reading the row returns: every value supplied for a stored
  column, the default where none was, and the key finds the row.
\<close>

theorem insert_then_get:
  assumes "table_run \<delta> s t" and "schema_ok s" and "is_hash_order \<pi>"
    and "insert_row \<pi> t (TableRow given) = (Inr i, t')" and "get_row \<delta> t' i = Inr out"
  shows "\<exists>row. out = Inr row \<and>
    (\<forall>c col. stored_column_of s c = Some col \<longrightarrow>
       map_of (row_values row) c = (case map_of given c of
          Some v \<Rightarrow> Some v
        | None \<Rightarrow> (case default_value col of Some (ELiteral l) \<Rightarrow> Some (literal_value l) | _ \<Rightarrow> None))) \<and>
    (\<forall>c v. primary_column s = Some c \<longrightarrow> stored_column_of s c \<noteq> None \<longrightarrow> map_of given c = Some v \<longrightarrow>
       find_by_primary_key t' v = Some i)"
proof -
  from table_run_ok [OF assms(1,2)] have ok: "table_ok t" and s: "schema t = s" by auto
  have t': "schema t' = s" using insert_row_result(2) [OF assms(3) ok assms(4)] s by simp
  from insert_row_result(1) [OF assms(3) ok assms(4)] have fit: "insertable t given"
    and ok': "table_ok t'" and i: "i = next_row_id t"
    and rows: "table_rows t' i = Some (completed s given)"
    using s by (auto split: if_splits)
  from rows have "live t' i" by (auto simp: table_rows_def split: if_splits)
  with get_row_result [OF ok', where \<delta> = \<delta> and i = i] assms(5) obtain row where row: "out = Inr row"
    "\<And>c. case find_column s c of None \<Rightarrow> map_of (row_values row) c = None
       | Some col \<Rightarrow> visible \<delta> t' i col = Inr (map_of (row_values row) c)"
    unfolding t' by (auto split: sum.splits)
  have got: "supplied given col = (case map_of given c of
          Some v \<Rightarrow> Some v
        | None \<Rightarrow> (case default_value col of Some (ELiteral l) \<Rightarrow> Some (literal_value l) | _ \<Rightarrow> None))"
    if col: "stored_column_of s c = Some col" for c col
  proof -
    from col have "col_name col = c" using assms(2) by (simp add: stored_column_of_iff)
    moreover from fit col have "supplied given col \<noteq> None" unfolding insertable_def s by force
    ultimately show ?thesis by (auto simp: supplied_def split: option.splits if_splits)
  qed
  have "map_of (row_values row) c = supplied given col" if col: "stored_column_of s c = Some col" for c col
  proof -
    from col have c: "find_column s c = Some col" "\<not> is_computed col" "col_name col = c"
      using find_column_mem [of s c col] by (auto simp: stored_column_of_def split: option.splits if_splits)
    with row(2) [of c] have "map_of (row_values row) c = storage_cell (storage t') c i" by (simp add: visible_def)
    with row_cells(1) [OF ok' rows, of c] col show ?thesis by (simp add: completed_def)
  qed
  moreover have "find_by_primary_key t' v = Some i"
    if "primary_column s = Some c" "stored_column_of s c \<noteq> None" "map_of given c = Some v" for c v
    using that rows got unfolding index_lookup [OF ok'] t' by (auto simp: completed_def)
  ultimately show ?thesis using row(1) got by auto
qed

text \<open>
  C22: Deleting a live row removes it, its key and nothing else; deleting any other row is refused
  and changes nothing.
\<close>

theorem delete_refines:
  assumes "table_run \<delta> s t" and "schema_ok s" and "delete_row t i = (r, t')"
  shows "r = (if table_rows t i = None then Inl (RowNotFound i) else Inr ()) \<and>
    table_rows t' = (table_rows t)(i := None) \<and>
    (\<forall>v j. find_by_primary_key t' v = Some j \<longleftrightarrow> j \<noteq> i \<and> find_by_primary_key t v = Some j)"
proof -
  from table_run_ok [OF assms(1,2)] have ok: "table_ok t" by auto
  note del = delete_row_result [OF ok assms(3)]
  show ?thesis
    unfolding index_lookup [OF ok] index_lookup [OF del(1)] del(2,4,5) by auto
qed

text \<open>
  C23: An update changes no row but its own, and no key. It succeeds exactly when the row is live, the
  key is not among the changes and every change is of the type of its column; then all of them are
  made. A failed update has made the changes that came before the refused one.
\<close>

theorem update_refines:
  assumes "table_run \<delta> s t" and "schema_ok s" and "is_hash_order \<pi>" and "hm_wf updates"
    and "update_row \<pi> t i updates = (r, t')"
  shows "(\<forall>j. j \<noteq> i \<longrightarrow> table_rows t' j = table_rows t j) \<and>
    (\<forall>v. find_by_primary_key t' v = find_by_primary_key t v) \<and>
    (case table_rows t i of
       None \<Rightarrow> \<not> is_ok r \<and> table_rows t' i = None
     | Some old \<Rightarrow>
         (is_ok r \<longleftrightarrow> (\<forall>c v. map_of updates c = Some v \<longrightarrow> updatable s (c, v)) \<and>
            (\<forall>c. primary_column s = Some c \<longrightarrow> map_of updates c = None)) \<and>
         (is_ok r \<longrightarrow> table_rows t' i = Some (overlay old (map_of updates))) \<and>
         (\<not> is_ok r \<longrightarrow> (\<exists>made. made \<subseteq>\<^sub>m map_of updates \<and> table_rows t' i = Some (overlay old made))))"
proof -
  from table_run_ok [OF assms(1,2)] have ok: "table_ok t" and s: "schema t = s" by auto
  note res = update_row_result [OF assms(3,4) ok assms(5), unfolded s]
  then have ok': "table_ok t'" and s': "schema t' = s" using s by simp_all
  have pk: "pk_column (primary_index t) = primary_column s" using ok s by (simp add: table_ok_def)
  have key: "updates_key (primary_index t) updates = None \<longleftrightarrow> (\<forall>c. primary_column s = Some c \<longrightarrow> map_of updates c = None)"
    by (auto simp: updates_key_def pk hm_contains_def split: option.split)
  have unit: "r = Inr () \<longleftrightarrow> is_ok r" by (cases r) simp_all
  let ?made = "map_of (takeWhile (updatable s) (hm_iter \<pi> updates))"
  have made: "?made \<subseteq>\<^sub>m map_of updates"
    using map_le_map_add [of ?made "map_of (dropWhile (updatable s) (hm_iter \<pi> updates))"]
    by (simp flip: map_of_append add: hm_iter_map_of [OF assms(3,4)])
  have all: "?made = map_of updates" if "\<forall>c v. map_of updates c = Some v \<longrightarrow> updatable s (c, v)"
  proof -
    have "\<forall>cv \<in> set (hm_iter \<pi> updates). updatable s cv" using that by (auto simp: hm_iter_mem [OF assms(3)])
    then have "takeWhile (updatable s) (hm_iter \<pi> updates) = hm_iter \<pi> updates" by (simp add: takeWhile_eq_all_conv)
    then show ?thesis by (simp only: hm_iter_map_of [OF assms(3,4)])
  qed
  have same: "find_by_primary_key t' v = find_by_primary_key t v"
    if "\<And>j. \<forall>c. primary_column s = Some c \<longrightarrow>
         map_option (\<lambda>row. row c) (table_rows t' j) = map_option (\<lambda>row. row c) (table_rows t j)" for v
  proof -
    have "find_by_primary_key t' v = Some j \<longleftrightarrow> find_by_primary_key t v = Some j" for j
      using that [of j] unfolding index_lookup [OF ok] index_lookup [OF ok'] s s'
      by (cases "table_rows t' j"; cases "table_rows t j") auto
    then show ?thesis by (metis not_None_eq)
  qed
  show ?thesis
  proof (cases "table_rows t i")
    case None
    with res have "\<not> is_ok r" "table_rows t' = table_rows t" by auto
    with None same show ?thesis by simp
  next
    case (Some old)
    show ?thesis
    proof (cases "updates_key (primary_index t) updates")
      case None
      with res Some have r: "is_ok r \<longleftrightarrow> (\<forall>c v. map_of updates c = Some v \<longrightarrow> updatable s (c, v))"
        and rows: "table_rows t' = (table_rows t)(i \<mapsto> overlay old ?made)" by (simp_all add: unit)
      have "overlay old ?made c = old c" if "primary_column s = Some c" for c
        using that None made unfolding key by (metis domIff map_le_implies_dom_le overlay_simps(3) subsetD)
      then have "find_by_primary_key t' v = find_by_primary_key t v" for v
        by (intro same) (simp add: rows Some)
      with rows r made all None Some show ?thesis unfolding key by auto
    next
      case (Some c)
      with res \<open>table_rows t i = Some old\<close> have r: "\<not> is_ok r" "table_rows t' = table_rows t" by auto
      have "Map.empty \<subseteq>\<^sub>m map_of updates \<and> table_rows t' i = Some (overlay old Map.empty)"
        using r(2) \<open>table_rows t i = Some old\<close> by (simp add: overlay_simps)
      then have "\<exists>made. made \<subseteq>\<^sub>m map_of updates \<and> table_rows t' i = Some (overlay old made)" by blast
      moreover from Some key have "\<not> (\<forall>c. primary_column s = Some c \<longrightarrow> map_of updates c = None)" by simp
      moreover from r(2) same have "find_by_primary_key t' v = find_by_primary_key t v" for v by simp
      ultimately show ?thesis unfolding \<open>table_rows t i = Some old\<close> option.case
        using r(1) by (intro conjI) (simp_all only: r(2) simp_thms)
    qed
  qed
qed

text \<open>
  Reading a row returns its stored cells and, as long as the cache of the engine is right, the
  values its computed columns have (a computed column that fails is left out). Exactly the rows
  that are not live are refused, and the evaluation never runs out of stack.
\<close>

theorem get_row_exact:
  assumes "table_run \<delta> s t" and "schema_ok s"
    and "\<forall>e. computed_engine t = Some e \<longrightarrow> cache_right \<delta> (storage t) e"
  shows "case get_row \<delta> t i of
      Inl a \<Rightarrow> a \<noteq> StackExhausted \<and> table_rows t i \<noteq> None
    | Inr (Inl err) \<Rightarrow> err = RowNotFound i \<and> table_rows t i = None
    | Inr (Inr r) \<Rightarrow>
        (\<exists>row. table_rows t i = Some row \<and>
          (\<forall>c. case find_column s c of
             None \<Rightarrow> map_of (row_values r) c = None
           | Some col \<Rightarrow>
               if is_computed col then
                 (\<exists>e res. computed_engine t = Some e \<and>
                    column_is \<delta> (storage t) i (dependencies (dependency_graph e)) c (Inr res) \<and>
                    map_of (row_values r) c = (case res of Inl _ \<Rightarrow> None | Inr v \<Rightarrow> Some v))
               else map_of (row_values r) c = row c))"
proof -
  from table_run_ok [OF assms(1,2)] have ok: "table_ok t" and s: "schema t = s" by auto
  have live: "live t i \<longleftrightarrow> table_rows t i \<noteq> None" by (simp add: table_rows_def)
  have engine: "engine_ok s (computed_engine t)" using ok s by (simp add: table_ok_def)
  have stack: "a \<noteq> StackExhausted" if seen: "visible \<delta> t i col = Inl a" for a col
  proof -
    from seen obtain e where e: "computed_engine t = Some e"
      "get_computed_value \<delta> (storage t) i (engine_depth e) (col_name col) e = Inl a"
      by (auto simp: visible_def split: if_splits option.splits sum.splits prod.splits)
    with engine obtain \<pi> where "is_hash_order \<pi>" "build_from_table \<pi> s = Some (Inr (dependency_graph e))"
      by (auto simp: engine_ok_def)
    from evaluation_stack_suffices [OF this, of "engine_depth e"] e(2) show ?thesis
      by (auto simp: engine_depth_def)
  qed
  have computed: "\<exists>e res. computed_engine t = Some e \<and>
      column_is \<delta> (storage t) i (dependencies (dependency_graph e)) (col_name col) (Inr res) \<and>
      v = (case res of Inl _ \<Rightarrow> None | Inr v \<Rightarrow> Some v)"
    if seen: "visible \<delta> t i col = Inr v" and col: "col \<in> set (columns s)" "is_computed col" for col v
  proof -
    from engine col obtain e where e: "computed_engine t = Some e"
      by (auto simp: engine_ok_def split: option.splits)
    with seen col obtain res e' where res:
      "get_computed_value \<delta> (storage t) i (engine_depth e) (col_name col) e = Inr (res, e')"
      "v = (case res of Inl _ \<Rightarrow> None | Inr v \<Rightarrow> Some v)"
      by (auto simp: visible_def split: sum.splits prod.splits)
    from evaluation_agrees(2) [of \<delta> "storage t" e i "col_name col" "engine_depth e"] assms(3) e res(1)
    have "column_is \<delta> (storage t) i (dependencies (dependency_graph e)) (col_name col) (Inr res)"
      by (simp add: agrees_Inr)
    with e res(2) show ?thesis by blast
  qed
  note res = get_row_result [OF ok, where \<delta> = \<delta> and i = i, unfolded s]
  show ?thesis
  proof (cases "get_row \<delta> t i")
    case (Inl a)
    with res stack live show ?thesis by auto
  next
    case (Inr out)
    show ?thesis
    proof (cases out)
      case (Inl err)
      with Inr res live show ?thesis by auto
    next
      case r: (Inr r)
      with Inr res live obtain row where row: "table_rows t i = Some row"
        and shown: "\<And>c. case find_column s c of None \<Rightarrow> map_of (row_values r) c = None
           | Some col \<Rightarrow> visible \<delta> t i col = Inr (map_of (row_values r) c)" by auto
      have "case find_column s c of
             None \<Rightarrow> map_of (row_values r) c = None
           | Some col \<Rightarrow>
               if is_computed col then
                 (\<exists>e res. computed_engine t = Some e \<and>
                    column_is \<delta> (storage t) i (dependencies (dependency_graph e)) c (Inr res) \<and>
                    map_of (row_values r) c = (case res of Inl _ \<Rightarrow> None | Inr v \<Rightarrow> Some v))
               else map_of (row_values r) c = row c" for c
      proof (cases "find_column s c")
        case None
        with shown [of c] show ?thesis by simp
      next
        case (Some col)
        with shown [of c] have seen: "visible \<delta> t i col = Inr (map_of (row_values r) c)" by simp
        from find_column_mem [OF Some] have col: "col \<in> set (columns s)" "col_name col = c" by auto
        show ?thesis
        proof (cases "is_computed col")
          case True
          from computed [OF seen col(1) True] True Some col(2) show ?thesis by simp
        next
          case False
          with seen Some col(2) row_cells(1) [OF ok row] show ?thesis by (simp add: visible_def)
        qed
      qed
      with Inr r row show ?thesis by auto
    qed
  qed
qed

text \<open>
  C24: A filtered scan that does not abort returns, in ascending order of their identifiers, exactly
  the rows that can be read and satisfy the predicate.
\<close>

theorem scan_filtered_exact:
  assumes "scan_filtered \<delta> t keep = Inr rs"
  shows "sorted_wrt (<) (map fst rs) \<and>
    (\<forall>i r. (i, r) \<in> set rs \<longleftrightarrow> get_row \<delta> t i = Inr (Inr r) \<and> keep r)"
  using scan_filtered_result(2,3) [OF assms] by blast

lemma scan_by_value_result:
  assumes ok: "table_ok t" and run: "scan_by_column_value \<delta> t c v = Inr rs"
  shows "(i, r) \<in> set rs \<longleftrightarrow> get_row \<delta> t i = Inr (Inr r) \<and>
    (if primary_column (schema t) = Some c then (\<exists>row. table_rows t i = Some row \<and> row c = Some v)
     else (\<exists>w. map_of (row_values r) c = Some w \<and> values_equal w (normalize_value_for_column t c v)))"
proof -
  from ok have pk: "pk_column (primary_index t) = primary_column (schema t)" by (simp add: table_ok_def)
  show ?thesis
  proof (cases "primary_column (schema t) = Some c")
    case True
    then have key: "find_by_primary_key t v = Some i \<longleftrightarrow> (\<exists>row. table_rows t i = Some row \<and> row c = Some v)" for i
      unfolding index_lookup [OF ok] by simp
    have "rs = (case find_by_primary_key t v of None \<Rightarrow> []
        | Some j \<Rightarrow> (case get_row \<delta> t j of Inr (Inr r) \<Rightarrow> [(j, r)] | _ \<Rightarrow> []))"
      using run True pk
      by (auto simp: scan_by_column_value_def get_by_primary_key_def split: option.splits sum.splits)
    then have "(i, r) \<in> set rs \<longleftrightarrow> find_by_primary_key t v = Some i \<and> get_row \<delta> t i = Inr (Inr r)"
      by (auto split: option.splits sum.splits)
    with True show ?thesis unfolding key by auto
  next
    case False
    with run pk have "scan_filtered \<delta> t (\<lambda>row. case map_of (row_values row) c of None \<Rightarrow> False
        | Some w \<Rightarrow> values_equal w (normalize_value_for_column t c v)) = Inr rs"
      by (simp add: scan_by_column_value_def)
    from scan_filtered_result(2) [OF this] False show ?thesis by (auto split: option.splits)
  qed
qed

text \<open>
  A scan for a value of a column returns exactly the rows that show it: on the primary key the
  row whose stored key is the value, on any other column the rows whose value equals the value
  converted to the type of the column.
\<close>

theorem scan_by_value_exact:
  assumes "table_run \<delta> s t" and "schema_ok s" and "scan_by_column_value \<delta> t c v = Inr rs"
  shows "(i, r) \<in> set rs \<longleftrightarrow> get_row \<delta> t i = Inr (Inr r) \<and>
    (if primary_column s = Some c then (\<exists>row. table_rows t i = Some row \<and> row c = Some v)
     else (\<exists>w. map_of (row_values r) c = Some w \<and> values_equal w (normalize_value_for_column t c v)))"
  using scan_by_value_result [of t \<delta> c v rs] table_run_ok [OF assms(1,2)] assms(3) by auto

text \<open>
  The iterator and the scan agree: a filtered scan returns rows exactly when the filtered
  iterator yields the same rows, in the same order, and never aborts.
\<close>

theorem scan_is_iteration:
  "scan_filtered \<delta> t keep = Inr rs \<longleftrightarrow> iter_filtered \<delta> t keep = map (\<lambda>(i, r). (i, Inr r)) rs"
proof -
  let ?item = "\<lambda>i. case get_row \<delta> t i of
      Inl a \<Rightarrow> Some (i, Inl a) | Inr (Inl _) \<Rightarrow> None | Inr (Inr row) \<Rightarrow> Some (i, Inr row)"
  let ?keep = "\<lambda>(_, item). case item of Inl _ \<Rightarrow> True | Inr row \<Rightarrow> keep row"
  let ?yields = "\<lambda>is. filter ?keep (List.map_filter ?item (filter (\<lambda>i. i \<notin> set (deleted_rows t)) is))"
  have "(\<forall>i \<in> set is. \<forall>a. get_row \<delta> t i \<noteq> Inl a) \<and> rs = List.map_filter (row_if \<delta> t keep) is \<longleftrightarrow>
     ?yields is = map (\<lambda>(i, r). (i, Inr r)) rs" for "is" and rs
  proof (induction "is" arbitrary: rs)
    case (Cons i "is")
    consider a where "get_row \<delta> t i = Inl a" "i \<notin> set (deleted_rows t)" | e where "get_row \<delta> t i = Inr (Inl e)"
      | r where "get_row \<delta> t i = Inr (Inr r)" "i \<notin> set (deleted_rows t)"
      by (cases "i \<in> set (deleted_rows t)"; cases "get_row \<delta> t i") (auto simp: get_row_def dest: sum.exhaust)
    then show ?case
    proof cases
      case 1
      then show ?thesis by (cases rs) (auto simp: List.map_filter_simps)
    next
      case 2
      with Cons.IH [of rs] show ?thesis by (simp add: List.map_filter_simps row_if_def)
    next
      case 3
      with Cons.IH [of rs] Cons.IH [of "tl rs"] show ?thesis
        by (cases rs) (auto simp: List.map_filter_simps row_if_def)
    qed
  qed (auto simp: List.map_filter_simps)
  from this [of "[0..<next_row_id t]" rs] show ?thesis
    by (simp add: scan_filtered_def scan_rows_result iter_filtered_def iter_rows_def)
qed

section \<open>Witnesses\<close>

theorem table_invariant_witness:
  "row_count two_users = card (dom (table_rows two_users)) \<and> find_by_primary_key two_users (VU64 2) = Some 1 \<and>
   (\<exists>row. table_rows two_users 1 = Some row \<and> row ''id'' = Some (VU64 2))"
proof -
  have "find_by_primary_key two_users (VU64 2) = Some 1" "primary_column demo_users = Some ''id''"
    by code_simp+
  with table_invariant [OF two_users_run demo_schema_ok] show ?thesis by auto
qed

theorem insert_refines_witness:
  "\<exists>t'. insert_row rev two_users (TableRow [(''id'', VU64 3)]) = (Inr 2, t') \<and>
     table_rows t' = (table_rows two_users)(2 \<mapsto> completed demo_users [(''id'', VU64 3)])"
proof -
  have "fst (insert_row rev two_users (TableRow [(''id'', VU64 3)])) = Inr 2" by code_simp
  then obtain t' where t': "insert_row rev two_users (TableRow [(''id'', VU64 3)]) = (Inr 2, t')"
    by (metis prod.collapse)
  from insert_refines [OF two_users_run demo_schema_ok hash_order_rev t'] t' show ?thesis by (auto split: if_splits)
qed

theorem insert_then_get_witness:
  "\<exists>t' row. insert_row rev two_users (TableRow [(''id'', VU64 3)]) = (Inr 2, t') \<and>
     get_row (\<lambda>s. s) t' 2 = Inr (Inr row) \<and> map_of (row_values row) ''x'' = Some (VU64 7) \<and>
     find_by_primary_key t' (VU64 3) = Some 2"
proof -
  have "map_prod id (\<lambda>t'. is_ok (get_row (\<lambda>s. s) t' 2)) (insert_row rev two_users (TableRow [(''id'', VU64 3)])) = (Inr 2, True)"
    by code_simp
  then obtain t' out where t': "insert_row rev two_users (TableRow [(''id'', VU64 3)]) = (Inr 2, t')"
      "get_row (\<lambda>s. s) t' 2 = Inr out"
    by (auto simp: is_ok_iff map_prod_def split: prod.splits)
  have "map_option default_value (stored_column_of demo_users ''x'') =
      Some (Some (ELiteral (LInteger (IntegerLiteral ''7'' 7 None))))"
    "primary_column demo_users = Some ''id'' \<and> stored_column_of demo_users ''id'' \<noteq> None" by code_simp+
  with insert_then_get [OF two_users_run demo_schema_ok hash_order_rev t'] t' show ?thesis by auto
qed

theorem delete_refines_witness:
  "\<exists>t'. delete_row two_users 0 = (Inr (), t') \<and> table_rows t' = (table_rows two_users)(0 := None) \<and>
     find_by_primary_key t' (VU64 2) = Some 1"
proof -
  have "fst (delete_row two_users 0) = Inr ()" "find_by_primary_key two_users (VU64 2) = Some 1" by code_simp+
  then obtain t' where t': "delete_row two_users 0 = (Inr (), t')" by (metis prod.collapse)
  from delete_refines [OF two_users_run demo_schema_ok t'] t' \<open>find_by_primary_key two_users (VU64 2) = Some 1\<close>
  show ?thesis by auto
qed

theorem update_refines_witness:
  "\<exists>t' old. update_row rev two_users 0 [(''x'', VU64 9)] = (Inr (), t') \<and> table_rows two_users 0 = Some old \<and>
     table_rows t' 0 = Some (overlay old [''x'' \<mapsto> VU64 9]) \<and> table_rows t' 1 = table_rows two_users 1"
proof -
  have "fst (update_row rev two_users 0 [(''x'', VU64 9)]) = Inr ()" by code_simp
  then obtain t' where t': "update_row rev two_users 0 [(''x'', VU64 9)] = (Inr (), t')" by (metis prod.collapse)
  have "hm_wf [(''x'', VU64 9)]" by (simp add: hm_wf_def)
  from update_refines [OF two_users_run demo_schema_ok hash_order_rev this t'] t' show ?thesis
    by (auto split: option.splits)
qed

lemma two_users_cache: "\<forall>e. computed_engine two_users = Some e \<longrightarrow> cache_right \<delta> (storage two_users) e"
proof -
  have "map_option cached_values (computed_engine two_users) = Some []" by code_simp
  then show ?thesis by (auto simp: cache_right_def cached_at_def)
qed

theorem get_row_exact_witness:
  "\<exists>r row. get_row (\<lambda>s. s) two_users 0 = Inr (Inr r) \<and> table_rows two_users 0 = Some row \<and>
     map_of (row_values r) ''x'' = row ''x'' \<and> map_of (row_values r) ''a'' = Some (VU64 6)"
proof -
  have "map_sum id (map_sum id (\<lambda>r. map_of (row_values r) ''a'')) (get_row (\<lambda>s. s) two_users 0) = Inr (Inr (Some (VU64 6)))"
    by code_simp
  then obtain r where r: "get_row (\<lambda>s. s) two_users 0 = Inr (Inr r)" "map_of (row_values r) ''a'' = Some (VU64 6)"
    by (auto simp: map_sum_def split: sum.splits)
  have "map_option is_computed (find_column demo_users ''x'') = Some False" by code_simp
  then obtain col where col: "find_column demo_users ''x'' = Some col" "\<not> is_computed col" by auto
  from get_row_exact [OF two_users_run demo_schema_ok two_users_cache, of 0, unfolded r(1) sum.case]
  obtain row where "table_rows two_users 0 = Some row" "map_of (row_values r) ''x'' = row ''x''"
    using col by (auto dest!: spec [of _ "''x''"])
  with r show ?thesis by blast
qed

theorem scan_filtered_exact_witness:
  "\<exists>rs. scan_filtered (\<lambda>s. s) two_users (\<lambda>r. map_of (row_values r) ''a'' = Some (VU64 14)) = Inr rs \<and>
     map fst rs = [1] \<and> (\<exists>r. get_row (\<lambda>s. s) two_users 1 = Inr (Inr r))"
proof -
  have "map_sum id (map fst) (scan_filtered (\<lambda>s. s) two_users (\<lambda>r. map_of (row_values r) ''a'' = Some (VU64 14))) = Inr [1]"
    by code_simp
  then obtain rs where rs: "scan_filtered (\<lambda>s. s) two_users (\<lambda>r. map_of (row_values r) ''a'' = Some (VU64 14)) = Inr rs"
      "map fst rs = [1]"
    by (auto simp: map_sum_def split: sum.splits)
  then obtain r where "(1, r) \<in> set rs" by auto
  with scan_filtered_exact [OF rs(1)] have "get_row (\<lambda>s. s) two_users 1 = Inr (Inr r)" by simp
  with rs show ?thesis by auto
qed

theorem scan_by_value_exact_witness:
  "\<exists>rs r. scan_by_column_value (\<lambda>s. s) two_users ''id'' (VU64 2) = Inr rs \<and> (1, r) \<in> set rs \<and>
     get_row (\<lambda>s. s) two_users 1 = Inr (Inr r)"
proof -
  have "map_sum id (map fst) (scan_by_column_value (\<lambda>s. s) two_users ''id'' (VU64 2)) = Inr [1]" by code_simp
  then obtain rs where rs: "scan_by_column_value (\<lambda>s. s) two_users ''id'' (VU64 2) = Inr rs" "map fst rs = [1]"
    by (auto simp: map_sum_def split: sum.splits)
  then obtain r where "(1, r) \<in> set rs" by auto
  with scan_by_value_exact [OF two_users_run demo_schema_ok rs(1), of 1 r] rs(1) show ?thesis by blast
qed

section \<open>What callers may not expect\<close>

text \<open>
  \<open>update_row\<close> marks nothing dirty: a computed value that was read before the update is returned
  after it, although the row's own column shows the new one.
\<close>

theorem update_leaves_stale_values:
  "let read = (\<lambda>t. table_column_value (\<lambda>s. s) t 0 ''a'');
       t1 = (case read two_users of Inr (_, t) \<Rightarrow> t | _ \<Rightarrow> two_users);
       t2 = snd (update_row rev t1 0 [(''x'', VU64 50)])
   in map_sum id fst (table_column_value (\<lambda>s. s) t2 0 ''x'') = Inr (Inr (VU64 50)) \<and>
      map_sum id fst (read t2) = Inr (Inr (VU64 6))"
  by code_simp

text \<open>\<open>get_column_value\<close> does not look at the tombstones, so the cache answers for a deleted row.\<close>

theorem deleted_row_still_computed:
  "let read = (\<lambda>t. table_column_value (\<lambda>s. s) t 0 ''a'');
       t1 = (case read two_users of Inr (_, t) \<Rightarrow> t | _ \<Rightarrow> two_users);
       t2 = snd (delete_row t1 0)
   in get_row (\<lambda>s. s) t2 0 = Inr (Inl (RowNotFound 0)) \<and> map_sum id fst (read t2) = Inr (Inr (VU64 6))"
  by code_simp

text \<open>
  Integer defaults are \<open>U64\<close> values and are not checked: no insertion that needs the default of an
  \<open>i32\<close> column succeeds, whatever else the row supplies.
\<close>

theorem i32_default_never_fits:
  assumes "table_run \<delta> s t" and "schema_ok s" and "is_hash_order \<pi>"
    and "stored_column_of s c = Some col" and "column_type col = TIdentifier ''i32'' args"
    and "default_value col = Some (ELiteral (LInteger l))" and "map_of given c = None"
  shows "\<not> is_ok (fst (insert_row \<pi> t (TableRow given)))"
proof -
  from table_run_ok [OF assms(1,2)] have ok: "table_ok t" and s: "schema t = s" by auto
  obtain r t' where run: "insert_row \<pi> t (TableRow given) = (r, t')" by (cases "insert_row \<pi> t (TableRow given)")
  have "col_name col = c" using assms(2,4) by (simp add: stored_column_of_iff)
  then have "supplied given col = Some (VU64 (ucast (lit_value l)))" using assms(6,7) by (simp add: supplied_def)
  moreover have "column_type_kind col = KI32" using assms(5) by (simp add: column_type_kind_def storage_type_def new_for_type_def)
  ultimately have "\<not> insertable t given" using assms(4) unfolding insertable_def s by force
  with insert_row_result(1) [OF assms(3) ok run] run show ?thesis by (auto simp: is_ok_def)
qed

text \<open>
  The type \<open>string\<close> gets string storage, but the check of supplied values knows only \<open>String\<close>: a
  column declared \<open>string\<close> accepts no value at all.
\<close>

theorem lowercase_string_rejects_all:
  "find_column (schema t) c = Some col \<Longrightarrow> column_type col = TIdentifier ''string'' args \<Longrightarrow>
     column_kind (new_for_type (storage_type col)) = KString \<and>
     validate_column_value t c v = Inl (TypeMismatch c ''string'' (actual_type v))"
  by (cases v) (simp_all add: validate_column_value_def expected_type_def storage_type_def new_for_type_def)

end
