(* ===== verification/Predicate_Properties.thy ===== *)
theory Predicate_Properties
  imports Table_Properties
begin

text \<open>
  What predicate evaluation, indexes, projections and statistics return, against a reference that
  looks at one row at a time. The bitmaps enter through the interface \<open>row_set\<close> (theory Bitmap).
\<close>

section \<open>The reference\<close>

text \<open>
  The order of values, on its own terms: strings by their characters, false before true, numbers
  as doubles; a \<open>NaN\<close> and values of different kinds are not ordered.
\<close>

definition compare_total :: "'a::linorder \<Rightarrow> 'a \<Rightarrow> ordering" where
  "compare_total a b = (if a < b then OLess else if a = b then OEqual else OGreater)"

fun as_double :: "column_value \<Rightarrow> f64 option" where
  "as_double (VU64 n) = Some (f64_of_int (uint n))"
| "as_double (VI32 n) = Some (f64_of_int (sint n))"
| "as_double (VF64 x) = Some x"
| "as_double _ = None"

fun value_order :: "column_value \<Rightarrow> column_value \<Rightarrow> ordering option" where
  "value_order (VString a) (VString b) = Some (compare_total a b)"
| "value_order (VBool a) (VBool b) = Some (compare_total a b)"
| "value_order v w =
     (case (as_double v, as_double w) of
        (Some x, Some y) \<Rightarrow> f64_partial_cmp x y
      | _ \<Rightarrow> None)"

definition same_value :: "column_value \<Rightarrow> column_value \<Rightarrow> bool" where
  "same_value v w \<longleftrightarrow> v = w \<or> value_order v w = Some OEqual"

text \<open>
  The value of a row that a comparison with the literal \<open>goal\<close> accepts. The engine reads \<open><\<close> and
  \<open>>\<close> as including equality; they differ from \<open><=\<close> and \<open>>=\<close> only in that those also accept the
  very same value where it is not ordered with itself, which is a \<open>NaN\<close>.
\<close>

definition in_order :: "binary_operator \<Rightarrow> column_value \<Rightarrow> column_value \<Rightarrow> bool" where
  "in_order op v goal \<longleftrightarrow>
     (case op of
        Less \<Rightarrow> value_order v goal = Some OLess \<or> value_order v goal = Some OEqual
      | LessEqual \<Rightarrow> value_order v goal = Some OLess \<or> same_value v goal
      | Greater \<Rightarrow> value_order v goal = Some OGreater \<or> value_order v goal = Some OEqual
      | GreaterEqual \<Rightarrow> value_order v goal = Some OGreater \<or> same_value v goal
      | _ \<Rightarrow> False)"

text \<open>The comparisons of the engine are these.\<close>

lemma as_double_value: "as_double v = value_as_f64 v"
  by (cases v) (simp_all add: f64_of_u64_def f64_of_i32_def)

lemma same_value_equal: "same_value v w \<longleftrightarrow> values_equal v w"
  by (cases v; cases w)
    (auto simp: same_value_def values_equal_def compare_total_def f64_of_u64_def f64_of_i32_def split: if_splits)

lemma at_least_order: "at_least v w \<longleftrightarrow> value_order v w = Some OGreater \<or> value_order v w = Some OEqual"
  by (cases v; cases w)
    (auto simp: at_least_def compare_column_values_def compare_total_def as_double_value
      f64_of_u64_def f64_of_i32_def)

lemma value_order_swap:
  "value_order w v = map_option (\<lambda>c. case c of OLess \<Rightarrow> OGreater | OEqual \<Rightarrow> OEqual | OGreater \<Rightarrow> OLess)
     (value_order v w)"
  by (cases v; cases w) (auto simp: compare_total_def intro: f64_partial_cmp_swap)

lemma at_most_order: "at_least goal v \<longleftrightarrow> value_order v goal = Some OLess \<or> value_order v goal = Some OEqual"
  unfolding at_least_order value_order_swap [of goal v]
  by (cases "value_order v goal") (auto split: ordering.splits)

lemma column_matches_order: "column_matches op goal v \<longleftrightarrow> in_order op v goal"
  by (cases op)
    (auto simp: in_order_def at_least_order [of v goal] at_most_order [of goal v] same_value_equal [symmetric] same_value_def)

text \<open>Equality on the primary key is exact, on any other column it is that of the values after conversion.\<close>

definition column_equals :: "(string \<Rightarrow> string) \<Rightarrow> table_runtime \<Rightarrow> row_id \<Rightarrow> string \<Rightarrow> column_value \<Rightarrow> bool" where
  "column_equals \<delta> t i c v \<longleftrightarrow>
     (if pk_column (primary_index t) = Some c then storage_cell (storage t) c i = Some v
      else (\<exists>w. get_value_for_row \<delta> t i c = Inr (Some w) \<and> same_value w (normalize_value_for_column t c v)))"

definition comparison_holds ::
    "(string \<Rightarrow> string) \<Rightarrow> table_runtime \<Rightarrow> row_id \<Rightarrow> binary_operator \<Rightarrow> string \<Rightarrow> column_value \<Rightarrow> bool" where
  "comparison_holds \<delta> t i op c v \<longleftrightarrow>
     (case op of
        Equal \<Rightarrow> column_equals \<delta> t i c v
      | NotEqual \<Rightarrow> \<not> column_equals \<delta> t i c v
      | _ \<Rightarrow> (\<exists>w. get_value_for_row \<delta> t i c = Inr (Some w) \<and>
               in_order op w (normalize_value_for_column t c v)))"

fun predicate_holds :: "(string \<Rightarrow> string) \<Rightarrow> table_runtime \<Rightarrow> row_id \<Rightarrow> expression \<Rightarrow> bool" where
  "predicate_holds \<delta> t i (EBinaryOp left op right) =
     (case op of
        And \<Rightarrow> predicate_holds \<delta> t i left \<and> predicate_holds \<delta> t i right
      | Or \<Rightarrow> predicate_holds \<delta> t i left \<or> predicate_holds \<delta> t i right
      | _ \<Rightarrow>
          (case (left, right) of
             (EIdentifier c, ELiteral l) \<Rightarrow>
               comparison_holds \<delta> t i op c (normalize_value_for_column t c (literal_value l))
           | _ \<Rightarrow> False))"
| "predicate_holds \<delta> t i _ = False"

text \<open>No comparison \<open>key != literal\<close>: the code answers those with the rows that are equal.\<close>

fun no_key_inequality :: "tabledef \<Rightarrow> expression \<Rightarrow> bool" where
  "no_key_inequality s (EBinaryOp left op right) =
     (case op of
        And \<Rightarrow> no_key_inequality s left \<and> no_key_inequality s right
      | Or \<Rightarrow> no_key_inequality s left \<and> no_key_inequality s right
      | NotEqual \<Rightarrow> (case left of EIdentifier c \<Rightarrow> primary_column s \<noteq> Some c | _ \<Rightarrow> True)
      | _ \<Rightarrow> True)"
| "no_key_inequality s _ = True"

text \<open>A result stands for a set of live rows; a full scan stands for none in particular.\<close>

definition result_is :: "table_runtime \<Rightarrow> (row_id \<Rightarrow> bool) \<Rightarrow> predicate_result \<Rightarrow> bool" where
  "result_is t P r \<longleftrightarrow>
     (case r of
        PBitmap b \<Rightarrow> length (bits b) = next_row_id t \<and> (\<forall>i. live t i \<longrightarrow> (i \<in> bitmap_rows b \<longleftrightarrow> P i))
      | PIndexLookup ids \<Rightarrow> (\<forall>i. live t i \<longrightarrow> (i \<in> set ids \<longleftrightarrow> P i))
      | PFullScan \<Rightarrow> True)"

section \<open>Bitmaps of predicates\<close>

definition hits :: "(string \<Rightarrow> string) \<Rightarrow> table_runtime \<Rightarrow> string \<Rightarrow> (column_value \<Rightarrow> bool) \<Rightarrow> row_id \<Rightarrow> bool" where
  "hits \<delta> t c matches i \<longleftrightarrow>
     i \<notin> set (deleted_rows t) \<and> (\<exists>v. get_value_for_row \<delta> t i c = Inr (Some v) \<and> matches v)"

lemma fill_bitmap_result:
  assumes "fill_bitmap \<delta> t c matches is b = Inr b'"
  shows "b' = fold (\<lambda>i b. if hits \<delta> t c matches i then bitmap_set b i True else b) is b"
  using assms
proof (induction "is" arbitrary: b)
  case (Cons i "is")
  show ?case
  proof (cases "i \<in> set (deleted_rows t)")
    case True
    with Cons show ?thesis by (simp add: hits_def)
  next
    case False
    with Cons.prems obtain x where x: "get_value_for_row \<delta> t i c = Inr x" by (auto split: sum.splits)
    have hit: "hits \<delta> t c matches i \<longleftrightarrow> (\<exists>v. x = Some v \<and> matches v)" using False x by (simp add: hits_def)
    show ?thesis using Cons.IH Cons.prems False x by (cases x) (simp_all add: hit)
  qed
qed simp

lemma create_bitmap_result:
  assumes "create_bitmap \<delta> t c matches = Inr (Inr r)"
  shows "result_is t (\<lambda>i. \<exists>v. get_value_for_row \<delta> t i c = Inr (Some v) \<and> matches v) r"
proof -
  from assms obtain b where r: "r = PBitmap b"
    and b: "fill_bitmap \<delta> t c matches [0..<next_row_id t] (bitmap_new (next_row_id t)) = Inr b"
    by (auto simp: create_bitmap_def map_sum_def split: if_splits sum.splits)
  note b' = fill_bitmap_result [OF b]
  show ?thesis
    unfolding result_is_def r b' predicate_result.case bitmap.fill_rows hits_def live_def by simp
qed

lemma invert_result:
  assumes "length (bits b) = next_row_id t"
  shows "bitmap_rows (invert_bitmap (next_row_id t) b) = {i. i < next_row_id t \<and> i \<notin> bitmap_rows b}"
    and "length (bits (invert_bitmap (next_row_id t) b)) = next_row_id t"
  using bitmap.clear_rows [of "\<lambda>i. bits b ! i" "next_row_id t"] assms
  by (auto simp: invert_bitmap_def bitmap_rows_def)

lemma intersect_result:
  "result_is t P l \<Longrightarrow> result_is t Q r \<Longrightarrow> result_is t (\<lambda>i. P i \<and> Q i) (intersect_predicate_results l r)"
  by (cases l; cases r) (auto simp: result_is_def bitmap_and_rows)

lemma union_fold: "set (fold (\<lambda>j is. if j \<notin> set is then is @ [j] else is) js is) = set is \<union> set js"
  by (induction js arbitrary: "is") auto

lemma union_result:
  "result_is t P l \<Longrightarrow> result_is t Q r \<Longrightarrow> result_is t (\<lambda>i. P i \<or> Q i) (union_predicate_results l r)"
  by (cases l; cases r) (auto simp: result_is_def bitmap_or_rows union_fold)

section \<open>Comparisons\<close>

lemma equality_result:
  assumes ok: "table_ok t" and idx: "secondary_indexes t = []"
    and run: "evaluate_equality_predicate \<delta> t left right = Inr (Inr r)"
  shows "r = PFullScan \<or> (\<exists>c l. left = EIdentifier c \<and> right = ELiteral l \<and>
     result_is t (\<lambda>i. column_equals \<delta> t i c (normalize_value_for_column t c (literal_value l))) r \<and>
     (pk_column (primary_index t) \<noteq> Some c \<longrightarrow> (\<exists>b. r = PBitmap b)))"
proof (cases "\<exists>c l. left = EIdentifier c \<and> right = ELiteral l")
  case False
  with run show ?thesis
    by (cases left; cases right) (auto simp: evaluate_equality_predicate_def)
next
  case True
  then obtain c l where lr: "left = EIdentifier c" "right = ELiteral l" by blast
  let ?v = "normalize_value_for_column t c (literal_value l)"
  show ?thesis
  proof (cases "pk_column (primary_index t) = Some c")
    case True
    from ok True have "primary_column (schema t) = Some c" by (simp add: table_ok_def)
    then have found: "find_by_primary_key t ?v = Some i \<longleftrightarrow> live t i \<and> storage_cell (storage t) c i = Some ?v" for i
      using index_lookup [OF ok] by (auto simp: table_rows_def)
    have ids: "i \<in> set (case x of Some row \<Rightarrow> [row] | None \<Rightarrow> []) \<longleftrightarrow> x = Some i" for x :: "row_id option" and i
      by (auto split: option.split)
    from run True lr have "r = PIndexLookup (case find_by_primary_key t ?v of Some row \<Rightarrow> [row] | None \<Rightarrow> [])"
      by (simp add: evaluate_equality_predicate_def)
    then have "result_is t (\<lambda>i. column_equals \<delta> t i c ?v) r"
      unfolding result_is_def column_equals_def using True by (simp only: predicate_result.case ids found) simp
    with lr True show ?thesis by blast
  next
    case False
    with run lr idx have res: "create_bitmap \<delta> t c (\<lambda>w. values_equal w (normalize_value_for_column t c ?v)) = Inr (Inr r)"
      by (simp add: evaluate_equality_predicate_def create_equality_bitmap_def)
    from create_bitmap_result [OF this] False have "result_is t (\<lambda>i. column_equals \<delta> t i c ?v) r"
      by (simp add: column_equals_def same_value_equal)
    moreover from res have "\<exists>b. r = PBitmap b" by (auto simp: create_bitmap_def map_sum_def split: if_splits sum.splits)
    ultimately show ?thesis using lr by blast
  qed
qed

lemma range_result:
  assumes idx: "secondary_indexes t = []"
    and run: "evaluate_range_predicate \<delta> t left op right = Inr (Inr r)"
  shows "r = PFullScan \<or> (\<exists>c l. left = EIdentifier c \<and> right = ELiteral l \<and>
     result_is t (\<lambda>i. \<exists>w. get_value_for_row \<delta> t i c = Inr (Some w) \<and> in_order op w
       (normalize_value_for_column t c (normalize_value_for_column t c (literal_value l)))) r)"
proof (cases "\<exists>c l. left = EIdentifier c \<and> right = ELiteral l")
  case False
  with run show ?thesis
    by (cases left; cases right) (auto simp: evaluate_range_predicate_def)
next
  case True
  with run idx show ?thesis
    by (auto simp: evaluate_range_predicate_def create_range_bitmap_def column_matches_order
        dest!: create_bitmap_result)
qed

lemma columnar_result:
  assumes ok: "table_ok t" and idx: "secondary_indexes t = []" and keys: "no_key_inequality (schema t) p"
    and run: "evaluate_predicate_columnar \<delta> t p = Inr (Inr r)"
  shows "result_is t (\<lambda>i. predicate_holds \<delta> t i p) r"
  using keys run
proof (induction p arbitrary: r rule: measure_induct_rule [of size])
  case (less p)
  show ?case
  proof (cases "\<exists>left op right. p = EBinaryOp left op right")
    case False
    with less.prems(2) have "r = PFullScan" by (cases p) auto
    then show ?thesis by (simp add: result_is_def)
  next
    case True
    then obtain left op right where p: "p = EBinaryOp left op right" by blast
    note keys = less.prems(1) [unfolded p] and run = less.prems(2) [unfolded p]
    have scan: "result_is t (\<lambda>i. predicate_holds \<delta> t i p) PFullScan" by (simp add: result_is_def)
    have range: ?thesis if "evaluate_range_predicate \<delta> t left op right = Inr (Inr r)"
      "op \<in> {Less, LessEqual, Greater, GreaterEqual}"
      using range_result [OF idx that(1)] that(2) scan p by (auto simp: comparison_holds_def)
    show ?thesis
    proof (cases op)
      case And
      with run obtain l q where lq: "evaluate_predicate_columnar \<delta> t left = Inr (Inr l)"
        "evaluate_predicate_columnar \<delta> t right = Inr (Inr q)" "r = intersect_predicate_results l q"
        by (auto simp: pred_then_def split: sum.splits)
      from And keys less.IH [OF _ _ lq(1)] less.IH [OF _ _ lq(2)] p show ?thesis
        by (simp add: lq(3) intersect_result)
    next
      case Or
      with run obtain l q where lq: "evaluate_predicate_columnar \<delta> t left = Inr (Inr l)"
        "evaluate_predicate_columnar \<delta> t right = Inr (Inr q)" "r = union_predicate_results l q"
        by (auto simp: pred_then_def split: sum.splits)
      from Or keys less.IH [OF _ _ lq(1)] less.IH [OF _ _ lq(2)] p show ?thesis
        by (simp add: lq(3) union_result)
    next
      case Equal
      with run have "evaluate_equality_predicate \<delta> t left right = Inr (Inr r)" by simp
      from equality_result [OF ok idx this] scan p Equal show ?thesis by (auto simp: comparison_holds_def)
    next
      case NotEqual
      with run obtain q where q: "evaluate_equality_predicate \<delta> t left right = Inr (Inr q)"
        and r: "r = (case q of PBitmap b \<Rightarrow> PBitmap (invert_bitmap (next_row_id t) b) | other \<Rightarrow> other)"
        by (auto simp: pred_then_def split: sum.splits predicate_result.splits)
      have "pk_column (primary_index t) = primary_column (schema t)" using ok by (simp add: table_ok_def)
      with equality_result [OF ok idx q] keys NotEqual consider "q = PFullScan" |
        c l b where "left = EIdentifier c" "right = ELiteral l" "q = PBitmap b"
          "result_is t (\<lambda>i. column_equals \<delta> t i c (normalize_value_for_column t c (literal_value l))) q"
        by auto
      then show ?thesis
      proof cases
        case 1
        with r scan show ?thesis by simp
      next
        case 2
        then have "length (bits b) = next_row_id t" by (simp add: result_is_def)
        with 2 r p NotEqual show ?thesis
          by (auto simp: result_is_def invert_result comparison_holds_def live_def)
      qed
    qed (use run scan range in simp_all)
  qed
qed

section \<open>Indexes\<close>

text \<open>Pushing into an ordered map keeps it sorted and appends to the one entry.\<close>

definition btree_ok :: "('k::linorder \<times> 'v) list \<Rightarrow> bool" where
  "btree_ok m \<longleftrightarrow> sorted_wrt (<) (map fst m)"

lemma btree_push_keys: "fst ` set (btree_push k v m) = insert k (fst ` set m)"
  by (induction k v m rule: btree_push.induct) auto

lemma btree_push_effect:
  assumes "btree_ok m"
  shows "btree_ok (btree_push k v m) \<and>
    map_of (btree_push k v m) k' = (if k' = k then Some ((case map_of m k of None \<Rightarrow> [] | Some vs \<Rightarrow> vs) @ [v]) else map_of m k')"
  using assms
proof (induction k v m rule: btree_push.induct)
  case (2 k v k1 vs m)
  show ?case
  proof (cases "k = k1")
    case True
    with 2(2) show ?thesis by (auto simp: btree_ok_def)
  next
    case False
    show ?thesis
    proof (cases "k < k1")
      case True
      have "map_of m k = None"
        using 2(2) True by (force simp: btree_ok_def map_of_eq_None_iff)
      with True 2(2) False show ?thesis by (auto simp: btree_ok_def)
    next
      case less: False
      from 2(2) have m: "btree_ok m" "\<forall>x \<in> fst ` set m. k1 < x" by (auto simp: btree_ok_def)
      with 2(1) [OF False less] False less show ?thesis
        using btree_push_keys [of k v m] by (auto simp: btree_ok_def)
    qed
  qed
qed (simp add: btree_ok_def)

definition rows_with :: "table_runtime \<Rightarrow> column_data \<Rightarrow> column_value \<Rightarrow> row_id list \<Rightarrow> row_id list" where
  "rows_with t d v is = filter (\<lambda>i. i \<notin> set (deleted_rows t) \<and> get_value d i = Some v) is"

lemma index_cells_effect:
  assumes "btree_ok m"
  shows "btree_ok (fold (index_cell t d) is m) \<and>
    map_of (fold (index_cell t d) is m) v =
      (let ids = (case map_of m v of None \<Rightarrow> [] | Some vs \<Rightarrow> vs) @ rows_with t d v is in
       if map_of m v = None \<and> rows_with t d v is = [] then None else Some ids)"
  using assms
proof (induction "is" arbitrary: m)
  case (Cons i "is")
  show ?case
  proof (cases "i \<in> set (deleted_rows t) \<or> get_value d i = None")
    case True
    then have "index_cell t d i m = m" "rows_with t d v (i # is) = rows_with t d v is"
      by (auto simp: index_cell_def rows_with_def)
    with Cons.IH [OF Cons.prems] show ?thesis by simp
  next
    case False
    then obtain w where w: "get_value d i = Some w" "i \<notin> set (deleted_rows t)" by blast
    note push = btree_push_effect [OF Cons.prems, of w i]
    from push have "btree_ok (btree_push w i m)" by blast
    note IH = Cons.IH [OF this]
    have step: "fold (index_cell t d) (i # is) m = fold (index_cell t d) is (btree_push w i m)"
      using w by (simp add: index_cell_def)
    have rows: "rows_with t d v (i # is) = (if v = w then i # rows_with t d v is else rows_with t d v is)"
      using w by (auto simp: rows_with_def)
    from push have at: "map_of (btree_push w i m) v =
        (if v = w then Some ((case map_of m w of None \<Rightarrow> [] | Some vs \<Rightarrow> vs) @ [i]) else map_of m v)" by blast
    show ?thesis
      using IH unfolding step rows at by (cases "v = w") (simp_all add: Let_def)
  qed
qed (simp add: rows_with_def split: option.split)

lemma ordered_index_result:
  "btree_ok (build_ordered_index t c) \<and>
   map_of (build_ordered_index t c) v =
     (let ids = filter (\<lambda>i. i \<notin> set (deleted_rows t) \<and> storage_cell (storage t) c i = Some v) [0..<next_row_id t]
      in if ids = [] then None else Some ids)"
proof (cases "map_of (storage t) c")
  case None
  then show ?thesis by (simp add: build_ordered_index_def btree_ok_def storage_cell_def)
next
  case (Some d)
  have "btree_ok ([] :: (column_value \<times> row_id list) list)" by (simp add: btree_ok_def)
  from index_cells_effect [OF this, of t d "[0..<next_row_id t]" v] Some show ?thesis
    by (simp add: build_ordered_index_def rows_with_def storage_cell_def Let_def)
qed

lemma bitmap_of_ids_rows:
  assumes "\<forall>i \<in> set ids. i < n"
  shows "bitmap_rows (bitmap_of_ids n ids) = set ids" "bitmap_wf (bitmap_of_ids n ids)"
    "length (bits (bitmap_of_ids n ids)) = n"
  using bitmap.fold_put_rows [of ids "bitmap_new n" "\<lambda>_. True" True] assms
  by (simp_all add: bitmap_of_ids_def)

lemma value_bitmaps_map:
  assumes "distinct (map fst m)"
  shows "map_of (fold (\<lambda>(v, ids). AList.update v (f ids)) m acc) v =
    (case map_of m v of None \<Rightarrow> map_of acc v | Some ids \<Rightarrow> Some (f ids))"
  using assms
proof (induction m arbitrary: acc)
  case (Cons p m)
  obtain w ids where p: "p = (w, ids)" by (cases p)
  with Cons.prems have "map_of m w = None" "distinct (map fst m)" by (auto simp: map_of_eq_None_iff)
  with Cons.IH [OF this(2), of "AList.update w (f ids) acc"] show ?case
    by (simp add: p map_of_update split: option.split)
qed simp

lemma mark_nulls:
  "fold (mark_null t d) is b =
   fold (\<lambda>i b. if i \<notin> set (deleted_rows t) \<and> get_value d i = None then bitmap_set b i True else b) is b"
  by (induction "is" arbitrary: b) (simp_all add: mark_null_def)

section \<open>Projections, iterators and statistics\<close>

lemma project_columns_result:
  assumes "schema_ok (schema t)" and "storage_ok (schema t) (storage t)"
    and "\<forall>c \<in> set cs. stored_column_of (schema t) c \<noteq> None \<longrightarrow> storage_cell (storage t) c i \<noteq> None"
  shows "\<exists>r. project_columns t i cs vals = Inr r \<and>
    (\<forall>c. map_of (row_values r) c =
       (if c \<in> set cs \<and> stored_column_of (schema t) c \<noteq> None then storage_cell (storage t) c i else map_of vals c))"
  using assms(3)
proof (induction cs arbitrary: vals)
  case (Cons c cs)
  then have rest: "\<forall>c \<in> set cs. stored_column_of (schema t) c \<noteq> None \<longrightarrow> storage_cell (storage t) c i \<noteq> None" by simp
  show ?case
  proof (cases "stored_column_of (schema t) c")
    case None
    then have "project_columns t i (c # cs) vals = project_columns t i cs vals"
      by (auto simp: stored_column_of_def split: option.splits if_splits)
    with Cons.IH [OF rest, of vals] None show ?thesis by auto
  next
    case (Some col)
    then have col: "find_column (schema t) c = Some col" "\<not> is_computed col"
      by (auto simp: stored_column_of_def split: option.splits if_splits)
    from Cons.prems Some obtain v where v: "storage_cell (storage t) c i = Some v" by auto
    then obtain d where d: "map_of (storage t) c = Some d" "get_value d i = Some v"
      by (auto simp: storage_cell_def split: option.splits)
    have "project_columns t i (c # cs) vals = project_columns t i cs (AList.update c v vals)"
      using col d by simp
    with Cons.IH [OF rest, of "AList.update c v vals"] Some v show ?thesis
      by (auto simp: map_of_update)
  qed
qed simp

text \<open>Draining an iterator\<close>

lemma next_row_shorter: "next_row t ps is = (Some x, js) \<Longrightarrow> length js < length is"
  by (induction t ps "is" rule: next_row.induct) (auto split: if_splits sum.splits)

function iterator_collect :: "table_runtime \<Rightarrow> indexed_iterator \<Rightarrow> (row_id \<times> table_row) list" where
  "iterator_collect t it =
     (case iterator_next t it of
        (None, _) \<Rightarrow> []
      | (Some item, it') \<Rightarrow> item # iterator_collect t it')"
  by pat_completeness auto
termination
  by (relation "measure (\<lambda>(t, it). length (it_row_ids it))")
    (auto simp: iterator_next_def dest: next_row_shorter split: prod.splits)

declare iterator_collect.simps [simp del]

definition projected_item :: "table_runtime \<Rightarrow> string list \<Rightarrow> row_id \<Rightarrow> (row_id \<times> table_row) option" where
  "projected_item t ps i =
     (if i \<in> set (deleted_rows t) then None
      else case get_row_projected t i ps of Inl _ \<Rightarrow> None | Inr row \<Rightarrow> Some (i, row))"

lemma next_row_result:
  "case next_row t ps is of
     (None, js) \<Rightarrow> List.map_filter (projected_item t ps) is = []
   | (Some x, js) \<Rightarrow> List.map_filter (projected_item t ps) is = x # List.map_filter (projected_item t ps) js"
  by (induction t ps "is" rule: next_row.induct)
    (auto simp: List.map_filter_simps projected_item_def split: sum.split prod.splits option.splits)

lemma iterator_collect_result:
  "iterator_collect t it = List.map_filter (projected_item t (it_projection it)) (it_row_ids it)"
proof (induction t it rule: iterator_collect.induct)
  case (1 t it)
  obtain item js where n: "next_row t (it_projection it) (it_row_ids it) = (item, js)"
    by (cases "next_row t (it_projection it) (it_row_ids it)")
  note step = next_row_result [of t "it_projection it" "it_row_ids it", unfolded n]
  show ?case
  proof (cases item)
    case None
    with n step show ?thesis by (simp add: iterator_collect.simps [of t it] iterator_next_def)
  next
    case (Some x)
    with n have nx: "iterator_next t it = (Some x, it\<lparr>it_row_ids := js\<rparr>)" by (simp add: iterator_next_def)
    from 1 [OF nx [symmetric]] Some step nx show ?thesis by (simp add: iterator_collect.simps [of t it])
  qed
qed

lemma summarize_step:
  "summarize_cell t d i (seen, nulls, lo, hi) =
    (if i \<in> set (deleted_rows t) then (seen, nulls, lo, hi)
     else case get_value d i of
         None \<Rightarrow> (seen, nulls + 1, lo, hi)
       | Some v \<Rightarrow>
           (List.insert v seen, nulls,
            case lo of None \<Rightarrow> Some v | Some m \<Rightarrow> if at_least v m then Some v else lo,
            case hi of None \<Rightarrow> Some v | Some m \<Rightarrow> if at_least m v then Some v else hi))"
  by (simp add: summarize_cell_def)

lemma summarize_fold:
  assumes "fold (summarize_cell t d) is (seen, nulls, lo, hi) = (seen', nulls', lo', hi')" and "distinct seen"
  shows "distinct seen' \<and> set seen' = set seen \<union> {v. \<exists>i \<in> set is. i \<notin> set (deleted_rows t) \<and> get_value d i = Some v} \<and>
    nulls' = nulls + length (filter (\<lambda>i. i \<notin> set (deleted_rows t) \<and> get_value d i = None) is)"
  using assms
proof (induction "is" arbitrary: seen nulls lo hi)
  case (Cons i "is")
  show ?case
  proof (cases "i \<in> set (deleted_rows t)")
    case True
    with Cons.prems have "fold (summarize_cell t d) is (seen, nulls, lo, hi) = (seen', nulls', lo', hi')"
      by (simp add: summarize_step)
    from Cons.IH [OF this Cons.prems(2)] True show ?thesis by auto
  next
    case live: False
    show ?thesis
    proof (cases "get_value d i")
      case None
      with live Cons.prems have "fold (summarize_cell t d) is (seen, nulls + 1, lo, hi) = (seen', nulls', lo', hi')"
        by (simp add: summarize_step)
      from Cons.IH [OF this Cons.prems(2)] live None show ?thesis by auto
    next
      case (Some v)
      with live Cons.prems(1) obtain lo1 hi1 where
        "fold (summarize_cell t d) is (List.insert v seen, nulls, lo1, hi1) = (seen', nulls', lo', hi')"
        by (simp add: summarize_step)
      from Cons.IH [OF this] Cons.prems(2) live Some show ?thesis by auto
    qed
  qed
qed simp

lemma count_fold:
  "fold (\<lambda>i matches.
       if i \<in> set (deleted_rows t) then matches
       else (case get_value d i of None \<Rightarrow> matches | Some w \<Rightarrow> if values_equal w v then matches + 1 else matches))
     is n = n + length (filter (\<lambda>i. i \<notin> set (deleted_rows t) \<and> (\<exists>w. get_value d i = Some w \<and> values_equal w v)) is)"
  by (induction "is" arbitrary: n) (auto split: option.split)

lemma statistics_fold:
  assumes "distinct (map col_name cols)" and "\<forall>col \<in> set cols. map_of st (col_name col) \<noteq> None"
  shows "map_of (fold (\<lambda>col stats. case map_of st (col_name col) of None \<Rightarrow> stats
        | Some d \<Rightarrow> AList.update (col_name col) (f (col_name col) d) stats) cols acc) c =
     (if c \<in> col_name ` set cols then map_option (f c) (map_of st c) else map_of acc c)"
  using assms
proof (induction cols arbitrary: acc)
  case (Cons col cols)
  then obtain d where d: "map_of st (col_name col) = Some d" by auto
  from Cons.prems have "col_name col \<notin> col_name ` set cols" "distinct (map col_name cols)"
    "\<forall>col \<in> set cols. map_of st (col_name col) \<noteq> None" by auto
  with Cons.IH [OF this(2,3), of "AList.update (col_name col) (f (col_name col) d) acc"] d show ?case
    by (auto simp: map_of_update)
qed simp

section \<open>Properties\<close>


lemma optimized_scan_result:
  assumes ok: "table_ok t" and "secondary_indexes t = []" and "no_key_inequality (schema t) p"
    and "evaluate_predicate_columnar \<delta> t p \<noteq> Inr (Inr PFullScan)"
    and "scan_filtered_optimized \<delta> t p = Inr (Inr rs)"
  shows "(i, row) \<in> set rs \<longleftrightarrow> get_row \<delta> t i = Inr (Inr row) \<and> predicate_holds \<delta> t i p"
proof -
  from assms(5) obtain r where r: "evaluate_predicate_columnar \<delta> t p = Inr (Inr r)"
    by (auto simp: scan_filtered_optimized_def split: sum.splits)
  note res = columnar_result [OF assms(1-3) r]
  have live: "live t i" if "get_row \<delta> t i = Inr (Inr row)"
    using that by (auto simp: get_row_def live_def split: if_splits)
  have found: "(i, row) \<in> set rs \<longleftrightarrow> i \<in> set ids \<and> get_row \<delta> t i = Inr (Inr row)"
    if "scan_rows \<delta> t (\<lambda>_. True) ids [] = Inr rs" for ids
    using that by (auto simp: scan_rows_result mem_map_filter_iff row_if_iff)
  show ?thesis
  proof (cases r)
    case (PBitmap b)
    with assms(5) r have "scan_rows \<delta> t (\<lambda>_. True) (true_row_ids b) [] = Inr rs"
      by (auto simp: scan_filtered_optimized_def map_sum_def split: sum.splits)
    from found [OF this] PBitmap res live show ?thesis by (auto simp: result_is_def true_row_ids_set)
  next
    case (PIndexLookup ids)
    with assms(5) r have "scan_rows \<delta> t (\<lambda>_. True) ids [] = Inr rs"
      by (auto simp: scan_filtered_optimized_def map_sum_def split: sum.splits)
    from found [OF this] PIndexLookup res live show ?thesis by (auto simp: result_is_def)
  qed (use r assms(4) in simp)
qed

text \<open>
  The optimised scan of such a table returns exactly the rows that can be read and satisfy the
  predicate, unless the evaluation gave up with a full scan.
\<close>

theorem optimized_scan_exact:
  assumes "table_run \<delta> s t" and "schema_ok s" and "secondary_indexes t = []" and "no_key_inequality s p"
    and "evaluate_predicate_columnar \<delta> t p \<noteq> Inr (Inr PFullScan)"
    and "scan_filtered_optimized \<delta> t p = Inr (Inr rs)"
  shows "(i, row) \<in> set rs \<longleftrightarrow> get_row \<delta> t i = Inr (Inr row) \<and> predicate_holds \<delta> t i p"
proof -
  from table_run_ok [OF assms(1,2)] have ok: "table_ok t" and s: "schema t = s" by auto
  from assms(4) have "no_key_inequality (schema t) p" by (simp add: s)
  from optimized_scan_result [OF ok assms(3) this assms(5,6)] show ?thesis .
qed

text \<open>
  A new secondary index is sorted and lists for every value exactly the live rows that hold it, in
  ascending order; its bitmaps, where it has them, stand for the same rows.
\<close>

theorem built_index_exact:
  assumes "\<not> hm_contains (secondary_indexes t) c"
  shows "\<exists>index. map_of (secondary_indexes (add_secondary_index t c)) c = Some index \<and>
    sorted_wrt (<) (map fst (ordered_index index)) \<and>
    (\<forall>v. (case map_of (ordered_index index) v of None \<Rightarrow> [] | Some ids \<Rightarrow> ids) =
       filter (\<lambda>i. live t i \<and> storage_cell (storage t) c i = Some v) [0..<next_row_id t]) \<and>
    (\<forall>bi v. si_bitmap index = Some bi \<longrightarrow>
       (case map_of (value_bitmaps bi) v of
          None \<Rightarrow> \<forall>i. live t i \<longrightarrow> storage_cell (storage t) c i \<noteq> Some v
        | Some b \<Rightarrow> bitmap_wf b \<and> bitmap_rows b = {i. live t i \<and> storage_cell (storage t) c i = Some v}))"
proof -
  let ?m = "build_ordered_index t c" and ?n = "next_row_id t"
  let ?ids = "\<lambda>v. filter (\<lambda>i. live t i \<and> storage_cell (storage t) c i = Some v) [0..<?n]"
  have ids: "filter (\<lambda>i. i \<notin> set (deleted_rows t) \<and> storage_cell (storage t) c i = Some v) [0..<?n] = ?ids v" for v
    by (rule filter_cong) (auto simp: live_def)
  have m: "map_of ?m v = (if ?ids v = [] then None else Some (?ids v))" for v
    using ordered_index_result [of t c v] unfolding ids Let_def by blast
  have sorted: "sorted_wrt (<) (map fst ?m)" using ordered_index_result [of t c] by (simp add: btree_ok_def)
  then have dist: "distinct (map fst ?m)" by (simp add: strict_sorted_iff)
  have below: "\<forall>i \<in> set (?ids v). i < ?n" for v by simp
  have bits: "case map_of (value_bitmaps (build_bitmap_index t c ?m)) v of
      None \<Rightarrow> \<forall>i. live t i \<longrightarrow> storage_cell (storage t) c i \<noteq> Some v
    | Some b \<Rightarrow> bitmap_wf b \<and> bitmap_rows b = {i. live t i \<and> storage_cell (storage t) c i = Some v}" for v
  proof -
    have "map_of (value_bitmaps (build_bitmap_index t c ?m)) v =
        (case map_of ?m v of None \<Rightarrow> None | Some ids \<Rightarrow> Some (bitmap_of_ids ?n ids))"
      using value_bitmaps_map [OF dist, of "bitmap_of_ids ?n" "[]" v]
      by (simp add: build_bitmap_index_def cong: option.case_cong)
    moreover have "set (?ids v) = {i. live t i \<and> storage_cell (storage t) c i = Some v}" by (auto simp: live_def)
    ultimately show ?thesis
      using bitmap_of_ids_rows [OF below, of v] by (auto simp: m filter_empty_conv live_def)
  qed
  let ?index = "\<lparr>si_column = c, ordered_index = ?m,
    si_bitmap = (if length ?m \<le> 100 then Some (build_bitmap_index t c ?m) else None)\<rparr>"
  have "map_of (secondary_indexes (add_secondary_index t c)) c = Some ?index"
    using assms by (simp add: add_secondary_index_def Let_def map_of_update)
  moreover have "(case map_of ?m v of None \<Rightarrow> [] | Some ids \<Rightarrow> ids) = ?ids v" for v by (simp add: m)
  ultimately show ?thesis
    using sorted bits by (intro exI [of _ ?index]) (simp split: if_splits)
qed

text \<open>
  Draining an iterator over row identifiers that were given out yields, in the same order, every
  live row among them with exactly the projected stored columns.
\<close>

theorem iterator_yields_projection:
  assumes "table_run \<delta> s t" and "schema_ok s" and "\<forall>i \<in> set ids. i < next_row_id t"
  shows "map fst (iterator_collect t (iterator_new ids ps)) = filter (\<lambda>i. table_rows t i \<noteq> None) ids \<and>
    (\<forall>i r row c. (i, r) \<in> set (iterator_collect t (iterator_new ids ps)) \<and> table_rows t i = Some row \<longrightarrow>
       map_of (row_values r) c = (if c \<in> set ps then row c else None))"
proof -
  from table_run_ok [OF assms(1,2)] have ok: "table_ok t" and s: "schema t = s" by auto
  from ok have st: "schema_ok (schema t)" "storage_ok (schema t) (storage t)" by (simp_all add: table_ok_def)
  have item: "\<exists>r. projected_item t ps i = Some (i, r) \<and>
      (\<forall>c. map_of (row_values r) c = (if c \<in> set ps then row c else None))"
    if i: "table_rows t i = Some row" for i row
  proof -
    from i have "i \<notin> set (deleted_rows t)" by (auto simp: table_rows_def live_def split: if_splits)
    moreover have cells: "storage_cell (storage t) c i = None \<longleftrightarrow> stored_column_of (schema t) c = None" for c
      using row_cells(1,2) [OF ok i] by metis
    then have "\<forall>c \<in> set ps. stored_column_of (schema t) c \<noteq> None \<longrightarrow> storage_cell (storage t) c i \<noteq> None" by simp
    from project_columns_result [OF st this, of "[]"] obtain r where "get_row_projected t i ps = Inr r"
      "\<forall>c. map_of (row_values r) c =
         (if c \<in> set ps \<and> stored_column_of (schema t) c \<noteq> None then storage_cell (storage t) c i else None)"
      by (auto simp: get_row_projected_def cong: if_cong)
    moreover have "stored_column_of (schema t) c = None \<Longrightarrow> storage_cell (storage t) c i = None" for c using cells by simp
    ultimately show ?thesis using row_cells(1) [OF ok i] by (auto simp: projected_item_def)
  qed
  have none: "projected_item t ps i = None" if "table_rows t i = None" "i < next_row_id t" for i
    using that by (auto simp: projected_item_def table_rows_def live_def split: if_splits)
  have collect: "iterator_collect t (iterator_new ids ps) = List.map_filter (projected_item t ps) ids"
    by (simp add: iterator_collect_result iterator_new_def)
  have "map fst (List.map_filter (projected_item t ps) ids) = filter (\<lambda>i. table_rows t i \<noteq> None) ids"
    using assms(3)
  proof (induction ids)
    case (Cons i ids)
    show ?case
    proof (cases "table_rows t i")
      case None
      with Cons none [of i] show ?thesis by (simp add: List.map_filter_simps)
    next
      case (Some row)
      from item [OF this] Some Cons show ?thesis by (auto simp: List.map_filter_simps)
    qed
  qed (simp add: List.map_filter_simps)
  moreover have "map_of (row_values r) c = (if c \<in> set ps then row c else None)"
    if "(i, r) \<in> set (List.map_filter (projected_item t ps) ids)" "table_rows t i = Some row" for i r row c
  proof -
    from that(1) obtain x where x: "projected_item t ps x = Some (i, r)" by (auto simp: mem_map_filter_iff)
    then have "x = i" by (cases "get_row_projected t x ps") (auto simp: projected_item_def split: if_splits)
    with x item [OF that(2)] show ?thesis by auto
  qed
  ultimately show ?thesis unfolding collect by blast
qed

text \<open>
  The statistics of a stored column count its distinct values in the live rows and find no
  missing value, the row count is the number of live rows, and the estimate for a value of a column
  that is not the primary key is the number of live rows whose cell equals it.
\<close>

theorem statistics_exact:
  assumes "table_run \<delta> s t" and "schema_ok s" and "stored_column_of s c \<noteq> None"
  shows "ts_row_count (generate_statistics t) = card (dom (table_rows t)) \<and>
    (\<exists>cs. map_of (column_stats (generate_statistics t)) c = Some cs \<and> null_count cs = 0 \<and>
       distinct_count cs = card {v. \<exists>i row. table_rows t i = Some row \<and> row c = Some v}) \<and>
    (primary_column s \<noteq> Some c \<longrightarrow> estimate_column_cardinality t c v =
       card {i. \<exists>row w. table_rows t i = Some row \<and> row c = Some w \<and> values_equal w v})"
proof -
  from table_run_ok [OF assms(1,2)] have ok: "table_ok t" and s: "schema t = s" by auto
  from ok have st: "schema_ok s" "storage_ok s (storage t)" and pk: "pk_column (primary_index t) = primary_column s"
    and filled: "\<And>i. live t i \<Longrightarrow> storage_cell (storage t) c i \<noteq> None"
    using assms(3) s unfolding table_ok_def by blast+
  from assms(3) obtain col where col: "find_column s c = Some col" "\<not> is_computed col"
    by (auto simp: stored_column_of_def split: option.splits if_splits)
  from storage_column [OF st(2) col(1)] obtain d where d: "map_of (storage t) c = Some d" by blast
  have cell: "get_value d i = storage_cell (storage t) c i" for i using d by (simp add: storage_cell_def)
  have live: "i < next_row_id t \<and> i \<notin> set (deleted_rows t) \<longleftrightarrow> live t i" for i by (simp add: live_def)
  obtain seen nulls lo hi where sum: "fold (summarize_cell t d) [0..<next_row_id t] ([], 0, None, None) = (seen, nulls, lo, hi)"
    by (cases "fold (summarize_cell t d) [0..<next_row_id t] ([], 0, None, None)") auto
  from summarize_fold [OF this] have seen: "distinct seen"
    "set seen = {v. \<exists>i. live t i \<and> storage_cell (storage t) c i = Some v}"
    "nulls = length (filter (\<lambda>i. i \<notin> set (deleted_rows t) \<and> storage_cell (storage t) c i = None) [0..<next_row_id t])"
    by (auto simp: cell live_def)
  moreover have "filter (\<lambda>i. i \<notin> set (deleted_rows t) \<and> storage_cell (storage t) c i = None) [0..<next_row_id t] = []"
    using filled by (fastforce simp: filter_empty_conv live_def)
  ultimately have nulls: "nulls = 0" by simp
  have "length seen = card {v. \<exists>i row. table_rows t i = Some row \<and> row c = Some v}"
  proof -
    have "{v. \<exists>i row. table_rows t i = Some row \<and> row c = Some v} = set seen"
      unfolding seen(2) by (auto simp: table_rows_def)
    then show ?thesis using seen(1) by (simp add: distinct_card)
  qed
  moreover have "map_of (column_stats (generate_statistics t)) c = Some (summarize_column t c d)"
  proof -
    have "\<forall>col \<in> set (columns s). map_of (storage t) (col_name col) \<noteq> None"
      using st storage_column_None [OF st(2)] find_column_of [OF st(1)] by (metis option.distinct(1))
    moreover have "c \<in> col_name ` set (columns s)" using find_column_mem [OF col(1)] by blast
    ultimately show ?thesis
      using statistics_fold [of "columns s" "storage t" "summarize_column t" "[]" c] st(1) d s
      by (simp add: generate_statistics_def schema_ok_def)
  qed
  moreover have "estimate_column_cardinality t c v =
      card {i. \<exists>row w. table_rows t i = Some row \<and> row c = Some w \<and> values_equal w v}" if "primary_column s \<noteq> Some c"
  proof -
    have "estimate_column_cardinality t c v =
        length (filter (\<lambda>i. i \<notin> set (deleted_rows t) \<and> (\<exists>w. get_value d i = Some w \<and> values_equal w v)) [0..<next_row_id t])"
      using count_fold [where t = t and d = d and v = v and n = 0] that pk d by (simp add: estimate_column_cardinality_def)
    also have "\<dots> = card {i. \<exists>row w. table_rows t i = Some row \<and> row c = Some w \<and> values_equal w v}"
      unfolding distinct_length_filter [OF distinct_upt] cell
      by (rule arg_cong [of _ _ card]) (auto simp: table_rows_def live_def)
    finally show ?thesis .
  qed
  ultimately show ?thesis
    using live_count [OF ok] nulls sum by (auto simp: generate_statistics_def summarize_column_def)
qed

section \<open>Witnesses\<close>

definition people :: tabledef where
  "people = TableDef ''People''
     [TableColumn ''id'' (TIdentifier ''u64'' []) [TableAnnotation ''primary'' []] None False None,
      stored_column ''name'' ''String'']"

definition add_person :: "u64 \<Rightarrow> string \<Rightarrow> table_runtime \<Rightarrow> table_runtime" where
  "add_person k name t = snd (insert_row rev t (TableRow [(''id'', VU64 k), (''name'', VString name)]))"

definition no_people :: table_runtime where
  "no_people = (case table_new (\<lambda>s. s) rev people of Some (Inr t) \<Rightarrow> t | _ \<Rightarrow> undefined)"

definition three_people :: table_runtime where
  "three_people = add_person 3 ''ann'' (add_person 2 ''bob'' (add_person 1 ''ann'' no_people))"

definition name_is :: "binary_operator \<Rightarrow> string \<Rightarrow> expression" where
  "name_is op n = EBinaryOp (EIdentifier ''name'') op (ELiteral (LString n))"

definition id_is :: "binary_operator \<Rightarrow> 128 word \<Rightarrow> expression" where
  "id_is op k = EBinaryOp (EIdentifier ''id'') op (ELiteral (LInteger (IntegerLiteral ''k'' k None)))"

lemma people_ok: "schema_ok people"
  by code_simp

lemma add_person_run: "table_run \<delta> people t \<Longrightarrow> table_run \<delta> people (add_person k n t)"
  unfolding add_person_def by (rule table_run.inserted [OF _ hash_order_rev surjective_pairing])

lemma three_people_run: "table_run (\<lambda>s. s) people three_people"
proof -
  have "map_option is_ok (table_new (\<lambda>s. s) rev people) = Some True" by code_simp
  then obtain t where "table_new (\<lambda>s. s) rev people = Some (Inr t)"
    by (auto simp: is_ok_iff map_option_case split: option.splits)
  then have "table_run (\<lambda>s. s) people no_people"
    using table_run.created [OF hash_order_rev] by (simp add: no_people_def)
  then show ?thesis unfolding three_people_def by (intro add_person_run)
qed

lemma three_people_plain: "secondary_indexes three_people = []" "no_key_inequality people (name_is NotEqual ''bob'')"
  by code_simp+


theorem optimized_scan_exact_witness:
  "\<exists>rs row. scan_filtered_optimized (\<lambda>s. s) three_people (name_is NotEqual ''bob'') = Inr (Inr rs) \<and> (2, row) \<in> set rs \<and>
     get_row (\<lambda>s. s) three_people 2 = Inr (Inr row) \<and> predicate_holds (\<lambda>s. s) three_people 2 (name_is NotEqual ''bob'')"
proof -
  have scan: "evaluate_predicate_columnar (\<lambda>s. s) three_people (name_is NotEqual ''bob'') \<noteq> Inr (Inr PFullScan)"
  proof -
    have "map_sum id (map_sum id (\<lambda>r. case r of PFullScan \<Rightarrow> True | _ \<Rightarrow> False))
      (evaluate_predicate_columnar (\<lambda>s. s) three_people (name_is NotEqual ''bob'')) = Inr (Inr False)" by code_simp
    then show ?thesis by auto
  qed
  have "map_sum id (map_sum id (map fst)) (scan_filtered_optimized (\<lambda>s. s) three_people (name_is NotEqual ''bob'')) = Inr (Inr [0, 2])"
    by code_simp
  then obtain rs where rs: "scan_filtered_optimized (\<lambda>s. s) three_people (name_is NotEqual ''bob'') = Inr (Inr rs)"
      "map fst rs = [0, 2]"
    by (auto simp: map_sum_def split: sum.splits)
  then obtain row where row: "(2, row) \<in> set rs" by auto
  with optimized_scan_exact [OF three_people_run people_ok three_people_plain scan rs(1), of 2 row] rs(1)
  show ?thesis by blast
qed

theorem built_index_exact_witness:
  "\<exists>index. map_of (secondary_indexes (add_secondary_index three_people ''name'')) ''name'' = Some index \<and>
     sorted_wrt (<) (map fst (ordered_index index)) \<and> map_of (ordered_index index) (VString ''ann'') = Some [0, 2]"
proof -
  have "\<not> hm_contains (secondary_indexes three_people) ''name''" by (simp add: three_people_plain hm_contains_def)
  from built_index_exact [OF this] obtain index where index:
    "map_of (secondary_indexes (add_secondary_index three_people ''name'')) ''name'' = Some index"
    "sorted_wrt (<) (map fst (ordered_index index))" by blast
  moreover have "map_option (\<lambda>index. map_of (ordered_index index) (VString ''ann''))
      (map_of (secondary_indexes (add_secondary_index three_people ''name'')) ''name'') = Some (Some [0, 2])"
    by code_simp
  ultimately show ?thesis by auto
qed

theorem iterator_yields_projection_witness:
  "map fst (iterator_collect three_people (iterator_new [2, 0] [''name''])) =
     filter (\<lambda>i. table_rows three_people i \<noteq> None) [2, 0]"
proof -
  have "next_row_id three_people = 3" by code_simp
  then have "\<forall>i \<in> set [2, 0]. i < next_row_id three_people" by simp
  from iterator_yields_projection [OF three_people_run people_ok this] show ?thesis by blast
qed

theorem statistics_exact_witness:
  "\<exists>cs. map_of (column_stats (generate_statistics three_people)) ''name'' = Some cs \<and> null_count cs = 0 \<and>
     distinct_count cs = card {v. \<exists>i row. table_rows three_people i = Some row \<and> row ''name'' = Some v} \<and>
     card {i. \<exists>row w. table_rows three_people i = Some row \<and> row ''name'' = Some w \<and> values_equal w (VString ''ann'')} = 2"
proof -
  have "stored_column_of people ''name'' \<noteq> None" "primary_column people \<noteq> Some ''name''"
    "estimate_column_cardinality three_people ''name'' (VString ''ann'') = 2"
    by code_simp+
  with statistics_exact [OF three_people_run people_ok, of "''name''" "VString ''ann''"] show ?thesis by auto
qed

section \<open>Where the results are wrong\<close>

text \<open>
  \<open>id != 1\<close> returns the row with the key 1 and no other, since an index lookup is passed through
  where a bitmap is inverted.
\<close>

theorem key_inequality_returns_the_equal_row:
  "map_sum id (map_sum id (map fst)) (scan_filtered_optimized (\<lambda>s. s) three_people (id_is NotEqual 1)) = Inr (Inr [0])"
  by code_simp

text \<open>
  A condition on the key together with one on another column mixes a list of rows and a bitmap; the
  scan then returns every row of the table.
\<close>

theorem mixed_condition_returns_every_row:
  "map_sum id (map_sum id (map fst))
     (scan_filtered_optimized (\<lambda>s. s) three_people (EBinaryOp (id_is Equal 1) And (name_is Equal ''bob''))) =
   Inr (Inr [0, 1, 2])"
  by code_simp

text \<open>\<open>name < 'ann'\<close> returns the rows with \<open>name = 'ann'\<close>: the comparison includes equality.\<close>

theorem strict_comparison_includes_equality:
  "map_sum id (map_sum id (map fst)) (scan_filtered_optimized (\<lambda>s. s) three_people (name_is Less ''ann'')) = Inr (Inr [0, 2])"
  by code_simp

text \<open>No operation maintains a secondary index: a row inserted after it was built is not found.\<close>

theorem index_misses_later_rows:
  "map_sum id (map_sum id (map fst)) (scan_filtered_optimized (\<lambda>s. s)
     (add_person 4 ''eve'' (add_secondary_index three_people ''name'')) (name_is Equal ''eve'')) = Inr (Inr []) \<and>
   map_sum id (map_sum id (map fst)) (scan_filtered_optimized (\<lambda>s. s)
     (add_person 4 ''eve'' three_people) (name_is Equal ''eve'')) = Inr (Inr [3])"
  by code_simp

text \<open>The smallest value in the statistics is the largest one of the column, and the other way round.\<close>

theorem statistics_swap_minimum_and_maximum:
  "map_option (\<lambda>d. let cs = summarize_column three_people ''name'' d in (min_value cs, max_value cs))
     (map_of (storage three_people) ''name'') =
   Some (Some (VString ''bob''), Some (VString ''ann''))"
  by code_simp

text \<open>
  A range over an index excludes the values inside the bounds, and without an index the bounds are
  ignored: every live row is yielded.
\<close>

theorem range_scan_ignores_or_inverts_bounds:
  "it_row_ids (iterator_range_scan three_people ''name'' (Some (VString ''b'')) None []) = [0, 1, 2] \<and>
   it_row_ids (iterator_range_scan (add_secondary_index three_people ''name'') ''name'' (Some (VString ''b'')) None []) = [0, 2]"
  by code_simp

end
