(* ===== verification/Executor.thy ===== *)
theory Executor
  imports Table_Properties Tracker
begin

text \<open>
  \<open>SystemStateMachineBuilder\<close> and \<open>SystemStateMachineExecutor\<close> of
  \<open>src/system_executor.rs\<close>, with the types of \<open>src/async_runtime.rs\<close> they share: the lowering of
  a system into a list of states, and the machine that runs them one step at a time against its
  tables. Of the semantic context the builder only asks whether a function is asynchronous
  (\<open>is_async\<close>); \<open>TaskId::new\<close> draws from a counter, which is passed along; \<open>{:?}\<close> of an
  expression is the parameter \<open>show_expr\<close>; the clock is an argument, in nanoseconds.
\<close>

section \<open>Types of the asynchronous runtime\<close>

type_synonym task_id = u64
type_synonym duration = nat
type_synonym instant = nat

datatype async_error =
    AResourceConflict string string string
  | ASchedulingError scheduler_error
  | ATableError table_error
  | ASystemError string string
  | ATimeout string duration
  | ACancelled string
  | AResourceLifecycleError string string string

datatype yield_point =
    AwaitingResource string resource_access
  | AwaitingTableQuery string string
  | AwaitingSystemCompletion string task_id
  | AwaitingSignal string
  | Sleeping duration instant

datatype execution_result =
    Success (return_value: "column_value option") (resources_modified: "string list") (tables_modified: "string list")
  | Partial "(string, column_value) hmap" yield_point

section \<open>State machines\<close>

datatype query_execution =
    QSelect "string list" "expression option"
  | QInsert "(string, column_value) hmap"
  | QUpdate row_id "(string, column_value) hmap"
  | QDelete row_id

datatype execution_state =
    Initialize "string list"
  | ExecuteStatements "statement list" nat
  | AwaitResource string resource_access nat
  | ExecuteQuery string query_execution string nat
  | AwaitSystem string task_id nat
  | Sleep duration nat
  | HandleError async_error "nat option"
  | Complete "column_value option" "string list"

datatype cleanup_action = CReleaseResource string | CRollbackTransaction string | CLogError string

record error_handler =
  eh_error_type :: string
  eh_recovery_state :: nat
  eh_cleanup_actions :: "cleanup_action list"

record execution_context =
  variables :: "(string, column_value) hmap"
  scope_stack :: "(string, column_value) hmap list"
  held_resources :: "(string, resource_access) hmap"
  accessed_tables :: "string list"
  ctx_started_at :: instant
  error_handlers :: "error_handler list"

record state_machine =
  sm_system_name :: string
  states :: "execution_state list"
  current_state :: nat
  execution_context :: execution_context
  sm_parameters :: "(string, column_value) hmap"

section \<open>The builder\<close>

fun resource_name_of :: "sysparam \<Rightarrow> string option" where
  "resource_name_of (PResource _ name _ _) = Some name"
| "resource_name_of _ = None"

definition extract_required_resources :: "sysdef \<Rightarrow> string list" where
  "extract_required_resources s = List.map_filter resource_name_of (sd_parameters s)"

definition convert_query_spec :: "expression query_spec \<Rightarrow> query_execution" where
  "convert_query_spec q = QSelect (map fp_name (qs_projections q)) (qs_where_clause q)"

definition is_async_function :: "(string, bool) hmap \<Rightarrow> string \<Rightarrow> bool" where
  "is_async_function functions f = (map_of functions f = Some True)"

definition requires_async_evaluation :: "(string, bool) hmap \<Rightarrow> expression \<Rightarrow> bool" where
  "requires_async_evaluation functions expr =
     (case expr of
        EQuery _ \<Rightarrow> True
      | ECall (EIdentifier f) _ _ \<Rightarrow> is_async_function functions f
      | _ \<Rightarrow> False)"

definition create_async_evaluation_state ::
    "(expression \<Rightarrow> string) \<Rightarrow> expression \<Rightarrow> nat \<Rightarrow> async_error + execution_state" where
  "create_async_evaluation_state show_expr expr index =
     (case expr of
        EQuery q \<Rightarrow> Inr (ExecuteQuery (qs_from_table q) (convert_query_spec q) (''async_eval_'' @ show_nat index) (index + 1))
      | _ \<Rightarrow> Inl (ASystemError ''state_machine_builder'' (''Unsupported async expression: '' @ show_expr expr)))"

datatype lowering = LStates "execution_state list" | LYieldPoint execution_state

text \<open>
  \<open>lower_statement\<close> returns the states of one statement, the state index it leaves behind and the
  counter of task identifiers. A loop body is lowered with an index of its own, which starts at 1.
\<close>

function (sequential) lower_statement ::
    "(string, bool) hmap \<Rightarrow> (expression \<Rightarrow> string) \<Rightarrow> statement \<Rightarrow> nat \<Rightarrow> task_id \<Rightarrow>
       async_error + lowering \<times> nat \<times> task_id"
  and lower_statements ::
    "(string, bool) hmap \<Rightarrow> (expression \<Rightarrow> string) \<Rightarrow> statement list \<Rightarrow> nat \<Rightarrow> task_id \<Rightarrow>
       async_error + execution_state list \<times> task_id"
where
  "lower_statement functions show_expr (SExpression (EQuery q)) index n =
     Inr (LYieldPoint (ExecuteQuery (qs_from_table q) (convert_query_spec q)
            (''query_result_'' @ show_nat index) (index + 1)), index + 1, n)"
| "lower_statement functions show_expr (SExpression (ECall (EIdentifier f) targs args)) index n =
     (if is_async_function functions f then Inr (LYieldPoint (AwaitSystem f n (index + 1)), index + 1, n + 1)
      else Inr (LStates [ExecuteStatements [SExpression (ECall (EIdentifier f) targs args)] 0], index, n))"
| "lower_statement functions show_expr (SForLoop var ty iterable body) index n =
     (case (if requires_async_evaluation functions iterable then
              map_sum id (\<lambda>st. ([st], index + 1)) (create_async_evaluation_state show_expr iterable index)
            else Inr ([], index)) of
        Inl err \<Rightarrow> Inl err
      | Inr (loop_states, index') \<Rightarrow>
          (case lower_statements functions show_expr body 1 n of
             Inl err \<Rightarrow> Inl err
           | Inr (body_states, n') \<Rightarrow> Inr (LStates (loop_states @ body_states), index', n')))"
| "lower_statement functions show_expr s index n = Inr (LStates [ExecuteStatements [s] 0], index, n)"
| "lower_statements functions show_expr [] index n = Inr ([], n)"
| "lower_statements functions show_expr (s # ss) index n =
     (case lower_statement functions show_expr s index n of
        Inl err \<Rightarrow> Inl err
      | Inr (low, index', n') \<Rightarrow>
          (case lower_statements functions show_expr ss
                  (case low of LStates _ \<Rightarrow> index' | LYieldPoint _ \<Rightarrow> index' + 1) n' of
             Inl err \<Rightarrow> Inl err
           | Inr (rest, n'') \<Rightarrow>
               Inr ((case low of LStates new_states \<Rightarrow> new_states | LYieldPoint st \<Rightarrow> [st]) @ rest, n'')))"
  by pat_completeness auto
termination
  by (relation "measure (case_sum (\<lambda>(_, _, s, _, _). size s) (\<lambda>(_, _, ss, _, _). size_list size ss))") auto

definition context_new :: "instant \<Rightarrow> execution_context" where
  "context_new now =
     \<lparr>variables = [], scope_stack = [], held_resources = [], accessed_tables = [], ctx_started_at = now,
      error_handlers = []\<rparr>"

definition build_state_machine ::
    "(string, bool) hmap \<Rightarrow> (expression \<Rightarrow> string) \<Rightarrow> instant \<Rightarrow> sysdef \<Rightarrow> (string, column_value) hmap \<Rightarrow> task_id \<Rightarrow>
       async_error + state_machine \<times> task_id" where
  "build_state_machine functions show_expr now s parameters n =
     (let resources = extract_required_resources s in
      map_sum id (\<lambda>(body, n').
        (\<lparr>sm_system_name = sd_name s, states = Initialize resources # body @ [Complete None resources],
          current_state = 0, execution_context = context_new now, sm_parameters = parameters\<rparr>, n'))
      (lower_statements functions show_expr (sd_body s) 1 n))"

section \<open>The executor\<close>

type_synonym executor_tables = "(string, table_runtime) hmap"

datatype step_result = RContinue | RYield yield_point | RCompleted execution_result

definition register_table :: "executor_tables \<Rightarrow> string \<Rightarrow> table_runtime \<Rightarrow> executor_tables" where
  "register_table tables name t = AList.update name t tables"

definition evaluate_operand :: "expression \<Rightarrow> execution_context \<Rightarrow> async_error + column_value" where
  "evaluate_operand expr ctx =
     (case expr of
        ELiteral (LInteger i) \<Rightarrow> Inr (VU64 (ucast (lit_value i)))
      | ELiteral (LString s) \<Rightarrow> Inr (VString s)
      | ELiteral (LBoolean b) \<Rightarrow> Inr (VBool b)
      | ELiteral _ \<Rightarrow> Inr (VString ''unknown'')
      | EIdentifier name \<Rightarrow>
          (case map_of (variables ctx) name of
             Some v \<Rightarrow> Inr v
           | None \<Rightarrow> Inl (ASystemError ''executor'' (''Variable not found: '' @ name)))
      | _ \<Rightarrow> Inr (VString ''placeholder''))"

definition set_variable :: "string \<Rightarrow> column_value \<Rightarrow> execution_context \<Rightarrow> execution_context" where
  "set_variable name v ctx = ctx\<lparr>variables := AList.update name v (variables ctx)\<rparr>"

fun bind_pattern_value :: "binding_pattern \<Rightarrow> column_value \<Rightarrow> execution_context \<Rightarrow> async_error + execution_context" where
  "bind_pattern_value (BIdentifier name) v ctx = Inr (set_variable name v ctx)"
| "bind_pattern_value BDiscard v ctx = Inr ctx"
| "bind_pattern_value (BTuple _) v ctx =
     Inl (ASystemError ''executor'' ''tuple destructuring is not supported in system executor'')"

definition execute_statement :: "statement \<Rightarrow> execution_context \<Rightarrow> async_error + execution_context" where
  "execute_statement s ctx =
     (case s of
        SVariableDecl pat _ e \<Rightarrow>
          (case evaluate_operand e ctx of Inl err \<Rightarrow> Inl err | Inr v \<Rightarrow> bind_pattern_value pat v ctx)
      | SAssignment (EIdentifier name) _ e \<Rightarrow>
          (case evaluate_operand e ctx of Inl err \<Rightarrow> Inl err | Inr v \<Rightarrow> Inr (set_variable name v ctx))
      | _ \<Rightarrow> Inr ctx)"

text \<open>Queries change a table in place, also where they fail.\<close>

definition execute_query ::
    "(string \<Rightarrow> string) \<Rightarrow> hash_order \<Rightarrow> executor_tables \<Rightarrow> string \<Rightarrow> query_execution \<Rightarrow>
       abort + (async_error + column_value) \<times> executor_tables" where
  "execute_query \<delta> \<pi> tables name query =
     (case map_of tables name of
        None \<Rightarrow> Inr (Inl (ASystemError ''executor'' (''Table not found: '' @ name)), tables)
      | Some t \<Rightarrow>
          (case query of
             QSelect cols cond \<Rightarrow>
               map_sum id (\<lambda>rows. (Inr (VU64 (of_nat (length rows))), tables)) (scan_all \<delta> t)
           | QInsert vals \<Rightarrow>
               (case insert_row \<pi> t (TableRow vals) of
                  (r, t') \<Rightarrow> Inr (map_sum ATableError (\<lambda>row. VU64 (of_nat row)) r, AList.update name t' tables))
           | QUpdate row updates \<Rightarrow>
               (case update_row \<pi> t row updates of
                  (r, t') \<Rightarrow> Inr (map_sum ATableError (\<lambda>_. VBool True) r, AList.update name t' tables))
           | QDelete row \<Rightarrow>
               (case delete_row t row of
                  (r, t') \<Rightarrow> Inr (map_sum ATableError (\<lambda>_. VBool True) r, AList.update name t' tables))))"

definition completed_result :: "column_value option \<Rightarrow> state_machine \<Rightarrow> step_result" where
  "completed_result v m = RCompleted (Success v [] (accessed_tables (execution_context m)))"

type_synonym step_outcome = "abort + (async_error + step_result) \<times> state_machine \<times> executor_tables"

definition execute_step ::
    "(string \<Rightarrow> string) \<Rightarrow> hash_order \<Rightarrow> instant \<Rightarrow> executor_tables \<Rightarrow> state_machine \<Rightarrow> step_outcome" where
  "execute_step \<delta> \<pi> now tables m =
     (if length (states m) \<le> current_state m then Inr (Inr (completed_result None m), m, tables)
      else
        (case states m ! current_state m of
           Initialize resources \<Rightarrow>
             (let ctx = execution_context m;
                  ctx' = ctx\<lparr>held_resources :=
                    fold (\<lambda>r. AList.update r Mutable) resources (held_resources ctx)\<rparr>
              in Inr (Inr RContinue, m\<lparr>execution_context := ctx', current_state := current_state m + 1\<rparr>, tables))
         | ExecuteStatements stmts i \<Rightarrow>
             if length stmts \<le> i then Inr (Inr RContinue, m\<lparr>current_state := current_state m + 1\<rparr>, tables)
             else
               (case execute_statement (stmts ! i) (execution_context m) of
                  Inl err \<Rightarrow> Inr (Inl err, m, tables)
                | Inr ctx \<Rightarrow>
                    Inr (Inr RContinue,
                         m\<lparr>execution_context := ctx,
                           states := (states m)[current_state m := ExecuteStatements stmts (i + 1)]\<rparr>, tables))
         | AwaitResource name access next \<Rightarrow>
             Inr (Inr (RYield (AwaitingResource name access)), m\<lparr>current_state := next\<rparr>, tables)
         | ExecuteQuery name query var next \<Rightarrow>
             (case execute_query \<delta> \<pi> tables name query of
                Inl a \<Rightarrow> Inl a
              | Inr (Inl err, tables') \<Rightarrow> Inr (Inl err, m, tables')
              | Inr (Inr v, tables') \<Rightarrow>
                  Inr (Inr RContinue,
                       m\<lparr>execution_context := set_variable var v (execution_context m), current_state := next\<rparr>, tables'))
         | AwaitSystem name task next \<Rightarrow>
             Inr (Inr (RYield (AwaitingSystemCompletion name task)), m\<lparr>current_state := next\<rparr>, tables)
         | Sleep d next \<Rightarrow> Inr (Inr (RYield (Sleeping d now)), m\<lparr>current_state := next\<rparr>, tables)
         | HandleError err recovery \<Rightarrow>
             (case recovery of
                Some next \<Rightarrow> Inr (Inr RContinue, m\<lparr>current_state := next\<rparr>, tables)
              | None \<Rightarrow> Inr (Inl err, m, tables))
         | Complete v resources \<Rightarrow>
             (let ctx = execution_context m;
                  ctx' = ctx\<lparr>held_resources := fold AList.delete resources (held_resources ctx)\<rparr>
              in Inr (Inr (completed_result v (m\<lparr>execution_context := ctx'\<rparr>)),
                      m\<lparr>execution_context := ctx', current_state := length (states m)\<rparr>, tables))))"

end
