(* ===== verification/Executor_Properties.thy ===== *)
theory Executor_Properties
  imports Executor
begin

text \<open>
  Running the machine of a system: a body of plain statements runs to completion and computes what
  executing the statements one after the other computes; the tables of the executor stay tables a
  program can reach. The driver \<open>run_machine\<close> repeats \<open>execute_step\<close> as the runtime does until
  a step yields, completes or fails; \<open>None\<close> means that the steps allowed did not suffice.
\<close>

lemma map_sum_Inr_iff: "map_sum f g x = Inr y \<longleftrightarrow> (\<exists>z. x = Inr z \<and> y = g z)"
  by (cases x) auto

section \<open>The driver and the reference\<close>

type_synonym run_outcome = "(abort + (async_error + step_result) \<times> state_machine \<times> executor_tables) option"

fun run_machine ::
    "(string \<Rightarrow> string) \<Rightarrow> hash_order \<Rightarrow> instant \<Rightarrow> nat \<Rightarrow> executor_tables \<Rightarrow> state_machine \<Rightarrow> run_outcome" where
  "run_machine \<delta> \<pi> now 0 tables m = None"
| "run_machine \<delta> \<pi> now (Suc fuel) tables m =
     (case execute_step \<delta> \<pi> now tables m of
        Inr (Inr RContinue, m', tables') \<Rightarrow> run_machine \<delta> \<pi> now fuel tables' m'
      | out \<Rightarrow> Some out)"

fun plain_statement :: "(string, bool) hmap \<Rightarrow> statement \<Rightarrow> bool" where
  "plain_statement functions (SExpression (EQuery _)) = False"
| "plain_statement functions (SExpression (ECall (EIdentifier f) _ _)) = (\<not> is_async_function functions f)"
| "plain_statement functions (SForLoop _ _ _ _) = False"
| "plain_statement functions _ = True"

fun run_statements :: "statement list \<Rightarrow> execution_context \<Rightarrow> async_error + execution_context" where
  "run_statements [] ctx = Inr ctx"
| "run_statements (s # ss) ctx =
     (case execute_statement s ctx of Inl err \<Rightarrow> Inl err | Inr ctx' \<Rightarrow> run_statements ss ctx')"

section \<open>Lowering plain statements\<close>

lemma lower_plain_statement:
  "plain_statement functions s \<Longrightarrow>
     lower_statement functions show_expr s index n = Inr (LStates [ExecuteStatements [s] 0], index, n)"
  by (cases "(functions, s)" rule: plain_statement.cases) auto

lemma lower_plain_statements:
  "\<forall>s \<in> set ss. plain_statement functions s \<Longrightarrow>
     lower_statements functions show_expr ss index n = Inr (map (\<lambda>s. ExecuteStatements [s] 0) ss, n)"
  by (induction ss) (simp_all add: lower_plain_statement)

lemma build_plain:
  assumes "\<forall>s \<in> set (sd_body d). plain_statement functions s"
  shows "build_state_machine functions show_expr now d parameters n =
    Inr (\<lparr>sm_system_name = sd_name d,
       states = Initialize (extract_required_resources d) # map (\<lambda>s. ExecuteStatements [s] 0) (sd_body d) @
         [Complete None (extract_required_resources d)],
       current_state = 0, execution_context = context_new now, sm_parameters = parameters\<rparr>, n)"
  by (simp add: build_state_machine_def Let_def lower_plain_statements [OF assms])

section \<open>Running plain statements\<close>

text \<open>A statement state takes two steps: one executes the statement, one moves on.\<close>

lemma statement_steps:
  assumes m: "current_state m < length (states m)" "states m ! current_state m = ExecuteStatements [s] 0"
  shows "run_machine \<delta> \<pi> now (Suc (Suc fuel)) tables m =
    (case execute_statement s (execution_context m) of
       Inl err \<Rightarrow> Some (Inr (Inl err, m, tables))
     | Inr ctx \<Rightarrow> run_machine \<delta> \<pi> now fuel tables
         (m\<lparr>execution_context := ctx, states := (states m)[current_state m := ExecuteStatements [s] 1],
            current_state := Suc (current_state m)\<rparr>))"
proof (cases "execute_statement s (execution_context m)")
  case (Inl err)
  with m show ?thesis by (simp add: execute_step_def)
next
  case (Inr ctx)
  let ?m1 = "m\<lparr>execution_context := ctx, states := (states m)[current_state m := ExecuteStatements [s] 1]\<rparr>"
  from m Inr have "execute_step \<delta> \<pi> now tables m = Inr (Inr RContinue, ?m1, tables)"
    by (simp add: execute_step_def)
  moreover from m have "execute_step \<delta> \<pi> now tables ?m1 = Inr (Inr RContinue, ?m1\<lparr>current_state := Suc (current_state m)\<rparr>, tables)"
    by (simp add: execute_step_def)
  ultimately show ?thesis using Inr by simp
qed

text \<open>The states from \<open>k\<close> on are those of \<open>ss\<close>, then \<open>last\<close>.\<close>

lemma run_statement_states:
  assumes "drop (current_state m) (states m) = map (\<lambda>s. ExecuteStatements [s] 0) ss @ rest"
  shows "case run_statements ss (execution_context m) of
      Inl err \<Rightarrow> \<exists>m'. run_machine \<delta> \<pi> now (2 * length ss + fuel) tables m = Some (Inr (Inl err, m', tables))
    | Inr ctx \<Rightarrow> \<exists>m'. run_machine \<delta> \<pi> now (2 * length ss + fuel) tables m = run_machine \<delta> \<pi> now fuel tables m' \<and>
        execution_context m' = ctx \<and> current_state m' = current_state m + length ss \<and>
        length (states m') = length (states m) \<and> drop (current_state m') (states m') = rest"
  using assms
proof (induction ss arbitrary: m)
  case (Cons s ss)
  let ?k = "current_state m"
  from Cons.prems have k: "?k < length (states m)" "states m ! ?k = ExecuteStatements [s] 0"
    by (metis drop_all list.distinct(1) append_Cons list.simps(9) not_le)
      (metis Cons.prems append_Cons hd_drop_conv_nth list.distinct(1) list.sel(1) list.simps(9) drop_all not_le)
  note steps = statement_steps [OF k, of \<delta> \<pi> now "2 * length ss + fuel" tables]
  show ?case
  proof (cases "execute_statement s (execution_context m)")
    case (Inl err)
    with steps show ?thesis by simp
  next
    case (Inr ctx)
    let ?m = "m\<lparr>execution_context := ctx, states := (states m)[?k := ExecuteStatements [s] 1], current_state := Suc ?k\<rparr>"
    from Cons.prems have "drop (Suc ?k) (states m) = map (\<lambda>s. ExecuteStatements [s] 0) ss @ rest"
      by (metis append_Cons drop_Suc list.sel(3) list.simps(9) tl_drop)
    then have "drop (current_state ?m) (states ?m) = map (\<lambda>s. ExecuteStatements [s] 0) ss @ rest" by simp
    from Cons.IH [OF this] Inr steps show ?thesis by (simp split: sum.splits)
  qed
qed (auto intro: exI [of _ m])

lemma execute_statement_frame:
  "execute_statement s ctx = Inr ctx' \<Longrightarrow>
     held_resources ctx' = held_resources ctx \<and> accessed_tables ctx' = accessed_tables ctx"
proof -
  have "bind_pattern_value pat v ctx = Inr ctx' \<Longrightarrow>
     held_resources ctx' = held_resources ctx \<and> accessed_tables ctx' = accessed_tables ctx" for pat v
    by (cases pat) (auto simp: set_variable_def)
  then show "execute_statement s ctx = Inr ctx' \<Longrightarrow> ?thesis"
    by (auto simp: execute_statement_def set_variable_def split: statement.splits sum.splits expression.splits)
qed

section \<open>Properties\<close>

lemma run_statements_frame:
  "run_statements ss ctx = Inr ctx' \<Longrightarrow>
     held_resources ctx' = held_resources ctx \<and> accessed_tables ctx' = accessed_tables ctx"
  by (induction ss arbitrary: ctx) (auto dest: execute_statement_frame split: sum.splits)

text \<open>What the machine holds between its first and last state\<close>

definition holding :: "string list \<Rightarrow> execution_context \<Rightarrow> execution_context" where
  "holding resources ctx = ctx\<lparr>held_resources := fold (\<lambda>r. AList.update r Mutable) resources (held_resources ctx)\<rparr>"

lemma holding_keys: "fst ` set (fold (\<lambda>r. AList.update r Mutable) rs m) = set rs \<union> fst ` set m"
  by (induction rs arbitrary: m) (auto simp: dom_update)

lemma released_all: "fst ` set m \<subseteq> set rs \<Longrightarrow> fold AList.delete rs m = []"
proof (induction rs arbitrary: m)
  case (Cons r rs)
  then have "fst ` set (AList.delete r m) \<subseteq> set rs" unfolding set_map [symmetric] delete_keys by auto
  with Cons.IH show ?case by simp
qed simp

lemma plain_machine_run:
  assumes "\<forall>s \<in> set (sd_body d). plain_statement functions s"
    and "build_state_machine functions show_expr created d parameters n = Inr (m, n')"
  shows "case run_statements (sd_body d) (holding (extract_required_resources d) (context_new created)) of
      Inl err \<Rightarrow> \<exists>m'. run_machine \<delta> \<pi> now (2 * length (sd_body d) + 2) tables m = Some (Inr (Inl err, m', tables))
    | Inr ctx \<Rightarrow> \<exists>m'. run_machine \<delta> \<pi> now (2 * length (sd_body d) + 2) tables m =
          Some (Inr (Inr (RCompleted (Success None [] [])), m', tables)) \<and>
        variables (execution_context m') = variables ctx \<and> held_resources (execution_context m') = []"
proof -
  let ?rs = "extract_required_resources d" and ?ss = "sd_body d"
  from build_plain [OF assms(1)] assms(2) have m: "m = \<lparr>sm_system_name = sd_name d,
       states = Initialize ?rs # map (\<lambda>s. ExecuteStatements [s] 0) ?ss @ [Complete None ?rs],
       current_state = 0, execution_context = context_new created, sm_parameters = parameters\<rparr>" by simp
  let ?ctx = "holding ?rs (context_new created)"
  let ?m = "m\<lparr>execution_context := ?ctx, current_state := 1\<rparr>"
  have first: "run_machine \<delta> \<pi> now (2 * length ?ss + 2) tables m = run_machine \<delta> \<pi> now (2 * length ?ss + 1) tables ?m"
    by (simp add: execute_step_def m holding_def Let_def)
  have "drop (current_state ?m) (states ?m) = map (\<lambda>s. ExecuteStatements [s] 0) ?ss @ [Complete None ?rs]"
    by (simp add: m)
  note run = run_statement_states [OF this, of \<delta> \<pi> now 1 tables]
  show ?thesis
  proof (cases "run_statements ?ss ?ctx")
    case (Inl err)
    with run first show ?thesis by simp
  next
    case (Inr ctx)
    with run obtain m' where m': "run_machine \<delta> \<pi> now (2 * length ?ss + 1) tables ?m = run_machine \<delta> \<pi> now 1 tables m'"
      "execution_context m' = ctx" "drop (current_state m') (states m') = [Complete None ?rs]" by auto
    from m'(3) have k: "current_state m' < length (states m')" "states m' ! current_state m' = Complete None ?rs"
      by (metis drop_all list.distinct(1) not_le) (metis m'(3) drop_all hd_drop_conv_nth list.distinct(1) list.sel(1) not_le)
    from run_statements_frame [OF Inr] have frame: "held_resources ctx = fold (\<lambda>r. AList.update r Mutable) ?rs []"
      "accessed_tables ctx = []" by (simp_all add: holding_def context_new_def)
    have "fold AList.delete ?rs (held_resources ctx) = []"
      by (rule released_all) (simp add: frame holding_keys)
    with k m'(2) frame(2) have "\<exists>m''. run_machine \<delta> \<pi> now 1 tables m' =
        Some (Inr (Inr (RCompleted (Success None [] [])), m'', tables)) \<and>
        variables (execution_context m'') = variables ctx \<and> held_resources (execution_context m'') = []"
      by (simp add: execute_step_def completed_result_def Let_def)
    with Inr first m'(1) show ?thesis by simp
  qed
qed

text \<open>
  A system whose body has neither queries, loops nor calls of asynchronous functions is built
  into a machine that finishes in two steps for every statement and two more. It fails with the
  error of the statement that fails when the statements are executed one after the other; otherwise
  it completes with the variables they compute, and holds no resource any more.
\<close>

theorem plain_system_completes:
  assumes "\<forall>s \<in> set (sd_body d). plain_statement functions s"
    and "build_state_machine functions show_expr now d parameters n = Inr (m, n')"
  shows "case run_statements (sd_body d) (holding (extract_required_resources d) (context_new now)) of
      Inl err \<Rightarrow> \<exists>m'. run_machine \<delta> \<pi> now (2 * length (sd_body d) + 2) tables m = Some (Inr (Inl err, m', tables))
    | Inr ctx \<Rightarrow> \<exists>m'. run_machine \<delta> \<pi> now (2 * length (sd_body d) + 2) tables m =
          Some (Inr (Inr (RCompleted (Success None [] [])), m', tables)) \<and>
        variables (execution_context m') = variables ctx \<and> held_resources (execution_context m') = []"
  using assms by (rule plain_machine_run)

text \<open>The maps of updates in a machine are hash maps, one entry for each key.\<close>

definition updates_ok :: "state_machine \<Rightarrow> bool" where
  "updates_ok m \<longleftrightarrow>
     (\<forall>st \<in> set (states m). case st of ExecuteQuery _ (QUpdate _ updates) _ _ \<Rightarrow> hm_wf updates | _ \<Rightarrow> True)"

definition tables_ok :: "(string \<Rightarrow> string) \<Rightarrow> executor_tables \<Rightarrow> bool" where
  "tables_ok \<delta> tables \<longleftrightarrow>
     (\<forall>name t. map_of tables name = Some t \<longrightarrow> table_run \<delta> (schema t) t \<and> schema_ok (schema t))"

lemma tables_ok_update:
  "tables_ok \<delta> tables \<Longrightarrow> table_run \<delta> s t \<Longrightarrow> schema_ok s \<Longrightarrow> tables_ok \<delta> (AList.update name t tables)"
  using table_run_ok [of \<delta> s t] by (auto simp: tables_ok_def map_of_update)

lemma execute_query_tables:
  assumes ok: "tables_ok \<delta> tables" and \<pi>: "is_hash_order \<pi>"
    and wf: "case query of QUpdate _ updates \<Rightarrow> hm_wf updates | _ \<Rightarrow> True"
    and run: "execute_query \<delta> \<pi> tables name query = Inr (r, tables')"
  shows "tables_ok \<delta> tables'"
proof (cases "map_of tables name")
  case None
  with run ok show ?thesis by (simp add: execute_query_def)
next
  case (Some t)
  with ok have t: "table_run \<delta> (schema t) t" "schema_ok (schema t)" by (auto simp: tables_ok_def)
  note update = tables_ok_update [OF ok _ t(2)]
  show ?thesis
  proof (cases query)
    case (QSelect cols cond)
    with run Some ok show ?thesis by (auto simp: execute_query_def map_sum_def split: sum.splits)
  next
    case (QInsert vals)
    obtain res t' where t': "insert_row \<pi> t (TableRow vals) = (res, t')" by (cases "insert_row \<pi> t (TableRow vals)")
    with run Some QInsert update [OF table_run.inserted [OF t(1) \<pi> t']] show ?thesis by (auto simp: execute_query_def)
  next
    case (QUpdate row updates)
    obtain res t' where t': "update_row \<pi> t row updates = (res, t')" by (cases "update_row \<pi> t row updates")
    from QUpdate wf have "hm_wf updates" by simp
    with run Some QUpdate update [OF table_run.updated [OF t(1) \<pi> _ t']] t' show ?thesis by (auto simp: execute_query_def)
  next
    case (QDelete row)
    obtain res t' where t': "delete_row t row = (res, t')" by (cases "delete_row t row")
    with run Some QDelete update [OF table_run.deleted [OF t(1) t']] show ?thesis by (auto simp: execute_query_def)
  qed
qed

text \<open>
  The tables of an executor stay tables that a program can reach, with the schema invariant, in
  whatever step the machine takes, also where the step fails.
\<close>

theorem executor_keeps_tables:
  assumes "tables_ok \<delta> tables" and "updates_ok m" and "is_hash_order \<pi>"
    and "execute_step \<delta> \<pi> now tables m = Inr (r, m', tables')"
  shows "tables_ok \<delta> tables' \<and> updates_ok m'"
proof (cases "current_state m < length (states m)")
  case False
  with assms show ?thesis by (simp add: execute_step_def)
next
  case True
  let ?st = "states m ! current_state m"
  have st: "case ?st of ExecuteQuery _ (QUpdate _ updates) _ _ \<Rightarrow> hm_wf updates | _ \<Rightarrow> True"
    using assms(2) nth_mem [OF True] unfolding updates_ok_def by blast
  have advanced: "updates_ok (m\<lparr>execution_context := ctx, states := (states m)[k := ExecuteStatements stmts i]\<rparr>)" for ctx k stmts i
    using assms(2) unfolding updates_ok_def by (auto dest!: set_update_subset_insert [THEN subsetD])
  show ?thesis
  proof (cases ?st)
    case (ExecuteQuery name query var following)
    with st have wf: "case query of QUpdate _ updates \<Rightarrow> hm_wf updates | _ \<Rightarrow> True" by simp
    from assms(4) True ExecuteQuery obtain res where q: "execute_query \<delta> \<pi> tables name query = Inr (res, tables')"
      and "states m' = states m"
      by (auto simp: execute_step_def split: sum.splits prod.splits)
    with execute_query_tables [OF assms(1,3) wf q] assms(2) show ?thesis by (simp add: updates_ok_def)
  next
    case (ExecuteStatements stmts i)
    with assms(1,2,4) True advanced show ?thesis
      by (auto simp: execute_step_def updates_ok_def split: if_splits sum.splits)
  qed (use assms(1,2,4) True in \<open>auto simp: execute_step_def updates_ok_def Let_def split: option.splits\<close>)
qed

section \<open>Where the machine goes wrong\<close>

text \<open>
  C30: The index from which a query computes its next state counts only the states that yield, so after
  one plain statement a query continues with itself: when the statement succeeds and the table of the
  query is there and can be read, the system never finishes, and never yields.
\<close>

theorem query_after_statement_never_ends:
  assumes "sd_body d = [s, SExpression (EQuery q)]" and "plain_statement functions s"
    and "execute_statement s (holding (extract_required_resources d) (context_new now)) = Inr ctx"
    and "map_of tables (qs_from_table q) = Some t" and "scan_all \<delta> t = Inr rows"
    and "build_state_machine functions show_expr now d parameters n = Inr (m, n')"
  shows "run_machine \<delta> \<pi> now fuel tables m = None"
proof -
  let ?q = "ExecuteQuery (qs_from_table q) (convert_query_spec q) ''query_result_1'' 2"
  have loop: "run_machine \<delta> \<pi> now fuel tables m' = None"
    if "current_state m' = 2" "2 < length (states m')" "states m' ! 2 = ?q" for m' fuel
    using that
  proof (induction fuel arbitrary: m')
    case (Suc fuel)
    let ?m = "m'\<lparr>execution_context := set_variable ''query_result_1'' (VU64 (of_nat (length rows))) (execution_context m'),
      current_state := 2\<rparr>"
    have "execute_step \<delta> \<pi> now tables m' = Inr (Inr RContinue, ?m, tables)"
      using Suc.prems assms(4,5) by (simp add: execute_step_def execute_query_def convert_query_spec_def)
    moreover have "run_machine \<delta> \<pi> now fuel tables ?m = None" using Suc.prems by (intro Suc.IH) simp_all
    ultimately show ?case by simp
  qed simp
  have one: "show_nat 1 = ''1''" by code_simp
  have "lower_statements functions show_expr (sd_body d) 1 n = Inr ([ExecuteStatements [s] 0, ?q], n)"
    using assms(1) lower_plain_statement [OF assms(2)] by (simp add: one [simplified] numeral_2_eq_2)
  with assms(6) have m: "m = \<lparr>sm_system_name = sd_name d,
      states = [Initialize (extract_required_resources d), ExecuteStatements [s] 0, ?q, Complete None (extract_required_resources d)],
      current_state = 0, execution_context = context_new now, sm_parameters = parameters\<rparr>"
    by (simp add: build_state_machine_def Let_def)
  let ?m = "m\<lparr>execution_context := holding (extract_required_resources d) (context_new now), current_state := 1\<rparr>"
  have first: "run_machine \<delta> \<pi> now (Suc fuel) tables m = run_machine \<delta> \<pi> now fuel tables ?m" for fuel
    by (simp add: execute_step_def m holding_def Let_def)
  have "current_state ?m < length (states ?m)" "states ?m ! current_state ?m = ExecuteStatements [s] 0"
    by (simp_all add: m)
  note second = statement_steps [OF this, of \<delta> \<pi> now _ tables]
  have long: "run_machine \<delta> \<pi> now (Suc (Suc (Suc fuel))) tables m = None" for fuel
    unfolding first second using assms(3) by (simp add: m) (rule loop; simp)
  have "run_machine \<delta> \<pi> now f tables m = None \<Longrightarrow> g \<le> f \<Longrightarrow> run_machine \<delta> \<pi> now g tables m = None" for f g tables m
  proof (induction f arbitrary: g tables m)
    case (Suc f)
    show ?case
    proof (cases g)
      case g: (Suc g')
      with Suc.prems Suc.IH [of _ _ g'] show ?thesis by (simp split: sum.splits prod.splits step_result.splits)
    qed simp
  qed simp
  from this [OF long] show ?thesis by (meson le_add_diff_inverse2 nat_le_linear le_SucI)
qed

section \<open>Witnesses\<close>

text \<open>The system \<open>counter\<close> has a resource and the body \<open>x = 1; y = x\<close>.\<close>

definition demo_literal :: expression where
  "demo_literal = ELiteral (LInteger (IntegerLiteral ''1'' 1 None))"

definition demo_counter :: sysdef where
  "demo_counter = SystemDef ''counter'' [PResource ''res'' ''r'' TNone Mutable] None
     [SVariableDecl (BIdentifier ''x'') None demo_literal, SAssignment (EIdentifier ''y'') Assign (EIdentifier ''x'')]
     False"

lemma plain_system_completes_witness:
  "\<exists>m m'. run_machine (\<lambda>s. s) rev 0 6 [] m = Some (Inr (Inr (RCompleted (Success None [] [])), m', [])) \<and>
     map_of (variables (execution_context m')) ''y'' = Some (VU64 1) \<and> held_resources (execution_context m') = []"
proof -
  have plain: "\<forall>s \<in> set (sd_body demo_counter). plain_statement [] s" by (simp add: demo_counter_def)
  obtain m where m: "build_state_machine [] (\<lambda>_. []) 0 demo_counter [] 0 = Inr (m, 0)" using build_plain [OF plain] by blast
  have "map_sum id (\<lambda>ctx. map_of (variables ctx) ''y'')
      (run_statements (sd_body demo_counter) (holding (extract_required_resources demo_counter) (context_new 0))) = Inr (Some (VU64 1))"
    by code_simp
  then obtain ctx where "run_statements (sd_body demo_counter)
      (holding (extract_required_resources demo_counter) (context_new 0)) = Inr ctx" "map_of (variables ctx) ''y'' = Some (VU64 1)"
    by (auto simp: map_sum_Inr_iff)
  with plain_system_completes [OF plain m, where tables = "[]" and \<pi> = rev and \<delta> = "\<lambda>s. s"]
  obtain m' where "run_machine (\<lambda>s. s) rev 0 (2 * length (sd_body demo_counter) + 2) [] m =
      Some (Inr (Inr (RCompleted (Success None [] [])), m', []))"
    "variables (execution_context m') = variables ctx" "held_resources (execution_context m') = []" by auto
  with \<open>map_of (variables ctx) ''y'' = Some (VU64 1)\<close> show ?thesis by (intro exI [of _ m] exI [of _ m']) (simp add: demo_counter_def)
qed

definition demo_inserting :: state_machine where
  "demo_inserting = \<lparr>sm_system_name = ''s'', states = [ExecuteQuery ''users'' (QInsert [(''id'', VU64 3)]) ''v'' 1],
     current_state = 0, execution_context = context_new 0, sm_parameters = []\<rparr>"

lemma executor_keeps_tables_witness:
  "\<exists>m' tables'. execute_step (\<lambda>s. s) rev 0 [(''users'', two_users)] demo_inserting = Inr (Inr RContinue, m', tables') \<and>
     tables_ok (\<lambda>s. s) tables' \<and> current_state m' = 1"
proof -
  have "map_sum id (\<lambda>(r, m', _). (r, current_state m'))
      (execute_step (\<lambda>s. s) rev 0 [(''users'', two_users)] demo_inserting) = Inr (Inr RContinue, 1)" by code_simp
  then obtain m' tables' where step: "execute_step (\<lambda>s. s) rev 0 [(''users'', two_users)] demo_inserting =
      Inr (Inr RContinue, m', tables')" "current_state m' = 1"
    by (auto simp: map_sum_Inr_iff)
  have "schema two_users = demo_users" by code_simp
  then have "tables_ok (\<lambda>s. s) [(''users'', two_users)]"
    using two_users_run demo_schema_ok by (simp add: tables_ok_def)
  moreover have "updates_ok demo_inserting" by (simp add: updates_ok_def demo_inserting_def)
  ultimately show ?thesis using executor_keeps_tables [OF _ _ hash_order_rev step(1)] step by auto
qed

definition demo_query_spec :: "expression query_spec" where
  "demo_query_spec = QuerySpec [] ''users'' None []"

definition demo_selecting :: sysdef where
  "demo_selecting = SystemDef ''s'' [] None
     [SVariableDecl (BIdentifier ''x'') None demo_literal, SExpression (EQuery demo_query_spec)] False"

lemma query_after_statement_never_ends_witness:
  "\<exists>m. build_state_machine [] (\<lambda>_. []) 0 demo_selecting [] 0 = Inr (m, 0) \<and>
     run_machine (\<lambda>s. s) rev 0 1000 [(''users'', two_users)] m = None"
proof -
  let ?s = "SVariableDecl (BIdentifier ''x'') None demo_literal"
  have "map_sum id snd (build_state_machine [] (\<lambda>_. []) 0 demo_selecting [] 0) = Inr 0" by code_simp
  then obtain m where m: "build_state_machine [] (\<lambda>_. []) 0 demo_selecting [] 0 = Inr (m, 0)" by (auto simp: map_sum_Inr_iff)
  have "is_ok (execute_statement ?s (holding (extract_required_resources demo_selecting) (context_new 0)))" by code_simp
  then obtain ctx where ctx: "execute_statement ?s (holding (extract_required_resources demo_selecting) (context_new 0)) = Inr ctx"
    by (auto simp: is_ok_iff)
  have "is_ok (scan_all (\<lambda>s. s) two_users)" by code_simp
  then obtain rows where "scan_all (\<lambda>s. s) two_users = Inr rows" by (auto simp: is_ok_iff)
  with query_after_statement_never_ends [OF _ _ ctx _ _ m, where q = demo_query_spec and tables = "[(''users'', two_users)]" and \<delta> = "\<lambda>s. s"
      and t = two_users and \<pi> = rev and fuel = 1000] m show ?thesis
    by (auto simp: demo_selecting_def demo_query_spec_def)
qed

end
