(* ===== verification/Query_Plan.thy ===== *)
theory Query_Plan
  imports Predicates
begin

text \<open>
  The query planner, \<open>src/query.rs\<close>: query plans, the passes that restructure a plan with the
  statistics of its tables (predicate analysis, predicate pushdown, index selection, the choice of a
  join method by cost) and the cost estimates. Counts of rows are natural numbers; sums and products
  of them are checked, as in a build with overflow checks.
\<close>

section \<open>Plans\<close>

datatype optimization_hint = PredicatePushdown | UseIndex string

record query_optimization =
  predicate_pushdown :: bool
  join_reordering :: bool
  index_optimization :: bool
  complex_predicate_analysis :: bool

datatype projection =
  ProjectField (source_column: string) (alias_name: "string option") (transformation: "expression option")

datatype where_clause = WhereClause (wc_condition: expression) (optimization_hints: "optimization_hint list")

datatype join_type = Inner | LeftOuter | RightOuter | FullOuter

datatype build_side = BuildLeft | BuildRight

datatype join_condition =
  JoinCondition (left_column: string) (right_column: string) (join_operator: binary_operator)

datatype query_plan =
    SelectPlan string "projection list" "where_clause option" query_optimization "query_plan option"
  | JoinPlan string string join_type join_condition "projection list" "projection list" query_optimization
      "query_plan option"
  | TableScan string "projection list"
  | FilteredScan string "projection list" expression
  | IndexScan string "projection list" string column_value
  | RangeScan string "projection list" string "column_value option" "column_value option"
  | NestedLoopJoin query_plan query_plan join_type join_condition "projection list" "projection list"
  | HashJoin query_plan query_plan join_type join_condition "projection list" "projection list" build_side
  | IndexNestedLoopJoin query_plan string join_type join_condition "projection list" "projection list" string
  | ProjectionPlan query_plan "projection list"
  | FilterPlan query_plan expression

record cost_estimation =
  estimated_rows :: usize
  estimated_cost :: f64
  io_cost :: f64
  cpu_cost :: f64

record optimization_context =
  table_stats :: "(string, table_statistics) hmap"
  enable_predicate_pushdown :: bool
  enable_join_reordering :: bool
  enable_index_optimization :: bool
  enable_complex_predicate_analysis :: bool
  cost_threshold :: f64

definition default_context :: optimization_context where
  "default_context =
     \<lparr>table_stats = [], enable_predicate_pushdown = True, enable_join_reordering = True,
      enable_index_optimization = True, enable_complex_predicate_analysis = True,
      cost_threshold = 0x408F400000000000\<rparr>"

definition no_optimization :: query_optimization where
  "no_optimization =
     \<lparr>predicate_pushdown = False, join_reordering = False, index_optimization = False,
      complex_predicate_analysis = False\<rparr>"

definition project_column :: "string \<Rightarrow> projection" where
  "project_column c = ProjectField c None None"

definition project_column_as :: "string \<Rightarrow> string \<Rightarrow> projection" where
  "project_column_as c name = ProjectField c (Some name) None"

definition project_computed :: "string \<Rightarrow> expression \<Rightarrow> projection" where
  "project_computed c e = ProjectField c None (Some e)"

definition output_name :: "projection \<Rightarrow> string" where
  "output_name p = (case alias_name p of Some name \<Rightarrow> name | None \<Rightarrow> source_column p)"

definition where_new :: "expression \<Rightarrow> where_clause" where
  "where_new e = WhereClause e []"

definition with_hint :: "where_clause \<Rightarrow> optimization_hint \<Rightarrow> where_clause" where
  "with_hint w h = WhereClause (wc_condition w) (optimization_hints w @ [h])"

definition join_eq :: "string \<Rightarrow> string \<Rightarrow> join_condition" where
  "join_eq l r = JoinCondition l r Equal"

definition select_plan :: "string \<Rightarrow> projection list \<Rightarrow> where_clause option \<Rightarrow> query_plan" where
  "select_plan t proj w = SelectPlan t proj w no_optimization None"

definition join_plan ::
    "string \<Rightarrow> string \<Rightarrow> join_type \<Rightarrow> join_condition \<Rightarrow> projection list \<Rightarrow> projection list \<Rightarrow> query_plan" where
  "join_plan l r ty jc lproj rproj = JoinPlan l r ty jc lproj rproj no_optimization None"

definition logical_select :: "string \<Rightarrow> projection list \<Rightarrow> expression option \<Rightarrow> query_plan" where
  "logical_select t proj predicate =
     (case predicate of
        None \<Rightarrow> TableScan t proj
      | Some p \<Rightarrow> FilterPlan (TableScan t proj) p)"

text \<open>The projection of an input of a join is extended by the join column, if it is not there.\<close>

definition scan_projection :: "projection list \<Rightarrow> string \<Rightarrow> projection list" where
  "scan_projection proj c =
     (if \<exists>p \<in> set proj. source_column p = c then proj else proj @ [project_column c])"

definition logical_join ::
    "string \<Rightarrow> string \<Rightarrow> join_type \<Rightarrow> join_condition \<Rightarrow> projection list \<Rightarrow> projection list \<Rightarrow> query_plan" where
  "logical_join l r ty jc lproj rproj =
     NestedLoopJoin (TableScan l (scan_projection lproj (left_column jc)))
       (TableScan r (scan_projection rproj (right_column jc))) ty jc lproj rproj"

section \<open>Predicate analysis\<close>

record index_term =
  it_column :: string
  it_operator :: binary_operator
  it_value :: column_value
  it_cardinality :: usize
  it_is_primary_key :: bool

record range_term =
  rt_column :: string
  rt_min :: "column_value option"
  rt_max :: "column_value option"
  rt_cardinality :: usize

record predicate_analysis =
  index_terms :: "index_term list"
  range_terms :: "range_term list"
  bitmap_terms :: "expression list"
  residual_predicate :: "expression option"
  estimated_selectivity :: f64

definition add_bitmap_term :: "expression \<Rightarrow> predicate_analysis \<Rightarrow> predicate_analysis" where
  "add_bitmap_term e a = a\<lparr>bitmap_terms := bitmap_terms a @ [e]\<rparr>"

text \<open>The statistics of the column, when the comparison is one of an indexed column and a literal.\<close>

definition indexed_comparison ::
    "table_statistics \<Rightarrow> expression \<Rightarrow> expression \<Rightarrow> (string \<times> column_statistics \<times> column_value) option" where
  "indexed_comparison st left right =
     (case (left, right) of
        (EIdentifier c, ELiteral l) \<Rightarrow>
          (case map_of (column_stats st) c of
             Some cs \<Rightarrow> if is_indexed cs then Some (c, cs, literal_value l) else None
           | None \<Rightarrow> None)
      | _ \<Rightarrow> None)"

definition is_upper_bound :: "binary_operator \<Rightarrow> bool" where
  "is_upper_bound op \<longleftrightarrow> op = Less \<or> op = LessEqual"

text \<open>A bound on a column that has a range already replaces the bound of that range.\<close>

fun add_range :: "table_statistics \<Rightarrow> string \<Rightarrow> binary_operator \<Rightarrow> column_value \<Rightarrow> range_term list \<Rightarrow> range_term list" where
  "add_range st c op v [] =
     [\<lparr>rt_column = c, rt_min = (if is_upper_bound op then None else Some v),
       rt_max = (if is_upper_bound op then Some v else None), rt_cardinality = ts_row_count st div 3\<rparr>]"
| "add_range st c op v (r # rs) =
     (if rt_column r = c
      then (if is_upper_bound op then r\<lparr>rt_max := Some v\<rparr> else r\<lparr>rt_min := Some v\<rparr>) # rs
      else r # add_range st c op v rs)"

definition equality_term :: "table_statistics \<Rightarrow> string \<Rightarrow> column_statistics \<Rightarrow> column_value \<Rightarrow> index_term" where
  "equality_term st c cs v =
     \<lparr>it_column = c, it_operator = Equal, it_value = v,
      it_cardinality = (if 0 < distinct_count cs then ts_row_count st div distinct_count cs else 1),
      it_is_primary_key = (primary_key_column st = Some c)\<rparr>"

fun extract_index_eligible_terms ::
    "table_statistics \<Rightarrow> expression \<Rightarrow> predicate_analysis \<Rightarrow> predicate_analysis" where
  "extract_index_eligible_terms st (EBinaryOp left op right) a =
     (case op of
        And \<Rightarrow>
          (let a' = extract_index_eligible_terms st right (extract_index_eligible_terms st left a) in
           a'\<lparr>estimated_selectivity := f64_mul (estimated_selectivity a') 0x3FE0000000000000\<rparr>)
      | Or \<Rightarrow>
          (let a' = add_bitmap_term (EBinaryOp left op right) a in
           a'\<lparr>estimated_selectivity := f64_mul (estimated_selectivity a') 0x3FE999999999999A\<rparr>)
      | Equal \<Rightarrow>
          (case indexed_comparison st left right of
             Some (c, cs, v) \<Rightarrow> a\<lparr>index_terms := index_terms a @ [equality_term st c cs v]\<rparr>
           | None \<Rightarrow> add_bitmap_term (EBinaryOp left op right) a)
      | _ \<Rightarrow>
          (if op \<in> {Less, Greater, LessEqual, GreaterEqual} then
             (case indexed_comparison st left right of
                Some (c, cs, v) \<Rightarrow> a\<lparr>range_terms := add_range st c op v (range_terms a)\<rparr>
              | None \<Rightarrow> add_bitmap_term (EBinaryOp left op right) a)
           else add_bitmap_term (EBinaryOp left op right) a))"
| "extract_index_eligible_terms st e a = add_bitmap_term e a"

definition no_analysis :: predicate_analysis where
  "no_analysis =
     \<lparr>index_terms = [], range_terms = [], bitmap_terms = [], residual_predicate = None,
      estimated_selectivity = 0x3FF0000000000000\<rparr>"

definition analyze_predicate_complexity :: "expression \<Rightarrow> table_statistics \<Rightarrow> predicate_analysis" where
  "analyze_predicate_complexity p st =
     (let a = extract_index_eligible_terms st p no_analysis in
      a\<lparr>index_terms := sort_key it_cardinality (index_terms a),
        range_terms := sort_key rt_cardinality (range_terms a)\<rparr>)"

definition create_optimized_plan_from_analysis ::
    "string \<Rightarrow> projection list \<Rightarrow> expression \<Rightarrow> predicate_analysis \<Rightarrow> query_plan" where
  "create_optimized_plan_from_analysis t proj p a =
     (case index_terms a of
        best # _ \<Rightarrow>
          if it_is_primary_key best \<and> it_cardinality best = 1
          then IndexScan t proj (it_column best) (it_value best)
          else IndexScan t proj (it_column best) (it_value best)
      | [] \<Rightarrow>
          (case range_terms a of
             best # _ \<Rightarrow> RangeScan t proj (rt_column best) (rt_min best) (rt_max best)
           | [] \<Rightarrow> FilteredScan t proj p))"

fun apply_complex_predicate_analysis :: "optimization_context \<Rightarrow> query_plan \<Rightarrow> query_plan" where
  "apply_complex_predicate_analysis ctx (FilterPlan input p) =
     (case input of
        TableScan t proj \<Rightarrow>
          (case map_of (table_stats ctx) t of
             Some st \<Rightarrow> create_optimized_plan_from_analysis t proj p (analyze_predicate_complexity p st)
           | None \<Rightarrow> FilterPlan (TableScan t proj) p)
      | _ \<Rightarrow> FilterPlan (apply_complex_predicate_analysis ctx input) p)"
| "apply_complex_predicate_analysis ctx (NestedLoopJoin l r ty jc lproj rproj) =
     NestedLoopJoin (apply_complex_predicate_analysis ctx l) (apply_complex_predicate_analysis ctx r) ty jc lproj rproj"
| "apply_complex_predicate_analysis ctx plan = plan"

section \<open>Predicate pushdown and index selection\<close>

fun apply_predicate_pushdown :: "query_plan \<Rightarrow> query_plan" where
  "apply_predicate_pushdown (FilterPlan input p) =
     (case input of
        TableScan t proj \<Rightarrow> FilteredScan t proj p
      | _ \<Rightarrow> FilterPlan (apply_predicate_pushdown input) p)"
| "apply_predicate_pushdown (NestedLoopJoin l r ty jc lproj rproj) =
     NestedLoopJoin (apply_predicate_pushdown l) (apply_predicate_pushdown r) ty jc lproj rproj"
| "apply_predicate_pushdown (HashJoin l r ty jc lproj rproj side) =
     HashJoin (apply_predicate_pushdown l) (apply_predicate_pushdown r) ty jc lproj rproj side"
| "apply_predicate_pushdown plan = plan"

definition has_index :: "optimization_context \<Rightarrow> string \<Rightarrow> string \<Rightarrow> bool" where
  "has_index ctx t c =
     (case map_of (table_stats ctx) t of None \<Rightarrow> False | Some st \<Rightarrow> c \<in> set (indexed_columns st))"

definition extract_index_predicate ::
    "expression \<Rightarrow> optimization_context \<Rightarrow> string \<Rightarrow> (string \<times> column_value) option" where
  "extract_index_predicate p ctx t =
     (case p of
        EBinaryOp (EIdentifier c) Equal (ELiteral l) \<Rightarrow> if has_index ctx t c then Some (c, literal_value l) else None
      | _ \<Rightarrow> None)"

definition extract_range_predicate ::
    "expression \<Rightarrow> optimization_context \<Rightarrow> string \<Rightarrow> (string \<times> column_value option \<times> column_value option) option" where
  "extract_range_predicate p ctx t =
     (case p of
        EBinaryOp (EIdentifier c) op (ELiteral l) \<Rightarrow>
          if has_index ctx t c then
            (if op = Greater \<or> op = GreaterEqual then Some (c, Some (literal_value l), None)
             else if op = Less \<or> op = LessEqual then Some (c, None, Some (literal_value l))
             else None)
          else None
      | _ \<Rightarrow> None)"

fun apply_index_optimization :: "optimization_context \<Rightarrow> query_plan \<Rightarrow> query_plan" where
  "apply_index_optimization ctx (FilteredScan t proj p) =
     (case extract_index_predicate p ctx t of
        Some (c, v) \<Rightarrow> IndexScan t proj c v
      | None \<Rightarrow>
          (case extract_range_predicate p ctx t of
             Some (c, lo, hi) \<Rightarrow> RangeScan t proj c lo hi
           | None \<Rightarrow> FilteredScan t proj p))"
| "apply_index_optimization ctx (NestedLoopJoin l r ty jc lproj rproj) =
     (case r of
        TableScan rt _ \<Rightarrow>
          if has_index ctx rt (right_column jc)
          then IndexNestedLoopJoin (apply_index_optimization ctx l) rt ty jc lproj rproj (right_column jc)
          else NestedLoopJoin (apply_index_optimization ctx l) (apply_index_optimization ctx r) ty jc lproj rproj
      | _ \<Rightarrow> NestedLoopJoin (apply_index_optimization ctx l) (apply_index_optimization ctx r) ty jc lproj rproj)"
| "apply_index_optimization ctx plan = plan"

section \<open>Join methods\<close>

definition usize_add :: "usize \<Rightarrow> usize \<Rightarrow> abort + usize" where
  "usize_add a b = (if a + b < 2 ^ 64 then Inr (a + b) else Inl ArithmeticOverflow)"

definition usize_mul :: "usize \<Rightarrow> usize \<Rightarrow> abort + usize" where
  "usize_mul a b = (if a * b < 2 ^ 64 then Inr (a * b) else Inl ArithmeticOverflow)"

datatype join_method = JMNestedLoop | JMHashJoin | JMIndexNestedLoop string | JMSortMergeJoin

record join_candidate =
  jo_left_table :: string
  jo_right_table :: string
  jo_method :: join_method
  jo_cost :: f64
  jo_cardinality :: usize

definition f64_of_usize :: "usize \<Rightarrow> f64" where
  "f64_of_usize n = f64_of_int (int n)"

text \<open>The product is the cost of the nested loop, the sum that of the hash join before its factor.\<close>

definition candidates_of ::
    "string \<Rightarrow> string \<Rightarrow> join_condition \<Rightarrow> table_statistics \<Rightarrow> table_statistics \<Rightarrow> usize \<Rightarrow> usize \<Rightarrow> join_candidate list" where
  "candidates_of l r jc lst rst product total_rows =
     (let hash_join_cost = f64_mul (f64_of_usize total_rows) 0x3FF8000000000000 in
      [\<lparr>jo_left_table = l, jo_right_table = r, jo_method = JMNestedLoop, jo_cost = f64_of_usize product,
        jo_cardinality = product div 10\<rparr>,
       \<lparr>jo_left_table = l, jo_right_table = r, jo_method = JMHashJoin, jo_cost = hash_join_cost,
        jo_cardinality = product div 10\<rparr>] @
      (case map_of (column_stats rst) (right_column jc) of
         Some cs \<Rightarrow>
           if is_indexed cs
           then [\<lparr>jo_left_table = l, jo_right_table = r, jo_method = JMIndexNestedLoop (right_column jc),
                  jo_cost = f64_mul (f64_of_usize (ts_row_count lst)) 0x4000000000000000,
                  jo_cardinality = ts_row_count lst\<rparr>]
           else []
       | None \<Rightarrow> []) @
      [\<lparr>jo_left_table = r, jo_right_table = l, jo_method = JMHashJoin, jo_cost = hash_join_cost,
        jo_cardinality = product div 10\<rparr>])"

definition generate_join_candidates ::
    "string \<Rightarrow> string \<Rightarrow> join_condition \<Rightarrow> optimization_context \<Rightarrow> abort + join_candidate list" where
  "generate_join_candidates l r jc ctx =
     (case (map_of (table_stats ctx) l, map_of (table_stats ctx) r) of
        (Some lst, Some rst) \<Rightarrow>
          (case usize_mul (ts_row_count lst) (ts_row_count rst) of
             Inl a \<Rightarrow> Inl a
           | Inr product \<Rightarrow>
               (case usize_add (ts_row_count lst) (ts_row_count rst) of
                  Inl a \<Rightarrow> Inl a
                | Inr total_rows \<Rightarrow> Inr (candidates_of l r jc lst rst product total_rows)))
      | _ \<Rightarrow> Inr [])"

text \<open>A stable sort by cost; costs that do not compare count as equal.\<close>

fun insert_candidate :: "join_candidate \<Rightarrow> join_candidate list \<Rightarrow> join_candidate list" where
  "insert_candidate x [] = [x]"
| "insert_candidate x (y # ys) =
     (if f64_partial_cmp (jo_cost x) (jo_cost y) = Some OGreater then y # insert_candidate x ys else x # y # ys)"

definition sort_candidates :: "join_candidate list \<Rightarrow> join_candidate list" where
  "sort_candidates cs = foldr insert_candidate cs []"

definition select_best_join_candidate :: "join_candidate list \<Rightarrow> join_candidate option" where
  "select_best_join_candidate cs = (case sort_candidates cs of [] \<Rightarrow> None | c # _ \<Rightarrow> Some c)"

fun extract_table_names :: "query_plan \<Rightarrow> string list" where
  "extract_table_names (SelectPlan t _ _ _ physical) =
     (case physical of None \<Rightarrow> [t] | Some inner \<Rightarrow> extract_table_names inner)"
| "extract_table_names (JoinPlan l r _ _ _ _ _ physical) =
     (case physical of None \<Rightarrow> [l, r] | Some inner \<Rightarrow> extract_table_names inner)"
| "extract_table_names (TableScan t _) = [t]"
| "extract_table_names (FilteredScan t _ _) = [t]"
| "extract_table_names (IndexScan t _ _ _) = [t]"
| "extract_table_names (RangeScan t _ _ _ _) = [t]"
| "extract_table_names (NestedLoopJoin l r _ _ _ _) = extract_table_names l @ extract_table_names r"
| "extract_table_names (HashJoin l r _ _ _ _ _) = extract_table_names l @ extract_table_names r"
| "extract_table_names (IndexNestedLoopJoin l r _ _ _ _ _) = extract_table_names l @ [r]"
| "extract_table_names (ProjectionPlan input _) = extract_table_names input"
| "extract_table_names (FilterPlan input _) = extract_table_names input"

definition create_optimized_join_plan ::
    "query_plan \<Rightarrow> query_plan \<Rightarrow> join_type \<Rightarrow> join_condition \<Rightarrow> projection list \<Rightarrow> projection list \<Rightarrow> join_candidate \<Rightarrow>
       query_plan" where
  "create_optimized_join_plan l r ty jc lproj rproj c =
     (case jo_method c of
        JMHashJoin \<Rightarrow>
          HashJoin l r ty jc lproj rproj (if jo_left_table c < jo_right_table c then BuildLeft else BuildRight)
      | JMIndexNestedLoop index \<Rightarrow>
          IndexNestedLoopJoin l (case extract_table_names r of [] \<Rightarrow> ''unknown'' | t # _ \<Rightarrow> t) ty jc lproj rproj index
      | _ \<Rightarrow> NestedLoopJoin l r ty jc lproj rproj)"

fun apply_dynamic_join_reordering :: "optimization_context \<Rightarrow> query_plan \<Rightarrow> abort + query_plan" where
  "apply_dynamic_join_reordering ctx (NestedLoopJoin l r ty jc lproj rproj) =
     (case (case (extract_table_names l, extract_table_names r) of
              ([lt], [rt]) \<Rightarrow> map_sum id select_best_join_candidate (generate_join_candidates lt rt jc ctx)
            | _ \<Rightarrow> Inr None) of
        Inl a \<Rightarrow> Inl a
      | Inr (Some best) \<Rightarrow> Inr (create_optimized_join_plan l r ty jc lproj rproj best)
      | Inr None \<Rightarrow>
          (case apply_dynamic_join_reordering ctx l of
             Inl a \<Rightarrow> Inl a
           | Inr l' \<Rightarrow>
               (case apply_dynamic_join_reordering ctx r of
                  Inl a \<Rightarrow> Inl a
                | Inr r' \<Rightarrow> Inr (NestedLoopJoin l' r' ty jc lproj rproj))))"
| "apply_dynamic_join_reordering ctx plan = Inr plan"

fun apply_join_reordering :: "optimization_context \<Rightarrow> query_plan \<Rightarrow> query_plan" where
  "apply_join_reordering ctx (NestedLoopJoin l r ty jc lproj rproj) =
     (if \<exists>(_, st) \<in> set (table_stats ctx). 1000 < ts_row_count st
      then HashJoin (apply_join_reordering ctx l) (apply_join_reordering ctx r) ty jc lproj rproj BuildRight
      else NestedLoopJoin (apply_join_reordering ctx l) (apply_join_reordering ctx r) ty jc lproj rproj)"
| "apply_join_reordering ctx plan = plan"

section \<open>The passes together\<close>

definition optimize_physical :: "optimization_context \<Rightarrow> query_plan \<Rightarrow> abort + query_plan" where
  "optimize_physical ctx plan =
     (let p1 = if enable_complex_predicate_analysis ctx then apply_complex_predicate_analysis ctx plan else plan;
          p2 = if enable_predicate_pushdown ctx then apply_predicate_pushdown p1 else p1;
          p3 = if enable_index_optimization ctx then apply_index_optimization ctx p2 else p2
      in if enable_join_reordering ctx then apply_dynamic_join_reordering ctx p3 else Inr p3)"

definition optimize_with_context :: "optimization_context \<Rightarrow> query_plan \<Rightarrow> abort + query_plan" where
  "optimize_with_context ctx plan =
     (case plan of
        SelectPlan t proj w _ _ \<Rightarrow> optimize_physical ctx (logical_select t proj (map_option wc_condition w))
      | JoinPlan l r ty jc lproj rproj _ _ \<Rightarrow> optimize_physical ctx (logical_join l r ty jc lproj rproj)
      | _ \<Rightarrow> optimize_physical ctx plan)"

definition apply_hint :: "optimization_hint \<Rightarrow> optimization_context \<Rightarrow> optimization_context" where
  "apply_hint h ctx =
     (case h of
        PredicatePushdown \<Rightarrow> ctx\<lparr>enable_predicate_pushdown := True\<rparr>
      | UseIndex _ \<Rightarrow> ctx\<lparr>enable_index_optimization := True\<rparr>)"

definition apply_hints_to_context :: "optimization_context \<Rightarrow> optimization_hint list \<Rightarrow> optimization_context" where
  "apply_hints_to_context ctx hs = fold apply_hint hs ctx"

definition uses_index_hint :: "where_clause \<Rightarrow> bool" where
  "uses_index_hint w \<longleftrightarrow> (\<exists>h \<in> set (optimization_hints w). case h of UseIndex _ \<Rightarrow> True | _ \<Rightarrow> False)"

definition optimize :: "query_plan \<Rightarrow> abort + query_plan" where
  "optimize plan =
     (case plan of
        SelectPlan t proj w opt _ \<Rightarrow>
          (let ctx = (case w of None \<Rightarrow> default_context
                      | Some clause \<Rightarrow> apply_hints_to_context default_context (optimization_hints clause))
           in map_sum id (\<lambda>physical. SelectPlan t proj w
                (opt\<lparr>predicate_pushdown := enable_predicate_pushdown ctx \<and> w \<noteq> None,
                     index_optimization := enable_index_optimization ctx \<and>
                       (case w of None \<Rightarrow> False | Some clause \<Rightarrow> uses_index_hint clause),
                     join_reordering := enable_join_reordering ctx,
                     complex_predicate_analysis := enable_complex_predicate_analysis ctx\<rparr>)
                (Some physical))
              (optimize_with_context ctx (logical_select t proj (map_option wc_condition w))))
      | JoinPlan l r ty jc lproj rproj opt _ \<Rightarrow>
          (let ctx = default_context in
           map_sum id (\<lambda>physical. JoinPlan l r ty jc lproj rproj
               (opt\<lparr>predicate_pushdown := enable_predicate_pushdown ctx,
                    index_optimization := enable_index_optimization ctx,
                    join_reordering := enable_join_reordering ctx,
                    complex_predicate_analysis := enable_complex_predicate_analysis ctx\<rparr>)
               (Some physical))
             (optimize_with_context ctx (logical_join l r ty jc lproj rproj)))
      | _ \<Rightarrow> optimize_with_context default_context plan)"

section \<open>Cost estimates\<close>

text \<open>\<open>as usize\<close>: towards zero, saturating, zero for \<open>NaN\<close>; and \<open>f64::max\<close>\<close>

definition f64_to_usize :: "f64 \<Rightarrow> usize" where
  "f64_to_usize x =
     (if f64_is_nan x \<or> f64_scaled x < 0 then 0
      else if f64_is_inf x then 2 ^ 64 - 1
      else min (2 ^ 64 - 1) (nat (f64_scaled x div 2 ^ 1074)))"

definition f64_max :: "f64 \<Rightarrow> f64 \<Rightarrow> f64" where
  "f64_max x y = (if f64_is_nan x then y else if f64_is_nan y then x else if f64_less x y then y else x)"

definition rows_of_table :: "optimization_context \<Rightarrow> string \<Rightarrow> usize" where
  "rows_of_table ctx t = (case map_of (table_stats ctx) t of None \<Rightarrow> 1000 | Some st \<Rightarrow> ts_row_count st)"

definition estimate_selectivity :: "expression \<Rightarrow> optimization_context \<Rightarrow> string \<Rightarrow> f64" where
  "estimate_selectivity p ctx t =
     (case p of
        EBinaryOp (EIdentifier c) op _ \<Rightarrow>
          (case map_of (table_stats ctx) t of
             None \<Rightarrow> 0x3FE0000000000000
           | Some st \<Rightarrow>
               (case map_of (column_stats st) c of
                  None \<Rightarrow> 0x3FE0000000000000
                | Some cs \<Rightarrow>
                    (if op = Equal then f64_div 0x3FF0000000000000 (f64_of_usize (max (distinct_count cs) 1))
                     else if op \<in> {Greater, Less, GreaterEqual, LessEqual} then 0x3FD51EB851EB851F
                     else 0x3FE0000000000000)))
      | _ \<Rightarrow> 0x3FE0000000000000)"

definition combined_cost ::
    "cost_estimation \<Rightarrow> cost_estimation \<Rightarrow> usize \<Rightarrow> f64 \<Rightarrow> cost_estimation" where
  "combined_cost l r product extra =
     \<lparr>estimated_rows = product div 10,
      estimated_cost = f64_add (f64_add (estimated_cost l) (estimated_cost r)) extra,
      io_cost = f64_add (io_cost l) (io_cost r),
      cpu_cost = f64_add (f64_add (cpu_cost l) (cpu_cost r)) extra\<rparr>"

fun estimate_cost :: "optimization_context \<Rightarrow> query_plan \<Rightarrow> abort + cost_estimation" where
  "estimate_cost ctx (TableScan t _) =
     (let n = f64_of_usize (rows_of_table ctx t) in
      Inr \<lparr>estimated_rows = rows_of_table ctx t, estimated_cost = n, io_cost = f64_mul n 0x3FB999999999999A,
           cpu_cost = f64_mul n 0x3F847AE147AE147B\<rparr>)"
| "estimate_cost ctx (FilteredScan t _ p) =
     (let n = f64_of_usize (rows_of_table ctx t);
          output_rows = f64_to_usize (f64_mul n (estimate_selectivity p ctx t)) in
      Inr \<lparr>estimated_rows = output_rows,
           estimated_cost = f64_add n (f64_mul (f64_of_usize output_rows) 0x3FB999999999999A),
           io_cost = f64_mul n 0x3FB999999999999A, cpu_cost = f64_mul n 0x3FA999999999999A\<rparr>)"
| "estimate_cost ctx (IndexScan t _ _ _) =
     Inr \<lparr>estimated_rows = 1, estimated_cost = 0x3FF0000000000000,
          io_cost = f64_max (f64_mul (f64_of_usize (rows_of_table ctx t)) 0x3FA999999999999A) 0x3FF0000000000000,
          cpu_cost = 0x3FB999999999999A\<rparr>"
| "estimate_cost ctx (RangeScan t _ _ _ _) =
     (let k = rows_of_table ctx t div 10; n = f64_of_usize k in
      Inr \<lparr>estimated_rows = k, estimated_cost = n, io_cost = f64_mul n 0x3FB999999999999A,
           cpu_cost = f64_mul n 0x3F847AE147AE147B\<rparr>)"
| "estimate_cost ctx (NestedLoopJoin l r _ _ _ _) =
     (case (estimate_cost ctx l, estimate_cost ctx r) of
        (Inl a, _) \<Rightarrow> Inl a
      | (_, Inl a) \<Rightarrow> Inl a
      | (Inr lc, Inr rc) \<Rightarrow>
          (let join_cost = f64_mul (f64_of_usize (estimated_rows lc)) (f64_of_usize (estimated_rows rc)) in
           map_sum id (\<lambda>product. combined_cost lc rc product (f64_mul join_cost 0x3F847AE147AE147B))
             (usize_mul (estimated_rows lc) (estimated_rows rc))))"
| "estimate_cost ctx (HashJoin l r _ _ _ _ _) =
     (case (estimate_cost ctx l, estimate_cost ctx r) of
        (Inl a, _) \<Rightarrow> Inl a
      | (_, Inl a) \<Rightarrow> Inl a
      | (Inr lc, Inr rc) \<Rightarrow>
          (case usize_mul (estimated_rows lc) (estimated_rows rc) of
             Inl a \<Rightarrow> Inl a
           | Inr product \<Rightarrow>
               map_sum id (\<lambda>total_rows.
                   combined_cost lc rc product (f64_mul (f64_of_usize total_rows) 0x3FA999999999999A))
                 (usize_add (estimated_rows lc) (estimated_rows rc))))"
| "estimate_cost ctx plan =
     Inr \<lparr>estimated_rows = 100, estimated_cost = 0x4059000000000000, io_cost = 0x4024000000000000,
          cpu_cost = 0x4014000000000000\<rparr>"

end
