(* ===== verification/Query_Exec.thy ===== *)
theory Query_Exec
  imports Query_Plan
begin

text \<open>
  The query executor, \<open>src/query_executor.rs\<close>: the execution of every node of a plan, with its
  statistics. A query returns a result or a \<open>query_error\<close>; it aborts where the evaluation of a
  computed column does or where integer arithmetic overflows. Parameters are the text of a string
  and of a \<open>table_error\<close> in \<open>{:?}\<close>, and the time that is recorded as elapsed.
\<close>

section \<open>Results\<close>

datatype query_error =
    QTableNotFound string
  | QColumnNotFound (qe_table: string) (qe_column: string)
  | QTypeMismatch (qe_expected: string) (qe_found: string)
  | QJoinError string
  | QOptimizationError string
  | QExecutionError string

type_synonym 'a query = "abort + query_error + 'a"

definition qbind :: "'a query \<Rightarrow> ('a \<Rightarrow> 'b query) \<Rightarrow> 'b query" where
  "qbind m f = (case m of Inl a \<Rightarrow> Inl a | Inr (Inl err) \<Rightarrow> Inr (Inl err) | Inr (Inr x) \<Rightarrow> f x)"

definition qok :: "'a \<Rightarrow> 'a query" where
  "qok x = Inr (Inr x)"

definition qerr :: "query_error \<Rightarrow> 'a query" where
  "qerr err = Inr (Inl err)"

definition qlift :: "abort + 'a \<Rightarrow> 'a query" where
  "qlift m = map_sum id Inr m"

lemma qbind_simps [simp]:
  "qbind (Inl a) f = Inl a" "qbind (qerr err) f = qerr err" "qbind (qok x) f = f x"
  "qbind (Inr (Inl err)) f = Inr (Inl err)" "qbind (Inr (Inr x)) f = f x"
  by (simp_all add: qbind_def qerr_def qok_def)

lemma qok_iff: "qok x = qok y \<longleftrightarrow> x = y" "qok x \<noteq> qerr err" "qerr err \<noteq> qok x" "qok x \<noteq> Inl a" "Inl a \<noteq> qok x"
  by (simp_all add: qok_def qerr_def)

lemma qbind_ok_iff: "qbind m f = qok y \<longleftrightarrow> (\<exists>x. m = qok x \<and> f x = qok y)"
  by (auto simp: qbind_def qok_def split: sum.splits)

lemma qlift_ok_iff: "qlift m = qok y \<longleftrightarrow> m = Inr y"
  by (cases m) (simp_all add: qlift_def qok_def)

lemma qbind_cong [fundef_cong]:
  "m = m' \<Longrightarrow> (\<And>x. m' = Inr (Inr x) \<Longrightarrow> f x = f' x) \<Longrightarrow> qbind m f = qbind m' f'"
  by (auto simp: qbind_def split: sum.splits)

fun qmap :: "('a \<Rightarrow> 'b query) \<Rightarrow> 'a list \<Rightarrow> 'b list query" where
  "qmap f [] = qok []"
| "qmap f (x # xs) = qbind (f x) (\<lambda>y. qbind (qmap f xs) (\<lambda>ys. qok (y # ys)))"

fun qfilter :: "('a \<Rightarrow> bool query) \<Rightarrow> 'a list \<Rightarrow> 'a list query" where
  "qfilter f [] = qok []"
| "qfilter f (x # xs) = qbind (f x) (\<lambda>b. qbind (qfilter f xs) (\<lambda>ys. qok (if b then x # ys else ys)))"

datatype result_column =
  ResultColumn (rc_name: string) (rc_type: type) (rc_source_table: "string option")

record query_statistics =
  rows_scanned :: usize
  rows_filtered :: usize
  rows_returned :: usize
  index_seeks :: usize
  execution_time_ms :: u64

definition no_statistics :: query_statistics where
  "no_statistics = \<lparr>rows_scanned = 0, rows_filtered = 0, rows_returned = 0, index_seeks = 0, execution_time_ms = 0\<rparr>"

type_synonym result_rows = "(row_id \<times> table_row) list"

record query_result =
  result_rows :: result_rows
  result_schema :: "result_column list"
  result_statistics :: query_statistics

record query_executor =
  qx_tables :: "(string, table_runtime) hmap"
  qx_context :: optimization_context

definition executor_new :: query_executor where
  "executor_new = \<lparr>qx_tables = [], qx_context = default_context\<rparr>"

definition executor_with_context :: "optimization_context \<Rightarrow> query_executor" where
  "executor_with_context ctx = \<lparr>qx_tables = [], qx_context = ctx\<rparr>"

definition executor_register :: "query_executor \<Rightarrow> string \<Rightarrow> table_runtime \<Rightarrow> query_executor" where
  "executor_register ex name t =
     ex\<lparr>qx_context := (qx_context ex)\<lparr>table_stats :=
            AList.update name (generate_statistics t) (table_stats (qx_context ex))\<rparr>,
        qx_tables := AList.update name t (qx_tables ex)\<rparr>"

section \<open>Evaluation on a row\<close>

definition query_u64 :: "binary_operator \<Rightarrow> u64 \<Rightarrow> u64 \<Rightarrow> column_value query" where
  "query_u64 op l r =
     (case op of
        Add \<Rightarrow> if uint l + uint r < 2 ^ 64 then qok (VU64 (l + r)) else Inl ArithmeticOverflow
      | Sub \<Rightarrow> if r \<le> l then qok (VU64 (l - r)) else Inl ArithmeticOverflow
      | Mul \<Rightarrow> if uint l * uint r < 2 ^ 64 then qok (VU64 (l * r)) else Inl ArithmeticOverflow
      | Div \<Rightarrow> if r = 0 then Inl DivisionByZero else qok (VU64 (l div r))
      | Mod \<Rightarrow> if r = 0 then Inl DivisionByZero else qok (VU64 (l mod r))
      | _ \<Rightarrow> qerr (QExecutionError (''Unsupported numeric operator: '' @ debug_binary op)))"

definition query_f64 :: "binary_operator \<Rightarrow> f64 \<Rightarrow> f64 \<Rightarrow> column_value query" where
  "query_f64 op l r =
     (case op of
        Add \<Rightarrow> qok (VF64 (f64_add l r))
      | Sub \<Rightarrow> qok (VF64 (f64_sub l r))
      | Mul \<Rightarrow> qok (VF64 (f64_mul l r))
      | Div \<Rightarrow> qok (VF64 (f64_div l r))
      | _ \<Rightarrow> qerr (QExecutionError (''Unsupported float operator: '' @ debug_binary op)))"

definition apply_binary_operation :: "column_value \<Rightarrow> binary_operator \<Rightarrow> column_value \<Rightarrow> column_value query" where
  "apply_binary_operation left op right =
     (case (left, right) of
        (VU64 l, VU64 r) \<Rightarrow> query_u64 op l r
      | (VF64 l, VF64 r) \<Rightarrow> query_f64 op l r
      | _ \<Rightarrow> qerr (QTypeMismatch ''compatible types'' ''incompatible types''))"

definition value_to_bool :: "column_value \<Rightarrow> bool query" where
  "value_to_bool v = (case v of VBool b \<Rightarrow> qok b | _ \<Rightarrow> qerr (QTypeMismatch ''bool'' ''non-boolean''))"

definition three_way :: "'a::linorder \<Rightarrow> 'a \<Rightarrow> ordering" where
  "three_way x y = (if x < y then OLess else if x = y then OEqual else OGreater)"

text \<open>Doubles that do not compare count as equal.\<close>

definition compare_values :: "column_value \<Rightarrow> column_value \<Rightarrow> (ordering \<Rightarrow> bool) \<Rightarrow> bool query" where
  "compare_values left right cmp =
     (case (value_as_f64 left, value_as_f64 right) of
        (Some lhs, Some rhs) \<Rightarrow>
          qok (cmp (case f64_partial_cmp lhs rhs of Some ord \<Rightarrow> ord | None \<Rightarrow> OEqual))
      | _ \<Rightarrow>
          (case (left, right) of
             (VU64 l, VU64 r) \<Rightarrow> qok (cmp (three_way l r))
           | (VI32 l, VI32 r) \<Rightarrow> qok (cmp (three_way (sint l) (sint r)))
           | (VString l, VString r) \<Rightarrow> qok (cmp (three_way l r))
           | (VBool l, VBool r) \<Rightarrow> qok (cmp (three_way l r))
           | _ \<Rightarrow> qerr (QTypeMismatch ''comparable types'' ''incomparable types'')))"

text \<open>The comparisons that a join condition, a filter and a where clause share.\<close>

definition apply_comparison :: "column_value \<Rightarrow> binary_operator \<Rightarrow> column_value \<Rightarrow> bool query option" where
  "apply_comparison left op right =
     (case op of
        Equal \<Rightarrow> Some (qok (values_equal left right))
      | NotEqual \<Rightarrow> Some (qok (\<not> values_equal left right))
      | Less \<Rightarrow> Some (compare_values left right (\<lambda>ord. ord = OLess))
      | LessEqual \<Rightarrow> Some (compare_values left right (\<lambda>ord. ord \<noteq> OGreater))
      | Greater \<Rightarrow> Some (compare_values left right (\<lambda>ord. ord = OGreater))
      | GreaterEqual \<Rightarrow> Some (compare_values left right (\<lambda>ord. ord \<noteq> OLess))
      | _ \<Rightarrow> None)"

definition column_of :: "string \<Rightarrow> string \<Rightarrow> table_row \<Rightarrow> column_value query" where
  "column_of table c row =
     (case map_of (row_values row) c of Some v \<Rightarrow> qok v | None \<Rightarrow> qerr (QColumnNotFound table c))"

definition evaluate_join_condition_simple :: "join_condition \<Rightarrow> table_row \<Rightarrow> table_row \<Rightarrow> bool query" where
  "evaluate_join_condition_simple jc lrow rrow =
     qbind (column_of ''left'' (left_column jc) lrow) (\<lambda>l.
       qbind (column_of ''right'' (right_column jc) rrow) (\<lambda>r.
         case apply_comparison l (join_operator jc) r of
           Some b \<Rightarrow> b
         | None \<Rightarrow> qerr (QExecutionError (''Unsupported join operator: '' @ debug_binary (join_operator jc)))))"

fun evaluate_expression_simple :: "expression \<Rightarrow> table_row \<Rightarrow> column_value query" where
  "evaluate_expression_simple (EIdentifier c) row = column_of ''row'' c row"
| "evaluate_expression_simple (ELiteral l) row = qok (literal_value l)"
| "evaluate_expression_simple (EBinaryOp left op right) row =
     qbind (evaluate_expression_simple left row) (\<lambda>l.
       qbind (evaluate_expression_simple right row) (\<lambda>r. apply_binary_operation l op r))"
| "evaluate_expression_simple _ row = qerr (QExecutionError ''Unsupported expression type'')"

definition apply_logical :: "column_value \<Rightarrow> binary_operator \<Rightarrow> column_value \<Rightarrow> bool query option" where
  "apply_logical left op right =
     (case op of
        And \<Rightarrow> Some (qbind (value_to_bool left) (\<lambda>l. qbind (value_to_bool right) (\<lambda>r. qok (l \<and> r))))
      | Or \<Rightarrow> Some (qbind (value_to_bool left) (\<lambda>l. qbind (value_to_bool right) (\<lambda>r. qok (l \<or> r))))
      | _ \<Rightarrow> apply_comparison left op right)"

definition evaluate_condition_simple :: "expression \<Rightarrow> table_row \<Rightarrow> bool query" where
  "evaluate_condition_simple e row =
     (case e of
        EBinaryOp left op right \<Rightarrow>
          qbind (evaluate_expression_simple left row) (\<lambda>l.
            qbind (evaluate_expression_simple right row) (\<lambda>r.
              case apply_logical l op r of
                Some b \<Rightarrow> b
              | None \<Rightarrow> qerr (QExecutionError (''Unsupported operator: '' @ debug_binary op))))
      | EIdentifier c \<Rightarrow> qbind (column_of ''row'' c row) value_to_bool
      | ELiteral (LBoolean b) \<Rightarrow> qok b
      | _ \<Rightarrow> qerr (QExecutionError ''Unsupported condition type''))"

fun evaluate_row_expression :: "string \<Rightarrow> expression \<Rightarrow> table_row \<Rightarrow> column_value query" where
  "evaluate_row_expression table (EIdentifier c) row = column_of table c row"
| "evaluate_row_expression table (ELiteral l) row = qok (literal_value l)"
| "evaluate_row_expression table (EBinaryOp left op right) row =
     qbind (evaluate_row_expression table left row) (\<lambda>l.
       qbind (evaluate_row_expression table right row) (\<lambda>r. apply_binary_operation l op r))"
| "evaluate_row_expression table _ row = qerr (QExecutionError ''Unsupported expression in WHERE clause'')"

section \<open>Projection\<close>

text \<open>
  The loops over the projected fields and over the rows; \<open>eval\<close> evaluates a transformation and
  \<open>table\<close> is the name that errors give to the row.
\<close>

fun project_row ::
    "(expression \<Rightarrow> table_row \<Rightarrow> column_value query) \<Rightarrow> string \<Rightarrow> projection list \<Rightarrow> table_row \<Rightarrow>
       (string, column_value) hmap \<Rightarrow> (string, column_value) hmap query" where
  "project_row eval table [] row acc = qok acc"
| "project_row eval table (p # ps) row acc =
     qbind (case transformation p of Some e \<Rightarrow> eval e row | None \<Rightarrow> column_of table (source_column p) row) (\<lambda>v.
       project_row eval table ps row (AList.update (output_name p) v acc))"

definition project_rows ::
    "(expression \<Rightarrow> table_row \<Rightarrow> column_value query) \<Rightarrow> string \<Rightarrow> projection list \<Rightarrow> result_rows \<Rightarrow> result_rows query" where
  "project_rows eval table ps rows =
     qmap (\<lambda>(i, row). qbind (project_row eval table ps row []) (\<lambda>vals. qok (i, TableRow vals))) rows"

definition apply_projection :: "table_runtime \<Rightarrow> projection list \<Rightarrow> result_rows \<Rightarrow> result_rows query" where
  "apply_projection t ps rows =
     project_rows (evaluate_row_expression (table_name (schema t))) (table_name (schema t)) ps rows"

definition build_result_schema :: "table_runtime \<Rightarrow> projection list \<Rightarrow> result_column list query" where
  "build_result_schema t ps =
     qmap (\<lambda>p. case find_column (schema t) (source_column p) of
         Some col \<Rightarrow> qok (ResultColumn (output_name p) (column_type col) (Some (table_name (schema t))))
       | None \<Rightarrow> qerr (QColumnNotFound (table_name (schema t)) (source_column p))) ps"

section \<open>Scans\<close>

definition table_of :: "query_executor \<Rightarrow> string \<Rightarrow> table_runtime query" where
  "table_of ex name =
     (case map_of (qx_tables ex) name of Some t \<Rightarrow> qok t | None \<Rightarrow> qerr (QTableNotFound name))"

text \<open>What every scan ends with: projection, schema and the count of the rows returned.\<close>

definition finish_scan ::
    "table_runtime \<Rightarrow> projection list \<Rightarrow> query_statistics \<Rightarrow> result_rows \<Rightarrow> query_result query" where
  "finish_scan t ps stats rows =
     qbind (apply_projection t ps rows) (\<lambda>projected.
       qbind (build_result_schema t ps) (\<lambda>cols.
         qok \<lparr>result_rows = projected, result_schema = cols,
              result_statistics = stats\<lparr>rows_returned := length projected\<rparr>\<rparr>))"

definition execute_table_scan ::
    "(string \<Rightarrow> string) \<Rightarrow> query_executor \<Rightarrow> string \<Rightarrow> projection list \<Rightarrow> query_result query" where
  "execute_table_scan \<delta> ex name ps =
     qbind (table_of ex name) (\<lambda>t.
       qbind (qlift (scan_all \<delta> t)) (\<lambda>rows.
         finish_scan t ps (no_statistics\<lparr>rows_scanned := length rows\<rparr>) rows))"

definition usize_sub :: "usize \<Rightarrow> usize \<Rightarrow> usize query" where
  "usize_sub a b = (if b \<le> a then qok (a - b) else Inl ArithmeticOverflow)"

definition filtered_statistics ::
    "(string \<Rightarrow> string) \<Rightarrow> table_runtime \<Rightarrow> expression \<Rightarrow> usize \<Rightarrow> query_statistics query" where
  "filtered_statistics \<delta> t p found =
     (case evaluate_predicate_columnar \<delta> t p of
        Inl a \<Rightarrow> Inl a
      | Inr (Inr (PIndexLookup ids)) \<Rightarrow> qok (no_statistics\<lparr>index_seeks := 1, rows_scanned := length ids\<rparr>)
      | Inr (Inr (PBitmap b)) \<Rightarrow>
          qbind (usize_sub (next_row_id t) (cardinality b)) (\<lambda>n.
            qok (no_statistics\<lparr>rows_scanned := cardinality b, rows_filtered := n\<rparr>))
      | _ \<Rightarrow>
          qbind (usize_sub (row_count t) found) (\<lambda>n.
            qok (no_statistics\<lparr>rows_scanned := row_count t, rows_filtered := n\<rparr>)))"

definition execute_filtered_scan ::
    "(string \<Rightarrow> string) \<Rightarrow> (table_error \<Rightarrow> string) \<Rightarrow> query_executor \<Rightarrow> string \<Rightarrow> projection list \<Rightarrow> expression \<Rightarrow>
       query_result query" where
  "execute_filtered_scan \<delta> \<epsilon> ex name ps p =
     qbind (table_of ex name) (\<lambda>t.
       qbind (case scan_filtered_optimized \<delta> t p of
                Inl a \<Rightarrow> Inl a
              | Inr (Inl err) \<Rightarrow> qerr (QExecutionError (''Filtered scan failed: '' @ \<epsilon> err))
              | Inr (Inr rows) \<Rightarrow> qok rows) (\<lambda>rows.
         qbind (filtered_statistics \<delta> t p (length rows)) (\<lambda>stats. finish_scan t ps stats rows)))"

definition execute_index_scan ::
    "(string \<Rightarrow> string) \<Rightarrow> query_executor \<Rightarrow> string \<Rightarrow> projection list \<Rightarrow> string \<Rightarrow> column_value \<Rightarrow> query_result query" where
  "execute_index_scan \<delta> ex name ps c v =
     qbind (table_of ex name) (\<lambda>t.
       qbind (qlift (scan_by_column_value \<delta> t c v)) (\<lambda>rows.
         finish_scan t ps (no_statistics\<lparr>index_seeks := 1, rows_scanned := length rows\<rparr>) rows))"

definition execute_range_scan ::
    "(string \<Rightarrow> string) \<Rightarrow> query_executor \<Rightarrow> string \<Rightarrow> projection list \<Rightarrow> string \<Rightarrow> column_value option \<Rightarrow>
       column_value option \<Rightarrow> query_result query" where
  "execute_range_scan \<delta> ex name ps c lo hi =
     qbind (table_of ex name) (\<lambda>t.
       qbind (qlift (scan_by_column_range \<delta> t c lo hi)) (\<lambda>rows.
         finish_scan t ps (no_statistics\<lparr>index_seeks := 1, rows_scanned := length rows\<rparr>) rows))"

section \<open>Joins\<close>

type_synonym joined_row = "row_id \<times> row_id \<times> table_row \<times> table_row"

record join_state =
  joined_rows :: "joined_row list"
  matched_left :: "row_id hset"
  matched_right :: "row_id hset"

definition no_join :: join_state where
  "no_join = \<lparr>joined_rows = [], matched_left = [], matched_right = []\<rparr>"

text \<open>\<open>RowId(usize::MAX)\<close> stands for the missing side of an outer join, with an empty row.\<close>

definition missing_row_id :: row_id where
  "missing_row_id = 2 ^ 64 - 1"

definition add_match :: "row_id \<times> table_row \<Rightarrow> row_id \<times> table_row \<Rightarrow> join_state \<Rightarrow> join_state" where
  "add_match l r st =
     st\<lparr>joined_rows := joined_rows st @ [(fst l, fst r, snd l, snd r)],
        matched_left := List.insert (fst l) (matched_left st),
        matched_right := List.insert (fst r) (matched_right st)\<rparr>"

fun nested_inner :: "join_condition \<Rightarrow> row_id \<times> table_row \<Rightarrow> result_rows \<Rightarrow> join_state \<Rightarrow> join_state query" where
  "nested_inner jc l [] st = qok st"
| "nested_inner jc l (r # rights) st =
     qbind (evaluate_join_condition_simple jc (snd l) (snd r)) (\<lambda>b.
       nested_inner jc l rights (if b then add_match l r st else st))"

fun nested_outer :: "join_condition \<Rightarrow> result_rows \<Rightarrow> result_rows \<Rightarrow> join_state \<Rightarrow> join_state query" where
  "nested_outer jc [] rights st = qok st"
| "nested_outer jc (l # lefts) rights st =
     qbind (nested_inner jc l rights st) (\<lambda>st'. nested_outer jc lefts rights st')"

definition unmatched_left :: "result_rows \<Rightarrow> join_state \<Rightarrow> joined_row list" where
  "unmatched_left lefts st =
     map (\<lambda>(i, row). (i, missing_row_id, row, TableRow [])) (filter (\<lambda>(i, _). i \<notin> set (matched_left st)) lefts)"

definition unmatched_right :: "result_rows \<Rightarrow> join_state \<Rightarrow> joined_row list" where
  "unmatched_right rights st =
     map (\<lambda>(i, row). (missing_row_id, i, TableRow [], row)) (filter (\<lambda>(i, _). i \<notin> set (matched_right st)) rights)"

definition outer_rows :: "join_type \<Rightarrow> result_rows \<Rightarrow> result_rows \<Rightarrow> join_state \<Rightarrow> joined_row list" where
  "outer_rows ty lefts rights st =
     joined_rows st @ (if ty = LeftOuter \<or> ty = FullOuter then unmatched_left lefts st else []) @
       (if ty = RightOuter \<or> ty = FullOuter then unmatched_right rights st else [])"

fun project_side :: "string \<Rightarrow> projection list \<Rightarrow> table_row \<Rightarrow> (string, column_value) hmap \<Rightarrow> (string, column_value) hmap" where
  "project_side prefix [] row acc = acc"
| "project_side prefix (p # ps) row acc =
     project_side prefix ps row
       (case map_of (row_values row) (source_column p) of
          Some v \<Rightarrow> AList.update (prefix @ output_name p) v acc
        | None \<Rightarrow> acc)"

definition apply_join_projection :: "joined_row list \<Rightarrow> projection list \<Rightarrow> projection list \<Rightarrow> result_rows" where
  "apply_join_projection rows lps rps =
     map (\<lambda>(li, ri, l, r). (li, TableRow (project_side ''right_'' rps r (project_side ''left_'' lps l [])))) rows"

definition unknown_column :: "string \<Rightarrow> string option \<Rightarrow> result_column" where
  "unknown_column name source = ResultColumn name (TIdentifier ''unknown'' []) source"

definition build_join_result_schema ::
    "projection list \<Rightarrow> projection list \<Rightarrow> result_column list \<Rightarrow> result_column list \<Rightarrow> result_column list" where
  "build_join_result_schema lps rps lschema rschema =
     map (\<lambda>p. unknown_column (''left_'' @ output_name p) (Some ''left'')) lps @
     map (\<lambda>p. unknown_column (''right_'' @ output_name p) (Some ''right'')) rps"

definition build_join_result_schema_for_tables ::
    "projection list \<Rightarrow> projection list \<Rightarrow> result_column list \<Rightarrow> table_runtime \<Rightarrow> result_column list" where
  "build_join_result_schema_for_tables lps rps lschema t =
     map (\<lambda>p. unknown_column (''left_'' @ output_name p) (Some ''left'')) lps @
     map (\<lambda>p. unknown_column (''right_'' @ output_name p) (Some (table_name (schema t)))) rps"

definition finish_join ::
    "joined_row list \<Rightarrow> projection list \<Rightarrow> projection list \<Rightarrow> result_column list \<Rightarrow> query_statistics \<Rightarrow> query_result" where
  "finish_join rows lps rps cols stats =
     \<lparr>result_rows = apply_join_projection rows lps rps, result_schema = cols,
      result_statistics = stats\<lparr>rows_returned := length rows\<rparr>\<rparr>"

definition joined_statistics :: "query_result \<Rightarrow> query_result \<Rightarrow> query_statistics" where
  "joined_statistics l r =
     no_statistics\<lparr>rows_scanned := rows_scanned (result_statistics l) + rows_scanned (result_statistics r),
       index_seeks := index_seeks (result_statistics l) + index_seeks (result_statistics r)\<rparr>"

definition nested_loop_join ::
    "join_type \<Rightarrow> join_condition \<Rightarrow> projection list \<Rightarrow> projection list \<Rightarrow> query_result \<Rightarrow> query_result \<Rightarrow> query_result query" where
  "nested_loop_join ty jc lps rps l r =
     qbind (nested_outer jc (result_rows l) (result_rows r) no_join) (\<lambda>st.
       qok (finish_join (outer_rows ty (result_rows l) (result_rows r) st) lps rps
         (build_join_result_schema lps rps (result_schema l) (result_schema r)) (joined_statistics l r)))"

text \<open>The hash table lists for every value of the join column the rows that have it, in their order.\<close>

definition build_hash_table :: "string \<Rightarrow> result_rows \<Rightarrow> (column_value, result_rows) hmap" where
  "build_hash_table c rows =
     fold (\<lambda>(i, row) table.
         case map_of (row_values row) c of
           None \<Rightarrow> table
         | Some v \<Rightarrow> AList.update v ((case map_of table v of None \<Rightarrow> [] | Some rs \<Rightarrow> rs) @ [(i, row)]) table)
       rows []"

definition probe :: "string \<Rightarrow> (column_value, result_rows) hmap \<Rightarrow> row_id \<times> table_row \<Rightarrow> result_rows" where
  "probe c table row =
     (case map_of (row_values (snd row)) c of
        None \<Rightarrow> []
      | Some v \<Rightarrow> (case map_of table v of None \<Rightarrow> [] | Some rs \<Rightarrow> rs))"

definition hash_matches :: "join_condition \<Rightarrow> build_side \<Rightarrow> result_rows \<Rightarrow> result_rows \<Rightarrow> join_state" where
  "hash_matches jc side lefts rights =
     (case side of
        BuildRight \<Rightarrow>
          (let table = build_hash_table (right_column jc) rights in
           fold (\<lambda>l. fold (\<lambda>r. add_match l r) (probe (left_column jc) table l)) lefts no_join)
      | BuildLeft \<Rightarrow>
          (let table = build_hash_table (left_column jc) lefts in
           fold (\<lambda>r. fold (\<lambda>l. add_match l r) (probe (right_column jc) table r)) rights no_join))"

definition hash_join ::
    "join_type \<Rightarrow> join_condition \<Rightarrow> projection list \<Rightarrow> projection list \<Rightarrow> build_side \<Rightarrow> query_result \<Rightarrow> query_result \<Rightarrow>
       query_result query" where
  "hash_join ty jc lps rps side l r =
     qok (finish_join (outer_rows ty (result_rows l) (result_rows r) (hash_matches jc side (result_rows l) (result_rows r)))
       lps rps (build_join_result_schema lps rps (result_schema l) (result_schema r)) (joined_statistics l r))"

text \<open>The index join looks the join column of every left row up in the table on the right.\<close>

fun index_matches_of ::
    "(string \<Rightarrow> string) \<Rightarrow> table_runtime \<Rightarrow> string \<Rightarrow> string \<Rightarrow> result_rows \<Rightarrow> join_state \<Rightarrow> query_statistics \<Rightarrow>
       (join_state \<times> query_statistics) query" where
  "index_matches_of \<delta> t c index [] st stats = qok (st, stats)"
| "index_matches_of \<delta> t c index (l # lefts) st stats =
     (case map_of (row_values (snd l)) c of
        None \<Rightarrow> index_matches_of \<delta> t c index lefts st stats
      | Some v \<Rightarrow>
          qbind (qlift (scan_by_column_value \<delta> t index v)) (\<lambda>rights.
            index_matches_of \<delta> t c index lefts (fold (\<lambda>r. add_match l r) rights st)
              (stats\<lparr>index_seeks := index_seeks stats + 1, rows_scanned := rows_scanned stats + length rights\<rparr>)))"

definition index_nested_loop_join ::
    "(string \<Rightarrow> string) \<Rightarrow> query_executor \<Rightarrow> string \<Rightarrow> join_type \<Rightarrow> join_condition \<Rightarrow> projection list \<Rightarrow> projection list \<Rightarrow>
       string \<Rightarrow> query_result \<Rightarrow> query_result query" where
  "index_nested_loop_join \<delta> ex rt ty jc lps rps index l =
     qbind (table_of ex rt) (\<lambda>t.
       qbind (index_matches_of \<delta> t (left_column jc) index (result_rows l) no_join
           (no_statistics\<lparr>rows_scanned := rows_scanned (result_statistics l),
              index_seeks := index_seeks (result_statistics l)\<rparr>)) (\<lambda>(st, stats).
         qbind (if ty = RightOuter \<or> ty = FullOuter then qlift (scan_all \<delta> t) else qok []) (\<lambda>rights.
           qok (finish_join (outer_rows ty (result_rows l) rights st) lps rps
             (build_join_result_schema_for_tables lps rps (result_schema l) t) stats))))"

section \<open>Projection and filter nodes\<close>

definition projection_node :: "projection list \<Rightarrow> query_result \<Rightarrow> query_result query" where
  "projection_node ps input =
     qbind (project_rows evaluate_expression_simple ''input'' ps (result_rows input)) (\<lambda>rows.
       qok \<lparr>result_rows = rows, result_schema = map (\<lambda>p. unknown_column (output_name p) None) ps,
            result_statistics = result_statistics input\<rparr>)"

definition filter_node :: "expression \<Rightarrow> query_result \<Rightarrow> query_result query" where
  "filter_node p input =
     qbind (qfilter (\<lambda>(_, row). evaluate_condition_simple p row) (result_rows input)) (\<lambda>rows.
       qok \<lparr>result_rows = rows, result_schema = result_schema input,
            result_statistics = (result_statistics input)
              \<lparr>rows_filtered := length (result_rows input) - length rows, rows_returned := length rows\<rparr>\<rparr>)"

section \<open>Execution\<close>

definition apply_select_hints :: "optimization_context \<Rightarrow> where_clause option \<Rightarrow> optimization_context" where
  "apply_select_hints ctx w =
     (case w of None \<Rightarrow> ctx | Some clause \<Rightarrow> fold apply_hint (optimization_hints clause) ctx)"

definition materialize_physical_plan :: "query_executor \<Rightarrow> query_plan \<Rightarrow> abort + query_plan" where
  "materialize_physical_plan ex plan =
     (case plan of
        SelectPlan t ps w _ _ \<Rightarrow>
          optimize_with_context (apply_select_hints (qx_context ex) w) (logical_select t ps (map_option wc_condition w))
      | JoinPlan l r ty jc lps rps _ _ \<Rightarrow>
          map_sum id (\<lambda>p. if enable_join_reordering (qx_context ex) then apply_join_reordering (qx_context ex) p else p)
            (optimize_with_context (qx_context ex) (logical_join l r ty jc lps rps))
      | _ \<Rightarrow> Inr plan)"

definition set_elapsed :: "u64 \<Rightarrow> query_result \<Rightarrow> query_result" where
  "set_elapsed ms r = r\<lparr>result_statistics := (result_statistics r)\<lparr>execution_time_ms := ms\<rparr>\<rparr>"

text \<open>
  \<open>execute\<close> materializes the plan, then runs its node and the inputs of the node. It ends because a
  materialized plan has no high-level node: \<open>high_nodes\<close> counts them, without the stored physical plans.
\<close>

fun high_nodes :: "query_plan \<Rightarrow> nat" where
  "high_nodes (SelectPlan _ _ _ _ _) = 1"
| "high_nodes (JoinPlan _ _ _ _ _ _ _ _) = 1"
| "high_nodes (NestedLoopJoin l r _ _ _ _) = high_nodes l + high_nodes r"
| "high_nodes (HashJoin l r _ _ _ _ _) = high_nodes l + high_nodes r"
| "high_nodes (IndexNestedLoopJoin l _ _ _ _ _ _) = high_nodes l"
| "high_nodes (ProjectionPlan input _) = high_nodes input"
| "high_nodes (FilterPlan input _) = high_nodes input"
| "high_nodes _ = 0"

lemma high_create_plan: "high_nodes (create_optimized_plan_from_analysis t ps p a) = 0"
  by (auto simp: create_optimized_plan_from_analysis_def split: list.splits)

lemma high_analysis: "high_nodes plan = 0 \<Longrightarrow> high_nodes (apply_complex_predicate_analysis ctx plan) = 0"
proof (induction plan)
  case (FilterPlan input p)
  then show ?case by (cases input) (simp_all add: high_create_plan split: option.split)
qed simp_all

lemma high_pushdown: "high_nodes plan = 0 \<Longrightarrow> high_nodes (apply_predicate_pushdown plan) = 0"
proof (induction plan)
  case (FilterPlan input p)
  then show ?case by (cases input) simp_all
qed simp_all

lemma high_index: "high_nodes plan = 0 \<Longrightarrow> high_nodes (apply_index_optimization ctx plan) = 0"
proof (induction plan)
  case (NestedLoopJoin l r ty jc lps rps)
  then show ?case by (cases r) simp_all
qed (simp_all split: option.split)

lemma high_dynamic:
  "apply_dynamic_join_reordering ctx plan = Inr plan' \<Longrightarrow> high_nodes plan = 0 \<Longrightarrow> high_nodes plan' = 0"
  by (induction ctx plan arbitrary: plan' rule: apply_dynamic_join_reordering.induct)
    (auto simp: create_optimized_join_plan_def split: sum.splits option.splits join_method.splits)

lemma high_reordering: "high_nodes plan = 0 \<Longrightarrow> high_nodes (apply_join_reordering ctx plan) = 0"
  by (induction ctx plan rule: apply_join_reordering.induct) auto

lemma high_optimize:
  assumes "optimize_with_context ctx plan = Inr plan'" and "high_nodes plan = 0"
  shows "high_nodes plan' = 0"
proof -
  from assms have "optimize_physical ctx plan = Inr plan'"
    by (cases plan) (simp_all add: optimize_with_context_def)
  with assms(2) show ?thesis
    by (auto simp: optimize_physical_def Let_def high_analysis high_pushdown high_index
        dest!: high_dynamic split: if_splits)
qed

lemma high_logical: "high_nodes (logical_select t ps p) = 0" "high_nodes (logical_join l r ty jc lps rps) = 0"
  by (simp_all add: logical_select_def logical_join_def split: option.splits)

lemma materialized_root:
  assumes "materialize_physical_plan ex plan = Inr plan'"
  shows "case plan of
      SelectPlan _ _ _ _ _ \<Rightarrow> high_nodes plan' = 0
    | JoinPlan _ _ _ _ _ _ _ _ \<Rightarrow> high_nodes plan' = 0
    | _ \<Rightarrow> plan' = plan"
  using assms
  by (cases plan)
    (auto simp: materialize_physical_plan_def map_sum_def high_logical high_reordering
      dest!: high_optimize split: sum.splits if_splits)

lemma materialized:
  assumes "materialize_physical_plan ex plan = Inr plan'"
  shows "plan' = plan \<or> 0 < high_nodes plan \<and> high_nodes plan' = 0"
  using materialized_root [OF assms] by (cases plan) simp_all

function execute ::
    "(string \<Rightarrow> string) \<Rightarrow> (table_error \<Rightarrow> string) \<Rightarrow> u64 \<Rightarrow> query_executor \<Rightarrow> query_plan \<Rightarrow> query_result query" where
  "execute \<delta> \<epsilon> ms ex plan =
     qbind (case materialize_physical_plan ex plan of
         Inl a \<Rightarrow> Inl a
       | Inr (TableScan t ps) \<Rightarrow> execute_table_scan \<delta> ex t ps
       | Inr (FilteredScan t ps p) \<Rightarrow> execute_filtered_scan \<delta> \<epsilon> ex t ps p
       | Inr (IndexScan t ps c v) \<Rightarrow> execute_index_scan \<delta> ex t ps c v
       | Inr (RangeScan t ps c lo hi) \<Rightarrow> execute_range_scan \<delta> ex t ps c lo hi
       | Inr (NestedLoopJoin l r ty jc lps rps) \<Rightarrow>
           qbind (execute \<delta> \<epsilon> ms ex l) (\<lambda>lres. qbind (execute \<delta> \<epsilon> ms ex r) (\<lambda>rres.
             nested_loop_join ty jc lps rps lres rres))
       | Inr (HashJoin l r ty jc lps rps side) \<Rightarrow>
           qbind (execute \<delta> \<epsilon> ms ex l) (\<lambda>lres. qbind (execute \<delta> \<epsilon> ms ex r) (\<lambda>rres.
             hash_join ty jc lps rps side lres rres))
       | Inr (IndexNestedLoopJoin l rt ty jc lps rps index) \<Rightarrow>
           qbind (execute \<delta> \<epsilon> ms ex l) (index_nested_loop_join \<delta> ex rt ty jc lps rps index)
       | Inr (ProjectionPlan input ps) \<Rightarrow> qbind (execute \<delta> \<epsilon> ms ex input) (projection_node ps)
       | Inr (FilterPlan input p) \<Rightarrow> qbind (execute \<delta> \<epsilon> ms ex input) (filter_node p)
       | Inr _ \<Rightarrow> qerr (QOptimizationError ''High-level plan must be materialized before execution''))
      (\<lambda>result. qok (set_elapsed ms result))"
  by pat_completeness auto
termination
  by (relation "measures [\<lambda>(\<delta>, \<epsilon>, ms, ex, plan). high_nodes plan, \<lambda>(\<delta>, \<epsilon>, ms, ex, plan). size plan]")
    (auto dest: materialized)

declare execute.simps [simp del]

end
