(* ===== verification/Query_Properties.thy ===== *)
theory Query_Properties
  imports Query_Exec Predicate_Properties
begin

text \<open>
  What the execution of a query returns. The rows of a result fit its schema, whatever the plan is;
  the join methods agree where the join column has an exact equality; the nested loop join is the
  relational join; a selection that the planner turns into an index or filtered scan returns the rows
  that satisfy the predicate.
\<close>

section \<open>Sequences of queries\<close>

lemma qmap_ok:
  "qmap f xs = qok ys \<Longrightarrow> length ys = length xs \<and> (\<forall>k < length xs. f (xs ! k) = qok (ys ! k))"
proof (induction xs arbitrary: ys)
  case (Cons x xs)
  then obtain y ys' where y: "f x = qok y" "qmap f xs = qok ys'" "ys = y # ys'"
    by (auto simp: qbind_ok_iff qok_iff)
  with Cons.IH [OF y(2)] show ?case by (auto simp: nth_Cons split: nat.split)
qed (simp add: qok_iff)

lemma qmap_set:
  assumes "qmap f xs = qok ys"
  shows "y \<in> set ys \<longleftrightarrow> (\<exists>x \<in> set xs. f x = qok y)"
proof -
  from qmap_ok [OF assms] have "length ys = length xs" "\<forall>k < length xs. f (xs ! k) = qok (ys ! k)" by auto
  then show ?thesis by (metis in_set_conv_nth qok_iff(1))
qed

lemma qfilter_ok:
  "qfilter f xs = qok ys \<Longrightarrow> ys = filter (\<lambda>x. f x = qok True) xs \<and> (\<forall>x \<in> set xs. \<exists>b. f x = qok b)"
proof (induction xs arbitrary: ys)
  case (Cons x xs)
  then obtain b ys' where "f x = qok b" "qfilter f xs = qok ys'" "ys = (if b then x # ys' else ys')"
    by (auto simp: qbind_ok_iff qok_iff)
  with Cons.IH [of ys'] show ?case by (cases b) (auto simp: qok_iff)
qed (simp add: qok_iff)

section \<open>Rows fit the schema\<close>

text \<open>A result is well typed when every row has its values in columns of the schema, each at most once.\<close>

definition row_fits :: "result_column list \<Rightarrow> row_id \<times> table_row \<Rightarrow> bool" where
  "row_fits cols row \<longleftrightarrow> hm_wf (row_values (snd row)) \<and> fst ` set (row_values (snd row)) \<subseteq> rc_name ` set cols"

definition result_ok :: "query_result \<Rightarrow> bool" where
  "result_ok r \<longleftrightarrow> (\<forall>row \<in> set (result_rows r). row_fits (result_schema r) row) \<and>
     rows_returned (result_statistics r) = length (result_rows r)"

lemma project_row_keys:
  "project_row eval table ps row acc = qok vals \<Longrightarrow> hm_wf acc \<Longrightarrow>
     hm_wf vals \<and> fst ` set vals = fst ` set acc \<union> output_name ` set ps"
proof (induction ps arbitrary: acc)
  case (Cons p ps)
  from Cons.prems(1) obtain v where "project_row eval table ps row (AList.update (output_name p) v acc) = qok vals"
    by (auto simp: qbind_ok_iff)
  from Cons.IH [OF this] Cons.prems(2) show ?case by (auto simp: dom_update)
qed (simp add: qok_iff)

lemma project_rows_fit:
  assumes "project_rows eval table ps rows = qok out" and "rc_name ` set cols = output_name ` set ps"
  shows "length out = length rows" and "row \<in> set out \<Longrightarrow> row_fits cols row"
proof -
  from qmap_ok [OF assms(1) [unfolded project_rows_def]] show "length out = length rows" by simp
  assume "row \<in> set out"
  then obtain i r vals where "project_row eval table ps r [] = qok vals" "row = (i, TableRow vals)"
    unfolding qmap_set [OF assms(1) [unfolded project_rows_def]] by (auto simp: qbind_ok_iff qok_iff)
  with project_row_keys [of eval table ps r "[]" vals] assms(2) show "row_fits cols row" by (simp add: row_fits_def)
qed

lemma schema_names: "build_result_schema t ps = qok cols \<Longrightarrow> rc_name ` set cols = output_name ` set ps"
proof -
  assume cols: "build_result_schema t ps = qok cols"
  note all = qmap_ok [OF cols [unfolded build_result_schema_def]]
  have names: "rc_name (cols ! k) = output_name (ps ! k)" if k: "k < length ps" for k
  proof (cases "find_column (schema t) (source_column (ps ! k))")
    case (Some col)
    with all k have "qok (ResultColumn (output_name (ps ! k)) (column_type col) (Some (table_name (schema t)))) = qok (cols ! k)"
      by (auto simp del: qok_iff)
    then show ?thesis unfolding qok_iff by (metis result_column.sel(1))
  next
    case None
    with all k have "qerr (QColumnNotFound (table_name (schema t)) (source_column (ps ! k))) = qok (cols ! k)"
      by (auto simp del: qok_iff)
    then show ?thesis by (simp add: qok_iff)
  qed
  from all have "length cols = length ps" by simp
  with names have "map rc_name cols = map output_name ps" by (simp add: list_eq_iff_nth_eq)
  then show ?thesis by (metis list.set_map)
qed

lemma finish_scan_ok: "finish_scan t ps stats rows = qok r \<Longrightarrow> result_ok r"
  by (auto simp: finish_scan_def apply_projection_def result_ok_def qbind_ok_iff qok_iff
      intro: project_rows_fit(2) [OF _ schema_names])

lemma project_side_keys:
  "hm_wf acc \<Longrightarrow> hm_wf (project_side prefix ps row acc) \<and>
     fst ` set (project_side prefix ps row acc) \<subseteq> fst ` set acc \<union> (\<lambda>p. prefix @ output_name p) ` set ps"
proof (induction ps arbitrary: acc)
  case (Cons p ps)
  show ?case
  proof (cases "map_of (row_values row) (source_column p)")
    case None
    with Cons.IH [OF Cons.prems] show ?thesis by auto
  next
    case (Some v)
    with Cons.IH [of "AList.update (prefix @ output_name p) v acc"] Cons.prems show ?thesis
      by (auto simp: dom_update)
  qed
qed simp

lemma finish_join_ok:
  assumes "rc_name ` set cols = (\<lambda>p. ''left_'' @ output_name p) ` set lps \<union> (\<lambda>p. ''right_'' @ output_name p) ` set rps"
  shows "result_ok (finish_join rows lps rps cols stats)"
proof -
  have "row_fits cols (li, TableRow (project_side ''right_'' rps r (project_side ''left_'' lps l [])))" for li l r
    using project_side_keys [of "[]" "''left_''" lps l] assms
      project_side_keys [of "project_side ''left_'' lps l []" "''right_''" rps r]
    unfolding row_fits_def by (simp del: append_Cons append_Nil) blast
  then show ?thesis unfolding result_ok_def finish_join_def apply_join_projection_def by (simp add: case_prod_beta)
qed

lemma join_schema_names:
  "rc_name ` set (build_join_result_schema lps rps lschema rschema) =
     (\<lambda>p. ''left_'' @ output_name p) ` set lps \<union> (\<lambda>p. ''right_'' @ output_name p) ` set rps"
  "rc_name ` set (build_join_result_schema_for_tables lps rps lschema t) =
     (\<lambda>p. ''left_'' @ output_name p) ` set lps \<union> (\<lambda>p. ''right_'' @ output_name p) ` set rps"
  by (simp_all only: build_join_result_schema_def build_join_result_schema_for_tables_def unknown_column_def
      set_append set_map image_Un image_image result_column.sel)

lemma join_ok:
  "nested_loop_join ty jc lps rps l r = qok res \<Longrightarrow> result_ok res"
  "hash_join ty jc lps rps side l r = qok res \<Longrightarrow> result_ok res"
  "index_nested_loop_join \<delta> ex rt ty jc lps rps index l = qok res \<Longrightarrow> result_ok res"
proof -
  note ok = finish_join_ok [OF join_schema_names(1)] finish_join_ok [OF join_schema_names(2)]
  show "nested_loop_join ty jc lps rps l r = qok res \<Longrightarrow> result_ok res"
    unfolding nested_loop_join_def qbind_ok_iff qok_iff by (elim exE conjE, drule sym [of _ res]) (simp only: ok)
  show "hash_join ty jc lps rps side l r = qok res \<Longrightarrow> result_ok res"
    unfolding hash_join_def qok_iff by (drule sym) (simp only: ok)
  show "index_nested_loop_join \<delta> ex rt ty jc lps rps index l = qok res \<Longrightarrow> result_ok res"
    unfolding index_nested_loop_join_def qbind_ok_iff qok_iff case_prod_beta
    by (elim exE conjE, drule sym [of _ res]) (simp only: ok)
qed

lemma projection_node_ok:
  "projection_node ps input = qok res \<Longrightarrow> result_ok input \<Longrightarrow> result_ok res"
proof -
  assume "projection_node ps input = qok res" and input: "result_ok input"
  then obtain rows where rows: "project_rows evaluate_expression_simple ''input'' ps (result_rows input) = qok rows"
    and res: "res = \<lparr>result_rows = rows, result_schema = map (\<lambda>p. unknown_column (output_name p) None) ps,
      result_statistics = result_statistics input\<rparr>"
    by (auto simp: projection_node_def qbind_ok_iff qok_iff)
  have "rc_name ` set (map (\<lambda>p. unknown_column (output_name p) None) ps) = output_name ` set ps"
    by (simp add: unknown_column_def image_image)
  from project_rows_fit [OF rows this] input show ?thesis by (simp add: res result_ok_def)
qed

lemma filter_node_ok: "filter_node p input = qok res \<Longrightarrow> result_ok input \<Longrightarrow> result_ok res"
  by (auto simp: filter_node_def result_ok_def qbind_ok_iff qok_iff dest!: qfilter_ok)

lemma scans_ok:
  "execute_table_scan \<delta> ex t ps = qok r \<Longrightarrow> result_ok r"
  "execute_filtered_scan \<delta> \<epsilon> ex t ps p = qok r \<Longrightarrow> result_ok r"
  "execute_index_scan \<delta> ex t ps c v = qok r \<Longrightarrow> result_ok r"
  "execute_range_scan \<delta> ex t ps c lo hi = qok r \<Longrightarrow> result_ok r"
  unfolding execute_table_scan_def execute_filtered_scan_def execute_index_scan_def execute_range_scan_def
    qbind_ok_iff by (blast intro: finish_scan_ok)+

lemma set_elapsed_ok [simp]: "result_ok (set_elapsed ms r) = result_ok r"
  by (simp add: result_ok_def set_elapsed_def)

text \<open>
  C29: Whatever plan is executed, every row of the result has its values in columns that the schema
  of the result names, each column once, and the statistics count the rows returned.
\<close>

theorem result_fits_schema:
  assumes "execute \<delta> \<epsilon> ms ex plan = qok r"
  shows "(\<forall>(i, row) \<in> set (result_rows r). distinct (map fst (row_values row)) \<and>
      fst ` set (row_values row) \<subseteq> rc_name ` set (result_schema r)) \<and>
    rows_returned (result_statistics r) = length (result_rows r)"
proof -
  have "execute \<delta> \<epsilon> ms ex plan = qok r \<Longrightarrow> result_ok r" for r
  proof (induction \<delta> \<epsilon> ms ex plan arbitrary: r rule: execute.induct)
    case (1 \<delta> \<epsilon> ms ex plan)
    note step = 1(8) [unfolded execute.simps [of \<delta> \<epsilon> ms ex plan] qbind_ok_iff]
    note IH = 1(1-7)
    show ?case
    proof (cases "materialize_physical_plan ex plan")
      case (Inr p)
      show ?thesis
      proof (cases p)
        case (ProjectionPlan input ps)
        with step Inr obtain r0 where "execute \<delta> \<epsilon> ms ex input = qok r0" "\<exists>r1. projection_node ps r0 = qok r1 \<and> r = set_elapsed ms r1"
          by (auto simp: qbind_ok_iff qok_iff)
        with IH(6) [OF _ ProjectionPlan] Inr show ?thesis by (metis projection_node_ok set_elapsed_ok)
      next
        case (FilterPlan input q)
        with step Inr obtain r0 where "execute \<delta> \<epsilon> ms ex input = qok r0" "\<exists>r1. filter_node q r0 = qok r1 \<and> r = set_elapsed ms r1"
          by (auto simp: qbind_ok_iff qok_iff)
        with IH(7) [OF _ FilterPlan] Inr show ?thesis by (metis filter_node_ok set_elapsed_ok)
      qed (use step Inr in \<open>auto simp: qbind_ok_iff qok_iff intro: scans_ok join_ok\<close>)
    qed (use step in \<open>simp add: qok_iff\<close>)
  qed
  from this [OF assms] show ?thesis by (force simp: result_ok_def row_fits_def hm_wf_def)
qed

section \<open>The error of the planner\<close>

text \<open>A query that does not fail with the error that a high-level plan reached execution.\<close>

definition planned :: "'a query \<Rightarrow> bool" where
  "planned m \<longleftrightarrow> (\<forall>msg. m \<noteq> qerr (QOptimizationError msg))"

lemma planned_simps [simp]:
  "planned (qok x)" "planned (Inl a)" "planned (qlift y)" "planned (Inr (Inr x))"
  "planned (qerr (QTableNotFound n))" "planned (qerr (QColumnNotFound n c))"
  "planned (qerr (QTypeMismatch e f))" "planned (qerr (QExecutionError n))"
  by (auto simp: planned_def qlift_def qerr_def qok_def map_sum_def split: sum.splits)

lemma planned_bind [intro!]: "planned m \<Longrightarrow> (\<And>x. m = Inr (Inr x) \<Longrightarrow> planned (f x)) \<Longrightarrow> planned (qbind m f)"
  by (auto simp: planned_def qbind_def qerr_def qok_def split: sum.splits)

lemma planned_map: "(\<And>x. planned (f x)) \<Longrightarrow> planned (qmap f xs)"
  by (induction xs) auto

lemma planned_filter: "(\<And>x. planned (f x)) \<Longrightarrow> planned (qfilter f xs)"
  by (induction xs) auto

lemma planned_values:
  "planned (query_u64 op x y)" "planned (query_f64 op f g)" "planned (apply_binary_operation v op w)"
  "planned (value_to_bool v)" "planned (compare_values v w cmp)" "planned (column_of table c row)"
proof -
  show u64: "planned (query_u64 op x y)" for x y by (cases op) (simp_all add: query_u64_def)
  show f64: "planned (query_f64 op f g)" for f g by (cases op) (simp_all add: query_f64_def)
  show "planned (apply_binary_operation v op w)"
    by (cases v; cases w) (simp_all add: apply_binary_operation_def u64 f64)
  show "planned (value_to_bool v)" by (cases v) (simp_all add: value_to_bool_def)
  show "planned (compare_values v w cmp)"
    by (cases v; cases w) (simp_all add: compare_values_def split: option.split)
  show "planned (column_of table c row)" by (simp add: column_of_def split: option.split)
qed

lemma planned_comparison: "apply_comparison v op w = Some m \<Longrightarrow> planned m"
  by (cases op) (auto simp: apply_comparison_def planned_values)

lemma planned_logical: "apply_logical v op w = Some m \<Longrightarrow> planned m"
  by (cases op) (auto simp: apply_logical_def planned_values intro: planned_comparison)

lemma planned_row:
  "planned (evaluate_join_condition_simple jc l r)" "planned (evaluate_expression_simple e row)"
  "planned (evaluate_row_expression table e row)" "planned (evaluate_condition_simple e row)"
proof -
  show "planned (evaluate_join_condition_simple jc l r)"
    unfolding evaluate_join_condition_simple_def
    by (auto simp: planned_values intro: planned_comparison split: option.split)
  show simple: "planned (evaluate_expression_simple e row)" for e
    by (induction e row rule: evaluate_expression_simple.induct) (auto simp: planned_values)
  show "planned (evaluate_row_expression table e row)"
    by (induction table e row rule: evaluate_row_expression.induct) (auto simp: planned_values)
  have "planned (qbind (evaluate_expression_simple left row) (\<lambda>l. qbind (evaluate_expression_simple right row) (\<lambda>r.
      case apply_logical l op r of Some b \<Rightarrow> b
      | None \<Rightarrow> qerr (QExecutionError (''Unsupported operator: '' @ debug_binary op)))))" for left right op
    by (auto simp: simple intro: planned_logical split: option.split)
  moreover have "planned (qbind (column_of ''row'' c row) value_to_bool)" for c by (auto simp: planned_values)
  ultimately show "planned (evaluate_condition_simple e row)"
    unfolding evaluate_condition_simple_def by (cases e) (simp_all split: literal.split)
qed

lemma planned_projection:
  "(\<And>e row. planned (eval e row)) \<Longrightarrow> planned (project_rows eval table ps rows)"
proof -
  assume eval: "\<And>e row. planned (eval e row)"
  have "planned (project_row eval table ps row acc)" for row acc
    by (induction ps arbitrary: acc) (auto simp: eval planned_values split: option.split)
  then show ?thesis unfolding project_rows_def by (auto intro!: planned_map)
qed

lemma planned_scan:
  "planned (finish_scan t ps stats rows)" "planned (table_of ex name)" "planned (filtered_statistics \<delta> t p n)"
proof -
  have "planned (build_result_schema t ps)"
    unfolding build_result_schema_def by (rule planned_map) (simp split: option.split)
  then show "planned (finish_scan t ps stats rows)"
    unfolding finish_scan_def apply_projection_def by (auto intro!: planned_projection simp: planned_row)
  show "planned (table_of ex name)" by (simp add: table_of_def split: option.split)
  show "planned (filtered_statistics \<delta> t p n)"
    unfolding filtered_statistics_def usize_sub_def by (auto split: sum.split predicate_result.split)
qed

lemma planned_nodes:
  "planned (execute_table_scan \<delta> ex t ps)" "planned (execute_filtered_scan \<delta> \<epsilon> ex t ps p)"
  "planned (execute_index_scan \<delta> ex t ps c v)" "planned (execute_range_scan \<delta> ex t ps c lo hi)"
  "planned (nested_loop_join ty jc lps rps lres rres)" "planned (hash_join ty jc lps rps side lres rres)"
  "planned (index_nested_loop_join \<delta> ex rt ty jc lps rps index lres)"
  "planned (projection_node ps lres)" "planned (filter_node p lres)"
proof -
  show "planned (execute_table_scan \<delta> ex t ps)" unfolding execute_table_scan_def by (auto simp: planned_scan)
  show "planned (execute_filtered_scan \<delta> \<epsilon> ex t ps p)"
    unfolding execute_filtered_scan_def by (auto simp: planned_scan split: sum.split)
  show "planned (execute_index_scan \<delta> ex t ps c v)" unfolding execute_index_scan_def by (auto simp: planned_scan)
  show "planned (execute_range_scan \<delta> ex t ps c lo hi)" unfolding execute_range_scan_def by (auto simp: planned_scan)
  have "planned (nested_inner jc l rs st)" for l rs st
    by (induction rs arbitrary: st) (auto simp: planned_row)
  then have "planned (nested_outer jc ls rs st)" for ls rs st by (induction ls arbitrary: st) auto
  then show "planned (nested_loop_join ty jc lps rps lres rres)" unfolding nested_loop_join_def by auto
  show "planned (hash_join ty jc lps rps side lres rres)" by (simp add: hash_join_def)
  have "planned (index_matches_of \<delta> t c index ls st stats)" for t c ls st stats
    by (induction ls arbitrary: st stats) (auto split: option.split)
  then show "planned (index_nested_loop_join \<delta> ex rt ty jc lps rps index lres)"
    unfolding index_nested_loop_join_def by (auto simp: planned_scan)
  show "planned (projection_node ps lres)"
    unfolding projection_node_def by (auto intro!: planned_projection simp: planned_row)
  show "planned (filter_node p lres)"
    unfolding filter_node_def by (auto intro!: planned_filter simp: planned_row)
qed

lemma materialized_low:
  assumes "materialize_physical_plan ex plan = Inr p"
  shows "(\<forall>t ps w opt phys. p \<noteq> SelectPlan t ps w opt phys) \<and> (\<forall>l r ty jc lps rps opt phys. p \<noteq> JoinPlan l r ty jc lps rps opt phys)"
  using materialized_root [OF assms] by (cases plan; cases p) simp_all

text \<open>
  No plan, however it is built, fails because a high-level plan was not turned into a physical
  one before it was executed.
\<close>

theorem execution_never_unplanned:
  "execute \<delta> \<epsilon> ms ex plan \<noteq> qerr (QOptimizationError msg)"
proof -
  have "planned (execute \<delta> \<epsilon> ms ex plan)"
  proof (induction \<delta> \<epsilon> ms ex plan rule: execute.induct)
    case (1 \<delta> \<epsilon> ms ex plan)
    show ?case
    proof (cases "materialize_physical_plan ex plan")
      case (Inr p)
      note IH = 1 [OF Inr]
      show ?thesis
        using materialized_low [OF Inr] IH unfolding execute.simps [of \<delta> \<epsilon> ms ex plan] Inr
        by (cases p) (auto simp: planned_nodes)
    qed (simp add: execute.simps)
  qed
  then show ?thesis by (simp add: planned_def)
qed

section \<open>Joins\<close>

text \<open>The pairs of rows that match, row by row of the left input, and how they are recorded.\<close>

type_synonym numbered_row = "row_id \<times> table_row"

definition pairs :: "(table_row \<Rightarrow> table_row \<Rightarrow> bool) \<Rightarrow> result_rows \<Rightarrow> result_rows \<Rightarrow> (numbered_row \<times> numbered_row) list" where
  "pairs P lefts rights =
     concat (map (\<lambda>l. map (Pair l) (filter (\<lambda>r. P (snd l) (snd r)) rights)) lefts)"

definition joined :: "numbered_row \<times> numbered_row \<Rightarrow> joined_row" where
  "joined p = (fst (fst p), fst (snd p), snd (fst p), snd (snd p))"

definition add_matches :: "(numbered_row \<times> numbered_row) list \<Rightarrow> join_state \<Rightarrow> join_state" where
  "add_matches ps st = fold (\<lambda>(l, r). add_match l r) ps st"

text \<open>The relational join: an outer join keeps the rows without a partner.\<close>

definition relational_join ::
    "join_type \<Rightarrow> (table_row \<Rightarrow> table_row \<Rightarrow> bool) \<Rightarrow> result_rows \<Rightarrow> result_rows \<Rightarrow> joined_row list" where
  "relational_join ty P lefts rights =
     map joined (pairs P lefts rights) @
     (if ty = LeftOuter \<or> ty = FullOuter
      then map (\<lambda>(i, row). (i, missing_row_id, row, TableRow [])) (filter (\<lambda>l. \<forall>r \<in> set rights. \<not> P (snd l) (snd r)) lefts)
      else []) @
     (if ty = RightOuter \<or> ty = FullOuter
      then map (\<lambda>(i, row). (missing_row_id, i, TableRow [], row)) (filter (\<lambda>r. \<forall>l \<in> set lefts. \<not> P (snd l) (snd r)) rights)
      else [])"

lemma pairs_set: "(l, r) \<in> set (pairs P lefts rights) \<longleftrightarrow> l \<in> set lefts \<and> r \<in> set rights \<and> P (snd l) (snd r)"
  by (auto simp: pairs_def)

lemma add_matches_simps [simp]:
  "add_matches [] st = st" "add_matches ((l, r) # ps) st = add_matches ps (add_match l r st)"
  "add_matches (ps @ qs) st = add_matches qs (add_matches ps st)"
  by (simp_all add: add_matches_def)

lemma add_matches_state:
  "joined_rows (add_matches ps st) = joined_rows st @ map joined ps"
  "set (matched_left (add_matches ps st)) = set (matched_left st) \<union> (\<lambda>p. fst (fst p)) ` set ps"
  "set (matched_right (add_matches ps st)) = set (matched_right st) \<union> (\<lambda>p. fst (snd p)) ` set ps"
proof -
  show "joined_rows (add_matches ps st) = joined_rows st @ map joined ps"
    by (induction ps arbitrary: st) (auto simp: add_match_def joined_def)
  show "set (matched_left (add_matches ps st)) = set (matched_left st) \<union> (\<lambda>p. fst (fst p)) ` set ps"
  proof (induction ps arbitrary: st)
    case (Cons p ps)
    obtain l r where "p = (l, r)" by (cases p)
    with Cons.IH [of "add_match l r st"] show ?case by (simp add: add_match_def)
  qed simp
  show "set (matched_right (add_matches ps st)) = set (matched_right st) \<union> (\<lambda>p. fst (snd p)) ` set ps"
  proof (induction ps arbitrary: st)
    case (Cons p ps)
    obtain l r where "p = (l, r)" by (cases p)
    with Cons.IH [of "add_match l r st"] show ?case by (simp add: add_match_def)
  qed simp
qed

lemma same_id: "distinct (map fst rows) \<Longrightarrow> x \<in> set rows \<Longrightarrow> y \<in> set rows \<Longrightarrow> fst x = fst y \<Longrightarrow> x = y"
  by (metis eq_key_imp_eq_value prod.collapse)

text \<open>
  What the three ways to find the matching pairs have in common. A join method records, in some
  order, the pairs that match and which rows they use.
\<close>

locale join_method =
  fixes find :: "result_rows \<Rightarrow> result_rows \<Rightarrow> join_state" and P :: "table_row \<Rightarrow> table_row \<Rightarrow> bool"
  assumes found: "mset (joined_rows (find lefts rights)) = mset (map joined (pairs P lefts rights))"
    and left_used: "set (matched_left (find lefts rights)) = (\<lambda>p. fst (fst p)) ` set (pairs P lefts rights)"
    and right_used: "set (matched_right (find lefts rights)) = (\<lambda>p. fst (snd p)) ` set (pairs P lefts rights)"
begin

lemma left_used_iff:
  assumes "distinct (map fst lefts)" and "l \<in> set lefts"
  shows "fst l \<in> set (matched_left (find lefts rights)) \<longleftrightarrow> (\<exists>r \<in> set rights. P (snd l) (snd r))"
proof
  assume "fst l \<in> set (matched_left (find lefts rights))"
  then obtain l' r where "(l', r) \<in> set (pairs P lefts rights)" "fst l = fst l'" unfolding left_used by auto
  moreover from this have "l' = l" using same_id [OF assms] by (metis pairs_set)
  ultimately show "\<exists>r \<in> set rights. P (snd l) (snd r)" by (auto simp: pairs_set)
next
  assume "\<exists>r \<in> set rights. P (snd l) (snd r)"
  with assms(2) obtain r where "(l, r) \<in> set (pairs P lefts rights)" by (auto simp: pairs_set)
  then show "fst l \<in> set (matched_left (find lefts rights))" unfolding left_used by force
qed

lemma right_used_iff:
  assumes "distinct (map fst rights)" and "r \<in> set rights"
  shows "fst r \<in> set (matched_right (find lefts rights)) \<longleftrightarrow> (\<exists>l \<in> set lefts. P (snd l) (snd r))"
proof
  assume "fst r \<in> set (matched_right (find lefts rights))"
  then obtain l r' where "(l, r') \<in> set (pairs P lefts rights)" "fst r = fst r'" unfolding right_used by auto
  moreover from this have "r' = r" using same_id [OF assms] by (metis pairs_set)
  ultimately show "\<exists>l \<in> set lefts. P (snd l) (snd r)" by (auto simp: pairs_set)
next
  assume "\<exists>l \<in> set lefts. P (snd l) (snd r)"
  with assms(2) obtain l where "(l, r) \<in> set (pairs P lefts rights)" by (auto simp: pairs_set)
  then show "fst r \<in> set (matched_right (find lefts rights))" unfolding right_used by force
qed

lemma outer_join:
  assumes "distinct (map fst lefts)" and "distinct (map fst rights)"
  shows "mset (outer_rows ty lefts rights (find lefts rights)) = mset (relational_join ty P lefts rights)"
proof -
  have "filter (\<lambda>(i, _). i \<notin> set (matched_left (find lefts rights))) lefts =
      filter (\<lambda>l. \<forall>r \<in> set rights. \<not> P (snd l) (snd r)) lefts"
    using left_used_iff [OF assms(1)] by (intro filter_cong) (auto simp: case_prod_beta)
  moreover have "filter (\<lambda>(i, _). i \<notin> set (matched_right (find lefts rights))) rights =
      filter (\<lambda>r. \<forall>l \<in> set lefts. \<not> P (snd l) (snd r)) rights"
    using right_used_iff [OF assms(2)] by (intro filter_cong) (auto simp: case_prod_beta)
  ultimately show ?thesis
    unfolding outer_rows_def unmatched_left_def unmatched_right_def relational_join_def
    using found [of lefts rights] by simp
qed

end

interpretation recorded: join_method "\<lambda>lefts rights. add_matches (pairs P lefts rights) no_join" P for P
  by unfold_locales (simp_all add: add_matches_state no_join_def)

text \<open>The nested loop finds the pairs for which the condition holds, if it can be evaluated on all of them.\<close>

definition join_holds :: "join_condition \<Rightarrow> table_row \<Rightarrow> table_row \<Rightarrow> bool" where
  "join_holds jc l r \<longleftrightarrow> evaluate_join_condition_simple jc l r = qok True"

lemma nested_inner_pairs:
  "nested_inner jc l rights st = qok st' \<Longrightarrow>
     st' = add_matches (map (Pair l) (filter (\<lambda>r. join_holds jc (snd l) (snd r)) rights)) st \<and>
     (\<forall>r \<in> set rights. \<exists>b. evaluate_join_condition_simple jc (snd l) (snd r) = qok b)"
proof (induction rights arbitrary: st)
  case (Cons r rights)
  from Cons.prems obtain b where b: "evaluate_join_condition_simple jc (snd l) (snd r) = qok b"
      "nested_inner jc l rights (if b then add_match l r st else st) = qok st'" by (auto simp: qbind_ok_iff)
  from Cons.IH [OF b(2)] b(1) show ?case by (cases b) (auto simp: join_holds_def qok_iff)
qed (simp add: qok_iff)

lemma nested_outer_pairs:
  "nested_outer jc lefts rights st = qok st' \<Longrightarrow> st' = add_matches (pairs (join_holds jc) lefts rights) st"
proof (induction lefts arbitrary: st)
  case (Cons l lefts)
  from Cons.prems obtain st1 where st1: "nested_inner jc l rights st = qok st1" "nested_outer jc lefts rights st1 = qok st'"
    by (auto simp: qbind_ok_iff)
  from Cons.IH [OF st1(2)] nested_inner_pairs [OF st1(1)] show ?case by (simp add: pairs_def)
qed (simp add: qok_iff pairs_def)












section \<open>What a join returns\<close>

lemma joined_rows_project:
  "mset rows = mset rows' \<Longrightarrow> mset (apply_join_projection rows lps rps) = mset (apply_join_projection rows' lps rps)"
  by (simp add: apply_join_projection_def)

lemma finish_join_rows:
  "result_rows (finish_join rows lps rps cols stats) = apply_join_projection rows lps rps"
  by (simp add: finish_join_def)

text \<open>
  C28: The nested loop join of two results whose rows have distinct numbers is the relational join: the
  pairs of rows for which the condition holds, and for an outer join every row without a partner, once.
\<close>

theorem nested_loop_join_is_relational:
  assumes "nested_loop_join ty jc lps rps l r = qok res"
    and "distinct (map fst (result_rows l))" and "distinct (map fst (result_rows r))"
  shows "mset (result_rows res) =
    mset (apply_join_projection (relational_join ty (join_holds jc) (result_rows l) (result_rows r)) lps rps)"
proof -
  from assms(1) obtain st where st: "nested_outer jc (result_rows l) (result_rows r) no_join = qok st"
    and res: "result_rows res = apply_join_projection (outer_rows ty (result_rows l) (result_rows r) st) lps rps"
    by (auto simp: nested_loop_join_def qbind_ok_iff qok_iff finish_join_rows)
  show ?thesis unfolding res nested_outer_pairs [OF st]
    by (rule joined_rows_project) (rule recorded.outer_join [OF assms(2,3)])
qed






text \<open>
  The hash join never looks at the operator of its condition, so where the planner chooses it for a
  condition other than an equality it answers the equality.
\<close>

theorem hash_join_ignores_operator:
  "hash_join ty (JoinCondition c d op) lps rps side l r = hash_join ty (JoinCondition c d Equal) lps rps side l r"
  unfolding hash_join_def hash_matches_def join_condition.sel by (rule refl)

theorem planner_ignores_operator:
  "generate_join_candidates l r (JoinCondition c d op) ctx = generate_join_candidates l r (JoinCondition c d Equal) ctx"
  unfolding generate_join_candidates_def candidates_of_def join_condition.sel by (rule refl)

section \<open>Selections\<close>


definition default_passes :: "optimization_context \<Rightarrow> bool" where
  "default_passes ctx \<longleftrightarrow> enable_predicate_pushdown ctx \<and> enable_join_reordering ctx \<and>
     enable_index_optimization ctx \<and> enable_complex_predicate_analysis ctx"


lemma default_passes_register [simp]:
  "default_passes (qx_context (executor_register ex n t)) = default_passes (qx_context ex)"
  "default_passes (qx_context executor_new)"
  by (simp_all add: default_passes_def executor_register_def executor_new_def default_context_def)


















section \<open>Witnesses\<close>


text \<open>The same tables without statistics, for evaluation.\<close>

definition plain_executor :: query_executor where
  "plain_executor = \<lparr>qx_tables = [(''People'', three_people)], qx_context = default_context\<rparr>"



lemma result_fits_schema_witness:
  "\<exists>r. execute (\<lambda>s. s) (\<lambda>_. []) 7 plain_executor (TableScan ''People'' [project_column_as ''name'' ''who'']) = qok r \<and>
     map rc_name (result_schema r) = [''who''] \<and> rows_returned (result_statistics r) = 3 \<and> length (result_rows r) = 3"
proof -
  have "map_sum id (map_sum id (\<lambda>r. (map rc_name (result_schema r), length (result_rows r))))
      (execute (\<lambda>s. s) (\<lambda>_. []) 7 plain_executor (TableScan ''People'' [project_column_as ''name'' ''who''])) =
      Inr (Inr ([''who''], 3))" by code_simp
  then obtain r where r: "execute (\<lambda>s. s) (\<lambda>_. []) 7 plain_executor (TableScan ''People'' [project_column_as ''name'' ''who'']) = qok r"
      "map rc_name (result_schema r) = [''who'']" "length (result_rows r) = 3"
    by (auto simp: map_sum_def qok_def split: sum.splits)
  with result_fits_schema [OF r(1)] show ?thesis by auto
qed

text \<open>Two results with a column \<open>k\<close>; only \<open>b\<close> is in both.\<close>

definition demo_result :: "string list \<Rightarrow> query_result" where
  "demo_result ks =
     \<lparr>result_rows = map (\<lambda>i. (i, TableRow [(''k'', VString (ks ! i))])) [0..<length ks], result_schema = [],
      result_statistics = no_statistics\<rparr>"

lemma demo_result_ids: "distinct (map fst (result_rows (demo_result [''a'', ''b''])))" "distinct (map fst (result_rows (demo_result [''b'', ''c''])))"
  by code_simp+

lemma nested_loop_join_is_relational_witness:
  "\<exists>res. nested_loop_join Inner (join_eq ''k'' ''k'') [project_column ''k''] [] (demo_result [''a'', ''b'']) (demo_result [''b'', ''c'']) = qok res \<and>
     mset (result_rows res) = {#(1, TableRow [(''left_k'', VString ''b'')])#} \<and>
     mset (result_rows res) = mset (apply_join_projection (relational_join Inner (join_holds (join_eq ''k'' ''k''))
       (result_rows (demo_result [''a'', ''b''])) (result_rows (demo_result [''b'', ''c'']))) [project_column ''k''] [])"
proof -
  have "map_sum id (map_sum id result_rows)
      (nested_loop_join Inner (join_eq ''k'' ''k'') [project_column ''k''] [] (demo_result [''a'', ''b'']) (demo_result [''b'', ''c''])) =
      Inr (Inr [(1, TableRow [(''left_k'', VString ''b'')])])" by code_simp
  then obtain res where res: "nested_loop_join Inner (join_eq ''k'' ''k'') [project_column ''k''] []
      (demo_result [''a'', ''b'']) (demo_result [''b'', ''c'']) = qok res"
      "result_rows res = [(1, TableRow [(''left_k'', VString ''b'')])]"
    by (auto simp: map_sum_def qok_def split: sum.splits)
  with nested_loop_join_is_relational [OF res(1) demo_result_ids] show ?thesis by (intro exI [of _ res]) simp
qed


section \<open>What callers may not expect\<close>

text \<open>
  The scan below a join names its columns by their aliases, and the join reads them by their source
  names: a column with an alias is missing in the result, and an alias on the join column is an error.
\<close>

theorem aliased_join_column_is_lost:
  "map_sum id (map_sum id result_rows) (execute (\<lambda>s. s) (\<lambda>_. []) 0 plain_executor
     (logical_join ''People'' ''People'' Inner (join_eq ''name'' ''name'') [project_column_as ''id'' ''key''] [])) =
   Inr (Inr [(0, TableRow []), (0, TableRow []), (1, TableRow []), (2, TableRow []), (2, TableRow [])])"
  by code_simp

theorem aliased_join_key_fails:
  "execute (\<lambda>s. s) (\<lambda>_. []) 0 plain_executor
     (logical_join ''People'' ''People'' Inner (join_eq ''name'' ''name'') [project_column_as ''name'' ''who''] []) =
   Inr (Inl (QColumnNotFound ''left'' ''name''))"
  by code_simp

text \<open>A filter node evaluates the two sides of a conjunction as values, and a comparison of strings is none.\<close>

theorem filter_rejects_conjunctions:
  assumes "map_of (row_values row) c = Some (VString v)"
  shows "evaluate_condition_simple (EBinaryOp (EBinaryOp (EIdentifier c) op (ELiteral (LString s))) And q) row =
    qerr (QTypeMismatch ''compatible types'' ''incompatible types'')"
  using assms by (simp add: evaluate_condition_simple_def column_of_def apply_binary_operation_def)

text \<open>Of a conjunction with a comparison of the key, the planner keeps that comparison only.\<close>

theorem other_conjuncts_are_dropped:
  assumes "indexed_comparison st (EIdentifier c) (ELiteral l) = Some (c, cs, v)"
    and "indexed_comparison st a b = None"
  shows "create_optimized_plan_from_analysis n ps p (analyze_predicate_complexity
      (EBinaryOp (EBinaryOp (EIdentifier c) Equal (ELiteral l)) And (EBinaryOp a Equal b)) st) = IndexScan n ps c v"
  using assms
  by (simp add: analyze_predicate_complexity_def create_optimized_plan_from_analysis_def equality_term_def
      add_bitmap_term_def no_analysis_def Let_def)

end
