(* ===== verification/Query_Legacy.thy ===== *)
theory Query_Legacy
  imports Query_Properties
begin

text \<open>
  The older entry points that \<open>src/query_executor.rs\<close> keeps beside \<open>execute\<close>: selection and joins
  straight on the tables, and composed queries. Their joins find the same pairs of rows as the plans do.
\<close>

section \<open>Conditions\<close>

definition apply_where_operator :: "column_value \<Rightarrow> binary_operator \<Rightarrow> column_value \<Rightarrow> bool query" where
  "apply_where_operator left op right =
     (case apply_logical left op right of
        Some b \<Rightarrow> b
      | None \<Rightarrow> qerr (QExecutionError (''Unsupported operator in WHERE clause: '' @ debug_binary op)))"

definition apply_where_unary :: "unary_operator \<Rightarrow> column_value \<Rightarrow> bool query" where
  "apply_where_unary op v =
     (case op of
        Not \<Rightarrow> qbind (value_to_bool v) (\<lambda>b. qok (\<not> b))
      | _ \<Rightarrow> qerr (QExecutionError (''Unsupported unary operator: '' @ debug_unary op)))"

definition evaluate_expression_as_bool :: "string \<Rightarrow> expression \<Rightarrow> table_row \<Rightarrow> bool query" where
  "evaluate_expression_as_bool table e row = qbind (evaluate_row_expression table e row) value_to_bool"

definition evaluate_condition :: "string \<Rightarrow> expression \<Rightarrow> table_row \<Rightarrow> bool query" where
  "evaluate_condition table e row =
     (case e of
        EBinaryOp left op right \<Rightarrow>
          qbind (evaluate_row_expression table left row) (\<lambda>l.
            qbind (evaluate_row_expression table right row) (\<lambda>r. apply_where_operator l op r))
      | EUnaryOp op operand \<Rightarrow> qbind (evaluate_row_expression table operand row) (apply_where_unary op)
      | _ \<Rightarrow> evaluate_expression_as_bool table e row)"

section \<open>Selection\<close>

text \<open>
  \<open>evaluate_condition(..).unwrap_or(false)\<close> inside a scan; where the evaluation aborts, so does the
  scan, at the first row in question.
\<close>

fun scan_where ::
    "(string \<Rightarrow> string) \<Rightarrow> table_runtime \<Rightarrow> expression \<Rightarrow> row_id list \<Rightarrow> result_rows \<Rightarrow> abort + result_rows" where
  "scan_where \<delta> t p [] result = Inr result"
| "scan_where \<delta> t p (i # is) result =
     (if i \<notin> set (deleted_rows t) then
        (case get_row \<delta> t i of
           Inl a \<Rightarrow> Inl a
         | Inr (Inr row) \<Rightarrow>
             (case evaluate_condition (table_name (schema t)) p row of
                Inl a \<Rightarrow> Inl a
              | Inr (Inl _) \<Rightarrow> scan_where \<delta> t p is result
              | Inr (Inr b) \<Rightarrow> scan_where \<delta> t p is (if b then result @ [(i, row)] else result))
         | Inr (Inl _) \<Rightarrow> scan_where \<delta> t p is result)
      else scan_where \<delta> t p is result)"

definition bounds_of :: "binary_operator \<Rightarrow> column_value \<Rightarrow> column_value option \<times> column_value option" where
  "bounds_of op v = (if op = Greater \<or> op = GreaterEqual then (Some v, None) else (None, Some v))"

definition execute_optimized_scan ::
    "(string \<Rightarrow> string) \<Rightarrow> table_runtime \<Rightarrow> expression \<Rightarrow> query_statistics \<Rightarrow> (result_rows \<times> query_statistics) query" where
  "execute_optimized_scan \<delta> t p stats =
     (let fallback = qbind (qlift (scan_where \<delta> t p [0..<next_row_id t] [])) (\<lambda>rows.
            qok (rows, stats\<lparr>rows_scanned := length rows\<rparr>))
      in case p of
        EBinaryOp (EIdentifier c) op (ELiteral l) \<Rightarrow>
          if op = Equal then
            qbind (qlift (scan_by_column_value \<delta> t c (literal_value l))) (\<lambda>rows.
              qok (rows, stats\<lparr>rows_scanned := length rows, index_seeks := (if length rows \<le> 1 then 1 else 0)\<rparr>))
          else if op \<in> {Greater, GreaterEqual, Less, LessEqual} then
            qbind (qlift (case bounds_of op (literal_value l) of (lo, hi) \<Rightarrow> scan_by_column_range \<delta> t c lo hi)) (\<lambda>rows.
              qok (rows, stats\<lparr>rows_scanned := length rows\<rparr>))
          else fallback
      | _ \<Rightarrow> fallback)"

definition apply_where_filter ::
    "result_rows \<Rightarrow> expression \<Rightarrow> table_runtime \<Rightarrow> query_statistics \<Rightarrow> (result_rows \<times> query_statistics) query" where
  "apply_where_filter rows p t stats =
     qbind (qfilter (\<lambda>(_, row). evaluate_condition (table_name (schema t)) p row) rows) (\<lambda>kept.
       qok (kept, stats\<lparr>rows_filtered := length rows - length kept\<rparr>))"

definition execute_select ::
    "(string \<Rightarrow> string) \<Rightarrow> query_executor \<Rightarrow> string \<Rightarrow> projection list \<Rightarrow> where_clause option \<Rightarrow> query_result query" where
  "execute_select \<delta> ex n ps w =
     qbind (table_of ex n) (\<lambda>t.
       qbind (case w of
                Some clause \<Rightarrow> execute_optimized_scan \<delta> t (wc_condition clause) no_statistics
              | None \<Rightarrow> qbind (qlift (scan_all \<delta> t)) (\<lambda>rows. qok (rows, no_statistics\<lparr>rows_scanned := length rows\<rparr>)))
         (\<lambda>(rows, stats). finish_scan t ps (stats\<lparr>rows_filtered := 0\<rparr>) rows))"

section \<open>Joins\<close>

definition evaluate_join_condition ::
    "join_condition \<Rightarrow> table_row \<Rightarrow> table_row \<Rightarrow> table_runtime \<Rightarrow> table_runtime \<Rightarrow> bool query" where
  "evaluate_join_condition jc lrow rrow lt rt =
     qbind (column_of (table_name (schema lt)) (left_column jc) lrow) (\<lambda>l.
       qbind (column_of (table_name (schema rt)) (right_column jc) rrow) (\<lambda>r.
         apply_where_operator l (join_operator jc) r))"

definition null_value :: "type \<Rightarrow> column_value" where
  "null_value ty =
     (case ty of
        TIdentifier n _ \<Rightarrow>
          (if n = ''u64'' then VU64 0 else if n = ''bool'' then VBool False else if n = ''f64'' then VF64 0 else VString '''')
      | _ \<Rightarrow> VString '''')"

definition create_null_row :: "table_runtime \<Rightarrow> table_row" where
  "create_null_row t =
     TableRow (fold (\<lambda>col. AList.update (col_name col) (null_value (column_type col))) (columns (schema t)) [])"

definition get_join_input_rows :: "(string \<Rightarrow> string) \<Rightarrow> table_runtime \<Rightarrow> string \<Rightarrow> abort + result_rows" where
  "get_join_input_rows \<delta> t c =
     (if pk_column (primary_index t) = Some c then scan_all \<delta> t
      else fold (\<lambda>(i, item) acc. case acc of
               Inl a \<Rightarrow> Inl a
             | Inr rows \<Rightarrow> (case item of Inl a \<Rightarrow> Inl a | Inr row \<Rightarrow> Inr (rows @ [(i, row)])))
             (iter_rows \<delta> t) (Inr []))"

text \<open>The rows of one side that match a row of the other side, in order.\<close>

definition matches_of :: "(table_row \<Rightarrow> bool query) \<Rightarrow> result_rows \<Rightarrow> result_rows query" where
  "matches_of holds rows = qfilter (\<lambda>(_, row). holds row) rows"

definition execute_inner_join ::
    "result_rows \<Rightarrow> result_rows \<Rightarrow> join_condition \<Rightarrow> table_runtime \<Rightarrow> table_runtime \<Rightarrow> joined_row list query" where
  "execute_inner_join lefts rights jc lt rt =
     qbind (qmap (\<lambda>l. qbind (matches_of (\<lambda>r. evaluate_join_condition jc (snd l) r lt rt) rights) (\<lambda>rs.
         qok (map (\<lambda>r. joined (l, r)) rs))) lefts) (\<lambda>rows. qok (concat rows))"

definition execute_left_outer_join ::
    "result_rows \<Rightarrow> result_rows \<Rightarrow> join_condition \<Rightarrow> table_runtime \<Rightarrow> table_runtime \<Rightarrow> joined_row list query" where
  "execute_left_outer_join lefts rights jc lt rt =
     qbind (qmap (\<lambda>l. qbind (matches_of (\<lambda>r. evaluate_join_condition jc (snd l) r lt rt) rights) (\<lambda>rs.
         qok (if rs = [] then [(fst l, missing_row_id, snd l, create_null_row rt)] else map (\<lambda>r. joined (l, r)) rs))) lefts)
       (\<lambda>rows. qok (concat rows))"

definition execute_right_outer_join ::
    "result_rows \<Rightarrow> result_rows \<Rightarrow> join_condition \<Rightarrow> table_runtime \<Rightarrow> table_runtime \<Rightarrow> joined_row list query" where
  "execute_right_outer_join lefts rights jc lt rt =
     qbind (qmap (\<lambda>r. qbind (matches_of (\<lambda>l. evaluate_join_condition jc l (snd r) lt rt) lefts) (\<lambda>ls.
         qok (if ls = [] then [(missing_row_id, fst r, create_null_row lt, snd r)] else map (\<lambda>l. joined (l, r)) ls))) rights)
       (\<lambda>rows. qok (concat rows))"

definition execute_full_outer_join ::
    "result_rows \<Rightarrow> result_rows \<Rightarrow> join_condition \<Rightarrow> table_runtime \<Rightarrow> table_runtime \<Rightarrow> joined_row list query" where
  "execute_full_outer_join lefts rights jc lt rt =
     qbind (execute_left_outer_join lefts rights jc lt rt) (\<lambda>lrows.
       qbind (execute_right_outer_join lefts rights jc lt rt) (\<lambda>rrows.
         qok (lrows @ filter (\<lambda>(li, _). li = missing_row_id) rrows)))"

definition execute_join ::
    "(string \<Rightarrow> string) \<Rightarrow> query_executor \<Rightarrow> string \<Rightarrow> string \<Rightarrow> join_type \<Rightarrow> join_condition \<Rightarrow> projection list \<Rightarrow>
       projection list \<Rightarrow> query_result query" where
  "execute_join \<delta> ex ln rn ty jc lps rps =
     qbind (table_of ex ln) (\<lambda>lt. qbind (table_of ex rn) (\<lambda>rt.
       qbind (qlift (get_join_input_rows \<delta> lt (left_column jc))) (\<lambda>lefts.
         qbind (qlift (get_join_input_rows \<delta> rt (right_column jc))) (\<lambda>rights.
           qbind ((case ty of
                     Inner \<Rightarrow> execute_inner_join
                   | LeftOuter \<Rightarrow> execute_left_outer_join
                   | RightOuter \<Rightarrow> execute_right_outer_join
                   | FullOuter \<Rightarrow> execute_full_outer_join) lefts rights jc lt rt) (\<lambda>rows.
             qok (finish_join rows lps rps (build_join_result_schema_for_tables lps rps [] rt)
               (no_statistics\<lparr>rows_scanned := length lefts + length rights\<rparr>)))))))"

section \<open>Composed queries\<close>

text \<open>
  A filter of a composed query names the errors of its condition after any table of the executor, and
  drops them; \<open>tables.values().next().unwrap()\<close> panics for each row when there is no table.
\<close>

definition condition_holds :: "query_executor \<Rightarrow> expression \<Rightarrow> table_row \<Rightarrow> bool query" where
  "condition_holds ex p row =
     (case qx_tables ex of
        [] \<Rightarrow> Inl UnwrapOnNone
      | (_, t) # _ \<Rightarrow>
          (case evaluate_condition (table_name (schema t)) p row of
             Inl a \<Rightarrow> Inl a
           | Inr (Inl _) \<Rightarrow> qok False
           | Inr (Inr b) \<Rightarrow> qok b))"

definition apply_operation_to_result ::
    "(string \<Rightarrow> string) \<Rightarrow> (table_error \<Rightarrow> string) \<Rightarrow> u64 \<Rightarrow> query_executor \<Rightarrow> query_result \<Rightarrow> query_plan \<Rightarrow> query_result query" where
  "apply_operation_to_result \<delta> \<epsilon> ms ex r op =
     (case op of
        FilterPlan _ p \<Rightarrow>
          qbind (qfilter (\<lambda>(_, row). condition_holds ex p row) (result_rows r)) (\<lambda>rows.
            qok (r\<lparr>result_rows := rows, result_statistics := (result_statistics r)\<lparr>rows_returned := length rows\<rparr>\<rparr>))
      | _ \<Rightarrow> execute \<delta> \<epsilon> ms ex op)"

definition final_column :: "result_column list \<Rightarrow> projection \<Rightarrow> result_column" where
  "final_column cols p =
     ResultColumn (output_name p)
       (case List.find (\<lambda>col. rc_name col = source_column p) cols of
          Some col \<Rightarrow> rc_type col
        | None \<Rightarrow> TIdentifier ''String'' []) None"

text \<open>Transformations are ignored here: the source column is copied in either case.\<close>

definition apply_final_projection :: "query_result \<Rightarrow> projection list \<Rightarrow> query_result query" where
  "apply_final_projection r ps =
     qbind (project_rows (\<lambda>_ _. qerr (QExecutionError [])) ''intermediate_result''
              (map (\<lambda>p. ProjectField (source_column p) (alias_name p) None) ps) (result_rows r)) (\<lambda>rows.
       qok (r\<lparr>result_rows := rows, result_schema := map (final_column (result_schema r)) ps,
              result_statistics := (result_statistics r)\<lparr>rows_returned := length rows\<rparr>\<rparr>))"

fun pipeline ::
    "(string \<Rightarrow> string) \<Rightarrow> (table_error \<Rightarrow> string) \<Rightarrow> u64 \<Rightarrow> query_executor \<Rightarrow> query_plan list \<Rightarrow> query_result \<Rightarrow> query_result query" where
  "pipeline \<delta> \<epsilon> ms ex [] r = qok r"
| "pipeline \<delta> \<epsilon> ms ex (op # ops) r = qbind (apply_operation_to_result \<delta> \<epsilon> ms ex r op) (pipeline \<delta> \<epsilon> ms ex ops)"

definition execute_composed ::
    "(string \<Rightarrow> string) \<Rightarrow> (table_error \<Rightarrow> string) \<Rightarrow> u64 \<Rightarrow> query_executor \<Rightarrow> query_plan list \<Rightarrow> projection list \<Rightarrow>
       query_result query" where
  "execute_composed \<delta> \<epsilon> ms ex operations final =
     (case operations of
        [] \<Rightarrow> qerr (QExecutionError ''No operations in composed query'')
      | op # ops \<Rightarrow>
          qbind (execute \<delta> \<epsilon> ms ex op) (\<lambda>r. qbind (pipeline \<delta> \<epsilon> ms ex ops r) (\<lambda>r'.
            if final = [] then qok r' else apply_final_projection r' final)))"

section \<open>The joins of both kinds agree\<close>

lemma join_condition_agrees:
  assumes "evaluate_join_condition jc l r lt rt = qok b" and "join_operator jc \<noteq> And" and "join_operator jc \<noteq> Or"
  shows "b \<longleftrightarrow> join_holds jc l r"
proof -
  from assms(1) obtain v w where v: "map_of (row_values l) (left_column jc) = Some v"
      "map_of (row_values r) (right_column jc) = Some w" "apply_where_operator v (join_operator jc) w = qok b"
    by (auto simp: evaluate_join_condition_def column_of_def qbind_ok_iff qok_iff split: option.splits)
  from v(3) assms(2,3) have "apply_comparison v (join_operator jc) w = Some (qok b)"
    by (cases "join_operator jc") (auto simp: apply_where_operator_def apply_logical_def apply_comparison_def qok_iff)
  with v show ?thesis
    by (simp add: join_holds_def evaluate_join_condition_simple_def column_of_def qok_iff)
qed

lemma matches_agree:
  assumes "matches_of (\<lambda>r. evaluate_join_condition jc l r lt rt) rights = qok rs"
    and "join_operator jc \<noteq> And" and "join_operator jc \<noteq> Or"
  shows "rs = filter (\<lambda>r. join_holds jc l (snd r)) rights"
proof -
  from qfilter_ok [OF assms(1) [unfolded matches_of_def]]
  have rs: "rs = filter (\<lambda>x. (case x of (_, r) \<Rightarrow> evaluate_join_condition jc l r lt rt) = qok True) rights"
    and total: "\<forall>x \<in> set rights. \<exists>b. (case x of (_, r) \<Rightarrow> evaluate_join_condition jc l r lt rt) = qok b" by auto
  have "(evaluate_join_condition jc l (snd x) lt rt = qok True) = join_holds jc l (snd x)" if "x \<in> set rights" for x
  proof -
    from total that obtain b where b: "evaluate_join_condition jc l (snd x) lt rt = qok b" by (auto simp: case_prod_beta)
    from join_condition_agrees [OF b assms(2,3)] b show ?thesis by (simp add: qok_iff)
  qed
  then show ?thesis unfolding rs by (intro filter_cong) (auto simp: case_prod_beta)
qed

lemma qmap_concat:
  assumes "qmap f xs = qok ys" and "\<And>x y. x \<in> set xs \<Longrightarrow> f x = qok y \<Longrightarrow> y = g x"
  shows "ys = map g xs"
  using qmap_ok [OF assms(1)] assms(2) by (auto simp: list_eq_iff_nth_eq)

theorem legacy_inner_join_agrees:
  assumes "execute_inner_join lefts rights jc lt rt = qok rows" and "join_operator jc \<noteq> And" and "join_operator jc \<noteq> Or"
  shows "rows = map joined (pairs (join_holds jc) lefts rights)"
proof -
  from assms(1) obtain found where found: "qmap (\<lambda>l. qbind (matches_of (\<lambda>r. evaluate_join_condition jc (snd l) r lt rt) rights)
      (\<lambda>rs. qok (map (\<lambda>r. joined (l, r)) rs))) lefts = qok found" and rows: "rows = concat found"
    by (auto simp: execute_inner_join_def qbind_ok_iff qok_iff)
  have "found = map (\<lambda>l. map (\<lambda>r. joined (l, r)) (filter (\<lambda>r. join_holds jc (snd l) (snd r)) rights)) lefts"
    by (rule qmap_concat [OF found]) (auto simp: qbind_ok_iff qok_iff dest!: matches_agree [OF _ assms(2,3)])
  then show ?thesis by (simp add: rows pairs_def map_concat comp_def)
qed

end
