(* ===== verification/Resource_Graph.thy ===== *)
theory Resource_Graph
  imports Prelude
begin

text \<open>
  \<open>ResourceDependencyGraph\<close> of \<open>src/resource_lifecycle.rs\<close>: the dependencies between
  resources, their reverse, and the two searches over them. \<open>has_cycle\<close> threads one
  \<open>visited\<close> set through all its starting points; \<open>find_cycle_to_task\<close>, the manager's
  deadlock detection, keeps only the nodes of the path it is on. Both are shown exact.
\<close>

section \<open>The graph\<close>

type_synonym u32 = "32 word"

record resource_dependency_graph =
  rg_dependencies :: "(string, string hset) hmap"
  rg_dependents :: "(string, string hset) hmap"
  rg_levels :: "(string, u32) hmap"

definition resource_graph_new :: resource_dependency_graph where
  "resource_graph_new = \<lparr>rg_dependencies = [], rg_dependents = [], rg_levels = []\<rparr>"

text \<open>\<open>map.entry(k).or_insert(v)\<close>, and \<open>map.entry(k).or_insert_with(HashSet::new).insert(x)\<close>.\<close>

definition or_insert :: "'k \<Rightarrow> 'v \<Rightarrow> ('k, 'v) hmap \<Rightarrow> ('k, 'v) hmap" where
  "or_insert k v m = (if hm_contains m k then m else AList.update k v m)"

definition entry_insert :: "'k \<Rightarrow> 'a \<Rightarrow> ('k, 'a hset) hmap \<Rightarrow> ('k, 'a hset) hmap" where
  "entry_insert k x m = AList.update k (List.insert x (case map_of m k of Some s \<Rightarrow> s | None \<Rightarrow> [])) m"

definition entry_remove :: "'k \<Rightarrow> 'a \<Rightarrow> ('k, 'a hset) hmap \<Rightarrow> ('k, 'a hset) hmap" where
  "entry_remove k x m = (case map_of m k of Some s \<Rightarrow> AList.update k (removeAll x s) m | None \<Rightarrow> m)"

definition graph_add_dependency :: "string \<Rightarrow> string \<Rightarrow> resource_dependency_graph \<Rightarrow> resource_dependency_graph" where
  "graph_add_dependency resource dependency g =
     g\<lparr>rg_dependencies := entry_insert resource dependency (rg_dependencies g),
       rg_dependents := entry_insert dependency resource (rg_dependents g),
       rg_levels := or_insert dependency 0 (or_insert resource 0 (rg_levels g))\<rparr>"

definition graph_remove_dependency :: "string \<Rightarrow> string \<Rightarrow> resource_dependency_graph \<Rightarrow> resource_dependency_graph" where
  "graph_remove_dependency resource dependency g =
     g\<lparr>rg_dependencies := entry_remove resource dependency (rg_dependencies g),
       rg_dependents := entry_remove dependency resource (rg_dependents g)\<rparr>"

text \<open>The successors of a node, and the relation they make.\<close>

definition deps_at :: "(string, string hset) hmap \<Rightarrow> string \<Rightarrow> string set" where
  "deps_at deps r = (case map_of deps r of Some s \<Rightarrow> set s | None \<Rightarrow> {})"

definition depends :: "(string, string hset) hmap \<Rightarrow> (string \<times> string) set" where
  "depends deps = {(a, b). b \<in> deps_at deps a}"

lemma depends_iff: "(a, b) \<in> depends deps \<longleftrightarrow> b \<in> deps_at deps a"
  by (simp add: depends_def)

lemma deps_at_simps [simp]:
  "map_of deps r = Some s \<Longrightarrow> deps_at deps r = set s"
  "map_of deps r = None \<Longrightarrow> deps_at deps r = {}"
  by (simp_all add: deps_at_def)

lemma deps_at_insert: "deps_at (entry_insert r d deps) x = deps_at deps x \<union> (if x = r then {d} else {})"
  by (auto simp: deps_at_def entry_insert_def hash_simps split: option.splits)

lemma deps_at_remove: "deps_at (entry_remove r d deps) x = deps_at deps x - (if x = r then {d} else {})"
  by (auto simp: deps_at_def entry_remove_def hash_simps split: option.splits)

text \<open>\<open>dependents\<close> is the reverse of \<open>dependencies\<close>; the two operations keep it so.\<close>

definition graph_consistent :: "resource_dependency_graph \<Rightarrow> bool" where
  "graph_consistent g \<longleftrightarrow> (depends (rg_dependents g) = (depends (rg_dependencies g))\<inverse>)"

lemma depends_insert: "depends (entry_insert r d deps) = insert (r, d) (depends deps)"
  by (auto simp: depends_def deps_at_insert split: if_splits)

lemma depends_remove: "depends (entry_remove r d deps) = depends deps - {(r, d)}"
  by (auto simp: depends_def deps_at_remove split: if_splits)

lemma graph_new_consistent: "graph_consistent resource_graph_new"
  by (simp add: graph_consistent_def resource_graph_new_def depends_def deps_at_def)

lemma graph_add_consistent: "graph_consistent g \<Longrightarrow> graph_consistent (graph_add_dependency r d g)"
  by (auto simp: graph_consistent_def graph_add_dependency_def depends_insert)

lemma graph_remove_consistent: "graph_consistent g \<Longrightarrow> graph_consistent (graph_remove_dependency r d g)"
  by (auto simp: graph_consistent_def graph_remove_dependency_def depends_remove)

section \<open>The cycle check\<close>

text \<open>
  \<open>has_cycle_util\<close> and its loop over the dependencies of a resource; the pair is
  \<open>(visited, recursion_stack)\<close>, which the source changes through mutable references.
\<close>

type_synonym walk_state = "string hset \<times> string hset"

function has_cycle_util :: "hash_order \<Rightarrow> (string, string hset) hmap \<Rightarrow> string \<Rightarrow> walk_state \<Rightarrow> bool \<times> walk_state"
  and has_cycle_deps :: "hash_order \<Rightarrow> (string, string hset) hmap \<Rightarrow> string list \<Rightarrow> walk_state \<Rightarrow> bool \<times> walk_state"
where
  "has_cycle_util \<pi> deps resource (visited, stack) =
     (let visited' = List.insert resource visited; stack' = List.insert resource stack in
      case (case map_of deps resource of
              Some ds \<Rightarrow> has_cycle_deps \<pi> deps (\<pi> ds) (visited', stack')
            | None \<Rightarrow> (False, visited', stack')) of
        (True, st) \<Rightarrow> (True, st)
      | (False, v, s) \<Rightarrow> (False, v, removeAll resource s))"
| "has_cycle_deps \<pi> deps [] st = (False, st)"
| "has_cycle_deps \<pi> deps (d # ds) (visited, stack) =
     (if d \<notin> set visited then
        (case has_cycle_util \<pi> deps d (visited, stack) of
           (True, st) \<Rightarrow> (True, st)
         | (False, st) \<Rightarrow> has_cycle_deps \<pi> deps ds st)
      else if d \<in> set stack then (True, visited, stack)
      else has_cycle_deps \<pi> deps ds (visited, stack))"
  by pat_completeness auto

lemma walk_visited_grows:
  "has_cycle_util_has_cycle_deps_dom (Inl (\<pi>, deps, r, st)) \<Longrightarrow>
     insert r (set (fst st)) \<subseteq> set (fst (snd (has_cycle_util \<pi> deps r st)))"
  "has_cycle_util_has_cycle_deps_dom (Inr (\<pi>, deps, ds, st)) \<Longrightarrow>
     set (fst st) \<subseteq> set (fst (snd (has_cycle_deps \<pi> deps ds st)))"
proof (induction \<pi> deps r st and \<pi> deps ds st rule: has_cycle_util_has_cycle_deps.pinduct)
  case (1 \<pi> deps r v s)
  show ?case
  proof (cases "map_of deps r")
    case None
    with 1(1) show ?thesis by (simp add: has_cycle_util.psimps)
  next
    case (Some ds)
    obtain b v' s' where res: "has_cycle_deps \<pi> deps (\<pi> ds) (List.insert r v, List.insert r s) = (b, v', s')"
      by (cases "has_cycle_deps \<pi> deps (\<pi> ds) (List.insert r v, List.insert r s)") auto
    from 1(2) [OF refl refl Some] res have "insert r (set v) \<subseteq> set v'" by simp
    with 1(1) Some res show ?thesis by (cases b) (simp_all add: has_cycle_util.psimps)
  qed
next
  case (2 \<pi> deps st)
  then show ?case by (simp add: has_cycle_deps.psimps)
next
  case (3 \<pi> deps d ds v s)
  obtain b st where res: "has_cycle_util \<pi> deps d (v, s) = (b, st)"
    by (cases "has_cycle_util \<pi> deps d (v, s)")
  show ?case
  proof (cases "d \<in> set v")
    case True
    with 3(1,4) show ?thesis by (auto simp: has_cycle_deps.psimps)
  next
    case False
    with 3(1,2) res have st: "set v \<subseteq> set (fst st)" by auto
    with False 3(1) 3(3) [of b st] res show ?thesis
      by (cases b) (auto simp: has_cycle_deps.psimps)
  qed
qed

text \<open>A call on a resource not yet visited leaves fewer of them; a step of the loop shortens its list.\<close>

definition open_nodes :: "(string, string hset) hmap \<Rightarrow> string set \<Rightarrow> nat" where
  "open_nodes deps vis = card (fst ` set deps - vis)"

lemma open_nodes_mono: "v \<subseteq> v' \<Longrightarrow> open_nodes deps v' \<le> open_nodes deps v"
  by (auto simp: open_nodes_def intro: card_mono)

lemma open_nodes_less:
  assumes "map_of deps r = Some ds" "r \<notin> v"
  shows "open_nodes deps (insert r v) < open_nodes deps v"
proof -
  from assms(1) have "r \<in> fst ` set deps" by (metis fst_conv image_eqI map_of_SomeD)
  with assms(2) show ?thesis
    unfolding open_nodes_def by (intro psubset_card_mono) auto
qed

fun walk_measure ::
  "(hash_order \<times> (string, string hset) hmap \<times> string \<times> walk_state) +
   (hash_order \<times> (string, string hset) hmap \<times> string list \<times> walk_state) \<Rightarrow> nat \<times> nat" where
  "walk_measure (Inl (\<pi>, deps, r, v, s)) =
     (open_nodes deps (insert r (set v)), case map_of deps r of Some ds \<Rightarrow> Suc (length (\<pi> ds)) | None \<Rightarrow> 0)"
| "walk_measure (Inr (\<pi>, deps, ds, v, s)) = (open_nodes deps (set v), length ds)"

lemma open_nodes_other: "map_of deps d = None \<Longrightarrow> open_nodes deps (insert d v) = open_nodes deps v"
  by (auto simp: open_nodes_def map_of_eq_None_iff intro!: arg_cong [where f = card])

lemma walk_measure_visit:
  assumes "d \<notin> set v"
  shows "(walk_measure (Inl (\<pi>, deps, d, v, s)), walk_measure (Inr (\<pi>, deps, d # ds, v, s))) \<in> less_than <*lex*> less_than"
  using open_nodes_less [of deps d _ "set v"] open_nodes_other [of deps d "set v"] assms
  by (cases "map_of deps d") auto

lemma walk_measure_step:
  assumes "set v \<subseteq> set v'"
  shows "(walk_measure (Inr (\<pi>, deps, ds, v', s')), walk_measure (Inr (\<pi>, deps, d # ds, v, s))) \<in> less_than <*lex*> less_than"
  using open_nodes_mono [OF assms, of deps] by auto

termination has_cycle_util
proof (relation "inv_image (less_than <*lex*> less_than) walk_measure", goal_cases)
  case 1
  show ?case by (intro wf_inv_image wf_lex_prod) simp_all
next
  case (2 \<pi> deps r v s v' s' ds)
  then show ?case by (simp only: in_inv_image) simp
next
  case (3 \<pi> deps d ds v s)
  then show ?case unfolding in_inv_image by (intro walk_measure_visit) simp
next
  case prems: (4 \<pi> deps d ds v s found st)
  from walk_visited_grows(1) [OF prems(4)] prems(2) [symmetric]
  have "set v \<subseteq> set (fst st)" by auto
  then show ?case unfolding in_inv_image by (cases st) (simp only: fst_conv walk_measure_step)
next
  case (5 \<pi> deps d ds v s)
  then show ?case unfolding in_inv_image by (intro walk_measure_step) simp
qed

declare has_cycle_util.simps [simp del] has_cycle_deps.simps(2) [simp del]

text \<open>The loop of \<open>has_cycle\<close> over the resources that have dependencies.\<close>

fun has_cycle_from :: "hash_order \<Rightarrow> (string, string hset) hmap \<Rightarrow> string list \<Rightarrow> walk_state \<Rightarrow> bool" where
  "has_cycle_from \<pi> deps [] st = False"
| "has_cycle_from \<pi> deps (r # rs) (visited, stack) =
     (if r \<notin> set visited then
        (case has_cycle_util \<pi> deps r (visited, stack) of
           (True, _) \<Rightarrow> True
         | (False, st) \<Rightarrow> has_cycle_from \<pi> deps rs st)
      else has_cycle_from \<pi> deps rs (visited, stack))"

definition has_cycle :: "hash_order \<Rightarrow> resource_dependency_graph \<Rightarrow> bool" where
  "has_cycle \<pi> g = has_cycle_from \<pi> (rg_dependencies g) (\<pi> (hm_keys (rg_dependencies g))) ([], [])"

subsection \<open>What a search that finds nothing leaves\<close>

text \<open>
  A set of nodes is \<open>settled\<close> when no dependency leaves it and no node of it is on a cycle. The
  nodes visited and no longer on the stack are always settled.
\<close>

definition settled :: "(string, string hset) hmap \<Rightarrow> string set \<Rightarrow> bool" where
  "settled deps F \<longleftrightarrow> (\<forall>x \<in> F. deps_at deps x \<subseteq> F \<and> (x, x) \<notin> (depends deps)\<^sup>+)"

lemma settled_empty [simp]: "settled deps {}"
  by (simp add: settled_def)

lemma settled_closed: "(x, y) \<in> (depends deps)\<^sup>* \<Longrightarrow> settled deps F \<Longrightarrow> x \<in> F \<Longrightarrow> y \<in> F"
  by (induction rule: rtrancl_induct) (auto simp: settled_def depends_iff)

lemma settled_insert:
  assumes F: "settled deps F" and sub: "deps_at deps r \<subseteq> F" and r: "r \<notin> F"
  shows "settled deps (insert r F)"
proof -
  have "(r, r) \<notin> (depends deps)\<^sup>+"
  proof
    assume "(r, r) \<in> (depends deps)\<^sup>+"
    then obtain d where "(r, d) \<in> depends deps" "(d, r) \<in> (depends deps)\<^sup>*"
      by (meson tranclD)
    with sub settled_closed [OF _ F] r show False by (auto simp: depends_iff)
  qed
  with F sub show ?thesis by (auto simp: settled_def)
qed

lemma walk_settles:
  "has_cycle_util \<pi> deps r (v, s) = (False, v', s') \<Longrightarrow> is_hash_order \<pi> \<Longrightarrow> r \<notin> set v \<Longrightarrow>
     set s \<subseteq> set v \<Longrightarrow> settled deps (set v - set s) \<Longrightarrow>
     insert r (set v) \<subseteq> set v' \<and> set s' = set s \<and> settled deps (set v' - set s)"
  "has_cycle_deps \<pi> deps ds (v, s) = (False, v', s') \<Longrightarrow> is_hash_order \<pi> \<Longrightarrow>
     set s \<subseteq> set v \<Longrightarrow> settled deps (set v - set s) \<Longrightarrow>
     set v \<union> set ds \<subseteq> set v' \<and> set s' = set s \<and> set ds \<inter> set s = {} \<and> settled deps (set v' - set s)"
proof (induction \<pi> deps r "(v, s)" and \<pi> deps ds "(v, s)" arbitrary: v s v' s' and v s v' s'
    rule: has_cycle_util_has_cycle_deps.induct)
  case prems: (1 \<pi> deps r v s)
  have base: "settled deps (set (List.insert r v) - set (List.insert r s))"
    using prems(6) prems(4) by (simp add: insert_Diff_if)
  show ?case
  proof (cases "map_of deps r")
    case None
    with prems(2) have "v' = List.insert r v" "s' = removeAll r (List.insert r s)"
      by (auto simp: has_cycle_util.simps)
    moreover have "settled deps (insert r (set v - set s))"
      using None prems(4,6) by (intro settled_insert) auto
    ultimately show ?thesis using prems(4,5) by (auto simp: insert_Diff_if)
  next
    case (Some ds)
    with prems(2) obtain s'' where
      loop: "has_cycle_deps \<pi> deps (\<pi> ds) (List.insert r v, List.insert r s) = (False, v', s'')"
      and s': "s' = removeAll r s''"
      by (auto simp: has_cycle_util.simps split: prod.splits bool.splits)
    from prems(1) [OF refl refl Some loop] prems(3,5) base
    have IH: "insert r (set v) \<subseteq> set v'" "set ds \<subseteq> set v'" "set s'' = insert r (set s)"
      "set ds \<inter> insert r (set s) = {}" "settled deps (set v' - insert r (set s))"
      by (auto simp: hash_order_set)
    have "settled deps (insert r (set v' - insert r (set s)))"
      using IH Some by (intro settled_insert) auto
    moreover have "insert r (set v' - insert r (set s)) = set v' - set s"
      using IH(1) prems(4,5) by auto
    ultimately show ?thesis using IH s' prems(4,5) by auto
  qed
next
  case prems: (3 \<pi> deps d ds v s)
  show ?case
  proof (cases "d \<in> set v")
    case True
    with prems(4) have "d \<notin> set s" "has_cycle_deps \<pi> deps ds (v, s) = (False, v', s')"
      by (auto simp: has_cycle_deps.simps(2) split: if_splits)
    with prems(3) [OF _ _ this(2)] prems(5-7) True show ?thesis by auto
  next
    case False
    with prems(4) obtain v1 s1 where
      visit: "has_cycle_util \<pi> deps d (v, s) = (False, v1, s1)"
      and rest: "has_cycle_deps \<pi> deps ds (v1, s1) = (False, v', s')"
      by (auto simp: has_cycle_deps.simps(2) split: if_splits prod.splits bool.splits)
    from prems(1) [OF False visit] False prems(5-7)
    have 1: "insert d (set v) \<subseteq> set v1" "set s1 = set s" "settled deps (set v1 - set s)" by auto
    from prems(2) [OF False visit [symmetric] refl rest] 1 prems(5,6)
    have "set v1 \<union> set ds \<subseteq> set v' \<and> set s' = set s \<and> set ds \<inter> set s = {} \<and> settled deps (set v' - set s)"
      by auto
    with 1 False prems(6) show ?thesis by auto
  qed
qed simp

subsection \<open>What a search that finds something has found\<close>

lemma walk_finds:
  "has_cycle_util \<pi> deps r (v, s) = (True, st) \<Longrightarrow> is_hash_order \<pi> \<Longrightarrow> r \<notin> set v \<Longrightarrow> set s \<subseteq> set v \<Longrightarrow>
     settled deps (set v - set s) \<Longrightarrow> (\<forall>x \<in> set s. (x, r) \<in> (depends deps)\<^sup>+) \<Longrightarrow>
     \<exists>x. (x, x) \<in> (depends deps)\<^sup>+"
  "has_cycle_deps \<pi> deps ds (v, s) = (True, st) \<Longrightarrow> is_hash_order \<pi> \<Longrightarrow> set s \<subseteq> set v \<Longrightarrow>
     settled deps (set v - set s) \<Longrightarrow> (\<forall>x \<in> set s. \<forall>d \<in> set ds. (x, d) \<in> (depends deps)\<^sup>+) \<Longrightarrow>
     \<exists>x. (x, x) \<in> (depends deps)\<^sup>+"
proof (induction \<pi> deps r "(v, s)" and \<pi> deps ds "(v, s)" arbitrary: v s st and v s st
    rule: has_cycle_util_has_cycle_deps.induct)
  case prems: (1 \<pi> deps r v s)
  from prems(2) obtain ds where Some: "map_of deps r = Some ds"
    and loop: "has_cycle_deps \<pi> deps (\<pi> ds) (List.insert r v, List.insert r s) = (True, st)"
    by (auto simp: has_cycle_util.simps Let_def split: prod.splits bool.splits option.splits)
  have "settled deps (set (List.insert r v) - set (List.insert r s))"
    using prems(6) prems(4) by (simp add: insert_Diff_if)
  moreover have "\<forall>x \<in> set (List.insert r s). \<forall>d \<in> set (\<pi> ds). (x, d) \<in> (depends deps)\<^sup>+"
  proof (intro ballI)
    fix x d
    assume "x \<in> set (List.insert r s)" "d \<in> set (\<pi> ds)"
    then have "(r, d) \<in> depends deps" "x = r \<or> (x, r) \<in> (depends deps)\<^sup>+"
      using Some prems(3,7) by (auto simp: depends_iff hash_order_set)
    then show "(x, d) \<in> (depends deps)\<^sup>+" by (auto intro: trancl_into_trancl)
  qed
  ultimately show ?case using prems(1) [OF refl refl Some loop] prems(3,5) by auto
next
  case prems: (3 \<pi> deps d ds v s)
  show ?case
  proof (cases "d \<in> set v")
    case True
    show ?thesis
    proof (cases "d \<in> set s")
      case False
      with True prems(4) have "has_cycle_deps \<pi> deps ds (v, s) = (True, st)"
        by (simp add: has_cycle_deps.simps(2))
      with prems(3) [OF _ False this] prems(5-8) True show ?thesis by auto
    qed (use prems(8) in auto)
  next
    case False
    obtain b v1 s1 where visit: "has_cycle_util \<pi> deps d (v, s) = (b, v1, s1)"
      by (cases "has_cycle_util \<pi> deps d (v, s)") auto
    show ?thesis
    proof (cases b)
      case True
      with prems(1) [OF False] visit False prems(5-8) show ?thesis by auto
    next
      case b: False
      with visit have visit: "has_cycle_util \<pi> deps d (v, s) = (False, v1, s1)" by simp
      with False prems(4) have rest: "has_cycle_deps \<pi> deps ds (v1, s1) = (True, st)"
        by (simp add: has_cycle_deps.simps(2))
      from walk_settles(1) [OF visit] False prems(5-7)
      have "insert d (set v) \<subseteq> set v1" "set s1 = set s" "settled deps (set v1 - set s)" by auto
      with prems(2) [OF False visit [symmetric] refl rest] prems(5,6,8) show ?thesis
        by auto
    qed
  qed
qed simp

lemma has_cycle_from_finds:
  "has_cycle_from \<pi> deps rs (v, s) \<Longrightarrow> is_hash_order \<pi> \<Longrightarrow> s = [] \<Longrightarrow> settled deps (set v) \<Longrightarrow>
     \<exists>x. (x, x) \<in> (depends deps)\<^sup>+"
proof (induction rs arbitrary: v s)
  case (Cons r rs)
  obtain b v1 s1 where visit: "has_cycle_util \<pi> deps r (v, s) = (b, v1, s1)"
    by (cases "has_cycle_util \<pi> deps r (v, s)") auto
  show ?case
  proof (cases "r \<in> set v \<or> b")
    case True
    with Cons walk_finds(1) [of \<pi> deps r v s] visit show ?thesis by (auto split: if_splits)
  next
    case False
    with visit have visit: "has_cycle_util \<pi> deps r (v, s) = (False, v1, s1)" by simp
    from walk_settles(1) [OF this] False Cons.prems have "s1 = []" "settled deps (set v1)" by auto
    moreover from False visit Cons.prems(1) have "has_cycle_from \<pi> deps rs (v1, s1)" by simp
    ultimately show ?thesis using Cons.IH Cons.prems(2) by blast
  qed
qed simp

lemma has_cycle_from_settles:
  "\<not> has_cycle_from \<pi> deps rs (v, s) \<Longrightarrow> is_hash_order \<pi> \<Longrightarrow> s = [] \<Longrightarrow> settled deps (set v) \<Longrightarrow>
     \<exists>F. set rs \<subseteq> F \<and> settled deps F \<and> set v \<subseteq> F"
proof (induction rs arbitrary: v s)
  case (Cons r rs)
  obtain b v1 s1 where visit: "has_cycle_util \<pi> deps r (v, s) = (b, v1, s1)"
    by (cases "has_cycle_util \<pi> deps r (v, s)") auto
  show ?case
  proof (cases "r \<in> set v")
    case True
    with Cons.IH [of v s] Cons.prems show ?thesis by auto
  next
    case False
    with Cons.prems visit have b: "\<not> b" "\<not> has_cycle_from \<pi> deps rs (v1, s1)"
      by (auto split: bool.splits)
    with visit have "has_cycle_util \<pi> deps r (v, s) = (False, v1, s1)" by simp
    from walk_settles(1) [OF this] False Cons.prems(2-4)
    have 1: "s1 = []" "settled deps (set v1)" "insert r (set v) \<subseteq> set v1" by auto
    from Cons.IH [OF b(2) Cons.prems(2) 1(1,2)] obtain F where
      F: "set rs \<subseteq> F" "settled deps F" "set v1 \<subseteq> F" by blast
    with 1(3) show ?thesis by (intro exI [of _ F]) auto
  qed
qed auto

lemma map_of_Some_key: "map_of m k = Some v \<Longrightarrow> k \<in> fst ` set m"
  by (metis fst_conv image_eqI map_of_SomeD)

text \<open>\<open>has_cycle\<close> is exact, whatever the iteration order.\<close>

lemma has_cycle_iff:
  assumes "is_hash_order \<pi>"
  shows "has_cycle \<pi> g \<longleftrightarrow> \<not> acyclic (depends (rg_dependencies g))"
proof
  assume "has_cycle \<pi> g"
  with has_cycle_from_finds [OF _ assms refl, of "rg_dependencies g" _ "[]"] show "\<not> acyclic (depends (rg_dependencies g))"
    by (auto simp: has_cycle_def acyclic_def)
next
  let ?deps = "rg_dependencies g"
  assume cyc: "\<not> acyclic (depends ?deps)"
  show "has_cycle \<pi> g"
  proof (rule ccontr)
    assume "\<not> has_cycle \<pi> g"
    with has_cycle_from_settles [OF _ assms refl, of ?deps _ "[]"]
    obtain F where F: "set (\<pi> (hm_keys ?deps)) \<subseteq> F" "settled ?deps F"
      by (auto simp: has_cycle_def)
    from cyc obtain x where x: "(x, x) \<in> (depends ?deps)\<^sup>+" by (auto simp: acyclic_def)
    then obtain y where "(x, y) \<in> depends ?deps" by (meson tranclD)
    then have "x \<in> set (hm_keys ?deps)"
      by (cases "map_of ?deps x") (auto simp: depends_iff hm_keys_def map_of_eq_None_iff dest: map_of_Some_key)
    with F x assms show False by (auto simp: settled_def hash_order_set)
  qed
qed

section \<open>Deadlock detection\<close>

text \<open>
  \<open>find_cycle_to_task\<close> and its loop. A resource is in \<open>visited\<close> while its dependencies are
  searched and removed again when they yield nothing, so each dependency is searched with the
  resources of the path only. The task it is given is not used.
\<close>

function find_cycle_to_task :: "hash_order \<Rightarrow> (string, string hset) hmap \<Rightarrow> string \<Rightarrow> string hset \<Rightarrow> string list option"
  and find_cycle_deps :: "hash_order \<Rightarrow> (string, string hset) hmap \<Rightarrow> string list \<Rightarrow> string hset \<Rightarrow> string list option"
where
  "find_cycle_to_task \<pi> deps current visited =
     (if current \<in> set visited then Some [current]
      else (case map_of deps current of
              None \<Rightarrow> None
            | Some ds \<Rightarrow> map_option (\<lambda>cycle. cycle @ [current])
                (find_cycle_deps \<pi> deps (\<pi> ds) (List.insert current visited))))"
| "find_cycle_deps \<pi> deps [] visited = None"
| "find_cycle_deps \<pi> deps (d # ds) visited =
     (case find_cycle_to_task \<pi> deps d visited of
        Some cycle \<Rightarrow> Some cycle
      | None \<Rightarrow> find_cycle_deps \<pi> deps ds visited)"
  by pat_completeness auto

fun path_measure ::
  "(hash_order \<times> (string, string hset) hmap \<times> string \<times> string hset) +
   (hash_order \<times> (string, string hset) hmap \<times> string list \<times> string hset) \<Rightarrow> nat \<times> nat" where
  "path_measure (Inl (\<pi>, deps, r, v)) = (open_nodes deps (set v), 0)"
| "path_measure (Inr (\<pi>, deps, ds, v)) = (open_nodes deps (set v), Suc (length ds))"

termination find_cycle_to_task
proof (relation "inv_image (less_than <*lex*> less_than) path_measure", goal_cases)
  case 1
  show ?case by (intro wf_inv_image wf_lex_prod) simp_all
next
  case (2 \<pi> deps r v ds)
  then show ?case by (simp add: open_nodes_less)
qed simp_all

declare find_cycle_to_task.simps [simp del]

text \<open>\<open>detect_deadlock\<close>; each dependency is searched with a fresh set.\<close>

definition detect_deadlock :: "hash_order \<Rightarrow> resource_dependency_graph \<Rightarrow> string \<Rightarrow> string list option" where
  "detect_deadlock \<pi> g resource_name =
     (case map_of (rg_dependencies g) resource_name of
        Some ds \<Rightarrow> find_cycle_deps \<pi> (rg_dependencies g) (\<pi> ds) []
      | None \<Rightarrow> None)"

text \<open>
  A reported cycle starts at a resource on a cycle of the graph; each resource in it depends on
  the one before, down to the dependency the search began with.
\<close>

lemma find_cycle_sound:
  "find_cycle_to_task \<pi> deps cur vis = Some c \<Longrightarrow> is_hash_order \<pi> \<Longrightarrow> \<forall>x \<in> set vis. (x, cur) \<in> (depends deps)\<^sup>+ \<Longrightarrow>
     c \<noteq> [] \<and> (hd c, hd c) \<in> (depends deps)\<^sup>+ \<and> last c = cur \<and> successively (\<lambda>a b. (b, a) \<in> depends deps) c"
  "find_cycle_deps \<pi> deps ds vis = Some c \<Longrightarrow> is_hash_order \<pi> \<Longrightarrow>
     \<forall>x \<in> set vis. \<forall>d \<in> set ds. (x, d) \<in> (depends deps)\<^sup>+ \<Longrightarrow>
     c \<noteq> [] \<and> (hd c, hd c) \<in> (depends deps)\<^sup>+ \<and> last c \<in> set ds \<and> successively (\<lambda>a b. (b, a) \<in> depends deps) c"
proof (induction \<pi> deps cur vis and \<pi> deps ds vis arbitrary: c and c
    rule: find_cycle_to_task_find_cycle_deps.induct)
  case prems: (1 \<pi> deps cur vis)
  show ?case
  proof (cases "cur \<in> set vis")
    case True
    with prems(2,4) show ?thesis by (auto simp: find_cycle_to_task.simps)
  next
    case False
    with prems(2) obtain ds c' where c: "map_of deps cur = Some ds" "c = c' @ [cur]"
      "find_cycle_deps \<pi> deps (\<pi> ds) (List.insert cur vis) = Some c'"
      by (auto simp: find_cycle_to_task.simps split: option.splits)
    have "\<forall>x \<in> set (List.insert cur vis). \<forall>d \<in> set (\<pi> ds). (x, d) \<in> (depends deps)\<^sup>+"
    proof (intro ballI)
      fix x d
      assume "x \<in> set (List.insert cur vis)" "d \<in> set (\<pi> ds)"
      then have "(cur, d) \<in> depends deps" "x = cur \<or> (x, cur) \<in> (depends deps)\<^sup>+"
        using c(1) prems(3,4) by (auto simp: depends_iff hash_order_set)
      then show "(x, d) \<in> (depends deps)\<^sup>+" by (auto intro: trancl_into_trancl)
    qed
    from prems(1) [OF False c(1,3) prems(3) this]
    show ?thesis using c(1,2) prems(3) by (auto simp: successively_append_iff depends_iff hash_order_set)
  qed
next
  case prems: (3 \<pi> deps d ds vis)
  show ?case
  proof (cases "find_cycle_to_task \<pi> deps d vis")
    case None
    with prems show ?thesis by auto
  next
    case (Some c')
    with prems(3) have "c' = c" by simp
    with prems(1) [OF Some prems(4)] prems(5) show ?thesis by auto
  qed
qed simp

text \<open>A search that finds nothing has seen all that is reachable, and no cycle in it.\<close>

lemma find_cycle_complete:
  "find_cycle_to_task \<pi> deps cur vis = None \<Longrightarrow> is_hash_order \<pi> \<Longrightarrow> (cur, x) \<in> (depends deps)\<^sup>* \<Longrightarrow>
     x \<notin> set vis \<and> (x, x) \<notin> (depends deps)\<^sup>+"
  "find_cycle_deps \<pi> deps ds vis = None \<Longrightarrow> is_hash_order \<pi> \<Longrightarrow> d \<in> set ds \<Longrightarrow> (d, x) \<in> (depends deps)\<^sup>* \<Longrightarrow>
     x \<notin> set vis \<and> (x, x) \<notin> (depends deps)\<^sup>+"
proof (induction \<pi> deps cur vis and \<pi> deps ds vis arbitrary: x and d x
    rule: find_cycle_to_task_find_cycle_deps.induct)
  case prems: (1 \<pi> deps cur vis)
  from prems(2) have cur: "cur \<notin> set vis" by (auto simp: find_cycle_to_task.simps split: if_splits)
  have step: "y \<notin> insert cur (set vis) \<and> (y, y) \<notin> (depends deps)\<^sup>+" if "(cur, y) \<in> (depends deps)\<^sup>+" for y
  proof -
    from that obtain d where d: "(cur, d) \<in> depends deps" "(d, y) \<in> (depends deps)\<^sup>*" by (meson tranclD)
    then obtain ds where ds: "map_of deps cur = Some ds" "d \<in> set ds"
      by (cases "map_of deps cur") (auto simp: depends_iff)
    with prems(2) cur have "find_cycle_deps \<pi> deps (\<pi> ds) (List.insert cur vis) = None"
      by (auto simp: find_cycle_to_task.simps)
    from prems(1) [OF cur ds(1) this prems(3) _ d(2)] ds(2) prems(3) show ?thesis
      by (auto simp: hash_order_set)
  qed
  from prems(4) show ?case
    using step cur by (auto simp: rtrancl_eq_or_trancl)
next
  case prems: (3 \<pi> deps d' ds vis)
  from prems(3) have "find_cycle_to_task \<pi> deps d' vis = None" "find_cycle_deps \<pi> deps ds vis = None"
    by (auto split: option.splits)
  with prems show ?case by auto
qed simp

lemma detect_deadlock_iff:
  assumes "is_hash_order \<pi>"
  shows "detect_deadlock \<pi> g r = None \<longleftrightarrow>
    (\<forall>x. (r, x) \<in> (depends (rg_dependencies g))\<^sup>+ \<longrightarrow> (x, x) \<notin> (depends (rg_dependencies g))\<^sup>+)"
    (is "?none \<longleftrightarrow> ?free")
proof
  assume none: ?none
  show ?free
  proof (intro allI impI)
    fix x
    assume "(r, x) \<in> (depends (rg_dependencies g))\<^sup>+"
    then obtain d where d: "(r, d) \<in> depends (rg_dependencies g)" "(d, x) \<in> (depends (rg_dependencies g))\<^sup>*"
      by (meson tranclD)
    then obtain ds where ds: "map_of (rg_dependencies g) r = Some ds" "d \<in> set ds"
      by (cases "map_of (rg_dependencies g) r") (auto simp: depends_iff)
    with none have "find_cycle_deps \<pi> (rg_dependencies g) (\<pi> ds) [] = None" by (simp add: detect_deadlock_def)
    from find_cycle_complete(2) [OF this assms _ d(2)] ds(2) assms
    show "(x, x) \<notin> (depends (rg_dependencies g))\<^sup>+" by (simp add: hash_order_set)
  qed
next
  assume free: ?free
  show ?none
  proof (cases "detect_deadlock \<pi> g r")
    case (Some c)
    then obtain ds where ds: "map_of (rg_dependencies g) r = Some ds"
      and c: "find_cycle_deps \<pi> (rg_dependencies g) (\<pi> ds) [] = Some c"
      by (auto simp: detect_deadlock_def split: option.splits)
    from find_cycle_sound(2) [OF c assms]
    have c': "c \<noteq> []" "(hd c, hd c) \<in> (depends (rg_dependencies g))\<^sup>+" "last c \<in> set ds"
      "successively (\<lambda>a b. (b, a) \<in> depends (rg_dependencies g)) c"
      using assms by (auto simp: hash_order_set)
    from c'(1,4) have "(last c, hd c) \<in> (depends (rg_dependencies g))\<^sup>*"
      by (induction c rule: induct_list012) (auto intro: rtrancl_into_rtrancl)
    moreover from ds c'(3) have "(r, last c) \<in> depends (rg_dependencies g)" by (simp add: depends_iff)
    ultimately show ?thesis using free c'(2) by (meson rtrancl_into_trancl2)
  qed
qed

end
