(* ===== verification/Lifecycle.thy ===== *)
theory Lifecycle
  imports Resource_Graph Executor Conflict
begin

text \<open>
  \<open>ResourceLifecycleManager\<close> of \<open>src/resource_lifecycle.rs\<close>: leases on resources, their
  timeouts and the operations on both. The manager's locks are taken for one access each, so an
  operation is a function from state to state; the clock is an argument (nanoseconds since some
  start, not limited above), two of them where the source reads it twice. \<open>emit_lifecycle_event\<close>
  only prints, which is not modelled.
\<close>

section \<open>Leases, timeouts, pools and policies\<close>

record resource_lease =
  lease_resource :: string
  lease_task :: task_id
  lease_access :: resource_access
  lease_acquired_at :: instant
  lease_duration :: duration
  lease_auto_release :: bool
  lease_reference_count :: u32
  lease_dependencies :: "string list"

record lease_timeout =
  to_resource :: string
  to_task :: task_id
  timeout_at :: instant

datatype allocation_strategy = FirstAvailable | LeastRecentlyUsed | RoundRobin | LoadBalanced

record resource_pool =
  pool_name :: string
  pool_resource_type :: string
  available_resources :: "string list"
  allocated_resources :: "(string, task_id) hmap"
  pool_max_size :: usize
  pool_strategy :: allocation_strategy

record lifecycle_policies =
  default_lease_duration :: duration
  max_lease_duration :: duration
  auto_release_on_timeout :: bool
  deadlock_detection_enabled :: bool
  resource_cleanup_interval :: duration
  max_dependency_depth :: u32

definition from_secs :: "nat \<Rightarrow> duration" where
  "from_secs s = s * 1000000000"

definition default_policies :: lifecycle_policies where
  "default_policies =
     \<lparr>default_lease_duration = from_secs 30, max_lease_duration = from_secs 300,
      auto_release_on_timeout = True, deadlock_detection_enabled = True,
      resource_cleanup_interval = from_secs 60, max_dependency_depth = 10\<rparr>"

datatype acquisition_result =
    Acquired resource_lease
  | WaitRequired duration "task_id list" string
  | Denied string "duration option"

datatype release_reason =
    TaskCompleted | TaskCancelled | ReasonLeaseExpired | ExplicitRelease | DeadlockResolution | SystemShutdown

datatype lifecycle_event =
    ResourceAcquired string task_id resource_access
  | ResourceReleased string task_id release_reason
  | LeaseExpired string task_id
  | EvDeadlockDetected "string list" "task_id list"
  | ResourceCreated string string
  | ResourceDestroyed string string

record lifecycle_manager =
  active_leases :: "(string, resource_lease) hmap"
  resource_graph :: resource_dependency_graph
  timeouts :: "lease_timeout list"
  resource_pools :: "(string, resource_pool) hmap"
  policies :: lifecycle_policies

definition manager_new :: "lifecycle_policies \<Rightarrow> lifecycle_manager" where
  "manager_new p =
     \<lparr>active_leases = [], resource_graph = resource_graph_new, timeouts = [], resource_pools = [], policies = p\<rparr>"

section \<open>The timeout queue\<close>

text \<open>\<open>schedule_timeout\<close> inserts after the timeouts that are due no later.\<close>

fun insert_timeout :: "lease_timeout \<Rightarrow> lease_timeout list \<Rightarrow> lease_timeout list" where
  "insert_timeout t [] = [t]"
| "insert_timeout t (e # es) = (if timeout_at t < timeout_at e then t # e # es else e # insert_timeout t es)"

definition schedule_timeout :: "instant \<Rightarrow> string \<Rightarrow> task_id \<Rightarrow> duration \<Rightarrow> lease_timeout list \<Rightarrow> lease_timeout list" where
  "schedule_timeout now name task dur ts =
     insert_timeout \<lparr>to_resource = name, to_task = task, timeout_at = now + dur\<rparr> ts"

definition cancel_timeout :: "string \<Rightarrow> task_id \<Rightarrow> lease_timeout list \<Rightarrow> lease_timeout list" where
  "cancel_timeout name task ts = filter (\<lambda>t. \<not> (to_resource t = name \<and> to_task t = task)) ts"

fun get_expired_timeouts :: "instant \<Rightarrow> lease_timeout list \<Rightarrow> (string \<times> task_id) list \<times> lease_timeout list" where
  "get_expired_timeouts now [] = ([], [])"
| "get_expired_timeouts now (t # ts) =
     (if timeout_at t \<le> now then
        (case get_expired_timeouts now ts of (expired, rest) \<Rightarrow> ((to_resource t, to_task t) # expired, rest))
      else ([], t # ts))"

section \<open>Acquisition\<close>

definition check_acquisition_feasibility :: "lifecycle_manager \<Rightarrow> string \<Rightarrow> resource_access \<Rightarrow> bool" where
  "check_acquisition_feasibility m name access =
     (case map_of (active_leases m) name of
        Some existing \<Rightarrow>
          (case (lease_access existing, access) of
             (Immutable, Immutable) \<Rightarrow> True
           | (Immutable, Mutable) \<Rightarrow> False
           | (Mutable, _) \<Rightarrow> False
           | (Owned, _) \<Rightarrow> False
           | (_, Owned) \<Rightarrow> False)
      | None \<Rightarrow> True)"

definition calculate_wait_time :: "instant \<Rightarrow> lifecycle_manager \<Rightarrow> string \<Rightarrow> resource_access \<Rightarrow> acquisition_result" where
  "calculate_wait_time now m name access =
     (case map_of (active_leases m) name of
        Some existing \<Rightarrow>
          WaitRequired (lease_duration existing - (now - lease_acquired_at existing)) [lease_task existing]
            (''Resource '' @ name @ '' is currently locked with '' @ access_debug (lease_access existing) @
             '' access (requested '' @ access_debug access @ '')'')
      | None \<Rightarrow>
          Denied (''Resource '' @ name @ '' unavailable for '' @ access_debug access @ '' access'') (Some (from_secs 1)))"

definition task_debug :: "task_id \<Rightarrow> string" where
  "task_debug t = ''TaskId('' @ show_nat (unat t) @ '')''"

definition update_resource_dependencies :: "string \<Rightarrow> resource_dependency_graph \<Rightarrow> resource_dependency_graph" where
  "update_resource_dependencies name g =
     g\<lparr>rg_dependencies := or_insert name [] (rg_dependencies g),
       rg_dependents := or_insert name [] (rg_dependents g)\<rparr>"

definition grant_lease ::
    "instant \<Rightarrow> instant \<Rightarrow> string \<Rightarrow> task_id \<Rightarrow> resource_access \<Rightarrow> duration \<Rightarrow> lifecycle_manager \<Rightarrow>
       resource_lease \<times> lifecycle_manager" where
  "grant_lease now now' name task access dur m =
     (let lease = \<lparr>lease_resource = name, lease_task = task, lease_access = access, lease_acquired_at = now,
                   lease_duration = dur, lease_auto_release = True, lease_reference_count = 1,
                   lease_dependencies = []\<rparr>
      in (lease,
          m\<lparr>active_leases := AList.update name lease (active_leases m),
            timeouts := (if lease_auto_release lease then schedule_timeout now' name task dur (timeouts m)
                         else timeouts m),
            resource_graph := update_resource_dependencies name (resource_graph m)\<rparr>))"

definition lm_acquire_resource ::
    "hash_order \<Rightarrow> (string \<Rightarrow> string) \<Rightarrow> instant \<Rightarrow> instant \<Rightarrow> string \<Rightarrow> task_id \<Rightarrow> resource_access \<Rightarrow> duration option \<Rightarrow>
       lifecycle_manager \<Rightarrow> (async_error + acquisition_result) \<times> lifecycle_manager" where
  "lm_acquire_resource \<pi> \<delta> now now' name task access dur m =
     (let dur' = (case dur of Some d \<Rightarrow> d | None \<Rightarrow> default_lease_duration (policies m)) in
      if \<not> check_acquisition_feasibility m name access then (Inr (calculate_wait_time now m name access), m)
      else
        (case (if deadlock_detection_enabled (policies m) then detect_deadlock \<pi> (resource_graph m) name else None) of
           Some cycle \<Rightarrow>
             (Inl (AResourceConflict (''task_'' @ task_debug task) name
                (''Deadlock detected: '' @ debug_strings \<delta> cycle)), m)
         | None \<Rightarrow>
             (case grant_lease now now' name task access dur' m of (lease, m') \<Rightarrow> (Inr (Acquired lease), m'))))"

section \<open>Release\<close>

text \<open>
  The dependencies of the resource are cleared, it leaves the dependents of every other, and the
  entries of the task leave every pool.
\<close>

definition remove_resource_dependencies :: "string \<Rightarrow> task_id \<Rightarrow> lifecycle_manager \<Rightarrow> lifecycle_manager" where
  "remove_resource_dependencies name task m =
     m\<lparr>resource_graph := (resource_graph m)
         \<lparr>rg_dependencies :=
            (if hm_contains (rg_dependencies (resource_graph m)) name
             then AList.update name [] (rg_dependencies (resource_graph m))
             else rg_dependencies (resource_graph m)),
          rg_dependents := map (\<lambda>(r, s). (r, removeAll name s)) (rg_dependents (resource_graph m))\<rparr>,
       resource_pools := map (\<lambda>(p, pool). (p, pool\<lparr>allocated_resources :=
            filter (\<lambda>(_, holder). holder \<noteq> task) (allocated_resources pool)\<rparr>)) (resource_pools m)\<rparr>"

definition lm_release_resource ::
    "string \<Rightarrow> task_id \<Rightarrow> release_reason \<Rightarrow> lifecycle_manager \<Rightarrow> (async_error + unit) \<times> lifecycle_manager" where
  "lm_release_resource name task reason m =
     (let m1 = m\<lparr>active_leases := AList.delete name (active_leases m)\<rparr> in
      case map_of (active_leases m) name of
        None \<Rightarrow> (Inl (AResourceLifecycleError name ''release'' ''Resource not found or already released''), m1)
      | Some lease \<Rightarrow>
          if lease_task lease \<noteq> task then
            (Inl (AResourceLifecycleError name ''release''
               (''Task '' @ task_debug task @ '' does not own resource'')), m1)
          else
            (Inr (), remove_resource_dependencies name task
               (m1\<lparr>timeouts := cancel_timeout name task (timeouts m1)\<rparr>)))"

fun release_each :: "task_id \<Rightarrow> release_reason \<Rightarrow> string list \<Rightarrow> lifecycle_manager \<Rightarrow>
    (async_error + unit) \<times> lifecycle_manager" where
  "release_each task reason [] m = (Inr (), m)"
| "release_each task reason (name # names) m =
     (case lm_release_resource name task reason m of
        (Inl err, m') \<Rightarrow> (Inl err, m')
      | (Inr _, m') \<Rightarrow> release_each task reason names m')"

definition release_all_task_resources :: "hash_order \<Rightarrow> task_id \<Rightarrow> release_reason \<Rightarrow> lifecycle_manager \<Rightarrow>
    (async_error + string list) \<times> lifecycle_manager" where
  "release_all_task_resources \<pi> task reason m =
     (let names = map (lease_resource \<circ> snd)
                    (filter (\<lambda>(_, lease). lease_task lease = task) (hm_iter \<pi> (active_leases m))) in
      case release_each task reason names m of
        (Inl err, m') \<Rightarrow> (Inl err, m')
      | (Inr _, m') \<Rightarrow> (Inr names, m'))"

section \<open>Expiry\<close>

fun expire_each :: "(string \<times> task_id) list \<Rightarrow> lifecycle_manager \<Rightarrow>
    (async_error + lifecycle_event list) \<times> lifecycle_manager" where
  "expire_each [] m = (Inr [], m)"
| "expire_each ((name, task) # rest) m =
     (if auto_release_on_timeout (policies m) then
        (case lm_release_resource name task ReasonLeaseExpired m of
           (Inl err, m') \<Rightarrow> (Inl err, m')
         | (Inr _, m') \<Rightarrow>
             (case expire_each rest m' of
                (Inl err, m'') \<Rightarrow> (Inl err, m'')
              | (Inr events, m'') \<Rightarrow> (Inr (LeaseExpired name task # events), m'')))
      else expire_each rest m)"

definition process_expired_leases :: "instant \<Rightarrow> lifecycle_manager \<Rightarrow>
    (async_error + lifecycle_event list) \<times> lifecycle_manager" where
  "process_expired_leases now m =
     (case get_expired_timeouts now (timeouts m) of
        (expired, rest) \<Rightarrow> expire_each expired (m\<lparr>timeouts := rest\<rparr>))"

section \<open>Statistics\<close>

record resource_stats =
  st_active_leases :: usize
  st_total_resources :: usize
  st_average_lease_duration :: duration
  st_contention_count :: usize

text \<open>\<open>Duration / u32\<close> panics on zero; the number of leases is cast with \<open>as u32\<close>.\<close>

definition calculate_average_lease_duration :: "instant \<Rightarrow> (string, resource_lease) hmap \<Rightarrow> abort + duration" where
  "calculate_average_lease_duration now leases =
     (if leases = [] then Inr 0
      else
        (let sum_elapsed = sum_list (map (\<lambda>(_, lease). now - lease_acquired_at lease) leases);
             n = length leases mod 2 ^ 32 in
         if n = 0 then Inl DivisionByZero else Inr (sum_elapsed div n)))"

definition calculate_contention_count :: "(string, resource_lease) hmap \<Rightarrow> usize" where
  "calculate_contention_count leases = 0"

definition get_resource_stats :: "instant \<Rightarrow> lifecycle_manager \<Rightarrow> abort + resource_stats" where
  "get_resource_stats now m =
     map_sum id (\<lambda>avg.
       \<lparr>st_active_leases = length (active_leases m),
        st_total_resources = length (rg_dependencies (resource_graph m)) + length (resource_pools m),
        st_average_lease_duration = avg,
        st_contention_count = calculate_contention_count (active_leases m)\<rparr>)
       (calculate_average_lease_duration now (active_leases m))"

end
