(* ===== verification/Lifecycle_Properties.thy ===== *)
theory Lifecycle_Properties
  imports Lifecycle
begin

text \<open>
  The lease manager as a transition system: the invariant of every manager its operations reach,
  the contract of \<open>acquire_resource\<close>, the round trip with \<open>release_resource\<close>, and expiry,
  which serves every due timeout as long as the clients release only what they hold and do not
  share a lease. The last section evaluates what happens when they do otherwise.
\<close>

section \<open>The timeout queue\<close>

abbreviation due_order :: "lease_timeout list \<Rightarrow> bool" where
  "due_order ts \<equiv> sorted (map timeout_at ts)"

lemma insert_timeout_mset [simp]: "mset (insert_timeout t ts) = add_mset t (mset ts)"
  by (induction ts) auto

lemma insert_timeout_set [simp]: "set (insert_timeout t ts) = insert t (set ts)"
  by (induction ts) auto

lemma insert_timeout_sorted: "due_order ts \<Longrightarrow> due_order (insert_timeout t ts)"
  by (induction ts) (auto simp: not_less)

lemma filter_insert_timeout: "\<not> P t \<Longrightarrow> filter P (insert_timeout t ts) = filter P ts"
  by (induction ts) auto

lemma cancel_timeout_sorted: "due_order ts \<Longrightarrow> due_order (cancel_timeout name task ts)"
  by (induction ts) (auto simp: cancel_timeout_def)

lemma expired_exact:
  "due_order ts \<Longrightarrow>
     get_expired_timeouts now ts =
       (map (\<lambda>t. (to_resource t, to_task t)) (filter (\<lambda>t. timeout_at t \<le> now) ts),
        filter (\<lambda>t. now < timeout_at t) ts)"
proof (induction ts)
  case (Cons t ts)
  show ?case
  proof (cases "timeout_at t \<le> now")
    case False
    with Cons.prems have "\<forall>e \<in> set ts. now < timeout_at e" by auto
    then have "filter (\<lambda>t. timeout_at t \<le> now) ts = []" "filter (\<lambda>t. now < timeout_at t) ts = ts"
      by (auto simp: filter_empty_conv filter_id_conv)
    with False show ?thesis by simp
  qed (use Cons in auto)
qed simp

section \<open>The manager as a transition system\<close>

inductive lifecycle_step :: "hash_order \<Rightarrow> (string \<Rightarrow> string) \<Rightarrow> lifecycle_manager \<Rightarrow> lifecycle_manager \<Rightarrow> bool"
  for \<pi> \<delta> where
  acquire: "lm_acquire_resource \<pi> \<delta> now now' name task access dur m = (r, m') \<Longrightarrow> lifecycle_step \<pi> \<delta> m m'"
| release: "lm_release_resource name task reason m = (r, m') \<Longrightarrow> lifecycle_step \<pi> \<delta> m m'"
| release_all: "release_all_task_resources \<pi> task reason m = (r, m') \<Longrightarrow> lifecycle_step \<pi> \<delta> m m'"
| expire: "process_expired_leases now m = (r, m') \<Longrightarrow> lifecycle_step \<pi> \<delta> m m'"

inductive lifecycle_reachable :: "hash_order \<Rightarrow> (string \<Rightarrow> string) \<Rightarrow> lifecycle_manager \<Rightarrow> bool"
  for \<pi> \<delta> where
  start: "lifecycle_reachable \<pi> \<delta> (manager_new p)"
| next_step: "lifecycle_reachable \<pi> \<delta> m \<Longrightarrow> lifecycle_step \<pi> \<delta> m m' \<Longrightarrow> lifecycle_reachable \<pi> \<delta> m'"

text \<open>
  Every lease is stored under its resource, the timeouts are in the order they are due, no
  resource depends on another and there is no pool.
\<close>

definition lifecycle_inv :: "lifecycle_manager \<Rightarrow> bool" where
  "lifecycle_inv m \<longleftrightarrow>
     hm_wf (active_leases m) \<and>
     (\<forall>k l. map_of (active_leases m) k = Some l \<longrightarrow> lease_resource l = k) \<and>
     due_order (timeouts m) \<and>
     depends (rg_dependencies (resource_graph m)) = {} \<and>
     depends (rg_dependents (resource_graph m)) = {} \<and>
     resource_pools m = []"

lemma new_inv: "lifecycle_inv (manager_new p)"
  by (simp add: lifecycle_inv_def manager_new_def resource_graph_new_def depends_def deps_at_def)

lemma depends_or_insert: "depends (or_insert name [] deps) = depends deps"
  by (auto simp: depends_def deps_at_def or_insert_def hash_simps split: option.splits if_splits
      dest: map_of_Some_key)

lemma depends_clear: "depends deps = {} \<Longrightarrow> depends (AList.update name [] deps) = {}"
  by (auto simp: depends_def deps_at_def hash_simps split: option.splits if_splits)

lemma depends_drop:
  assumes "depends deps = {}"
  shows "depends (map (\<lambda>(r, s). (r, removeAll name s)) deps) = {}"
proof -
  have "map_of (map (\<lambda>(r, s). (r, removeAll name s)) deps) k = map_option (removeAll name) (map_of deps k)" for k
    by (induction deps) auto
  then have "deps_at (map (\<lambda>(r, s). (r, removeAll name s)) deps) k = deps_at deps k - {name}" for k
    by (auto simp: deps_at_def split: option.splits)
  with assms show ?thesis by (auto simp: depends_def)
qed

lemma no_deadlock_reported:
  "depends (rg_dependencies (resource_graph m)) = {} \<Longrightarrow> is_hash_order \<pi> \<Longrightarrow> detect_deadlock \<pi> (resource_graph m) name = None"
  by (simp add: detect_deadlock_iff)

text \<open>\<open>acquire_resource\<close> either changes nothing or grants the lease.\<close>

lemma acquire_state:
  assumes "lm_acquire_resource \<pi> \<delta> now now' name task access dur m = (r, m')"
  shows "m' = m \<or> (\<exists>d. m' = snd (grant_lease now now' name task access d m))"
  using assms by (auto simp: lm_acquire_resource_def Let_def case_prod_beta split: if_splits option.splits)

lemma grant_inv: "lifecycle_inv m \<Longrightarrow> lifecycle_inv (snd (grant_lease now now' name task access d m))"
  by (auto simp: lifecycle_inv_def grant_lease_def Let_def update_resource_dependencies_def schedule_timeout_def
      depends_or_insert insert_timeout_sorted hash_simps)

lemma release_inv:
  assumes "lifecycle_inv m" "lm_release_resource name task reason m = (r, m')"
  shows "lifecycle_inv m'"
  using assms
  by (auto simp: lifecycle_inv_def lm_release_resource_def Let_def remove_resource_dependencies_def
      cancel_timeout_sorted depends_clear depends_drop hash_simps split: option.splits if_splits)

lemma release_each_inv:
  "lifecycle_inv m \<Longrightarrow> release_each task reason names m = (r, m') \<Longrightarrow> lifecycle_inv m'"
  by (induction names arbitrary: m) (auto split: prod.splits sum.splits dest: release_inv)

lemma expire_each_inv:
  "lifecycle_inv m \<Longrightarrow> expire_each expired m = (r, m') \<Longrightarrow> lifecycle_inv m'"
  by (induction expired m arbitrary: r m' rule: expire_each.induct)
    (auto split: prod.splits sum.splits if_splits dest: release_inv)

lemma step_inv:
  assumes "lifecycle_step \<pi> \<delta> m m'" "lifecycle_inv m"
  shows "lifecycle_inv m'"
  using assms
proof (induction rule: lifecycle_step.induct)
  case (acquire now now' name task access dur m r m')
  then show ?case using acquire_state grant_inv by metis
next
  case (release name task reason m r m')
  then show ?case by (rule release_inv [rotated])
next
  case (release_all task reason m r m')
  then show ?case
    by (auto simp: release_all_task_resources_def Let_def split: prod.splits sum.splits dest: release_each_inv)
next
  case (expire now m r m')
  have "lifecycle_inv (m\<lparr>timeouts := snd (get_expired_timeouts now (timeouts m))\<rparr>)"
    using expire(2) by (simp add: lifecycle_inv_def expired_exact sorted_filter)
  with expire(1) show ?case
    by (auto simp: process_expired_leases_def split: prod.splits dest: expire_each_inv)
qed

lemma lifecycle_reachable_inv: "lifecycle_reachable \<pi> \<delta> m \<Longrightarrow> lifecycle_inv m"
  by (induction rule: lifecycle_reachable.induct) (auto intro: new_inv step_inv)

section \<open>Acquisition and release\<close>

text \<open>The lease asked for conflicts with the one there is: they are not both \<open>Immutable\<close>.\<close>

definition blocked_by :: "lifecycle_manager \<Rightarrow> string \<Rightarrow> resource_access \<Rightarrow> resource_lease \<Rightarrow> bool" where
  "blocked_by m name access l \<longleftrightarrow>
     map_of (active_leases m) name = Some l \<and> \<not> (lease_access l = Immutable \<and> access = Immutable)"

lemma feasible_iff: "check_acquisition_feasibility m name access \<longleftrightarrow> (\<nexists>l. blocked_by m name access l)"
proof (cases "map_of (active_leases m) name")
  case (Some l)
  then show ?thesis
    by (cases "lease_access l"; cases access) (simp_all add: check_acquisition_feasibility_def blocked_by_def)
qed (simp add: check_acquisition_feasibility_def blocked_by_def)

lemma acquire_granted:
  assumes "lifecycle_inv m" "is_hash_order \<pi>" "\<nexists>l. blocked_by m name access l"
  shows "lm_acquire_resource \<pi> \<delta> now now' name task access dur m =
    (case grant_lease now now' name task access (case dur of Some d \<Rightarrow> d | None \<Rightarrow> default_lease_duration (policies m)) m of
       (l, m') \<Rightarrow> (Inr (Acquired l), m'))"
  using assms
  by (simp add: lm_acquire_resource_def Let_def feasible_iff no_deadlock_reported lifecycle_inv_def)

lemma acquire_blocked:
  assumes "blocked_by m name access l"
  shows "\<exists>reason. lm_acquire_resource \<pi> \<delta> now now' name task access dur m =
    (Inr (WaitRequired (lease_duration l - (now - lease_acquired_at l)) [lease_task l] reason), m)"
  using assms feasible_iff [of m name access]
  by (auto simp: lm_acquire_resource_def Let_def calculate_wait_time_def blocked_by_def)

lemma delete_update: "map_of m k = None \<Longrightarrow> AList.delete k (AList.update k v m) = m"
  by (induction m) (auto split: if_splits)

lemma or_insert_clear:
  "map_of (or_insert k [] m) k = Some [] \<Longrightarrow> depends (AList.update k [] (or_insert k [] m)) = depends (or_insert k [] m)"
  by (auto simp: depends_def deps_at_def hash_simps split: if_splits option.splits)

lemma release_owned:
  assumes "map_of (active_leases m) name = Some l" "lease_task l = task"
  shows "lm_release_resource name task reason m =
    (Inr (), remove_resource_dependencies name task
       (m\<lparr>active_leases := AList.delete name (active_leases m), timeouts := cancel_timeout name task (timeouts m)\<rparr>))"
  using assms by (simp add: lm_release_resource_def)

lemma remove_dependencies_simps [simp]:
  "active_leases (remove_resource_dependencies name task m) = active_leases m"
  "timeouts (remove_resource_dependencies name task m) = timeouts m"
  "policies (remove_resource_dependencies name task m) = policies m"
  by (simp_all add: remove_resource_dependencies_def)

lemma grant_simps [simp]:
  "active_leases (snd (grant_lease now now' name task access d m)) =
     AList.update name (fst (grant_lease now now' name task access d m)) (active_leases m)"
  "timeouts (snd (grant_lease now now' name task access d m)) = schedule_timeout now' name task d (timeouts m)"
  "policies (snd (grant_lease now now' name task access d m)) = policies m"
  "lease_task (fst (grant_lease now now' name task access d m)) = task"
  "lease_access (fst (grant_lease now now' name task access d m)) = access"
  "lease_resource (fst (grant_lease now now' name task access d m)) = name"
  "lease_acquired_at (fst (grant_lease now now' name task access d m)) = now"
  "lease_duration (fst (grant_lease now now' name task access d m)) = d"
  by (simp_all add: grant_lease_def Let_def)

section \<open>Disciplined clients\<close>

text \<open>
  A client is disciplined when it acquires only what nobody holds and releases only what it holds.
  Then leases and timeouts correspond one to one, if the policies release what has timed out.
\<close>

inductive disciplined_step :: "hash_order \<Rightarrow> (string \<Rightarrow> string) \<Rightarrow> lifecycle_manager \<Rightarrow> lifecycle_manager \<Rightarrow> bool"
  for \<pi> \<delta> where
  d_acquire: "map_of (active_leases m) name = None \<Longrightarrow> now \<le> now' \<Longrightarrow>
     lm_acquire_resource \<pi> \<delta> now now' name task access dur m = (r, m') \<Longrightarrow> disciplined_step \<pi> \<delta> m m'"
| d_release: "map_of (active_leases m) name = Some l \<Longrightarrow> lease_task l = task \<Longrightarrow>
     lm_release_resource name task reason m = (r, m') \<Longrightarrow> disciplined_step \<pi> \<delta> m m'"
| d_release_all: "release_all_task_resources \<pi> task reason m = (r, m') \<Longrightarrow> disciplined_step \<pi> \<delta> m m'"
| d_expire: "process_expired_leases now m = (r, m') \<Longrightarrow> disciplined_step \<pi> \<delta> m m'"

inductive disciplined_reachable :: "hash_order \<Rightarrow> (string \<Rightarrow> string) \<Rightarrow> lifecycle_manager \<Rightarrow> bool"
  for \<pi> \<delta> where
  d_start: "disciplined_reachable \<pi> \<delta> (manager_new p)"
| d_next: "disciplined_reachable \<pi> \<delta> m \<Longrightarrow> disciplined_step \<pi> \<delta> m m' \<Longrightarrow> disciplined_reachable \<pi> \<delta> m'"

lemma disciplined_step_is_step: "disciplined_step \<pi> \<delta> m m' \<Longrightarrow> lifecycle_step \<pi> \<delta> m m'"
  by (induction rule: disciplined_step.induct) (auto intro: lifecycle_step.intros)

lemma disciplined_is_reachable: "disciplined_reachable \<pi> \<delta> m \<Longrightarrow> lifecycle_reachable \<pi> \<delta> m"
  by (induction rule: disciplined_reachable.induct)
    (auto intro: lifecycle_reachable.intros disciplined_step_is_step)

text \<open>The timeouts, by resource: each with the lease it stands for, due no earlier than the lease ends.\<close>

definition covered :: "lifecycle_manager \<Rightarrow> bool" where
  "covered m \<longleftrightarrow>
     distinct (map to_resource (timeouts m)) \<and>
     (\<forall>k. (\<exists>l. map_of (active_leases m) k = Some l) \<longleftrightarrow> k \<in> to_resource ` set (timeouts m)) \<and>
     (\<forall>t \<in> set (timeouts m). \<forall>l. map_of (active_leases m) (to_resource t) = Some l \<longrightarrow>
        lease_task l = to_task t \<and> lease_acquired_at l + lease_duration l \<le> timeout_at t)"

lemma covered_keyI:
  "covered m \<Longrightarrow> map_of (active_leases m) k = Some l \<Longrightarrow>
     \<exists>t \<in> set (timeouts m). to_resource t = k \<and> to_task t = lease_task l \<and> lease_acquired_at l + lease_duration l \<le> timeout_at t"
  unfolding covered_def by (metis image_iff)

lemma distinct_insert_timeout:
  "distinct (map to_resource (insert_timeout t ts)) \<longleftrightarrow> to_resource t \<notin> to_resource ` set ts \<and> distinct (map to_resource ts)"
  by (induction ts) auto

lemma grant_covered:
  assumes "covered m" "map_of (active_leases m) name = None" "now \<le> now'"
  shows "covered (snd (grant_lease now now' name task access d m))"
proof -
  from assms(1,2) have "name \<notin> to_resource ` set (timeouts m)" by (metis covered_def option.distinct(1))
  with assms show ?thesis
    unfolding covered_def by (auto simp: schedule_timeout_def distinct_insert_timeout hash_simps)
qed

text \<open>Releasing a held resource takes its one timeout away.\<close>

lemma cancel_only:
  assumes "covered m" "map_of (active_leases m) name = Some l" "lease_task l = task"
  shows "cancel_timeout name task (timeouts m) = filter (\<lambda>t. to_resource t \<noteq> name) (timeouts m)"
  unfolding cancel_timeout_def
proof (rule filter_cong [OF refl])
  fix t
  assume "t \<in> set (timeouts m)"
  with assms show "(\<not> (to_resource t = name \<and> to_task t = task)) = (to_resource t \<noteq> name)"
    unfolding covered_def by fastforce
qed

lemma release_covered:
  assumes "covered m" "map_of (active_leases m) name = Some l" "lease_task l = task"
  shows "covered (snd (lm_release_resource name task reason m))"
  using assms cancel_only [OF assms]
  by (auto simp: release_owned covered_def hash_simps distinct_map_filter)

lemma release_each_covered:
  assumes "covered m" "distinct names" "\<forall>n \<in> set names. \<exists>l. map_of (active_leases m) n = Some l \<and> lease_task l = task"
  shows "\<exists>m'. release_each task reason names m = (Inr (), m') \<and> covered m' \<and> policies m' = policies m \<and>
    (\<forall>k. map_of (active_leases m') k = (if k \<in> set names then None else map_of (active_leases m) k))"
  using assms
proof (induction names arbitrary: m)
  case (Cons n names)
  then obtain l where l: "map_of (active_leases m) n = Some l" "lease_task l = task" by auto
  then obtain m1 where m1: "lm_release_resource n task reason m = (Inr (), m1)"
    "active_leases m1 = AList.delete n (active_leases m)" "policies m1 = policies m"
    by (simp add: release_owned)
  have "\<forall>n \<in> set names. \<exists>l. map_of (active_leases m1) n = Some l \<and> lease_task l = task"
    using Cons.prems(2,3) by (auto simp: m1(2) hash_simps)
  moreover from release_covered [OF Cons.prems(1) l, of reason] have "covered m1" by (simp add: m1(1))
  ultimately obtain m' where
    m': "release_each task reason names m1 = (Inr (), m')" "covered m'" "policies m' = policies m1"
      "\<forall>k. map_of (active_leases m') k = (if k \<in> set names then None else map_of (active_leases m1) k)"
    using Cons.IH [of m1] Cons.prems(2) by auto
  from m' m1 show ?case by (auto simp: hash_simps)
qed simp

lemma held_names:
  fixes task :: task_id
  assumes "lifecycle_inv m" "is_hash_order \<pi>"
  defines "names \<equiv> map (lease_resource \<circ> snd)
             (filter (\<lambda>(_, lease). lease_task lease = task) (hm_iter \<pi> (active_leases m)))"
  shows "distinct names" "n \<in> set names \<longleftrightarrow> (\<exists>l. map_of (active_leases m) n = Some l \<and> lease_task l = task)"
proof -
  have key: "(k, l) \<in> set (hm_iter \<pi> (active_leases m)) \<Longrightarrow> lease_resource l = k" for k l
    using assms(1,2) by (simp add: hm_iter_mem lifecycle_inv_def)
  have eq: "names = map fst (filter (\<lambda>(_, lease). lease_task lease = task) (hm_iter \<pi> (active_leases m)))"
    using key by (auto simp: names_def)
  have "distinct (map fst (hm_iter \<pi> (active_leases m)))"
    using assms(1,2) by (simp add: hm_iter_distinct lifecycle_inv_def)
  then show "distinct names" unfolding eq by (rule distinct_map_filter)
  show "n \<in> set names \<longleftrightarrow> (\<exists>l. map_of (active_leases m) n = Some l \<and> lease_task l = task)"
    using assms(2) by (force simp: eq hm_iter_mem)
qed

text \<open>Expiry: \<open>es\<close> are the timeouts taken out of the queue and not yet served.\<close>

lemma covered_tail:
  assumes "covered (m\<lparr>timeouts := (t # es) @ ts\<rparr>)"
  shows "covered (m\<lparr>timeouts := es @ ts, active_leases := AList.delete (to_resource t) (active_leases m)\<rparr>)"
proof -
  let ?rest = "es @ ts"
  from assms have fresh: "to_resource t \<notin> to_resource ` set ?rest" and d: "distinct (map to_resource ?rest)"
    and keys: "\<And>k. (\<exists>l. map_of (active_leases m) k = Some l) \<longleftrightarrow> k = to_resource t \<or> k \<in> to_resource ` set ?rest"
    and due: "\<And>u l. u \<in> set ?rest \<Longrightarrow> map_of (active_leases m) (to_resource u) = Some l \<Longrightarrow>
        lease_task l = to_task u \<and> lease_acquired_at l + lease_duration l \<le> timeout_at u"
    by (auto simp: covered_def)
  show ?thesis
    unfolding covered_def
  proof (intro conjI allI ballI impI)
    fix k
    show "(\<exists>l. map_of (active_leases (m\<lparr>timeouts := ?rest, active_leases := AList.delete (to_resource t) (active_leases m)\<rparr>)) k =
        Some l) = (k \<in> to_resource ` set (timeouts (m\<lparr>timeouts := ?rest, active_leases := AList.delete (to_resource t) (active_leases m)\<rparr>)))"
      using keys [of k] fresh by (cases "k = to_resource t") (simp_all add: hash_simps)
  next
    fix u l
    assume "u \<in> set (timeouts (m\<lparr>timeouts := ?rest, active_leases := AList.delete (to_resource t) (active_leases m)\<rparr>))"
      "map_of (active_leases (m\<lparr>timeouts := ?rest, active_leases := AList.delete (to_resource t) (active_leases m)\<rparr>)) (to_resource u) = Some l"
    then have "u \<in> set ?rest" "map_of (active_leases m) (to_resource u) = Some l"
      by (auto simp: hash_simps split: if_splits)
    from due [OF this] show "lease_task l = to_task u" "lease_acquired_at l + lease_duration l \<le> timeout_at u" by auto
  qed (use d in simp)
qed

lemma expire_each_serves:
  assumes "covered (m\<lparr>timeouts := es @ timeouts m\<rparr>)" "auto_release_on_timeout (policies m)"
  shows "\<exists>m'. expire_each (map (\<lambda>t. (to_resource t, to_task t)) es) m =
      (Inr (map (\<lambda>t. LeaseExpired (to_resource t) (to_task t)) es), m') \<and>
    covered m' \<and> timeouts m' = timeouts m \<and> policies m' = policies m \<and>
    (\<forall>k. map_of (active_leases m') k = (if k \<in> to_resource ` set es then None else map_of (active_leases m) k))"
  using assms
proof (induction es arbitrary: m)
  case (Cons t es)
  from Cons.prems(1) have "to_resource t \<in> to_resource ` set (timeouts (m\<lparr>timeouts := (t # es) @ timeouts m\<rparr>))" by simp
  then obtain l where l: "map_of (active_leases m) (to_resource t) = Some l" "lease_task l = to_task t"
    using Cons.prems(1) unfolding covered_def by fastforce
  have fresh: "to_resource t \<notin> to_resource ` set (es @ timeouts m)"
    using Cons.prems(1) by (auto simp: covered_def)
  then have "\<forall>x \<in> set (timeouts m). to_resource x \<noteq> to_resource t"
    by (metis UnI2 image_eqI set_append)
  then have "cancel_timeout (to_resource t) (to_task t) (timeouts m) = timeouts m"
    unfolding cancel_timeout_def by (auto intro!: filter_True)
  with l obtain m1 where m1: "lm_release_resource (to_resource t) (to_task t) ReasonLeaseExpired m = (Inr (), m1)"
    "active_leases m1 = AList.delete (to_resource t) (active_leases m)"
    "timeouts m1 = timeouts m" "policies m1 = policies m"
    by (simp add: release_owned)
  have "covered (m1\<lparr>timeouts := es @ timeouts m1\<rparr>)"
    using covered_tail [OF Cons.prems(1)] fresh by (simp add: covered_def m1 hash_simps)
  from Cons.IH [OF this] Cons.prems(2) obtain m' where
    m': "expire_each (map (\<lambda>t. (to_resource t, to_task t)) es) m1 =
       (Inr (map (\<lambda>t. LeaseExpired (to_resource t) (to_task t)) es), m')"
    "covered m'" "timeouts m' = timeouts m" "policies m' = policies m"
    "\<forall>k. map_of (active_leases m') k = (if k \<in> to_resource ` set es then None else map_of (active_leases m1) k)"
    by (auto simp: m1)
  from m' m1 Cons.prems(2) show ?case by (auto simp: hash_simps)
qed simp

lemma covered_mset:
  assumes "mset ts = mset (timeouts m)" "covered m"
  shows "covered (m\<lparr>timeouts := ts\<rparr>)"
proof -
  from assms(1) have "set ts = set (timeouts m)" "distinct (map to_resource ts) = distinct (map to_resource (timeouts m))"
    by (metis set_mset_mset, metis mset_map mset_eq_imp_distinct_iff)
  with assms(2) show ?thesis unfolding covered_def by simp
qed

lemma expiry_serves:
  fixes now :: instant
  assumes "lifecycle_inv m" "covered m" "auto_release_on_timeout (policies m)"
  defines "due \<equiv> filter (\<lambda>t. timeout_at t \<le> now) (timeouts m)"
  shows "\<exists>m'. process_expired_leases now m = (Inr (map (\<lambda>t. LeaseExpired (to_resource t) (to_task t)) due), m') \<and>
    covered m' \<and> timeouts m' = filter (\<lambda>t. now < timeout_at t) (timeouts m) \<and> policies m' = policies m \<and>
    (\<forall>k. map_of (active_leases m') k = (if k \<in> to_resource ` set due then None else map_of (active_leases m) k))"
proof -
  let ?rest = "filter (\<lambda>t. now < timeout_at t) (timeouts m)"
  have q: "get_expired_timeouts now (timeouts m) = (map (\<lambda>t. (to_resource t, to_task t)) due, ?rest)"
    using assms(1) by (simp add: lifecycle_inv_def expired_exact due_def)
  have "mset (filter (\<lambda>t. timeout_at t \<le> now) ts @ filter (\<lambda>t. now < timeout_at t) ts) = mset ts" for ts
    by (induction ts) auto
  then have "mset (due @ ?rest) = mset (timeouts m)"
    by (simp only: due_def)
  then have "covered (m\<lparr>timeouts := due @ ?rest\<rparr>)"
    using assms(2) by (rule covered_mset)
  then have "covered ((m\<lparr>timeouts := ?rest\<rparr>)\<lparr>timeouts := due @ timeouts (m\<lparr>timeouts := ?rest\<rparr>)\<rparr>)" by simp
  from expire_each_serves [OF this] assms(3) show ?thesis
    unfolding process_expired_leases_def q by (simp cong: if_cong)
qed

text \<open>No operation changes the policies.\<close>

lemma release_policies: "lm_release_resource name task reason m = (r, m') \<Longrightarrow> policies m' = policies m"
  by (auto simp: lm_release_resource_def Let_def remove_resource_dependencies_def split: option.splits if_splits)

lemma release_each_policies: "release_each task reason names m = (r, m') \<Longrightarrow> policies m' = policies m"
proof (induction names arbitrary: m)
  case (Cons n names)
  obtain q m1 where "lm_release_resource n task reason m = (q, m1)" by force
  with Cons release_policies [OF this] show ?case by (auto split: sum.splits)
qed simp

lemma expire_each_policies: "expire_each expired m = (r, m') \<Longrightarrow> policies m' = policies m"
proof (induction expired arbitrary: m r)
  case (Cons e es)
  obtain n task where e: "e = (n, task)" by force
  obtain q m1 where "lm_release_resource n task ReasonLeaseExpired m = (q, m1)" by force
  with Cons e release_policies [OF this] show ?case by (auto split: sum.splits if_splits prod.splits)
qed simp

lemma disciplined_step_policies: "disciplined_step \<pi> \<delta> m m' \<Longrightarrow> policies m' = policies m"
proof (induction rule: disciplined_step.induct)
  case (d_acquire m name now now' task access dur r m')
  from acquire_state [OF d_acquire(3)] show ?case by (auto simp: grant_simps)
next
  case (d_release m name l task reason r m')
  then show ?case by (blast dest: release_policies)
next
  case (d_release_all task reason m r m')
  then show ?case
    by (auto simp: release_all_task_resources_def Let_def dest: release_each_policies split: prod.splits sum.splits)
next
  case (d_expire now m r m')
  then show ?case
    by (auto simp: process_expired_leases_def dest: expire_each_policies split: prod.splits)
qed

lemma disciplined_covered:
  assumes "disciplined_reachable \<pi> \<delta> m" "is_hash_order \<pi>" "auto_release_on_timeout (policies m)"
  shows "covered m \<and> auto_release_on_timeout (policies m)"
  using assms(1,3)
proof (induction rule: disciplined_reachable.induct)
  case (d_start p)
  then show ?case by (simp add: covered_def manager_new_def)
next
  case (d_next m m')
  then have inv: "lifecycle_inv m" by (intro lifecycle_reachable_inv disciplined_is_reachable)
  from d_next.prems disciplined_step_policies [OF d_next(2)] d_next.IH
  have cov: "covered m \<and> auto_release_on_timeout (policies m)" by simp
  from d_next(2) cov inv show ?case
  proof (induction rule: disciplined_step.induct)
    case (d_acquire m name now now' task access dur r m')
    from acquire_state [OF d_acquire(3)] d_acquire show ?case by (auto intro: grant_covered)
  next
    case (d_release m name l task reason r m')
    with release_covered [of m name l task reason] show ?case by (auto simp: release_owned)
  next
    case (d_release_all task reason m r m')
    let ?names = "map (lease_resource \<circ> snd) (filter (\<lambda>(_, lease). lease_task lease = task) (hm_iter \<pi> (active_leases m)))"
    from release_each_covered [of m ?names task reason] held_names [OF d_release_all(3) assms(2), where task = task] d_release_all(2)
    obtain m1 where "release_each task reason ?names m = (Inr (), m1)" "covered m1" "policies m1 = policies m"
      by blast
    with d_release_all(1,2) show ?case by (simp add: release_all_task_resources_def Let_def)
  next
    case (d_expire now m r m')
    with expiry_serves [of m now] show ?case by auto
  qed
qed

text \<open>With \<open>auto_release_on_timeout\<close> off, the expired timeouts are dropped and nothing is released.\<close>

lemma expiry_without_release:
  "\<not> auto_release_on_timeout (policies m) \<Longrightarrow> expire_each expired m = (Inr [], m)"
  by (induction expired) auto

section \<open>Properties\<close>

text \<open>
  the cycle check of the resource graph answers whether the dependencies have a cycle, and the
  deadlock detection whether a cycle is reachable from the resource asked for, whatever the
  iteration order of the hash tables.
\<close>

theorem cycle_searches_exact:
  assumes "is_hash_order \<pi>"
  shows "(has_cycle \<pi> g \<longleftrightarrow> \<not> acyclic (depends (rg_dependencies g))) \<and>
    (detect_deadlock \<pi> g r = None \<longleftrightarrow>
      \<not> (\<exists>x. (r, x) \<in> (depends (rg_dependencies g))\<^sup>+ \<and> (x, x) \<in> (depends (rg_dependencies g))\<^sup>+))"
  using has_cycle_iff [OF assms] detect_deadlock_iff [OF assms] by blast

definition ring :: resource_dependency_graph where
  "ring = graph_add_dependency ''c'' ''b'' (graph_add_dependency ''b'' ''a''
     (graph_add_dependency ''a'' ''b'' (graph_add_dependency ''x'' ''c'' resource_graph_new)))"

theorem cycle_searches_exact_witness:
  "\<not> acyclic (depends (rg_dependencies ring)) \<and>
   detect_deadlock rev ring ''x'' = Some [''b'', ''a'', ''b'', ''c''] \<and>
   (\<exists>x. (''x'', x) \<in> (depends (rg_dependencies ring))\<^sup>+ \<and> (x, x) \<in> (depends (rg_dependencies ring))\<^sup>+)"
proof -
  have "has_cycle rev ring" by code_simp
  moreover have "detect_deadlock rev ring ''x'' = Some [''b'', ''a'', ''b'', ''c'']" by code_simp
  ultimately show ?thesis using cycle_searches_exact [OF hash_order_rev, of ring "''x''"] by simp
qed

text \<open>
  C31: whatever the clients do, every manager the operations reach keeps each lease under its
  resource and the timeouts in the order they are due, and its dependency graph stays without edges;
  so the deadlock detection of an acquisition never reports anything.
\<close>

theorem lifecycle_invariant:
  assumes "lifecycle_reachable \<pi> \<delta> m" "is_hash_order \<pi>"
  shows "lifecycle_inv m \<and> detect_deadlock \<pi> (resource_graph m) name = None"
  using lifecycle_reachable_inv [OF assms(1)] no_deadlock_reported [OF _ assms(2)]
  unfolding lifecycle_inv_def by blast

text \<open>Three managers to evaluate: 30 time units by default; one with a lease of task 1, and shared.\<close>

definition demo_policies :: lifecycle_policies where
  "demo_policies =
     \<lparr>default_lease_duration = 30, max_lease_duration = 300, auto_release_on_timeout = True,
      deadlock_detection_enabled = True, resource_cleanup_interval = 60, max_dependency_depth = 10\<rparr>"

definition no_debug :: "string \<Rightarrow> string" where
  "no_debug s = s"

definition after_acquire :: "instant \<Rightarrow> string \<Rightarrow> task_id \<Rightarrow> resource_access \<Rightarrow> lifecycle_manager \<Rightarrow> lifecycle_manager" where
  "after_acquire now name task access m =
     snd (lm_acquire_resource rev no_debug now now name task access None m)"

definition demo_manager :: lifecycle_manager where
  "demo_manager = after_acquire 5 ''gpu'' 2 Immutable (after_acquire 0 ''disk'' 1 Mutable (manager_new demo_policies))"

lemma after_acquire_reachable:
  "lifecycle_reachable rev no_debug m \<Longrightarrow> lifecycle_reachable rev no_debug (after_acquire now name task access m)"
  unfolding after_acquire_def
  by (rule lifecycle_reachable.next_step, assumption, rule lifecycle_step.acquire) (rule surjective_pairing)

lemma demo_manager_reachable: "lifecycle_reachable rev no_debug demo_manager"
  unfolding demo_manager_def by (intro after_acquire_reachable lifecycle_reachable.start)

lemma after_acquire_disciplined:
  "disciplined_reachable rev no_debug m \<Longrightarrow> map_of (active_leases m) name = None \<Longrightarrow>
     disciplined_reachable rev no_debug (after_acquire now name task access m)"
  unfolding after_acquire_def
  by (rule disciplined_reachable.d_next, assumption, rule disciplined_step.d_acquire, assumption, rule order_refl)
    (rule surjective_pairing)

lemma demo_manager_disciplined: "disciplined_reachable rev no_debug demo_manager"
  unfolding demo_manager_def
proof (intro after_acquire_disciplined disciplined_reachable.d_start)
  show "map_of (active_leases (manager_new demo_policies)) ''disk'' = None" by code_simp
  show "map_of (active_leases (after_acquire 0 ''disk'' 1 Mutable (manager_new demo_policies))) ''gpu'' = None"
    by code_simp
qed

theorem lifecycle_invariant_witness:
  "lifecycle_inv demo_manager \<and> detect_deadlock rev (resource_graph demo_manager) ''gpu'' = None \<and>
   map timeout_at (timeouts demo_manager) = [30, 35]"
proof -
  have "map timeout_at (timeouts demo_manager) = [30, 35]" by code_simp
  with lifecycle_invariant [OF demo_manager_reachable hash_order_rev, of "''gpu''"] show ?thesis by simp
qed

text \<open>
  C32: an acquisition is granted exactly when no lease conflicts with it, that is when the resource
  is free or both accesses are immutable. A granted lease is recorded for the task with the duration
  asked for or the default and nothing else is changed among the leases; a refused one changes
  nothing, names the holder, and the time it gives is what remains of the holder's lease.
\<close>

theorem acquisition_exact:
  assumes "lifecycle_reachable \<pi> \<delta> m" "is_hash_order \<pi>"
  shows "case lm_acquire_resource \<pi> \<delta> now now' name task access dur m of
    (r, m') \<Rightarrow>
      (if \<exists>l. blocked_by m name access l then
         m' = m \<and> (\<exists>l reason. map_of (active_leases m) name = Some l \<and>
           r = Inr (WaitRequired (lease_duration l - (now - lease_acquired_at l)) [lease_task l] reason))
       else
         (\<exists>l. r = Inr (Acquired l) \<and> lease_task l = task \<and> lease_access l = access \<and> lease_acquired_at l = now \<and>
           lease_duration l = (case dur of Some d \<Rightarrow> d | None \<Rightarrow> default_lease_duration (policies m)) \<and>
           (\<forall>k. map_of (active_leases m') k = (if k = name then Some l else map_of (active_leases m) k))))"
proof (cases "\<exists>l. blocked_by m name access l")
  case True
  then obtain l where l: "blocked_by m name access l" by blast
  with acquire_blocked [OF l, of \<pi> \<delta> now now' task dur] show ?thesis by (auto simp: blocked_by_def)
next
  case False
  with acquire_granted [OF lifecycle_reachable_inv [OF assms(1)] assms(2), of name access \<delta> now now' task dur]
  show ?thesis by (simp add: case_prod_beta hash_simps)
qed

theorem acquisition_exact_witness:
  "(\<exists>reason. lm_acquire_resource rev no_debug 10 10 ''disk'' 7 Immutable None demo_manager =
      (Inr (WaitRequired 20 [1] reason), demo_manager)) \<and>
   (\<exists>l m'. lm_acquire_resource rev no_debug 10 11 ''gpu'' 7 Immutable None demo_manager = (Inr (Acquired l), m') \<and>
      lease_task l = 7 \<and> lease_duration l = 30)"
proof
  have disk: "map_of (active_leases demo_manager) ''disk'' =
      Some \<lparr>lease_resource = ''disk'', lease_task = 1, lease_access = Mutable, lease_acquired_at = 0,
        lease_duration = 30, lease_auto_release = True, lease_reference_count = 1, lease_dependencies = []\<rparr>"
    by code_simp
  then have "\<exists>l. blocked_by demo_manager ''disk'' Immutable l" by (simp add: blocked_by_def)
  with acquisition_exact [OF demo_manager_reachable hash_order_rev, where now = 10 and now' = 10 and name = "''disk''" and task = 7
        and access = Immutable and dur = None] disk
  show "\<exists>reason. lm_acquire_resource rev no_debug 10 10 ''disk'' 7 Immutable None demo_manager =
      (Inr (WaitRequired 20 [1] reason), demo_manager)"
    by (simp add: case_prod_beta) (metis prod.collapse)
  have gpu: "map_option lease_access (map_of (active_leases demo_manager) ''gpu'') = Some Immutable" by code_simp
  have "default_lease_duration (policies demo_manager) = 30" by code_simp
  moreover have "\<nexists>l. blocked_by demo_manager ''gpu'' Immutable l" using gpu by (auto simp: blocked_by_def)
  ultimately show "\<exists>l m'. lm_acquire_resource rev no_debug 10 11 ''gpu'' 7 Immutable None demo_manager = (Inr (Acquired l), m') \<and>
      lease_task l = 7 \<and> lease_duration l = 30"
    using acquisition_exact [OF demo_manager_reachable hash_order_rev, where now = 10 and now' = 11 and name = "''gpu''" and task = 7
        and access = Immutable and dur = None]
    by (simp add: case_prod_beta) (metis prod.collapse)
qed

text \<open>
  Acquiring a free resource and releasing it again gives back the leases and the timeouts there
  were before, provided no timeout was left over for that task and resource.
\<close>

theorem acquire_release_round_trip:
  assumes "lifecycle_reachable \<pi> \<delta> m" "is_hash_order \<pi>"
    and "map_of (active_leases m) name = None"
    and "\<forall>t \<in> set (timeouts m). \<not> (to_resource t = name \<and> to_task t = task)"
    and "lm_acquire_resource \<pi> \<delta> now now' name task access dur m = (r, m1)"
    and "lm_release_resource name task reason m1 = (r', m2)"
  shows "r' = Inr () \<and> active_leases m2 = active_leases m \<and> timeouts m2 = timeouts m"
proof -
  have "\<nexists>l. blocked_by m name access l" using assms(3) by (simp add: blocked_by_def)
  from acquire_granted [OF lifecycle_reachable_inv [OF assms(1)] assms(2) this, of \<delta> now now' task dur] assms(5)
  obtain d where m1: "m1 = snd (grant_lease now now' name task access d m)"
    by (auto simp: case_prod_beta)
  have held: "map_of (active_leases m1) name = Some (fst (grant_lease now now' name task access d m))"
    by (simp add: m1 hash_simps)
  have "cancel_timeout name task (timeouts m1) = timeouts m"
    using assms(4) by (auto simp: m1 schedule_timeout_def cancel_timeout_def filter_insert_timeout intro!: filter_True)
  with release_owned [OF held] assms(3,6) show ?thesis
    by (auto simp: m1 delete_update)
qed

theorem acquire_release_round_trip_witness:
  "\<exists>m1 m2. snd (lm_acquire_resource rev no_debug 9 9 ''net'' 3 Owned (Some 1) demo_manager) = m1 \<and>
     map to_resource (timeouts m1) = [''net'', ''disk'', ''gpu''] \<and>
     snd (lm_release_resource ''net'' 3 ExplicitRelease m1) = m2 \<and> timeouts m2 = timeouts demo_manager"
proof -
  obtain r m1 where acq: "lm_acquire_resource rev no_debug 9 9 ''net'' 3 Owned (Some 1) demo_manager = (r, m1)"
    by (cases "lm_acquire_resource rev no_debug 9 9 ''net'' 3 Owned (Some 1) demo_manager")
  obtain r' m2 where rel: "lm_release_resource ''net'' 3 ExplicitRelease m1 = (r', m2)"
    by (cases "lm_release_resource ''net'' 3 ExplicitRelease m1")
  have "map_of (active_leases demo_manager) ''net'' = None" by code_simp
  moreover have "\<forall>t \<in> set (timeouts demo_manager). \<not> (to_resource t = ''net'' \<and> to_task t = 3)" by code_simp
  moreover have "map to_resource (timeouts (snd (lm_acquire_resource rev no_debug 9 9 ''net'' 3 Owned (Some 1) demo_manager))) =
      [''net'', ''disk'', ''gpu'']" by code_simp
  ultimately show ?thesis
    using acquire_release_round_trip [OF demo_manager_reachable hash_order_rev _ _ acq rel] acq rel by simp
qed

text \<open>
  C33: when clients acquire only free resources and release only what they hold, processing the
  expired leases never fails. If the policies release on timeout (\<open>auto_release_on_timeout\<close>), it
  releases exactly the leases whose timeout is due, reports them in the order they were due, leaves
  the others with their timeouts, and no lease outlives its timeout. If they do not, it drops the
  timeouts that are due, releases nothing and reports nothing.
\<close>

theorem expiry_exact:
  fixes now :: instant
  assumes "disciplined_reachable \<pi> \<delta> m" "is_hash_order \<pi>"
  defines "due \<equiv> filter (\<lambda>t. timeout_at t \<le> now) (timeouts m)"
  shows "case process_expired_leases now m of
    (r, m') \<Rightarrow>
      if auto_release_on_timeout (policies m)
      then r = Inr (map (\<lambda>t. LeaseExpired (to_resource t) (to_task t)) due) \<and> due_order due \<and>
        (\<forall>k. map_of (active_leases m') k = (if k \<in> to_resource ` set due then None else map_of (active_leases m) k)) \<and>
        (\<forall>k l. map_of (active_leases m') k = Some l \<longrightarrow>
           (\<exists>t \<in> set (timeouts m'). to_resource t = k \<and> to_task t = lease_task l \<and> now < timeout_at t))
      else r = Inr [] \<and> active_leases m' = active_leases m \<and>
        timeouts m' = filter (\<lambda>t. now < timeout_at t) (timeouts m)"
proof (cases "auto_release_on_timeout (policies m)")
  case False
  have "lifecycle_inv m" using assms(1) by (intro lifecycle_reachable_inv disciplined_is_reachable)
  then have "get_expired_timeouts now (timeouts m) =
      (map (\<lambda>t. (to_resource t, to_task t)) due, filter (\<lambda>t. now < timeout_at t) (timeouts m))"
    by (simp add: lifecycle_inv_def expired_exact due_def)
  with False show ?thesis by (simp add: process_expired_leases_def expiry_without_release)
next
  case True
  from disciplined_covered [OF assms(1,2) True] have cov: "covered m" "auto_release_on_timeout (policies m)" by auto
  have inv: "lifecycle_inv m" using assms(1) by (intro lifecycle_reachable_inv disciplined_is_reachable)
  from expiry_serves [OF inv cov, of now] obtain m' where m':
    "process_expired_leases now m = (Inr (map (\<lambda>t. LeaseExpired (to_resource t) (to_task t)) due), m')"
    "covered m'" "timeouts m' = filter (\<lambda>t. now < timeout_at t) (timeouts m)"
    "\<forall>k. map_of (active_leases m') k = (if k \<in> to_resource ` set due then None else map_of (active_leases m) k)"
    unfolding due_def by blast
  have "due_order due" using inv by (simp add: due_def lifecycle_inv_def sorted_filter)
  moreover have "\<exists>t \<in> set (timeouts m'). to_resource t = k \<and> to_task t = lease_task l \<and> now < timeout_at t"
    if "map_of (active_leases m') k = Some l" for k l
    using covered_keyI [OF m'(2) that] m'(3) by auto
  ultimately show ?thesis using m'(1,4) True by simp
qed

theorem expiry_exact_witness:
  "fst (process_expired_leases 31 demo_manager) = Inr [LeaseExpired ''disk'' 1] \<and>
   map_of (active_leases (snd (process_expired_leases 31 demo_manager))) ''disk'' = None"
proof -
  have auto: "auto_release_on_timeout (policies demo_manager)" by code_simp
  have due: "filter (\<lambda>t. timeout_at t \<le> 31) (timeouts demo_manager) =
      [\<lparr>to_resource = ''disk'', to_task = 1, timeout_at = 30\<rparr>]" by code_simp
  show ?thesis
    using expiry_exact [OF demo_manager_disciplined hash_order_rev, of 31]
    by (cases "process_expired_leases 31 demo_manager") (simp add: due auto)
qed

section \<open>Clients that are not disciplined\<close>

text \<open>
  a release by a task that does not hold the lease is refused with an error, but the lease is
  gone all the same: the resource is free for anybody, and the timeout of the lost lease stays.
\<close>

theorem foreign_release_drops_the_lease:
  assumes "map_of (active_leases m) name = Some l" and "lease_task l \<noteq> task"
  shows "case lm_release_resource name task reason m of
    (r, m') \<Rightarrow>
      r = Inl (AResourceLifecycleError name ''release'' (''Task '' @ task_debug task @ '' does not own resource'')) \<and>
      timeouts m' = timeouts m \<and> (\<forall>access. check_acquisition_feasibility m' name access) \<and>
      (\<forall>k. k \<noteq> name \<longrightarrow> map_of (active_leases m') k = map_of (active_leases m) k)"
  using assms by (simp add: lm_release_resource_def Let_def feasible_iff blocked_by_def hash_simps)

theorem foreign_release_drops_the_lease_witness:
  "check_acquisition_feasibility (snd (lm_release_resource ''disk'' 9 ExplicitRelease demo_manager)) ''disk'' Owned \<and>
   \<not> check_acquisition_feasibility demo_manager ''disk'' Owned"
proof -
  obtain l where l: "map_of (active_leases demo_manager) ''disk'' = Some l" "lease_task l = 1"
  proof
    show "map_of (active_leases demo_manager) ''disk'' =
      Some \<lparr>lease_resource = ''disk'', lease_task = 1, lease_access = Mutable, lease_acquired_at = 0,
        lease_duration = 30, lease_auto_release = True, lease_reference_count = 1, lease_dependencies = []\<rparr>"
      by code_simp
  qed simp
  have "\<not> check_acquisition_feasibility demo_manager ''disk'' Owned" by code_simp
  with foreign_release_drops_the_lease [OF l(1), of 9 ExplicitRelease] l(2) show ?thesis
    by (simp add: case_prod_beta)
qed

text \<open>
  A second reader replaces the lease of the first. When the first timeout is due, expiry removes the
  lease of the second, which has not expired, and ends with an error; the timeout of \<open>disk\<close>, due as
  well, has left the queue without being served, so its lease never ends.
\<close>

definition shared_manager :: lifecycle_manager where
  "shared_manager = after_acquire 7 ''disk'' 3 Mutable
     (after_acquire 6 ''gpu'' 2 Immutable (after_acquire 5 ''gpu'' 1 Immutable (manager_new demo_policies)))"

lemma shared_lease_overwritten:
  "map_option lease_task (map_of (active_leases shared_manager) ''gpu'') = Some 2 \<and>
   map (\<lambda>t. (to_resource t, to_task t)) (timeouts shared_manager) = [(''gpu'', 1), (''gpu'', 2), (''disk'', 3)]"
  by code_simp

lemma expiry_loses_timeouts:
  "\<not> is_ok (fst (process_expired_leases 40 shared_manager)) \<and>
   map fst (active_leases (snd (process_expired_leases 40 shared_manager))) = [''disk''] \<and>
   timeouts (snd (process_expired_leases 40 shared_manager)) = []"
  by code_simp

end
