(* ===== verification/Semantic_Types.thy ===== *)
theory Semantic_Types
  imports Dependencies
begin

text \<open>
  What the semantic analysis of \<open>src/semantic.rs\<close> works on: \<open>SemanticContext\<close> with its lexical
  scopes, modules and imports, the equality, compatibility and substitution of types, the promotion of
  numeric types and the types of operators. The analysis itself is theory \<open>Semantic\<close>.
\<close>

section \<open>The context\<close>

record function_signature =
  fs_parameters :: "type list"
  fs_return_type :: type
  fs_is_async :: bool

record trait_info =
  ti_associated_types :: "string list"
  ti_methods :: "(string, type) hmap"

record impl_info =
  ii_associated_types :: "(string, type) hmap"
  ii_methods :: "(string, function_signature) hmap"

record module_info =
  mi_name :: string
  mi_path :: "string list"
  mi_is_public :: bool
  mi_variables :: "(string, type) hmap"
  mi_functions :: "(string, function_signature) hmap"
  mi_types :: "(string, type) hmap"
  mi_traits :: "(string, trait_info) hmap"
  mi_submodules :: "(string, string) hmap"
  mi_exports :: "(string, string) hmap"

text \<open>\<open>sc_var_scopes\<close> has the innermost scope last, as the vector of the source.\<close>

record semantic_context =
  sc_variables :: "(string, type) hmap"
  sc_var_scopes :: "(string, type) hmap list"
  sc_functions :: "(string, function_signature) hmap"
  sc_types :: "(string, type) hmap"
  sc_function_generics :: "(string, string list) hmap"
  sc_type_generics :: "(string, string list) hmap"
  sc_return_type :: "type option"
  sc_loop_depth :: usize
  sc_traits :: "(string, trait_info) hmap"
  sc_trait_impls :: "(string, (string, impl_info) hmap) hmap"
  sc_inherent_impls :: "(string, impl_info) hmap"
  sc_tables :: "(string, tabledef) hmap"
  sc_modules :: "(string, module_info) hmap"
  sc_module_path :: "string list"
  sc_use_imports :: "(string, string) hmap"
  sc_glob_imports :: "string list"

datatype semantic_error =
    UndefinedVariable string
  | UndefinedFunction string
  | TypeMismatch type type \<comment> \<open>expected, found\<close>
  | InvalidOperation string "type list"
  | ReturnOutsideFunction
  | BreakOutsideLoop
  | ContinueOutsideLoop
  | ArgumentCountMismatch usize usize \<comment> \<open>expected, found\<close>
  | AmbiguousMethod string string "string list"
  | InvalidRangeStepZero

abbreviation ident :: "string \<Rightarrow> type" where
  "ident name \<equiv> TIdentifier name []"

section \<open>Scopes and variables\<close>

definition enter_scope :: "semantic_context \<Rightarrow> semantic_context" where
  "enter_scope c = c\<lparr>sc_var_scopes := sc_var_scopes c @ [[]]\<rparr>"

definition exit_scope :: "semantic_context \<Rightarrow> semantic_context" where
  "exit_scope c = c\<lparr>sc_var_scopes := butlast (sc_var_scopes c)\<rparr>"

definition define_variable :: "string \<Rightarrow> type \<Rightarrow> semantic_context \<Rightarrow> semantic_context" where
  "define_variable name ty c =
     (if sc_var_scopes c = [] then c\<lparr>sc_variables := AList.update name ty (sc_variables c)\<rparr>
      else c\<lparr>sc_var_scopes := butlast (sc_var_scopes c) @ [AList.update name ty (last (sc_var_scopes c))]\<rparr>)"

section \<open>Modules and imports\<close>

definition module_new :: "string \<Rightarrow> string list \<Rightarrow> module_info" where
  "module_new name path =
     \<lparr>mi_name = name, mi_path = path, mi_is_public = True, mi_variables = [], mi_functions = [],
      mi_types = [], mi_traits = [], mi_submodules = [], mi_exports = []\<rparr>"

definition module_full_path :: "semantic_context \<Rightarrow> string" where
  "module_full_path c = join_with ''::'' (sc_module_path c)"

definition enter_module :: "string \<Rightarrow> semantic_context \<Rightarrow> semantic_context" where
  "enter_module name c =
     (let c' = c\<lparr>sc_module_path := sc_module_path c @ [name]\<rparr>; path = module_full_path c' in
      if hm_contains (sc_modules c') path then c'
      else c'\<lparr>sc_modules := AList.update path (module_new name (sc_module_path c')) (sc_modules c')\<rparr>)"

definition exit_module :: "semantic_context \<Rightarrow> semantic_context" where
  "exit_module c = c\<lparr>sc_module_path := butlast (sc_module_path c)\<rparr>"

text \<open>\<open>str::starts_with\<close>, \<open>ends_with\<close>, \<open>trim_start_matches\<close> and \<open>trim_end_matches\<close> of a pattern.\<close>

definition starts_with :: "string \<Rightarrow> string \<Rightarrow> bool" where
  "starts_with s p = (take (length p) s = p)"

definition ends_with :: "string \<Rightarrow> string \<Rightarrow> bool" where
  "ends_with s p = starts_with (rev s) (rev p)"

function trim_start_matches :: "string \<Rightarrow> string \<Rightarrow> string" where
  "trim_start_matches p s =
     (if p \<noteq> [] \<and> starts_with s p then trim_start_matches p (drop (length p) s) else s)"
  by pat_completeness auto
termination
proof (relation "measure (\<lambda>(p, s). length s)", goal_cases)
  case (2 p s)
  then have "s \<noteq> []" by (auto simp: starts_with_def)
  with 2 show ?case by (cases p) auto
qed simp

declare trim_start_matches.simps [simp del]

definition trim_end_matches :: "string \<Rightarrow> string \<Rightarrow> string" where
  "trim_end_matches p s = rev (trim_start_matches (rev p) (rev s))"

definition add_use_import :: "string list \<Rightarrow> string option \<Rightarrow> semantic_context \<Rightarrow> semantic_context" where
  "add_use_import path alias c =
     (let full_path = join_with ''::'' path;
          import_name = (case alias of Some a \<Rightarrow> a | None \<Rightarrow> if path = [] then '''' else last path)
      in if ends_with full_path ''*'' then
           c\<lparr>sc_glob_imports := sc_glob_imports c @ [trim_end_matches ''::*'' full_path]\<rparr>
         else c\<lparr>sc_use_imports := AList.update import_name full_path (sc_use_imports c)\<rparr>)"

text \<open>\<open>resolve_name\<close> always returns a name, so the \<open>Option\<close> around it is left out.\<close>

definition resolve_name :: "semantic_context \<Rightarrow> string \<Rightarrow> string" where
  "resolve_name c name =
     (case map_of (sc_use_imports c) name of
        Some full_path \<Rightarrow> full_path
      | None \<Rightarrow>
          (case List.find (hm_contains (sc_modules c)) (map (\<lambda>g. g @ ''::'' @ name) (sc_glob_imports c)) of
             Some path \<Rightarrow> path
           | None \<Rightarrow>
               (let current = module_full_path c; local_path = current @ ''::'' @ name in
                if current \<noteq> [] \<and> hm_contains (sc_modules c) local_path then local_path else name)))"

text \<open>The loop over the modules, for variables and for functions: the first module whose path begins the name.\<close>

fun find_in_modules :: "(module_info \<Rightarrow> (string, 'a) hmap) \<Rightarrow> string \<Rightarrow> (string \<times> module_info) list \<Rightarrow> 'a option" where
  "find_in_modules field name [] = None"
| "find_in_modules field name ((path, info) # rest) =
     (case (if starts_with name path then
              map_of (field info) (trim_start_matches ''::'' (trim_start_matches path name))
            else None) of
        Some x \<Rightarrow> Some x
      | None \<Rightarrow> find_in_modules field name rest)"

fun first_Some :: "('a \<Rightarrow> 'b option) \<Rightarrow> 'a list \<Rightarrow> 'b option" where
  "first_Some f [] = None"
| "first_Some f (x # xs) = (case f x of Some y \<Rightarrow> Some y | None \<Rightarrow> first_Some f xs)"

definition get_variable_type :: "hash_order \<Rightarrow> semantic_context \<Rightarrow> string \<Rightarrow> type option" where
  "get_variable_type \<pi> c name =
     (case first_Some (\<lambda>scope. map_of scope name) (rev (sc_var_scopes c)) of
        Some t \<Rightarrow> Some t
      | None \<Rightarrow>
          (case map_of (sc_variables c) (resolve_name c name) of
             Some t \<Rightarrow> Some t
           | None \<Rightarrow>
               (case find_in_modules mi_variables (resolve_name c name) (hm_iter \<pi> (sc_modules c)) of
                  Some t \<Rightarrow> Some t
                | None \<Rightarrow> map_of (sc_variables c) name)))"

definition define_function :: "string \<Rightarrow> function_signature \<Rightarrow> semantic_context \<Rightarrow> semantic_context" where
  "define_function name sig c =
     (let current = module_full_path c in
      if current = [] then c\<lparr>sc_functions := AList.update name sig (sc_functions c)\<rparr>
      else
        c\<lparr>sc_modules :=
            (case map_of (sc_modules c) current of
               Some info \<Rightarrow>
                 AList.update current (info\<lparr>mi_functions := AList.update name sig (mi_functions info)\<rparr>) (sc_modules c)
             | None \<Rightarrow> sc_modules c),
          sc_functions := AList.update (current @ ''::'' @ name) sig (sc_functions c)\<rparr>)"

definition get_function_signature :: "hash_order \<Rightarrow> semantic_context \<Rightarrow> string \<Rightarrow> function_signature option" where
  "get_function_signature \<pi> c name =
     (case map_of (sc_functions c) name of
        Some sig \<Rightarrow> Some sig
      | None \<Rightarrow>
          (case map_of (sc_functions c) (resolve_name c name) of
             Some sig \<Rightarrow> Some sig
           | None \<Rightarrow> find_in_modules mi_functions (resolve_name c name) (hm_iter \<pi> (sc_modules c))))"

lemma entry_size:
  "(k, t) \<in> set kvs \<Longrightarrow> size t \<le> size_list (size_prod (\<lambda>_. 0) size) kvs"
  using element_size [of "(k, t)" kvs "size_prod (\<lambda>_. 0) size"] by simp

lemma option_entry_size:
  "(k, Some t) \<in> set kvs \<Longrightarrow> size t \<le> size_list (size_prod (\<lambda>_. 0) (size_option size)) kvs"
  using element_size [of "(k, Some t)" kvs "size_prod (\<lambda>_. 0) (size_option size)"] by simp

section \<open>Equality of types\<close>

text \<open>
  The derived \<open>==\<close> of \<open>Type\<close>. Hash maps are equal when they have the same size and each entry of
  one is in the other, whatever their order.
\<close>

function types_equal :: "type \<Rightarrow> type \<Rightarrow> bool" where
  "types_equal TNone t = (case t of TNone \<Rightarrow> True | _ \<Rightarrow> False)"
| "types_equal (TIdentifier n args) t =
     (case t of
        TIdentifier n' args' \<Rightarrow>
          n = n' \<and> length args = length args' \<and> (\<forall>(a, b) \<in> set (zip args args'). types_equal a b)
      | _ \<Rightarrow> False)"
| "types_equal (TPointer m p) t = (case t of TPointer m' p' \<Rightarrow> m = m' \<and> types_equal p p' | _ \<Rightarrow> False)"
| "types_equal (TRawPointer p r) t = (case t of TRawPointer p' r' \<Rightarrow> r = r' \<and> types_equal p p' | _ \<Rightarrow> False)"
| "types_equal (TOptional p) t = (case t of TOptional p' \<Rightarrow> types_equal p p' | _ \<Rightarrow> False)"
| "types_equal (TResult p) t = (case t of TResult p' \<Rightarrow> types_equal p p' | _ \<Rightarrow> False)"
| "types_equal (TTuple ts) t =
     (case t of
        TTuple ts' \<Rightarrow> length ts = length ts' \<and> (\<forall>(a, b) \<in> set (zip ts ts'). types_equal a b)
      | _ \<Rightarrow> False)"
| "types_equal (TMatrix e dims) t = (case t of TMatrix e' dims' \<Rightarrow> dims = dims' \<and> types_equal e e' | _ \<Rightarrow> False)"
| "types_equal (TFunction ps r) t =
     (case t of
        TFunction ps' r' \<Rightarrow>
          length ps = length ps' \<and> (\<forall>(a, b) \<in> set (zip ps ps'). types_equal a b) \<and> types_equal r r'
      | _ \<Rightarrow> False)"
| "types_equal (TStruct fs) t =
     (case t of
        TStruct fs' \<Rightarrow> length fs = length fs' \<and>
          (\<forall>(k, a) \<in> set fs. case map_of fs' k of Some b \<Rightarrow> types_equal a b | None \<Rightarrow> False)
      | _ \<Rightarrow> False)"
| "types_equal (TEnum vs order) t =
     (case t of
        TEnum vs' order' \<Rightarrow> order = order' \<and> length vs = length vs' \<and>
          (\<forall>(k, a) \<in> set vs.
             case map_of vs' k of
               None \<Rightarrow> False
             | Some b \<Rightarrow>
                 (case a of
                    None \<Rightarrow> b = None
                  | Some x \<Rightarrow> (case b of Some y \<Rightarrow> types_equal x y | None \<Rightarrow> False)))
      | _ \<Rightarrow> False)"
| "types_equal (TTrait assoc ms) t =
     (case t of
        TTrait assoc' ms' \<Rightarrow> assoc = assoc' \<and> length ms = length ms' \<and>
          (\<forall>(k, a) \<in> set ms. case map_of ms' k of Some b \<Rightarrow> types_equal a b | None \<Rightarrow> False)
      | _ \<Rightarrow> False)"
| "types_equal (TReference m p) t = (case t of TReference m' p' \<Rightarrow> m = m' \<and> types_equal p p' | _ \<Rightarrow> False)"
  by pat_completeness auto
termination
  by (relation "measure (\<lambda>(t, _). size t)")
    (auto simp: less_Suc_eq_le intro: entry_size option_entry_size element_size [of _ _ size] trans_le_add1
      dest!: set_zip_leftD)

text \<open>The hash maps inside a type have each key once.\<close>

fun type_wf :: "type \<Rightarrow> bool" where
  "type_wf TNone = True"
| "type_wf (TIdentifier n args) = (\<forall>a \<in> set args. type_wf a)"
| "type_wf (TPointer m p) = type_wf p"
| "type_wf (TRawPointer p r) = type_wf p"
| "type_wf (TOptional p) = type_wf p"
| "type_wf (TResult p) = type_wf p"
| "type_wf (TTuple ts) = (\<forall>t \<in> set ts. type_wf t)"
| "type_wf (TMatrix e dims) = type_wf e"
| "type_wf (TFunction ps r) = ((\<forall>p \<in> set ps. type_wf p) \<and> type_wf r)"
| "type_wf (TStruct fs) = (hm_wf fs \<and> (\<forall>(k, t) \<in> set fs. type_wf t))"
| "type_wf (TEnum vs order) =
     (hm_wf vs \<and> (\<forall>(k, t) \<in> set vs. case t of None \<Rightarrow> True | Some x \<Rightarrow> type_wf x))"
| "type_wf (TTrait assoc ms) = (hm_wf ms \<and> (\<forall>(k, t) \<in> set ms. type_wf t))"
| "type_wf (TReference m p) = type_wf p"

lemma zip_self: "(a, b) \<in> set (zip xs xs) \<Longrightarrow> a = b \<and> a \<in> set xs"
  by (induction xs) auto

lemma hm_wf_map_of: "hm_wf m \<Longrightarrow> (k, v) \<in> set m \<Longrightarrow> map_of m k = Some v"
  by (simp add: hm_wf_def)

lemma types_equal_refl: "type_wf t \<Longrightarrow> types_equal t t"
  by (induction t rule: type_wf.induct)
    (fastforce dest: zip_self simp: hm_wf_map_of split: option.splits prod.splits)+

section \<open>Substitution\<close>

text \<open>
  The position of a parameter in the list; \<open>args[pos]\<close> panics when there are fewer arguments, which
  is \<open>None\<close>.
\<close>

fun position_of :: "'a \<Rightarrow> 'a list \<Rightarrow> nat option" where
  "position_of x [] = None"
| "position_of x (y # ys) = (if x = y then Some 0 else map_option Suc (position_of x ys))"

definition map_entries :: "('a \<Rightarrow> 'b option) \<Rightarrow> ('k \<times> 'a) list \<Rightarrow> ('k \<times> 'b) list option" where
  "map_entries f kvs = those (map (\<lambda>(k, v). map_option (Pair k) (f v)) kvs)"

lemma map_entries_cong [fundef_cong]:
  "kvs = kvs' \<Longrightarrow> (\<And>k v. (k, v) \<in> set kvs' \<Longrightarrow> f v = g v) \<Longrightarrow> map_entries f kvs = map_entries g kvs'"
  unfolding map_entries_def by (intro arg_cong [where f = those] map_cong) auto

definition map_all :: "('a \<Rightarrow> 'b option) \<Rightarrow> 'a list \<Rightarrow> 'b list option" where
  "map_all f xs = those (map f xs)"

lemma map_all_cong [fundef_cong]:
  "xs = ys \<Longrightarrow> (\<And>x. x \<in> set ys \<Longrightarrow> f x = g x) \<Longrightarrow> map_all f xs = map_all g ys"
  unfolding map_all_def by (intro arg_cong [where f = those] map_cong) auto

fun substitute_type :: "string list \<Rightarrow> type list \<Rightarrow> type \<Rightarrow> type option" where
  "substitute_type params args (TIdentifier name targs) =
     (if targs = [] then
        (case position_of name params of
           Some pos \<Rightarrow> if pos < length args then Some (args ! pos) else None
         | None \<Rightarrow> Some (TIdentifier name targs))
      else map_option (TIdentifier name) (map_all (substitute_type params args) targs))"
| "substitute_type params args (TPointer m p) = map_option (TPointer m) (substitute_type params args p)"
| "substitute_type params args (TRawPointer p r) =
     map_option (\<lambda>p. TRawPointer p r) (substitute_type params args p)"
| "substitute_type params args (TOptional p) = map_option TOptional (substitute_type params args p)"
| "substitute_type params args (TResult p) = map_option TResult (substitute_type params args p)"
| "substitute_type params args (TTuple ts) = map_option TTuple (map_all (substitute_type params args) ts)"
| "substitute_type params args (TMatrix e dims) =
     map_option (\<lambda>e. TMatrix e dims) (substitute_type params args e)"
| "substitute_type params args (TFunction ps r) =
     (case (map_all (substitute_type params args) ps, substitute_type params args r) of
        (Some ps', Some r') \<Rightarrow> Some (TFunction ps' r')
      | _ \<Rightarrow> None)"
| "substitute_type params args (TStruct fs) = map_option TStruct (map_entries (substitute_type params args) fs)"
| "substitute_type params args (TEnum vs order) =
     map_option (\<lambda>vs. TEnum vs order)
       (map_entries (\<lambda>v. case v of
                           None \<Rightarrow> Some None
                         | Some t \<Rightarrow> map_option Some (substitute_type params args t)) vs)"
| "substitute_type params args (TTrait assoc ms) = Some (TTrait assoc ms)"
| "substitute_type params args (TReference m p) = map_option (TReference m) (substitute_type params args p)"
| "substitute_type params args TNone = Some TNone"

definition resolve_type :: "semantic_context \<Rightarrow> type \<Rightarrow> type option" where
  "resolve_type c ty =
     (case ty of
        TIdentifier name args \<Rightarrow>
          if args \<noteq> [] then
            (case (map_of (sc_type_generics c) name, map_of (sc_types c) name) of
               (Some params, Some base) \<Rightarrow> substitute_type params args base
             | _ \<Rightarrow> Some ty)
          else Some ty
      | _ \<Rightarrow> Some ty)"

text \<open>
  \<open>resolve_concrete_type\<close> follows aliases until it meets a type that is not one, or an alias of
  itself. A cycle of two aliases is followed for ever.
\<close>

partial_function (option) follow_aliases :: "(string, type) hmap \<Rightarrow> type \<Rightarrow> type option" where
  "follow_aliases types current =
     (case current of
        TIdentifier name args \<Rightarrow>
          if args = [] then
            (case map_of types name of
               Some inner \<Rightarrow> if types_equal inner current then Some current else follow_aliases types inner
             | None \<Rightarrow> Some current)
          else Some current
      | _ \<Rightarrow> Some current)"

lemmas follow_aliases_code [code] = follow_aliases.simps

datatype semantic_panic = ExplicitPanic string | IndexOutOfBounds | SubtractOverflow | NeverReturns

definition resolve_concrete_type :: "semantic_context \<Rightarrow> type \<Rightarrow> semantic_panic + type" where
  "resolve_concrete_type c ty =
     (case resolve_type c ty of
        None \<Rightarrow> Inl IndexOutOfBounds
      | Some t \<Rightarrow> (case follow_aliases (sc_types c) t of None \<Rightarrow> Inl NeverReturns | Some t' \<Rightarrow> Inr t'))"

text \<open>\<open>types_match_with_assoc_and_self\<close> and its inner function.\<close>

fun subst_assoc :: "(string, type) hmap \<Rightarrow> type \<Rightarrow> type \<Rightarrow> type" where
  "subst_assoc assoc self_type (TIdentifier name args) =
     (if name = ''self'' then self_type
      else (case map_of assoc name of Some t \<Rightarrow> t | None \<Rightarrow> TIdentifier name args))"
| "subst_assoc assoc self_type (TPointer m p) = TPointer m (subst_assoc assoc self_type p)"
| "subst_assoc assoc self_type (TRawPointer p r) = TRawPointer (subst_assoc assoc self_type p) r"
| "subst_assoc assoc self_type (TOptional p) = TOptional (subst_assoc assoc self_type p)"
| "subst_assoc assoc self_type (TResult p) = TResult (subst_assoc assoc self_type p)"
| "subst_assoc assoc self_type (TTuple ts) = TTuple (map (subst_assoc assoc self_type) ts)"
| "subst_assoc assoc self_type (TFunction ps r) =
     TFunction (map (subst_assoc assoc self_type) ps) (subst_assoc assoc self_type r)"
| "subst_assoc assoc self_type (TStruct fs) = TStruct (map (\<lambda>(k, t). (k, subst_assoc assoc self_type t)) fs)"
| "subst_assoc assoc self_type (TEnum vs order) =
     TEnum (map (\<lambda>(k, t). (k, map_option (subst_assoc assoc self_type) t)) vs) order"
| "subst_assoc assoc self_type (TTrait names ms) =
     TTrait names (map (\<lambda>(k, t). (k, subst_assoc assoc self_type t)) ms)"
| "subst_assoc assoc self_type (TReference m p) = TReference m (subst_assoc assoc self_type p)"
| "subst_assoc assoc self_type t = t"

definition types_match_with_assoc_and_self :: "type \<Rightarrow> type \<Rightarrow> (string, type) hmap \<Rightarrow> type \<Rightarrow> bool" where
  "types_match_with_assoc_and_self expected found assoc self_type =
     types_equal (subst_assoc assoc self_type expected) (subst_assoc assoc self_type found)"

section \<open>Numeric types\<close>

definition numeric_promotion_order :: "string list" where
  "numeric_promotion_order =
     [''u8'', ''i8'', ''u16'', ''i16'', ''u32'', ''i32'', ''u64'', ''i64'', ''f32'', ''f64'']"

definition is_numeric_identifier_name :: "string \<Rightarrow> bool" where
  "is_numeric_identifier_name name = (name \<in> set numeric_promotion_order)"

definition numeric_type_name :: "type \<Rightarrow> string option" where
  "numeric_type_name t =
     (case t of TIdentifier name _ \<Rightarrow> if is_numeric_identifier_name name then Some name else None | _ \<Rightarrow> None)"

definition numeric_rank :: "string \<Rightarrow> nat option" where
  "numeric_rank name = position_of name numeric_promotion_order"

datatype numeric_kind = Unsigned | Signed | Float

definition numeric_info :: "string \<Rightarrow> (nat \<times> numeric_kind) option" where
  "numeric_info name = map_of
     [(''u8'', 8, Unsigned), (''i8'', 8, Signed), (''u16'', 16, Unsigned), (''i16'', 16, Signed),
      (''u32'', 32, Unsigned), (''i32'', 32, Signed), (''u64'', 64, Unsigned), (''i64'', 64, Signed),
      (''f32'', 32, Float), (''f64'', 64, Float)] name"

definition signed_type_for_bits :: "nat \<Rightarrow> string option" where
  "signed_type_for_bits bits =
     (if bits \<le> 8 then Some ''i8'' else if bits \<le> 16 then Some ''i16''
      else if bits \<le> 32 then Some ''i32'' else if bits \<le> 64 then Some ''i64'' else None)"

definition unwrap_or :: "'a option \<Rightarrow> 'a \<Rightarrow> 'a" where
  "unwrap_or x d = (case x of Some y \<Rightarrow> y | None \<Rightarrow> d)"

definition promote_by_rank :: "string \<Rightarrow> string \<Rightarrow> type" where
  "promote_by_rank ln rn =
     (if unwrap_or (numeric_rank rn) 0 \<le> unwrap_or (numeric_rank ln) 0 then ident ln else ident rn)"

definition promote_numeric_names :: "string \<Rightarrow> string \<Rightarrow> type" where
  "promote_numeric_names ln rn =
     (case (numeric_info ln, numeric_info rn) of
        (Some (l_bits, l_kind), Some (r_bits, r_kind)) \<Rightarrow>
          if l_kind = Float \<or> r_kind = Float then
            (let target_bits = (if l_kind = Float \<and> r_kind = Float then max l_bits r_bits
                                else if l_kind = Float then l_bits else r_bits)
             in ident (if 64 \<le> target_bits then ''f64'' else ''f32''))
          else if (l_kind = Signed \<and> r_kind = Unsigned) \<or> (l_kind = Unsigned \<and> r_kind = Signed) then
            ident (unwrap_or (signed_type_for_bits (max l_bits r_bits)) ''i64'')
          else promote_by_rank ln rn
      | _ \<Rightarrow> promote_by_rank ln rn)"

definition promote_numeric_types :: "type \<Rightarrow> type \<Rightarrow> type" where
  "promote_numeric_types left right =
     (case (numeric_type_name left, numeric_type_name right) of
        (Some ln, Some rn) \<Rightarrow> promote_numeric_names ln rn
      | (Some _, None) \<Rightarrow> left
      | (None, Some _) \<Rightarrow> right
      | (None, None) \<Rightarrow> left)"

definition is_numeric_type :: "type \<Rightarrow> bool" where
  "is_numeric_type t = (case t of TIdentifier name _ \<Rightarrow> is_numeric_identifier_name name | _ \<Rightarrow> False)"

definition is_integer_type :: "type \<Rightarrow> bool" where
  "is_integer_type t =
     (case numeric_type_name t of
        Some name \<Rightarrow> (case numeric_info name of Some (_, kind) \<Rightarrow> kind \<noteq> Float | None \<Rightarrow> False)
      | None \<Rightarrow> False)"

definition is_string_type :: "type \<Rightarrow> bool" where
  "is_string_type t = (case t of TIdentifier name _ \<Rightarrow> name = ''string'' \<or> name = ''String'' | _ \<Rightarrow> False)"

section \<open>Compatibility\<close>

definition is_word64_name :: "string \<Rightarrow> bool" where
  "is_word64_name name \<longleftrightarrow> name = ''i64'' \<or> name = ''u64''"

text \<open>
  \<open>types_compatible e f\<close> is asked with the expected type first. The arms of the source are
  grouped by the expected type, in their order.
\<close>

function types_compatible :: "type \<Rightarrow> type \<Rightarrow> bool" where
  "types_compatible TNone found = True"
| "types_compatible (TIdentifier a args) found =
     (case found of
        TEnum _ _ \<Rightarrow> a = ''i64''
      | TPointer _ _ \<Rightarrow> is_word64_name a
      | TRawPointer _ _ \<Rightarrow> is_word64_name a
      | TReference _ _ \<Rightarrow> is_word64_name a
      | TIdentifier b _ \<Rightarrow>
          a = b \<or> (a = ''String'' \<and> b = ''string'') \<or> (a = ''string'' \<and> b = ''String'') \<or>
          (is_numeric_identifier_name a \<and> is_numeric_identifier_name b)
      | TNone \<Rightarrow> True
      | _ \<Rightarrow> types_equal (TIdentifier a args) found)"
| "types_compatible (TEnum vs order) found =
     (case found of TIdentifier b _ \<Rightarrow> b = ''i64'' | TNone \<Rightarrow> True | _ \<Rightarrow> types_equal (TEnum vs order) found)"
| "types_compatible (TPointer m pointee) found =
     (case found of
        TIdentifier b _ \<Rightarrow>
          is_word64_name b \<or> (case pointee of TIdentifier expected _ \<Rightarrow> expected = b | _ \<Rightarrow> False)
      | TNone \<Rightarrow> True
      | _ \<Rightarrow> types_equal (TPointer m pointee) found)"
| "types_compatible (TRawPointer pointee r) found =
     (case found of TIdentifier b _ \<Rightarrow> is_word64_name b | TNone \<Rightarrow> True | _ \<Rightarrow> types_equal (TRawPointer pointee r) found)"
| "types_compatible (TReference m inner) found =
     (case found of TIdentifier b _ \<Rightarrow> is_word64_name b | TNone \<Rightarrow> True | _ \<Rightarrow> types_equal (TReference m inner) found)"
| "types_compatible (TOptional e) found =
     (case found of
        TOptional f \<Rightarrow> f = TNone \<or> e = TNone \<or> types_compatible e f
      | TNone \<Rightarrow> True
      | _ \<Rightarrow> types_equal (TOptional e) found)"
| "types_compatible (TResult e) found =
     (case found of
        TResult f \<Rightarrow> f = TNone \<or> e = TNone \<or> types_compatible e f
      | TNone \<Rightarrow> True
      | _ \<Rightarrow> types_equal (TResult e) found)"
| "types_compatible (TTuple es) found =
     (case found of
        TTuple fs \<Rightarrow> length es = length fs \<and> (\<forall>(e, f) \<in> set (zip es fs). types_compatible e f)
      | TNone \<Rightarrow> True
      | _ \<Rightarrow> types_equal (TTuple es) found)"
| "types_compatible (TMatrix e dims) found = (found = TNone \<or> types_equal (TMatrix e dims) found)"
| "types_compatible (TFunction ps r) found = (found = TNone \<or> types_equal (TFunction ps r) found)"
| "types_compatible (TStruct fs) found = (found = TNone \<or> types_equal (TStruct fs) found)"
| "types_compatible (TTrait names ms) found = (found = TNone \<or> types_equal (TTrait names ms) found)"
  by pat_completeness auto
termination
  by (relation "measure (\<lambda>(t, _). size t)")
    (auto simp: less_Suc_eq_le intro: element_size [of _ _ size] dest!: set_zip_leftD)

section \<open>Operators\<close>

definition bool_type :: type where
  "bool_type = ident ''bool''"

text \<open>\<open>{:?}\<close> of an operator is its name.\<close>

fun operator_debug :: "binary_operator \<Rightarrow> string" where
  "operator_debug Add = ''Add''" | "operator_debug Sub = ''Sub''" | "operator_debug Mul = ''Mul''"
| "operator_debug Div = ''Div''" | "operator_debug Mod = ''Mod''" | "operator_debug ElementMul = ''ElementMul''"
| "operator_debug ElementDiv = ''ElementDiv''" | "operator_debug ElementMod = ''ElementMod''"
| "operator_debug ShiftLeft = ''ShiftLeft''" | "operator_debug ShiftRight = ''ShiftRight''"
| "operator_debug And = ''And''" | "operator_debug Or = ''Or''" | "operator_debug Xor = ''Xor''"
| "operator_debug Equal = ''Equal''" | "operator_debug NotEqual = ''NotEqual''" | "operator_debug Less = ''Less''"
| "operator_debug Greater = ''Greater''" | "operator_debug LessEqual = ''LessEqual''"
| "operator_debug GreaterEqual = ''GreaterEqual''"

fun unary_operator_debug :: "unary_operator \<Rightarrow> string" where
  "unary_operator_debug Negate = ''Negate''" | "unary_operator_debug Not = ''Not''"
| "unary_operator_debug BitwiseNot = ''BitwiseNot''" | "unary_operator_debug Deref = ''Deref''"
| "unary_operator_debug AddressOf = ''AddressOf''" | "unary_operator_debug MutAddressOf = ''MutAddressOf''"

definition arithmetic_type :: "binary_operator \<Rightarrow> type \<Rightarrow> type \<Rightarrow> bool \<Rightarrow> semantic_error + type" where
  "arithmetic_type op left right operands_ok =
     (if left = TNone then Inr right
      else if right = TNone then Inr left
      else if types_compatible left right \<and> operands_ok then Inr (promote_numeric_types left right)
      else Inl (InvalidOperation (operator_debug op) [left, right]))"

definition infer_binary_op_type :: "type \<Rightarrow> binary_operator \<Rightarrow> type \<Rightarrow> semantic_error + type" where
  "infer_binary_op_type left op right =
     (if op = Add then
        (if is_string_type left \<and> is_string_type right then Inr (ident ''string'')
         else arithmetic_type op left right (is_numeric_type left \<or> is_numeric_type right))
      else if op \<in> {Sub, Mul, Div} then
        arithmetic_type op left right (is_numeric_type left \<or> is_numeric_type right)
      else if op = Mod then arithmetic_type op left right (is_integer_type left \<and> is_integer_type right)
      else if op \<in> {Equal, NotEqual, Less, Greater, LessEqual, GreaterEqual} then
        (if types_compatible left right then Inr bool_type
         else Inl (InvalidOperation (operator_debug op) [left, right]))
      else if op \<in> {And, Or, Xor} then
        (if types_compatible left bool_type \<and> types_compatible right bool_type then Inr bool_type
         else Inl (InvalidOperation (operator_debug op) [left, right]))
      else Inr left)"

definition infer_unary_op_type :: "unary_operator \<Rightarrow> type \<Rightarrow> semantic_error + type" where
  "infer_unary_op_type op operand =
     (case op of
        Negate \<Rightarrow>
          if is_numeric_type operand then Inr operand
          else Inl (InvalidOperation (unary_operator_debug op) [operand])
      | Not \<Rightarrow>
          if types_compatible operand bool_type then Inr bool_type
          else Inl (InvalidOperation (unary_operator_debug op) [operand])
      | AddressOf \<Rightarrow> Inr (TPointer False operand)
      | MutAddressOf \<Rightarrow> Inr (TPointer True operand)
      | Deref \<Rightarrow>
          (case operand of
             TPointer _ pointee \<Rightarrow> Inr pointee
           | TRawPointer pointee _ \<Rightarrow> Inr pointee
           | _ \<Rightarrow> Inl (InvalidOperation (unary_operator_debug op) [operand]))
      | _ \<Rightarrow> Inr operand)"

definition merge_match_branch_type :: "type \<Rightarrow> type \<Rightarrow> semantic_error + type" where
  "merge_match_branch_type existing new_type =
     (if types_compatible existing new_type then
        (if existing = TNone \<and> new_type \<noteq> TNone then Inr new_type else Inr existing)
      else if types_compatible new_type existing then Inr new_type
      else if new_type = TNone then Inr existing
      else if existing = TNone then Inr new_type
      else Inl (TypeMismatch existing new_type))"

text \<open>\<open>peel_to_identifier_name\<close>\<close>

fun peel_to_identifier_name :: "type \<Rightarrow> string option" where
  "peel_to_identifier_name (TPointer _ p) = peel_to_identifier_name p"
| "peel_to_identifier_name (TRawPointer p _) = peel_to_identifier_name p"
| "peel_to_identifier_name (TOptional p) = peel_to_identifier_name p"
| "peel_to_identifier_name (TResult p) = peel_to_identifier_name p"
| "peel_to_identifier_name (TIdentifier name _) = Some name"
| "peel_to_identifier_name _ = None"

definition mangle_method_name :: "string option \<Rightarrow> string \<Rightarrow> string \<Rightarrow> string" where
  "mangle_method_name trait_name tname method =
     (case trait_name of Some tn \<Rightarrow> tn @ ''_'' @ tname @ ''_'' @ method | None \<Rightarrow> tname @ ''_'' @ method)"

section \<open>The built-in names\<close>

text \<open>The functions and types that \<open>SemanticContext::new\<close> enters, in its order.\<close>

definition builtin :: "type list \<Rightarrow> type \<Rightarrow> function_signature" where
  "builtin parameters return_type = \<lparr>fs_parameters = parameters, fs_return_type = return_type, fs_is_async = False\<rparr>"

definition builtin_functions_1 :: "(string \<times> function_signature) list" where
  "builtin_functions_1 =
     [(''println'', builtin [] TNone),
      (''len'', builtin [ident ''string''] (ident ''i64'')),
      (''trim'', builtin [ident ''string''] (ident ''string'')),
      (''streq'', builtin [ident ''string'', ident ''string''] (ident ''bool'')),
      (''contains'', builtin [ident ''string'', ident ''string''] (ident ''bool'')),
      (''starts_with'', builtin [ident ''string'', ident ''string''] (ident ''bool'')),
      (''ends_with'', builtin [ident ''string'', ident ''string''] (ident ''bool'')),
      (''find'', builtin [ident ''string'', ident ''string''] (ident ''i64'')),
      (''String_new'', builtin [] (ident ''String''))]"

definition builtin_functions_2 :: "(string \<times> function_signature) list" where
  "builtin_functions_2 =
     [(''String_trim'', builtin [TPointer False (ident ''String'')] (ident ''String'')),
      (''String_clone'', builtin [TPointer False (ident ''String'')] (ident ''String'')),
      (''String_equals'', builtin [TPointer False (ident ''String''), TPointer False (ident ''String'')] (ident ''bool'')),
      (''String_from_cstr'', builtin [TRawPointer (ident ''u8'') True] (ident ''String'')),
      (''String_from_i64'', builtin [ident ''i64''] (ident ''String'')),
      (''String_from_u64'', builtin [ident ''u64''] (ident ''String'')),
      (''String_push_str'', builtin [TPointer True (ident ''String''), TPointer False (ident ''String'')] TNone)]"

definition builtin_functions_3 :: "(string \<times> function_signature) list" where
  "builtin_functions_3 =
     [(''String_push_char'', builtin [TPointer True (ident ''String''), ident ''u8''] TNone),
      (''String_substring'', builtin [TPointer False (ident ''String''), ident ''u64'', ident ''u64''] (ident ''String'')),
      (''marshal_string_to_cstr'', builtin [ident ''String''] (TRawPointer (ident ''u8'') True)),
      (''marshal_free_cstr'', builtin [TRawPointer (ident ''u8'') True] TNone),
      (''Path_new'', builtin [ident ''String''] (ident ''Path'')),
      (''Path_exists'', builtin [TPointer False (ident ''Path'')] (ident ''bool'')),
      (''io_dir_exists'', builtin [ident ''String''] (ident ''bool'')),
      (''io_dir_create_dir'', builtin [ident ''String''] (ident ''bool''))]"

definition builtin_functions_4 :: "(string \<times> function_signature) list" where
  "builtin_functions_4 =
     [(''io_dir_remove_file'', builtin [ident ''String''] (ident ''bool'')),
      (''io_dir_rename'', builtin [ident ''String'', ident ''String''] (ident ''bool'')),
      (''CommandLine_current'', builtin [] (ident ''CommandLine'')),
      (''CommandLine_len'', builtin [TPointer False (ident ''CommandLine'')] (ident ''u64'')),
      (''CommandLine_is_empty'', builtin [TPointer False (ident ''CommandLine'')] (ident ''bool'')),
      (''CommandLine_get'', builtin [TPointer False (ident ''CommandLine''), ident ''u64''] (TOptional (ident ''String''))),
      (''CommandLine_slice_from'', builtin [TPointer False (ident ''CommandLine''), ident ''u64''] (TMatrix (ident ''String'') [])),
      (''CommandLine_load_args'', builtin [] (TMatrix (ident ''String'') []))]"

definition builtin_functions_5 :: "(string \<times> function_signature) list" where
  "builtin_functions_5 =
     [(''String_ends_with'', builtin [TPointer False (ident ''String''), TPointer False (ident ''String'')] (ident ''bool'')),
      (''slice_len'', builtin [ident ''slice_i64''] (ident ''i64'')),
      (''slice_is_empty'', builtin [ident ''slice_i64''] (ident ''bool'')),
      (''slice_get'', builtin [ident ''slice_i64'', ident ''i64''] (TOptional (ident ''i64''))),
      (''slice_len_bool'', builtin [ident ''slice_bool''] (ident ''i64'')),
      (''slice_is_empty_bool'', builtin [ident ''slice_bool''] (ident ''bool'')),
      (''slice_get_bool'', builtin [ident ''slice_bool'', ident ''i64''] (TOptional (ident ''bool''))),
      (''exit'', builtin [ident ''i32''] TNone)]"

definition builtin_scalar_types :: "(string \<times> type) list" where
  "builtin_scalar_types =
     [(''i32'', ident ''i32''),
      (''i64'', ident ''i64''),
      (''f32'', ident ''f32''),
      (''f64'', ident ''f64''),
      (''bool'', ident ''bool''),
      (''u8'', ident ''u8''),
      (''u64'', ident ''u64''),
      (''string'', ident ''string''),
      (''char'', ident ''char''),
      (''String'', ident ''String'')]"

definition builtin_struct_types :: "(string \<times> type) list" where
  "builtin_struct_types =
     [(''Path'', TStruct [(''path'', ident ''String'')]),
      (''CommandLine'', TStruct [(''args'', TMatrix (ident ''String'') [])]),
      (''slice_i64'', TStruct [(''ptr'', TPointer False (ident ''i64'')), (''len'', ident ''i64'')]),
      (''slice_bool'', TStruct [(''ptr'', TPointer False (ident ''bool'')), (''len'', ident ''i64'')])]"

definition context_new :: semantic_context where
  "context_new =
     \<lparr>sc_variables = [], sc_var_scopes = [],
      sc_functions = builtin_functions_1 @ builtin_functions_2 @ builtin_functions_3 @ builtin_functions_4 @
        builtin_functions_5,
      sc_types = builtin_scalar_types @ builtin_struct_types,
      sc_function_generics = [], sc_type_generics = [], sc_return_type = None, sc_loop_depth = 0,
      sc_traits = [], sc_trait_impls = [], sc_inherent_impls = [], sc_tables = [], sc_modules = [],
      sc_module_path = [], sc_use_imports = [], sc_glob_imports = []\<rparr>"

lemma context_new_wf: "hm_wf (sc_functions context_new)" "hm_wf (sc_types context_new)"
  by code_simp+

end
