(* ===== verification/Semantic_Patterns.thy ===== *)
theory Semantic_Patterns
  imports Semantic_Types
begin

text \<open>
  The form of the analysis in \<open>src/semantic.rs\<close>, and its part on patterns. A function that takes
  the context by mutable reference and returns a \<open>Result\<close> is a \<open>checker\<close>: it maps a context to an
  outcome and the context it leaves, also where it fails. A panic, and an alias that is followed for
  ever, is the outcome \<open>Stuck\<close>.
\<close>

section \<open>Checkers\<close>

datatype 'a analysis = Done 'a | Failed semantic_error | Stuck semantic_panic

type_synonym 'a checker = "semantic_context \<Rightarrow> 'a analysis \<times> semantic_context"

definition creturn :: "'a \<Rightarrow> 'a checker" where
  "creturn x c = (Done x, c)"

definition cfail :: "semantic_error \<Rightarrow> 'a checker" where
  "cfail err c = (Failed err, c)"

definition cstuck :: "semantic_panic \<Rightarrow> 'a checker" where
  "cstuck p c = (Stuck p, c)"

definition cbind :: "'a checker \<Rightarrow> ('a \<Rightarrow> 'b checker) \<Rightarrow> 'b checker" where
  "cbind m f c =
     (case m c of
        (Done x, c') \<Rightarrow> f x c'
      | (Failed err, c') \<Rightarrow> (Failed err, c')
      | (Stuck p, c') \<Rightarrow> (Stuck p, c'))"

definition cget :: "semantic_context checker" where
  "cget c = (Done c, c)"

definition cupdate :: "(semantic_context \<Rightarrow> semantic_context) \<Rightarrow> unit checker" where
  "cupdate g c = (Done (), g c)"

text \<open>\<open>if let Ok(x) = ...\<close>; and a computation on a clone of the context, which is dropped afterwards.\<close>

definition ctry :: "'a checker \<Rightarrow> 'a option checker" where
  "ctry m c =
     (case m c of
        (Done x, c') \<Rightarrow> (Done (Some x), c')
      | (Failed err, c') \<Rightarrow> (Done None, c')
      | (Stuck p, c') \<Rightarrow> (Stuck p, c'))"

definition cclone :: "(semantic_context \<Rightarrow> semantic_context) \<Rightarrow> 'a checker \<Rightarrow> 'a checker" where
  "cclone g m c = (fst (m (g c)), c)"

fun cresult :: "semantic_error + 'a \<Rightarrow> 'a checker" where
  "cresult (Inl err) = cfail err"
| "cresult (Inr x) = creturn x"

fun cpanics :: "semantic_panic + 'a \<Rightarrow> 'a checker" where
  "cpanics (Inl p) = cstuck p"
| "cpanics (Inr x) = creturn x"

text \<open>Loops over a list: collecting results, for effect, and with an accumulator.\<close>

fun cmap :: "('a \<Rightarrow> 'b checker) \<Rightarrow> 'a list \<Rightarrow> 'b list checker" where
  "cmap f [] = creturn []"
| "cmap f (x # xs) = cbind (f x) (\<lambda>y. cbind (cmap f xs) (\<lambda>ys. creturn (y # ys)))"

fun cfor :: "('a \<Rightarrow> unit checker) \<Rightarrow> 'a list \<Rightarrow> unit checker" where
  "cfor f [] = creturn ()"
| "cfor f (x # xs) = cbind (f x) (\<lambda>_. cfor f xs)"

fun cfold :: "('a \<Rightarrow> 's \<Rightarrow> 's checker) \<Rightarrow> 'a list \<Rightarrow> 's \<Rightarrow> 's checker" where
  "cfold f [] s = creturn s"
| "cfold f (x # xs) s = cbind (f x s) (\<lambda>s'. cfold f xs s')"

lemma cbind_cong [fundef_cong]: "m = m' \<Longrightarrow> (\<And>x. f x = g x) \<Longrightarrow> cbind m f = cbind m' g"
  by (metis ext)

lemma cmap_cong [fundef_cong]: "xs = ys \<Longrightarrow> (\<And>x. x \<in> set ys \<Longrightarrow> f x = g x) \<Longrightarrow> cmap f xs = cmap g ys"
  by (induction xs arbitrary: ys) auto

lemma cfor_cong [fundef_cong]: "xs = ys \<Longrightarrow> (\<And>x. x \<in> set ys \<Longrightarrow> f x = g x) \<Longrightarrow> cfor f xs = cfor g ys"
  by (induction xs arbitrary: ys) auto

lemma cfold_cong [fundef_cong]:
  "xs = ys \<Longrightarrow> s = t \<Longrightarrow> (\<And>x s. x \<in> set ys \<Longrightarrow> f x s = g x s) \<Longrightarrow> cfold f xs s = cfold g ys t"
proof (induction xs arbitrary: ys s t)
  case (Cons x xs)
  then have "f x s = g x s" "cfold f xs = cfold g xs" by auto
  with Cons.prems show ?case by auto
qed auto

definition cexpect :: "type \<Rightarrow> type \<Rightarrow> unit checker" where
  "cexpect expected found = (if types_compatible expected found then creturn () else cfail (TypeMismatch expected found))"

text \<open>What hash maps and \<open>{:?}\<close> leave open: iteration order and the debug texts in error messages.\<close>

record check_env =
  env_order :: hash_order
  env_string :: "string \<Rightarrow> string"
  env_type :: "type \<Rightarrow> string"
  env_expression :: "expression \<Rightarrow> string"

section \<open>Bindings\<close>

text \<open>\<open>bind_binding_pattern\<close>\<close>

function bind_binding_pattern :: "binding_pattern \<Rightarrow> type \<Rightarrow> unit checker" where
  "bind_binding_pattern (BIdentifier name) ty = cupdate (define_variable name ty)"
| "bind_binding_pattern BDiscard ty = creturn ()"
| "bind_binding_pattern (BTuple elements) ty =
     (case ty of
        TTuple tys \<Rightarrow>
          if length elements \<noteq> length tys then cfail (ArgumentCountMismatch (length tys) (length elements))
          else cfor (\<lambda>(p, t). bind_binding_pattern p t) (zip elements tys)
      | _ \<Rightarrow> cfail (TypeMismatch (TTuple []) ty))"
  by pat_completeness auto
termination
  by (relation "measure (\<lambda>(p, _). size p)")
    (auto simp: less_Suc_eq_le intro: element_size [of _ _ size] dest!: set_zip_leftD)

section \<open>Struct patterns\<close>

fun split_once :: "char \<Rightarrow> string \<Rightarrow> (string \<times> string) option" where
  "split_once d [] = None"
| "split_once d (x # xs) =
     (if x = d then Some ([], xs) else map_option (\<lambda>(a, b). (x # a, b)) (split_once d xs))"

definition rsplit_once :: "char \<Rightarrow> string \<Rightarrow> (string \<times> string) option" where
  "rsplit_once d s = map_option (\<lambda>(a, b). (rev b, rev a)) (split_once d (rev s))"

definition strip_suffix :: "string \<Rightarrow> string \<Rightarrow> string" where
  "strip_suffix suffix s = (if ends_with s suffix then take (length s - length suffix) s else s)"

type_synonym field_types = "(string, type) hmap"

definition resolve_enum_variant_payload ::
    "semantic_context \<Rightarrow> (string, type option) hmap \<Rightarrow> string \<Rightarrow> semantic_panic + field_types option" where
  "resolve_enum_variant_payload c variants variant_name =
     (case map_of variants variant_name of
        Some (Some payload) \<Rightarrow>
          map_sum id (\<lambda>t. case t of TStruct fs \<Rightarrow> Some fs | _ \<Rightarrow> None) (resolve_concrete_type c payload)
      | _ \<Rightarrow> Inr None)"

definition resolve_variant_fields_from_enum ::
    "semantic_context \<Rightarrow> (string, type option) hmap \<Rightarrow> string \<Rightarrow> semantic_panic + field_types option" where
  "resolve_variant_fields_from_enum c variants tname =
     (case rsplit_once (CHR ''_'') (strip_suffix ''_struct'' tname) of
        Some (_, variant_name) \<Rightarrow> resolve_enum_variant_payload c variants variant_name
      | None \<Rightarrow> Inr None)"

fun resolve_variant_fields_matching_pattern ::
    "semantic_context \<Rightarrow> string list \<Rightarrow> (string \<times> type option) list \<Rightarrow> semantic_panic + field_types option" where
  "resolve_variant_fields_matching_pattern c pattern_keys [] = Inr None"
| "resolve_variant_fields_matching_pattern c pattern_keys ((_, payload) # rest) =
     (case payload of
        None \<Rightarrow> resolve_variant_fields_matching_pattern c pattern_keys rest
      | Some t \<Rightarrow>
          (case resolve_concrete_type c t of
             Inl p \<Rightarrow> Inl p
           | Inr (TStruct fs) \<Rightarrow>
               if \<forall>k \<in> set pattern_keys. hm_contains fs k then Inr (Some fs)
               else resolve_variant_fields_matching_pattern c pattern_keys rest
           | Inr _ \<Rightarrow> resolve_variant_fields_matching_pattern c pattern_keys rest))"

definition resolve_enum_variant_struct_by_name :: "semantic_context \<Rightarrow> string \<Rightarrow> semantic_panic + field_types option" where
  "resolve_enum_variant_struct_by_name c tname =
     (case rsplit_once (CHR ''_'') (strip_suffix ''_struct'' tname) of
        None \<Rightarrow> Inr None
      | Some (enum_name, variant_name) \<Rightarrow>
          (case map_of (sc_types c) enum_name of
             Some (TEnum variants _) \<Rightarrow> resolve_enum_variant_payload c variants variant_name
           | _ \<Rightarrow> Inr None))"

definition fields_by_type_name :: "semantic_context \<Rightarrow> string option \<Rightarrow> semantic_panic + field_types option" where
  "fields_by_type_name c tname =
     (case tname of
        None \<Rightarrow> Inr None
      | Some name \<Rightarrow>
          (case map_of (sc_types c) name of
             Some (TStruct fs) \<Rightarrow> Inr (Some fs)
           | _ \<Rightarrow> resolve_enum_variant_struct_by_name c name))"

definition resolve_struct_pattern_field_types ::
    "check_env \<Rightarrow> semantic_context \<Rightarrow> type \<Rightarrow> string option \<Rightarrow> string list \<Rightarrow> semantic_panic + field_types option" where
  "resolve_struct_pattern_field_types env c scrutinee tname pattern_keys =
     (let found =
        (case scrutinee of
           TStruct fs \<Rightarrow> Inr (Some fs)
         | TIdentifier name [] \<Rightarrow> (case map_of (sc_types c) name of Some (TStruct fs) \<Rightarrow> Inr (Some fs) | _ \<Rightarrow> Inr None)
         | TEnum variants _ \<Rightarrow>
             (case tname of
                Some name \<Rightarrow> resolve_variant_fields_from_enum c variants name
              | None \<Rightarrow> resolve_variant_fields_matching_pattern c pattern_keys (hm_iter (env_order env) variants))
         | _ \<Rightarrow> Inr None)
      in case found of Inr None \<Rightarrow> fields_by_type_name c tname | _ \<Rightarrow> found)"

section \<open>Patterns of a match\<close>

definition invalid_pattern :: "'a checker" where
  "invalid_pattern = cfail (UndefinedVariable ''invalid pattern'')"

text \<open>
  The name an argument of a pattern binds, by value or with \<open>ref(name)\<close>; \<open>bind\<close> is how the caller
  enters it.
\<close>

definition bind_unless_wildcard :: "(string \<Rightarrow> type \<Rightarrow> semantic_context \<Rightarrow> semantic_context) \<Rightarrow> string \<Rightarrow> type \<Rightarrow> unit checker" where
  "bind_unless_wildcard bind name ty = (if name = ''_'' then creturn () else cupdate (bind name ty))"

definition bind_pattern_argument ::
    "(string \<Rightarrow> type \<Rightarrow> semantic_context \<Rightarrow> semantic_context) \<Rightarrow> type \<Rightarrow> expression \<Rightarrow> unit checker" where
  "bind_pattern_argument bind ty v =
     (case v of
        EIdentifier name \<Rightarrow> bind_unless_wildcard bind name ty
      | ECall ref_func ref_type_args ref_arguments \<Rightarrow>
          if ref_type_args \<noteq> [] \<or> length ref_arguments \<noteq> 1 \<or> arg_name (hd ref_arguments) \<noteq> None then invalid_pattern
          else if ref_func = EIdentifier ''ref'' then
            (case arg_value (hd ref_arguments) of
               EIdentifier name \<Rightarrow> bind_unless_wildcard bind name (TReference False ty)
             | _ \<Rightarrow> invalid_pattern)
          else invalid_pattern
      | _ \<Rightarrow> invalid_pattern)"

text \<open>The payload of an enum variant is bound among the variables of the module, not in the scope.\<close>

definition bind_global :: "string \<Rightarrow> type \<Rightarrow> semantic_context \<Rightarrow> semantic_context" where
  "bind_global name ty c = c\<lparr>sc_variables := AList.update name ty (sc_variables c)\<rparr>"

definition bind_payload :: "type \<Rightarrow> expression argument \<Rightarrow> unit checker" where
  "bind_payload ty a =
     (if arg_name a \<noteq> None then cfail (UndefinedVariable ''named arg in pattern'')
      else bind_pattern_argument bind_global ty (arg_value a))"

definition single_argument :: "type list \<Rightarrow> expression argument list \<Rightarrow> unit checker" where
  "single_argument targs args =
     (if targs \<noteq> [] \<or> length args \<noteq> 1 then invalid_pattern
      else if arg_name (hd args) \<noteq> None then cfail (UndefinedVariable ''named arg in pattern'')
      else creturn ())"

definition constructor_pattern :: "type \<Rightarrow> type \<Rightarrow> string \<Rightarrow> expression argument list \<Rightarrow> unit checker" where
  "constructor_pattern resolved scrutinee func_name args =
     (case split_once (CHR ''_'') func_name of
        None \<Rightarrow> invalid_pattern
      | Some (_, vname) \<Rightarrow>
          (case resolved of
             TEnum variants _ \<Rightarrow>
               (case map_of variants vname of
                  Some (Some payload) \<Rightarrow> cfor (bind_payload payload) args
                | Some None \<Rightarrow> if args \<noteq> [] then invalid_pattern else creturn ()
                | None \<Rightarrow> cfail (UndefinedVariable func_name))
           | _ \<Rightarrow> cfail (TypeMismatch TNone scrutinee)))"

definition static_pattern :: "type \<Rightarrow> type \<Rightarrow> string list \<Rightarrow> expression argument list \<Rightarrow> unit checker" where
  "static_pattern resolved scrutinee segments args =
     (if length segments < 2 then invalid_pattern
      else
        (case resolved of
           TEnum variants _ \<Rightarrow>
             (case map_of variants (segments ! 1) of
                Some (Some payload) \<Rightarrow>
                  if length args \<noteq> 1 then cfail (ArgumentCountMismatch 1 (length args))
                  else bind_payload payload (hd args)
              | Some None \<Rightarrow>
                  if args \<noteq> [] then cfail (ArgumentCountMismatch 0 (length args)) else creturn ()
              | None \<Rightarrow> cfail (UndefinedVariable (join_with ''::'' segments)))
         | _ \<Rightarrow> cfail (TypeMismatch TNone scrutinee)))"

definition resolve_scrutinee :: "semantic_context \<Rightarrow> type \<Rightarrow> type" where
  "resolve_scrutinee c ty =
     (case ty of
        TIdentifier name [] \<Rightarrow> (case map_of (sc_types c) name of Some t \<Rightarrow> t | None \<Rightarrow> ty)
      | _ \<Rightarrow> ty)"

definition identifier_pattern :: "type \<Rightarrow> type \<Rightarrow> string \<Rightarrow> unit checker" where
  "identifier_pattern resolved scrutinee name =
     (if name = ''_'' \<or> (name = ''none'' \<and> (case resolved of TOptional _ \<Rightarrow> True | _ \<Rightarrow> False)) then creturn ()
      else
        (case split_once (CHR ''_'') name of
           Some _ \<Rightarrow>
             (case resolved of TEnum _ _ \<Rightarrow> creturn () | _ \<Rightarrow> cfail (TypeMismatch TNone scrutinee))
         | None \<Rightarrow> cupdate (define_variable name scrutinee)))"

definition std_error_type :: "semantic_context \<Rightarrow> type" where
  "std_error_type c = (case map_of (sc_types c) ''StdError'' of Some t \<Rightarrow> t | None \<Rightarrow> ident ''StdError'')"

function analyze_pattern :: "check_env \<Rightarrow> expression \<Rightarrow> type \<Rightarrow> unit checker" where
  "analyze_pattern env pattern scrutinee = cbind cget (\<lambda>c.
     let resolved = resolve_scrutinee c scrutinee in
     case pattern of
       EIdentifier name \<Rightarrow> identifier_pattern resolved scrutinee name
     | ETuple elements \<Rightarrow>
         (case resolved of
            TTuple tys \<Rightarrow>
              if length elements \<noteq> length tys then cfail (ArgumentCountMismatch (length tys) (length elements))
              else cfor (\<lambda>(p, t). analyze_pattern env p t) (zip elements tys)
          | _ \<Rightarrow> cfail (TypeMismatch (TTuple []) scrutinee))
     | EStructLiteral tname flds \<Rightarrow>
         cbind (cpanics (resolve_struct_pattern_field_types env c resolved tname (hm_keys flds))) (\<lambda>found.
         case found of
           Some struct_fields \<Rightarrow>
             cfor (\<lambda>(field_name, field_pattern).
                 case map_of struct_fields field_name of
                   Some field_type \<Rightarrow> analyze_pattern env field_pattern field_type
                 | None \<Rightarrow> cfail (UndefinedVariable (''invalid struct pattern field '' @ squote field_name @
                     '' (available: ['' @ join_with '', '' (map (env_string env) (env_order env (hm_keys struct_fields))) @ ''])'')))
               (hm_iter (env_order env) flds)
         | None \<Rightarrow> cfail (UndefinedVariable (''invalid pattern: '' @
             (case tname of Some n \<Rightarrow> n | None \<Rightarrow> ''<anonymous struct>'') @ '' with fields ['' @
             join_with '', '' (map (env_string env) (env_order env (hm_keys flds))) @ ''] for scrutinee '' @
             env_type env resolved)))
     | ECall func targs args \<Rightarrow>
         (case func of
            EIdentifier func_name \<Rightarrow>
              if func_name = ''ok'' then
                (case resolved of
                   TResult inner \<Rightarrow>
                     cbind (single_argument targs args) (\<lambda>_. cfor (\<lambda>a. analyze_pattern env (arg_value a) inner) args)
                 | _ \<Rightarrow> cfail (TypeMismatch (TResult TNone) scrutinee))
              else if func_name = ''err'' then
                (case resolved of
                   TResult _ \<Rightarrow>
                     cbind (single_argument targs args) (\<lambda>_.
                       cfor (\<lambda>a. analyze_pattern env (arg_value a) (std_error_type c)) args)
                 | _ \<Rightarrow> cfail (TypeMismatch (TResult TNone) scrutinee))
              else
                (case (if func_name = ''some'' then
                         (case resolved of TOptional inner \<Rightarrow> Some inner | TNone \<Rightarrow> Some TNone | _ \<Rightarrow> None)
                       else None) of
                   Some inner_ty \<Rightarrow>
                     cbind (single_argument targs args) (\<lambda>_.
                       bind_pattern_argument define_variable inner_ty (arg_value (hd args)))
                 | None \<Rightarrow> constructor_pattern resolved scrutinee func_name args)
          | EStaticPath segments _ \<Rightarrow> static_pattern resolved scrutinee segments args
          | _ \<Rightarrow> invalid_pattern)
     | EStaticPath segments _ \<Rightarrow>
         if length segments < 2 then invalid_pattern
         else
           (case resolved of
              TEnum variants _ \<Rightarrow>
                if hm_contains variants (segments ! 1) then creturn ()
                else cfail (UndefinedVariable (join_with ''::'' segments))
            | _ \<Rightarrow> cfail (TypeMismatch TNone scrutinee))
     | _ \<Rightarrow> cfail (UndefinedVariable (''unknown pattern: '' @ env_expression env pattern)))"
  by pat_completeness auto
termination
proof (relation "measure (\<lambda>(_, p, _). size p)", goal_cases)
qed (auto simp: less_Suc_eq_le trans_le_add1 trans_le_add2 part_sizes
    dest: element_size [of _ _ size] dest!: set_zip_leftD)

declare analyze_pattern.simps [simp del]

end
