(* ===== verification/Semantic.thy ===== *)
theory Semantic
  imports Semantic_Patterns
begin

text \<open>
  The analysis of \<open>src/semantic.rs\<close>: the types of expressions (\<open>infer_expression_type\<close>), the
  checks of statements (\<open>analyze_statement\<close>), of table and system definitions, and the two passes
  over a program. Helpers that look at the arguments of a call take the inference as a parameter, so
  that only expressions and statements are mutually recursive.
\<close>

section \<open>Calls\<close>

text \<open>The loop over the arguments and the expected types; it ends with the shorter list.\<close>

definition check_arguments :: "(expression \<Rightarrow> type checker) \<Rightarrow> expression argument list \<Rightarrow> type list \<Rightarrow> unit checker" where
  "check_arguments infer args tys = cfor (\<lambda>(a, t). cbind (infer (arg_value a)) (cexpect t)) (zip args tys)"

definition check_call :: "(expression \<Rightarrow> type checker) \<Rightarrow> expression argument list \<Rightarrow> function_signature \<Rightarrow> type checker" where
  "check_call infer args sig =
     (if length args \<noteq> length (fs_parameters sig)
      then cfail (ArgumentCountMismatch (length (fs_parameters sig)) (length args))
      else cbind (check_arguments infer args (fs_parameters sig)) (\<lambda>_. creturn (fs_return_type sig)))"

text \<open>A method call passes its receiver first; the count of the others underflows when there is no parameter.\<close>

definition check_method_call :: "(expression \<Rightarrow> type checker) \<Rightarrow> expression argument list \<Rightarrow> function_signature \<Rightarrow> type checker" where
  "check_method_call infer args sig =
     (if fs_parameters sig = [] then cstuck SubtractOverflow
      else if length args \<noteq> length (fs_parameters sig) - 1
      then cfail (ArgumentCountMismatch (length (fs_parameters sig) - 1) (length args))
      else cbind (check_arguments infer args (tl (fs_parameters sig))) (\<lambda>_. creturn (fs_return_type sig)))"

text \<open>The single argument of \<open>some\<close>, \<open>ok\<close>, \<open>err\<close>, \<open>drop\<close> and of an enum constructor.\<close>

definition infer_single :: "(expression \<Rightarrow> type checker) \<Rightarrow> expression argument list \<Rightarrow> type checker" where
  "infer_single infer args =
     (case args of [a] \<Rightarrow> infer (arg_value a) | _ \<Rightarrow> cfail (ArgumentCountMismatch 1 (length args)))"

definition enum_variant ::
    "semantic_context \<Rightarrow> string \<Rightarrow> string \<Rightarrow> (type option \<times> type) option" where
  "enum_variant c tname vname =
     (case map_of (sc_types c) tname of
        Some (TEnum variants order) \<Rightarrow> map_option (\<lambda>payload. (payload, TEnum variants order)) (map_of variants vname)
      | _ \<Rightarrow> None)"

definition enum_constructor ::
    "(expression \<Rightarrow> type checker) \<Rightarrow> type option \<Rightarrow> type \<Rightarrow> expression argument list \<Rightarrow> type checker" where
  "enum_constructor infer payload enum_type args =
     (case payload of
        Some payload_ty \<Rightarrow> cbind (cbind (infer_single infer args) (cexpect payload_ty)) (\<lambda>_. creturn enum_type)
      | None \<Rightarrow> if args \<noteq> [] then cfail (ArgumentCountMismatch 0 (length args)) else creturn enum_type)"

definition trait_method :: "semantic_context \<Rightarrow> string \<Rightarrow> string \<Rightarrow> string \<Rightarrow> function_signature option" where
  "trait_method c trait_name tname method =
     (case map_of (sc_trait_impls c) trait_name of
        Some impls \<Rightarrow> (case map_of impls tname of Some info \<Rightarrow> map_of (ii_methods info) method | None \<Rightarrow> None)
      | None \<Rightarrow> None)"

definition inherent_method :: "semantic_context \<Rightarrow> string \<Rightarrow> string \<Rightarrow> function_signature option" where
  "inherent_method c tname method =
     (case map_of (sc_inherent_impls c) tname of Some info \<Rightarrow> map_of (ii_methods info) method | None \<Rightarrow> None)"

text \<open>
  \<open>Trait::method(x, ...)\<close>: the type of the first argument selects the implementation, and the
  signature is the one found in the context after that argument was inferred.
\<close>

definition trait_dispatch ::
    "(expression \<Rightarrow> type checker) \<Rightarrow> string \<Rightarrow> string \<Rightarrow> expression argument list \<Rightarrow> function_signature option checker" where
  "trait_dispatch infer trait_name method args =
     (case args of
        [] \<Rightarrow> creturn None
      | a # _ \<Rightarrow>
          cbind (infer (arg_value a)) (\<lambda>recv. cbind cget (\<lambda>c.
          creturn (case peel_to_identifier_name recv of
                     Some tname \<Rightarrow> trait_method c trait_name tname method
                   | None \<Rightarrow> None))))"

definition plain_call :: "check_env \<Rightarrow> (expression \<Rightarrow> type checker) \<Rightarrow> string \<Rightarrow> expression argument list \<Rightarrow> type checker" where
  "plain_call env infer name args = cbind cget (\<lambda>c.
     case get_function_signature (env_order env) c name of
       Some sig \<Rightarrow> check_call infer args sig
     | None \<Rightarrow> cfail (UndefinedFunction name))"

definition named_call :: "check_env \<Rightarrow> (expression \<Rightarrow> type checker) \<Rightarrow> string \<Rightarrow> expression argument list \<Rightarrow> type checker" where
  "named_call env infer name args = cbind cget (\<lambda>c.
     case (case split_once (CHR ''_'') name of Some (t, v) \<Rightarrow> enum_variant c t v | None \<Rightarrow> None) of
       Some (payload, enum_type) \<Rightarrow> enum_constructor infer payload enum_type args
     | None \<Rightarrow>
         if name = ''some'' then cbind (infer_single infer args) (\<lambda>t. creturn (TOptional t))
         else if name = ''ok'' then cbind (infer_single infer args) (\<lambda>t. creturn (TResult t))
         else if name = ''err'' then
           cbind (infer_single infer args) (\<lambda>t. cbind cget (\<lambda>c'.
           cbind (case map_of (sc_types c') ''StdError'' of Some e \<Rightarrow> cexpect e t | None \<Rightarrow> creturn ()) (\<lambda>_.
           creturn (TResult TNone))))
         else if name = ''println'' then
           cbind (cfor (\<lambda>a. cbind (infer (arg_value a)) (\<lambda>_. creturn ())) args) (\<lambda>_. creturn TNone)
         else if name = ''drop'' then cbind (infer_single infer args) (\<lambda>_. creturn TNone)
         else
           cbind (case split_once (CHR ''_'') name of
                    Some (trait_name, method) \<Rightarrow> trait_dispatch infer trait_name method args
                  | None \<Rightarrow> creturn None) (\<lambda>sig.
           case sig of Some s \<Rightarrow> check_call infer args s | None \<Rightarrow> plain_call env infer name args))"

text \<open>The traits that give a type a method of this name, in the order of the map of traits.\<close>

definition method_candidates :: "check_env \<Rightarrow> semantic_context \<Rightarrow> string \<Rightarrow> string \<Rightarrow> (string \<times> function_signature) list" where
  "method_candidates env c tname method =
     List.map_filter (\<lambda>(trait_name, _). map_option (Pair trait_name) (trait_method c trait_name tname method))
       (hm_iter (env_order env) (sc_trait_impls c))"

definition method_call ::
    "check_env \<Rightarrow> (expression \<Rightarrow> type checker) \<Rightarrow> type \<Rightarrow> string \<Rightarrow> expression argument list \<Rightarrow> type checker" where
  "method_call env infer recv method args = cbind cget (\<lambda>c.
     case (case recv of
             TFunction parameters return_type \<Rightarrow>
               if method = ''bind'' then Some (TFunction (drop (length args) parameters) return_type) else None
           | _ \<Rightarrow> None) of
       Some bound \<Rightarrow> creturn bound
     | None \<Rightarrow>
         (case peel_to_identifier_name recv of
            None \<Rightarrow> creturn TNone
          | Some tname \<Rightarrow>
              (case inherent_method c tname method of
                 Some sig \<Rightarrow> check_method_call infer args sig
               | None \<Rightarrow>
                   (case method_candidates env c tname method of
                      [] \<Rightarrow> creturn TNone
                    | [(_, sig)] \<Rightarrow> check_method_call infer args sig
                    | candidates \<Rightarrow> cfail (AmbiguousMethod tname method (map fst candidates))))))"

definition static_call ::
    "check_env \<Rightarrow> (expression \<Rightarrow> type checker) \<Rightarrow> string list \<Rightarrow> expression argument list \<Rightarrow> type checker" where
  "static_call env infer segments args = cbind cget (\<lambda>c.
     let mangled = join_with ''_'' segments in
     case (if 2 \<le> length segments then enum_variant c (segments ! 0) (segments ! 1) else None) of
       Some (payload, enum_type) \<Rightarrow> enum_constructor infer payload enum_type args
     | None \<Rightarrow>
         cbind (if 2 \<le> length segments then trait_dispatch infer (segments ! 0) (segments ! 1) args else creturn None) (\<lambda>sig.
         case sig of
           Some s \<Rightarrow> check_call infer args s
         | None \<Rightarrow> cbind cget (\<lambda>c'.
             case (if 2 \<le> length segments then inherent_method c' (segments ! 0) (segments ! 1) else None) of
               Some s \<Rightarrow> check_call infer args s
             | None \<Rightarrow>
                 (case (case get_function_signature (env_order env) c' mangled of
                          Some s \<Rightarrow> Some s
                        | None \<Rightarrow> map_option snd (List.find (\<lambda>(name, _). ends_with name (''::'' @ mangled))
                                    (hm_iter (env_order env) (sc_functions c')))) of
                    Some s \<Rightarrow> check_call infer args s
                  | None \<Rightarrow> cfail (UndefinedFunction mangled)))))"

subsection \<open>Congruence: the inference is only used on the arguments\<close>

lemma check_arguments_cong:
  "(\<And>a. a \<in> set args \<Longrightarrow> f (arg_value a) = g (arg_value a)) \<Longrightarrow> check_arguments f args tys = check_arguments g args tys"
  unfolding check_arguments_def by (intro cfor_cong) (auto dest: set_zip_leftD)

lemma check_call_cong:
  "(\<And>a. a \<in> set args \<Longrightarrow> f (arg_value a) = g (arg_value a)) \<Longrightarrow> check_call f args = check_call g args"
  by (rule ext) (simp add: check_call_def check_arguments_cong [of args f g])

lemma check_method_call_cong:
  "(\<And>a. a \<in> set args \<Longrightarrow> f (arg_value a) = g (arg_value a)) \<Longrightarrow>
     check_method_call f args sig = check_method_call g args sig"
  unfolding check_method_call_def using check_arguments_cong [of args f g] by simp

lemma infer_single_cong:
  "(\<And>a. a \<in> set args \<Longrightarrow> f (arg_value a) = g (arg_value a)) \<Longrightarrow> infer_single f args = infer_single g args"
  unfolding infer_single_def by (auto split: list.splits)

lemma enum_constructor_cong:
  "(\<And>a. a \<in> set args \<Longrightarrow> f (arg_value a) = g (arg_value a)) \<Longrightarrow>
     enum_constructor f payload t args = enum_constructor g payload t args"
  unfolding enum_constructor_def using infer_single_cong [of args f g] by (simp cong: option.case_cong)

lemma trait_dispatch_cong:
  "(\<And>a. a \<in> set args \<Longrightarrow> f (arg_value a) = g (arg_value a)) \<Longrightarrow>
     trait_dispatch f trait_name method args = trait_dispatch g trait_name method args"
  unfolding trait_dispatch_def by (auto split: list.splits)

lemma println_cong:
  "(\<And>a. a \<in> set args \<Longrightarrow> f (arg_value a) = g (arg_value a)) \<Longrightarrow>
     cfor (\<lambda>a. cbind (f (arg_value a)) h) args = cfor (\<lambda>a. cbind (g (arg_value a)) h) args"
  by (intro cfor_cong) auto

lemma named_call_same:
  "(\<And>a. a \<in> set args \<Longrightarrow> f (arg_value a) = g (arg_value a)) \<Longrightarrow>
     named_call env f name args = named_call env g name args"
  unfolding named_call_def plain_call_def
  using check_call_cong [of args f g] infer_single_cong [of args f g] enum_constructor_cong [of args f g]
    trait_dispatch_cong [of args f g] println_cong [of args f g]
  by (simp cong: option.case_cong prod.case_cong if_cong)

lemma method_call_same:
  "(\<And>a. a \<in> set args \<Longrightarrow> f (arg_value a) = g (arg_value a)) \<Longrightarrow>
     method_call env f recv method args = method_call env g recv method args"
  unfolding method_call_def using check_method_call_cong [of args f g]
  by (simp cong: option.case_cong list.case_cong prod.case_cong)

lemma static_call_same:
  "(\<And>a. a \<in> set args \<Longrightarrow> f (arg_value a) = g (arg_value a)) \<Longrightarrow>
     static_call env f segments args = static_call env g segments args"
  unfolding static_call_def Let_def
  using check_call_cong [of args f g] enum_constructor_cong [of args f g] trait_dispatch_cong [of args f g]
  by (simp cong: option.case_cong prod.case_cong if_cong)

lemma named_call_cong [fundef_cong]:
  "env = env' \<Longrightarrow> name = name' \<Longrightarrow> args = args' \<Longrightarrow> (\<And>a. a \<in> set args' \<Longrightarrow> f (arg_value a) = g (arg_value a)) \<Longrightarrow>
     named_call env f name args = named_call env' g name' args'"
  using named_call_same [of args' f g] by simp

lemma method_call_cong [fundef_cong]:
  "env = env' \<Longrightarrow> recv = recv' \<Longrightarrow> method = method' \<Longrightarrow> args = args' \<Longrightarrow>
     (\<And>a. a \<in> set args' \<Longrightarrow> f (arg_value a) = g (arg_value a)) \<Longrightarrow>
     method_call env f recv method args = method_call env' g recv' method' args'"
  using method_call_same [of args' f g] by simp

lemma static_call_cong [fundef_cong]:
  "env = env' \<Longrightarrow> segments = segments' \<Longrightarrow> args = args' \<Longrightarrow>
     (\<And>a. a \<in> set args' \<Longrightarrow> f (arg_value a) = g (arg_value a)) \<Longrightarrow>
     static_call env f segments args = static_call env' g segments' args'"
  using static_call_same [of args' f g] by simp

section \<open>Signatures and definitions\<close>

text \<open>A parameter without a type, and a function without a result type, is an \<open>i64\<close>.\<close>

definition parameter_type :: "expression parameter \<Rightarrow> type" where
  "parameter_type p = unwrap_or (param_type p) (ident ''i64'')"

definition declared_signature :: "expression parameter list \<Rightarrow> type option \<Rightarrow> function_signature" where
  "declared_signature ps ret =
     \<lparr>fs_parameters = map parameter_type ps, fs_return_type = unwrap_or ret (ident ''i64''), fs_is_async = False\<rparr>"

definition undefined_error :: "string \<Rightarrow> 'a checker" where
  "undefined_error text = cfail (UndefinedVariable text)"

text \<open>\<open>validate_type\<close>\<close>

definition builtin_type_names :: "string list" where
  "builtin_type_names =
     [''i8'', ''i16'', ''i32'', ''i64'', ''u8'', ''u16'', ''u32'', ''u64'', ''f32'', ''f64'', ''bool'', ''String'', ''char'']"

fun first_error :: "('e + unit) list \<Rightarrow> 'e + unit" where
  "first_error [] = Inr ()"
| "first_error (r # rs) = (case r of Inl err \<Rightarrow> Inl err | Inr _ \<Rightarrow> first_error rs)"

text \<open>The values of the hash maps in a type are checked in their iteration order.\<close>

function validate_type :: "hash_order \<Rightarrow> semantic_context \<Rightarrow> type \<Rightarrow> semantic_error + unit" where
  "validate_type \<pi> c TNone = Inr ()"
| "validate_type \<pi> c (TIdentifier name args) =
     (if name \<in> set builtin_type_names \<or> hm_contains (sc_types c) name
      then first_error (map (validate_type \<pi> c) args)
      else Inl (UndefinedVariable (''Unknown type: '' @ name)))"
| "validate_type \<pi> c (TPointer m p) = validate_type \<pi> c p"
| "validate_type \<pi> c (TRawPointer p r) = validate_type \<pi> c p"
| "validate_type \<pi> c (TReference m p) = validate_type \<pi> c p"
| "validate_type \<pi> c (TOptional p) = validate_type \<pi> c p"
| "validate_type \<pi> c (TResult p) = validate_type \<pi> c p"
| "validate_type \<pi> c (TTuple ts) = first_error (map (validate_type \<pi> c) ts)"
| "validate_type \<pi> c (TMatrix e dims) = validate_type \<pi> c e"
| "validate_type \<pi> c (TFunction ps r) =
     (case first_error (map (validate_type \<pi> c) ps) of Inl err \<Rightarrow> Inl err | Inr _ \<Rightarrow> validate_type \<pi> c r)"
| "validate_type \<pi> c (TStruct fs) = first_error (map (\<lambda>(_, t). validate_type \<pi> c t) (hm_iter \<pi> fs))"
| "validate_type \<pi> c (TEnum vs order) =
     first_error (map (\<lambda>(_, v). case v of Some t \<Rightarrow> validate_type \<pi> c t | None \<Rightarrow> Inr ()) (hm_iter \<pi> vs))"
| "validate_type \<pi> c (TTrait names ms) = first_error (map (\<lambda>(_, t). validate_type \<pi> c t) (hm_iter \<pi> ms))"
  by pat_completeness auto

lemma hm_iter_entry: "(k, v) \<in> set (hm_iter \<pi> m) \<Longrightarrow> (k, v) \<in> set m"
  by (auto simp: hm_iter_def mem_map_filter_iff dest: map_of_SomeD)

termination validate_type
proof (relation "measure (\<lambda>(_, _, t). size t)", goal_cases)
qed (auto simp: less_Suc_eq_le trans_le_add1 intro: entry_size option_entry_size dest: element_size [of _ _ size]
    dest!: hm_iter_entry)

text \<open>\<open>validate_table_definition\<close>: the annotations of a column, with the number of primary keys so far.\<close>

fun check_annotations :: "string \<Rightarrow> expression table_annotation list \<Rightarrow> nat \<Rightarrow> semantic_error + nat" where
  "check_annotations tname [] keys = Inr keys"
| "check_annotations tname (a # as) keys =
     (if ann_name a = ''primary'' then
        (if 1 < keys + 1 then
           Inl (UndefinedVariable (''Table '' @ squote tname @ '' cannot have multiple primary keys''))
         else if ann_args a \<noteq> [] then
           Inl (UndefinedVariable ''@primary annotation should not have arguments'')
         else check_annotations tname as (keys + 1))
      else if ann_name a \<in> {''autoincrement'', ''indexed'', ''nullable''} then check_annotations tname as keys
      else if ann_name a = ''size'' then
        (if length (ann_args a) \<noteq> 1 then Inl (UndefinedVariable ''@size annotation requires exactly one argument'')
         else check_annotations tname as keys)
      else if ann_name a = ''precision'' then
        (if length (ann_args a) \<noteq> 2 then
           Inl (UndefinedVariable ''@precision annotation requires exactly two arguments'')
         else check_annotations tname as keys)
      else Inl (UndefinedVariable (''Unknown table annotation: @'' @ ann_name a)))"

definition define_columns :: "tablecol list \<Rightarrow> semantic_context \<Rightarrow> semantic_context" where
  "define_columns cols = fold (\<lambda>col. define_variable (col_name col) (column_type col)) cols"

definition missing_expression :: "tablecol \<Rightarrow> 'a checker" where
  "missing_expression col =
     undefined_error (''Computed column '' @ squote (col_name col) @ '' must have a computed expression'')"

definition validate_column_type :: "check_env \<Rightarrow> (expression \<Rightarrow> type checker) \<Rightarrow> tabledef \<Rightarrow> tablecol \<Rightarrow> unit checker" where
  "validate_column_type env infer td col =
     (if is_computed col then
        (case computed_expression col of
           Some e \<Rightarrow>
             cbind (cclone (define_columns (columns td)) (infer e)) (\<lambda>t.
             if column_type col \<noteq> TNone then cexpect (column_type col) t else creturn ())
         | None \<Rightarrow> missing_expression col)
      else cbind cget (\<lambda>c. cresult (validate_type (env_order env) c (column_type col))))"

definition validate_default :: "(expression \<Rightarrow> type checker) \<Rightarrow> type \<Rightarrow> expression option \<Rightarrow> unit checker" where
  "validate_default infer ty dflt =
     (case dflt of Some e \<Rightarrow> cbind (infer e) (cexpect ty) | None \<Rightarrow> creturn ())"

fun validate_columns ::
    "check_env \<Rightarrow> (expression \<Rightarrow> type checker) \<Rightarrow> tabledef \<Rightarrow> string hset \<Rightarrow> nat \<Rightarrow> tablecol list \<Rightarrow> unit checker" where
  "validate_columns env infer td seen keys [] = creturn ()"
| "validate_columns env infer td seen keys (col # cols) =
     (if col_name col \<in> set seen then
        undefined_error (''Duplicate column name '' @ squote (col_name col) @ '' in table '' @ squote (table_name td))
      else
        cbind (validate_column_type env infer td col) (\<lambda>_.
        cbind (cresult (check_annotations (table_name td) (col_annotations col) keys)) (\<lambda>keys'.
        cbind (validate_default infer (column_type col) (default_value col)) (\<lambda>_.
        validate_columns env infer td (List.insert (col_name col) seen) keys' cols))))"

definition validate_table_definition :: "check_env \<Rightarrow> (expression \<Rightarrow> type checker) \<Rightarrow> tabledef \<Rightarrow> unit checker" where
  "validate_table_definition env infer td = validate_columns env infer td [] 0 (columns td)"

text \<open>\<open>validate_system_definition\<close> and the variables a system's parameters become.\<close>

definition validate_query_parameter :: "expression query_spec \<Rightarrow> semantic_context \<Rightarrow> semantic_error + unit" where
  "validate_query_parameter q c =
     (if \<not> hm_contains (sc_tables c) (qs_from_table q) then
        Inl (UndefinedVariable (''Table '' @ squote (qs_from_table q) @ '' referenced in query parameter not found''))
      else
        first_error (map (\<lambda>j. if hm_contains (sc_tables c) (jc_table j) then Inr ()
          else Inl (UndefinedVariable (''Join table '' @ squote (jc_table j) @ '' not found''))) (qs_joins q)))"

definition validate_system_definition :: "(expression \<Rightarrow> type checker) \<Rightarrow> sysdef \<Rightarrow> unit checker" where
  "validate_system_definition infer sd =
     cfor (\<lambda>p. case p of
         PQuery _ q \<Rightarrow> cbind cget (\<lambda>c. cresult (validate_query_parameter q c))
       | PResource _ _ _ _ \<Rightarrow> creturn ()
       | PRegular _ _ ty dflt \<Rightarrow> validate_default infer ty dflt)
     (sd_parameters sd)"

definition access_type :: "resource_access \<Rightarrow> type \<Rightarrow> type" where
  "access_type access ty =
     (case access of Immutable \<Rightarrow> TReference False ty | Mutable \<Rightarrow> TReference True ty | Owned \<Rightarrow> ty)"

fun system_parameter_type :: "sysparam \<Rightarrow> type" where
  "system_parameter_type (PQuery _ _) = ident ''QueryResult''"
| "system_parameter_type (PResource _ _ ty access) = access_type access ty"
| "system_parameter_type (PRegular _ _ ty _) = ty"

fun system_parameter_name :: "sysparam \<Rightarrow> string" where
  "system_parameter_name (PQuery name _) = name"
| "system_parameter_name (PResource _ name _ _) = name"
| "system_parameter_name (PRegular _ name _ _) = name"

definition bind_system_parameters :: "sysdef \<Rightarrow> semantic_context \<Rightarrow> semantic_context" where
  "bind_system_parameters sd =
     fold (\<lambda>p. define_variable (system_parameter_name p) (system_parameter_type p)) (sd_parameters sd)"

text \<open>Congruence for the helpers on tables and systems.\<close>

lemma validate_column_type_same:
  "(\<And>e. computed_expression col = Some e \<Longrightarrow> f e = g e) \<Longrightarrow>
     validate_column_type env f td col = validate_column_type env g td col"
  unfolding validate_column_type_def by (auto split: option.splits)

lemma validate_default_same:
  "(\<And>e. dflt = Some e \<Longrightarrow> f e = g e) \<Longrightarrow> validate_default f ty dflt = validate_default g ty dflt"
  unfolding validate_default_def by (auto split: option.splits)

lemma validate_columns_same:
  "(\<And>col e. col \<in> set cols \<Longrightarrow> computed_expression col = Some e \<or> default_value col = Some e \<Longrightarrow> f e = g e) \<Longrightarrow>
     validate_columns env f td seen keys cols = validate_columns env g td seen keys cols"
proof (induction cols arbitrary: seen keys)
  case (Cons col cols)
  have "validate_column_type env f td col = validate_column_type env g td col"
    using Cons.prems by (intro validate_column_type_same) auto
  moreover have "validate_default f (column_type col) (default_value col) = validate_default g (column_type col) (default_value col)"
    using Cons.prems by (intro validate_default_same) auto
  moreover have "validate_columns env f td s k cols = validate_columns env g td s k cols" for s k
    using Cons by auto
  ultimately show ?case by simp
qed simp

lemma validate_table_cong [fundef_cong]:
  "env = env' \<Longrightarrow> td = td' \<Longrightarrow>
   (\<And>col e. col \<in> set (columns td') \<Longrightarrow> computed_expression col = Some e \<or> default_value col = Some e \<Longrightarrow> f e = g e) \<Longrightarrow>
     validate_table_definition env f td = validate_table_definition env' g td'"
  unfolding validate_table_definition_def using validate_columns_same [of "columns td'" f g] by simp

lemma validate_system_cong [fundef_cong]:
  "sd = sd' \<Longrightarrow> (\<And>x name ty e. PRegular x name ty (Some e) \<in> set (sd_parameters sd') \<Longrightarrow> f e = g e) \<Longrightarrow>
     validate_system_definition f sd = validate_system_definition g sd'"
  unfolding validate_system_definition_def
  by (intro cfor_cong) (auto split: system_parameter.splits intro!: validate_default_same)

section \<open>Pieces of the analysis of expressions\<close>

definition is_pointer_type :: "type \<Rightarrow> bool" where
  "is_pointer_type t = (case t of TPointer _ _ \<Rightarrow> True | TRawPointer _ _ \<Rightarrow> True | _ \<Rightarrow> False)"

definition expect_condition :: "(type \<Rightarrow> bool) \<Rightarrow> type \<Rightarrow> unit checker" where
  "expect_condition is_str t =
     (if types_compatible bool_type t \<or> is_numeric_type t \<or> is_str t \<or> is_pointer_type t then creturn ()
      else cfail (TypeMismatch bool_type t))"

definition is_lower_string :: "type \<Rightarrow> bool" where
  "is_lower_string t = (case t of TIdentifier name _ \<Rightarrow> name = ''string'' | _ \<Rightarrow> False)"

definition infer_identifier :: "check_env \<Rightarrow> string \<Rightarrow> type checker" where
  "infer_identifier env name =
     (if name = ''if'' then cstuck (ExplicitPanic (''identifier expression encountered: '' @ squote ''if''))
      else if name = ''none'' then creturn (TOptional TNone)
      else cbind cget (\<lambda>c.
        if (case split_once (CHR ''_'') name of Some (t, v) \<Rightarrow> enum_variant c t v \<noteq> None | None \<Rightarrow> False)
        then creturn (ident ''i64'')
        else
          (case get_variable_type (env_order env) c name of
             Some t \<Rightarrow> creturn t
           | None \<Rightarrow>
               (case get_function_signature (env_order env) c name of
                  Some sig \<Rightarrow> creturn (TFunction (fs_parameters sig) (fs_return_type sig))
                | None \<Rightarrow> cfail (UndefinedVariable name)))))"

definition infer_static_path :: "check_env \<Rightarrow> string list \<Rightarrow> type checker" where
  "infer_static_path env segments = cbind cget (\<lambda>c.
     if 2 \<le> length segments \<and> (case map_of (sc_types c) (segments ! 0) of Some (TEnum _ _) \<Rightarrow> True | _ \<Rightarrow> False)
     then creturn (ident ''i64'')
     else
       (case get_function_signature (env_order env) c (join_with ''_'' segments) of
          Some sig \<Rightarrow> creturn (TFunction (fs_parameters sig) (fs_return_type sig))
        | None \<Rightarrow> cfail (UndefinedFunction (join_with ''_'' segments))))"

fun literal_type :: "literal \<Rightarrow> type" where
  "literal_type (LInteger l) = ident (literal_type_name l)"
| "literal_type (LFloat _) = ident ''f64''"
| "literal_type (LString _) = ident ''string''"
| "literal_type (LBoolean _) = ident ''bool''"
| "literal_type (LChar _) = ident ''char''"

definition field_type :: "type \<Rightarrow> string \<Rightarrow> semantic_context \<Rightarrow> type" where
  "field_type object_type field c =
     (case (case object_type of TPointer _ p \<Rightarrow> p | TRawPointer p _ \<Rightarrow> p | t \<Rightarrow> t) of
        TIdentifier name _ \<Rightarrow>
          (case map_of (sc_types c) name of
             Some (TStruct fs) \<Rightarrow> unwrap_or (map_of fs field) (ident ''i64'')
           | _ \<Rightarrow> ident ''i64'')
      | _ \<Rightarrow> ident ''i64'')"

definition merge_if_branches :: "type \<Rightarrow> type \<Rightarrow> type checker" where
  "merge_if_branches then_type else_type =
     (if types_compatible then_type else_type \<or> types_compatible else_type then_type
      then creturn (if then_type = TNone then else_type else then_type)
      else cfail (TypeMismatch then_type else_type))"

text \<open>What the elements of a vector or matrix literal are: \<open>(has_float, has_bool, has_non_bool)\<close>.\<close>

type_synonym element_flags = "bool \<times> bool \<times> bool"

definition note_element :: "type option \<Rightarrow> element_flags \<Rightarrow> element_flags" where
  "note_element t flags =
     (case flags of (fl, bo, other) \<Rightarrow>
        (case t of
           None \<Rightarrow> (fl, bo, other)
         | Some (TIdentifier name _) \<Rightarrow>
             if name = ''f32'' \<or> name = ''f64'' then (True, bo, other)
             else if name = ''bool'' then (fl, True, other)
             else (fl, bo, True)
         | Some _ \<Rightarrow> (fl, bo, True)))"

definition element_type_of :: "element_flags \<Rightarrow> type" where
  "element_type_of flags =
     (case flags of (fl, bo, other) \<Rightarrow>
        if fl then ident ''f64'' else if bo \<and> \<not> other then bool_type else ident ''i64'')"

definition matrix_dimensions :: "expression list list \<Rightarrow> usize list" where
  "matrix_dimensions rows =
     (let cols = (case rows of [] \<Rightarrow> 0 | r # _ \<Rightarrow> length r) in
      if length rows \<le> 1 then [cols] else [length rows, cols])"

definition usize_max :: nat where
  "usize_max = 2 ^ 64 - 1"

definition record_dimension :: "expression \<Rightarrow> usize list \<Rightarrow> usize list" where
  "record_dimension e dims =
     (case e of
        ELiteral (LInteger l) \<Rightarrow> if unat (lit_value l) \<le> usize_max then dims @ [unat (lit_value l)] else dims
      | _ \<Rightarrow> dims)"

definition is_zero_literal :: "expression \<Rightarrow> bool" where
  "is_zero_literal e = (case e of ELiteral (LInteger l) \<Rightarrow> lit_value l = 0 | _ \<Rightarrow> False)"

definition question_type :: "type \<Rightarrow> type option \<Rightarrow> semantic_error + type" where
  "question_type operand expected_ret =
     (case operand of
        TOptional inner \<Rightarrow>
          (case expected_ret of
             Some (TOptional expected_inner) \<Rightarrow>
               if types_compatible expected_inner inner then Inr inner
               else Inl (TypeMismatch (TOptional expected_inner) (TOptional inner))
           | Some t \<Rightarrow> Inl (InvalidOperation ''?'' [t])
           | None \<Rightarrow> Inl (InvalidOperation ''?'' [TOptional inner]))
      | TResult inner \<Rightarrow>
          (case expected_ret of
             Some (TResult _) \<Rightarrow> Inr inner
           | Some t \<Rightarrow> Inl (InvalidOperation ''?'' [t])
           | None \<Rightarrow> Inl (InvalidOperation ''?'' [TResult inner]))
      | other \<Rightarrow> Inl (InvalidOperation ''?'' [other]))"

definition merge_arm :: "type option \<Rightarrow> type \<Rightarrow> type option checker" where
  "merge_arm result arm_type =
     (case result of
        None \<Rightarrow> creturn (Some arm_type)
      | Some current \<Rightarrow> cbind (cresult (merge_match_branch_type current arm_type)) (\<lambda>t. creturn (Some t)))"

definition enter_loop :: "semantic_context \<Rightarrow> semantic_context" where
  "enter_loop c = (enter_scope c)\<lparr>sc_loop_depth := sc_loop_depth c + 1\<rparr>"

definition exit_loop :: "semantic_context \<Rightarrow> semantic_context" where
  "exit_loop c = exit_scope (c\<lparr>sc_loop_depth := sc_loop_depth c - 1\<rparr>)"

section \<open>Pieces of the analysis of statements\<close>

text \<open>An \<open>i64\<close> may be assigned where an enum is expected.\<close>

definition assignable :: "semantic_context \<Rightarrow> type \<Rightarrow> type \<Rightarrow> bool" where
  "assignable c expected found \<longleftrightarrow>
     (case (expected, found) of
        (TIdentifier tn _, TIdentifier vn _) \<Rightarrow>
          vn = ''i64'' \<and> (case map_of (sc_types c) tn of Some (TEnum _ _) \<Rightarrow> True | _ \<Rightarrow> False)
      | _ \<Rightarrow> False) \<or> types_compatible expected found"

definition expect_assignable :: "type \<Rightarrow> type \<Rightarrow> unit checker" where
  "expect_assignable expected found = cbind cget (\<lambda>c.
     if assignable c expected found then creturn () else cfail (TypeMismatch expected found))"

definition bind_parameters :: "expression parameter list \<Rightarrow> semantic_context \<Rightarrow> semantic_context" where
  "bind_parameters ps = fold (\<lambda>p. define_variable (param_name p) (parameter_type p)) ps"

definition restore_function :: "semantic_context \<Rightarrow> semantic_context \<Rightarrow> semantic_context" where
  "restore_function saved c = c\<lparr>sc_variables := sc_variables saved, sc_return_type := sc_return_type saved\<rparr>"

definition enter_generics :: "string \<Rightarrow> type_param list \<Rightarrow> semantic_context \<Rightarrow> semantic_context" where
  "enter_generics name tps c =
     (if tps = [] then c else c\<lparr>sc_type_generics := AList.update name (map tp_name tps) (sc_type_generics c)\<rparr>)"

definition enter_function_type :: "string \<Rightarrow> ('e, 's) const_value \<Rightarrow> semantic_context \<Rightarrow> semantic_context" where
  "enter_function_type name v c =
     (case v of
        CType (TFunction ps r) \<Rightarrow>
          c\<lparr>sc_functions := AList.update name \<lparr>fs_parameters = ps, fs_return_type = r, fs_is_async = False\<rparr> (sc_functions c)\<rparr>
      | _ \<Rightarrow> c)"

type_synonym provided = "(string, function_signature) hmap \<times> (string, type) hmap"

fun check_signature :: "(type \<times> type) list \<Rightarrow> (string, type) hmap \<Rightarrow> type \<Rightarrow> semantic_error + unit" where
  "check_signature [] assoc self_type = Inr ()"
| "check_signature ((a, b) # rest) assoc self_type =
     (if types_match_with_assoc_and_self a b assoc self_type then check_signature rest assoc self_type
      else Inl (TypeMismatch a b))"

definition check_trait_method ::
    "string \<Rightarrow> string \<Rightarrow> provided \<Rightarrow> type \<Rightarrow> string \<times> type \<Rightarrow> semantic_error + unit" where
  "check_trait_method tn tname provided self_type method =
     (case method of (mname, TFunction ps r) \<Rightarrow>
          (case map_of (fst provided) mname of
             None \<Rightarrow> Inl (UndefinedFunction (''impl '' @ tn @ '' for '' @ tname @ '' missing method '' @ mname))
           | Some sig \<Rightarrow>
               if length ps \<noteq> length (fs_parameters sig)
               then Inl (ArgumentCountMismatch (length ps) (length (fs_parameters sig)))
               else check_signature (zip ps (fs_parameters sig) @ [(r, fs_return_type sig)]) (snd provided) self_type)
      | _ \<Rightarrow> Inr ())"

definition check_trait_impl ::
    "hash_order \<Rightarrow> string \<Rightarrow> string \<Rightarrow> trait_info \<Rightarrow> provided \<Rightarrow> type \<Rightarrow> semantic_error + unit" where
  "check_trait_impl \<pi> tn tname info provided self_type =
     first_error
       (map (\<lambda>assoc. if hm_contains (snd provided) assoc then Inr ()
           else Inl (UndefinedVariable (''impl '' @ tn @ '' for '' @ tname @ '' missing associated type '' @ assoc)))
         (ti_associated_types info) @
        map (check_trait_method tn tname provided self_type) (hm_iter \<pi> (ti_methods info)))"

definition record_trait_impl :: "string \<Rightarrow> string \<Rightarrow> provided \<Rightarrow> semantic_context \<Rightarrow> semantic_context" where
  "record_trait_impl tn tname provided c =
     c\<lparr>sc_trait_impls :=
         AList.update tn
           (AList.update tname \<lparr>ii_associated_types = snd provided, ii_methods = fst provided\<rparr>
             (unwrap_or (map_of (sc_trait_impls c) tn) []))
           (sc_trait_impls c)\<rparr>"

definition impl_default :: impl_info where
  "impl_default = \<lparr>ii_associated_types = [], ii_methods = []\<rparr>"

text \<open>An inherent implementation adds its methods to those of the type.\<close>

fun inherent_item :: "statement \<Rightarrow> impl_info \<Rightarrow> impl_info" where
  "inherent_item (SConstDecl _ name _ _ v _) info =
     (case v of
        CExpression (EFunction _ _ ps ret _ _) \<Rightarrow>
          info\<lparr>ii_methods := AList.update name (declared_signature ps ret) (ii_methods info)\<rparr>
      | _ \<Rightarrow> info)"
| "inherent_item (SImplMethod name _ ps ret _) info =
     info\<lparr>ii_methods := AList.update name (declared_signature ps ret) (ii_methods info)\<rparr>"
| "inherent_item _ info = info"

definition record_inherent_impl :: "string \<Rightarrow> statement list \<Rightarrow> semantic_context \<Rightarrow> semantic_context" where
  "record_inherent_impl tname methods c =
     c\<lparr>sc_inherent_impls :=
         AList.update tname
           (fold inherent_item methods (unwrap_or (map_of (sc_inherent_impls c) tname) impl_default))
           (AList.delete tname (sc_inherent_impls c))\<rparr>"

section \<open>Expressions and statements\<close>

function infer_expression_type :: "check_env \<Rightarrow> expression \<Rightarrow> type checker"
  and analyze_statement :: "check_env \<Rightarrow> statement \<Rightarrow> unit checker"
where
  "infer_expression_type env (ELiteral l) = creturn (literal_type l)"
| "infer_expression_type env (ETuple es) =
     cbind (cmap (infer_expression_type env) es) (\<lambda>ts. creturn (TTuple ts))"
| "infer_expression_type env (EIdentifier name) = infer_identifier env name"
| "infer_expression_type env (EBinaryOp left op right) =
     cbind (infer_expression_type env left) (\<lambda>l.
     cbind (infer_expression_type env right) (\<lambda>r. cresult (infer_binary_op_type l op r)))"
| "infer_expression_type env (EUnaryOp op operand) =
     cbind (infer_expression_type env operand) (\<lambda>t. cresult (infer_unary_op_type op t))"
| "infer_expression_type env (ECall func targs args) =
     (case func of
        EIdentifier name \<Rightarrow> named_call env (infer_expression_type env) name args
      | EFieldAccess object method \<Rightarrow>
          cbind (infer_expression_type env object) (\<lambda>recv.
          method_call env (infer_expression_type env) recv method args)
      | EStaticPath segments _ \<Rightarrow> static_call env (infer_expression_type env) segments args
      | _ \<Rightarrow> creturn TNone)"
| "infer_expression_type env (EMatch v arms) =
     cbind (infer_expression_type env v) (\<lambda>vt.
     cbind (cfold (\<lambda>arm result.
         cbind (cupdate enter_scope) (\<lambda>_.
         cbind (analyze_pattern env (arm_pattern arm) vt) (\<lambda>_.
         cbind (infer_expression_type env (arm_body arm)) (\<lambda>t.
         cbind (cupdate exit_scope) (\<lambda>_. merge_arm result t)))))
       arms None) (\<lambda>result. creturn (unwrap_or result TNone)))"
| "infer_expression_type env (EFieldAccess object field) =
     cbind (infer_expression_type env object) (\<lambda>t. cbind cget (\<lambda>c. creturn (field_type t field c)))"
| "infer_expression_type env (EIndex object indices) =
     cbind (infer_expression_type env object) (\<lambda>t.
     creturn (case t of TMatrix e _ \<Rightarrow> e | _ \<Rightarrow> TNone))"
| "infer_expression_type env (ECast v to_type) =
     cbind (infer_expression_type env v) (\<lambda>_. creturn to_type)"
| "infer_expression_type env (EIf condition then_branch else_branch) =
     cbind (infer_expression_type env condition) (\<lambda>t.
     cbind (expect_condition is_lower_string t) (\<lambda>_. creturn TNone))"
| "infer_expression_type env (EIfExpr condition then_expr else_expr) =
     cbind (infer_expression_type env condition) (\<lambda>t.
     cbind (expect_condition is_string_type t) (\<lambda>_.
     cbind (infer_expression_type env then_expr) (\<lambda>then_type.
     case else_expr of
       Some e \<Rightarrow> cbind (infer_expression_type env e) (\<lambda>else_type. merge_if_branches then_type else_type)
     | None \<Rightarrow> creturn then_type)))"
| "infer_expression_type env (ELoop body) =
     cbind (cupdate enter_loop) (\<lambda>_.
     cbind (cfor (analyze_statement env) body) (\<lambda>_.
     cbind (cupdate exit_loop) (\<lambda>_. creturn TNone)))"
| "infer_expression_type env (EBlock ss) = creturn TNone"
| "infer_expression_type env (EUnsafeBlock ss) = creturn TNone"
| "infer_expression_type env (EFunction asy tps ps ret body attrs) = creturn TNone"
| "infer_expression_type env (EStructLiteral tname flds) = creturn TNone"
| "infer_expression_type env (EUnwrap e) = creturn TNone"
| "infer_expression_type env (ERange start stop step) =
     cbind (infer_expression_type env start) (\<lambda>st.
     cbind (infer_expression_type env stop) (\<lambda>et.
     if \<not> (is_numeric_type st \<and> is_numeric_type et) then cfail (TypeMismatch (ident ''i64'') st)
     else
       (case step of
          None \<Rightarrow> creturn (ident ''i64'')
        | Some e \<Rightarrow>
            cbind (infer_expression_type env e) (\<lambda>s_ty.
            if \<not> is_numeric_type s_ty then cfail (TypeMismatch (ident ''i64'') s_ty)
            else if is_zero_literal e then cfail InvalidRangeStepZero
            else creturn (ident ''i64'')))))"
| "infer_expression_type env (EVecNew element_type len filler dims) =
     cbind (cfold (\<lambda>e recorded.
         cbind (infer_expression_type env e) (\<lambda>t.
         if \<not> is_numeric_type t then cfail (TypeMismatch (ident ''i64'') t)
         else creturn (record_dimension e recorded)))
       (case len of Some e \<Rightarrow> e # dims | None \<Rightarrow> dims) []) (\<lambda>recorded.
     cbind (case filler of
              Some e \<Rightarrow> cbind (infer_expression_type env e) (cexpect element_type)
            | None \<Rightarrow> creturn ()) (\<lambda>_.
     creturn (TMatrix element_type recorded)))"
| "infer_expression_type env (EVecLiteral es) =
     cbind (cfold (\<lambda>e flags. cbind (ctry (infer_expression_type env e)) (\<lambda>t. creturn (note_element t flags)))
       es (False, False, False)) (\<lambda>flags.
     creturn (TMatrix (element_type_of flags) [length es]))"
| "infer_expression_type env (EMatrix rows) =
     cbind (cfold (\<lambda>e flags. cbind (ctry (infer_expression_type env e)) (\<lambda>t. creturn (note_element t flags)))
       (concat rows) (False, False, False)) (\<lambda>flags.
     creturn (TMatrix (element_type_of flags) (matrix_dimensions rows)))"
| "infer_expression_type env (EQuery q) = creturn (ident ''QueryResult'')"
| "infer_expression_type env (EShader st sfs body) = creturn (ident ''Shader'')"
| "infer_expression_type env (EStaticPath segments targs) = infer_static_path env segments"
| "infer_expression_type env (EQuestion e) =
     cbind (infer_expression_type env e) (\<lambda>t. cbind cget (\<lambda>c. cresult (question_type t (sc_return_type c))))"
| "analyze_statement env (SModuleDecl is_public name items) =
     cbind (cupdate (enter_module name)) (\<lambda>_.
     cbind (case items of Some ss \<Rightarrow> cfor (analyze_statement env) ss | None \<Rightarrow> creturn ()) (\<lambda>_.
     cupdate exit_module))"
| "analyze_statement env (SConstDecl attrs name tps annotation v vis) =
     cbind (cupdate (enter_function_type name v \<circ> enter_generics name tps)) (\<lambda>_.
     case v of
       CExpression e \<Rightarrow>
         (case e of
            EFunction asy ftps ps ret body fattrs \<Rightarrow>
              cbind cget (\<lambda>saved.
              cbind (cupdate (\<lambda>c. (bind_parameters ps c)\<lparr>sc_return_type := Some (unwrap_or ret TNone)\<rparr>)) (\<lambda>_.
              cbind (case body of
                       FBlock ss \<Rightarrow> cfor (analyze_statement env) ss
                     | FExpression b \<Rightarrow>
                         (case b of
                            EBlock ss \<Rightarrow> cfor (analyze_statement env) ss
                          | _ \<Rightarrow> cbind (infer_expression_type env b) (\<lambda>_. creturn ()))) (\<lambda>_.
              cupdate (restore_function saved))))
          | _ \<Rightarrow>
              cbind (infer_expression_type env e) (\<lambda>inferred.
              cupdate (define_variable name (unwrap_or annotation inferred))))
     | CType _ \<Rightarrow> creturn ()
     | CTableDef td \<Rightarrow> validate_table_definition env (infer_expression_type env) td
     | CSystemDef sd \<Rightarrow>
         cbind (validate_system_definition (infer_expression_type env) sd) (\<lambda>_.
         cbind cget (\<lambda>saved.
         cbind (cupdate (\<lambda>c. (bind_system_parameters sd c)\<lparr>sc_return_type := Some (unwrap_or (sd_return_type sd) TNone)\<rparr>)) (\<lambda>_.
         cbind (cfor (analyze_statement env) (sd_body sd)) (\<lambda>_.
         cupdate (restore_function saved)))))
     | _ \<Rightarrow> creturn ())"
| "analyze_statement env (SVariableDecl pattern annotation v) =
     cbind (infer_expression_type env v) (\<lambda>value_type.
     case annotation of
       Some a \<Rightarrow> cbind (expect_assignable a value_type) (\<lambda>_. bind_binding_pattern pattern a)
     | None \<Rightarrow> bind_binding_pattern pattern value_type)"
| "analyze_statement env (SAssignment target op v) =
     cbind (infer_expression_type env target) (\<lambda>target_type.
     cbind (infer_expression_type env v) (\<lambda>value_type. expect_assignable target_type value_type))"
| "analyze_statement env (SExpression e) = cbind (infer_expression_type env e) (\<lambda>_. creturn ())"
| "analyze_statement env (SReturn r) = cbind cget (\<lambda>c.
     if sc_return_type c = None then cfail ReturnOutsideFunction
     else
       (case r of
          None \<Rightarrow> creturn ()
        | Some e \<Rightarrow>
            cbind (infer_expression_type env e) (\<lambda>t. cbind cget (\<lambda>c'.
            case sc_return_type c' of
              Some expected \<Rightarrow> cexpect expected t
            | None \<Rightarrow> cstuck (ExplicitPanic ''called unwrap on a None value'')))))"
| "analyze_statement env (SBreak r) = cbind cget (\<lambda>c.
     if sc_loop_depth c = 0 then cfail BreakOutsideLoop else creturn ())"
| "analyze_statement env SContinue = cbind cget (\<lambda>c.
     if sc_loop_depth c = 0 then cfail ContinueOutsideLoop else creturn ())"
| "analyze_statement env (SForLoop var annotation iterable body) =
     cbind (infer_expression_type env iterable) (\<lambda>_.
     cbind (cupdate (\<lambda>c. (define_variable var (unwrap_or annotation (ident ''i64'')) (enter_scope c))
         \<lparr>sc_loop_depth := sc_loop_depth c + 1\<rparr>)) (\<lambda>_.
     cbind (cfor (analyze_statement env) body) (\<lambda>_.
     cupdate exit_loop)))"
| "analyze_statement env (SImplBlock tps trait_name tname self_type methods) =
     (case trait_name of
        Some tn \<Rightarrow> cbind cget (\<lambda>c.
          case map_of (sc_traits c) tn of
            None \<Rightarrow> undefined_error (''trait '' @ tn @ '' not defined'')
          | Some info \<Rightarrow>
              cbind (cfold (\<lambda>item provided.
                  case item of
                    SConstDecl _ name _ _ v _ \<Rightarrow>
                      (case v of
                         CType ty \<Rightarrow> creturn (fst provided, AList.update name ty (snd provided))
                       | CExpression e \<Rightarrow>
                           (case e of
                              EFunction _ _ ps ret _ _ \<Rightarrow>
                                creturn (AList.update name (declared_signature ps ret) (fst provided), snd provided)
                            | _ \<Rightarrow> creturn provided)
                       | CTableDef td \<Rightarrow>
                           cbind (validate_table_definition env (infer_expression_type env) td) (\<lambda>_. creturn provided)
                       | CSystemDef sd \<Rightarrow>
                           cbind (validate_system_definition (infer_expression_type env) sd) (\<lambda>_. creturn provided)
                       | _ \<Rightarrow> creturn provided)
                  | SImplMethod name _ ps ret _ \<Rightarrow>
                      creturn (AList.update name (declared_signature ps ret) (fst provided), snd provided)
                  | _ \<Rightarrow> creturn provided)
                methods ([], [])) (\<lambda>provided.
              cbind (cresult (check_trait_impl (env_order env) tn tname info provided self_type)) (\<lambda>_.
              cupdate (record_trait_impl tn tname provided))))
      | None \<Rightarrow> cupdate (record_inherent_impl tname methods))"
| "analyze_statement env (SUse is_public path alias) = cupdate (add_use_import path alias)"
| "analyze_statement env (SIfDef condition then_branch else_branch) =
     cbind (cfor (analyze_statement env) then_branch) (\<lambda>_.
     case else_branch of Some ss \<Rightarrow> cfor (analyze_statement env) ss | None \<Rightarrow> creturn ())"
| "analyze_statement env (SImplMethod name tps ps ret body) = creturn ()"
  by pat_completeness auto

text \<open>The parts of a definition are smaller than it.\<close>

lemma column_size:
  assumes "col \<in> set (columns td)" "computed_expression col = Some e \<or> default_value col = Some e"
  shows "size e \<le> size_table_def size td"
proof -
  have "size e \<le> size_table_column size col" using assms(2) by (cases col) auto
  with element_size [OF assms(1), of "size_table_column size"] show ?thesis by (cases td) simp
qed

lemma parameter_default_size:
  assumes "PRegular x name ty (Some e) \<in> set (sd_parameters sd)"
  shows "size e \<le> size_system_def size size sd"
  using element_size [OF assms, of "size_system_parameter size"] by (cases sd) simp

lemma body_size: "s \<in> set (sd_body sd) \<Longrightarrow> size s \<le> size_system_def size size sd"
  using element_size [of s "sd_body sd" size] by (cases sd) simp

lemma const_item_size:
  assumes "SConstDecl attrs name tps ty v vis \<in> set methods"
  shows "size_const_value size size v \<le> size_list size methods"
  using element_size [OF assms, of size] by simp

lemma impl_table_size:
  assumes "SConstDecl attrs name tps ty (CTableDef td) vis \<in> set methods"
    and "col \<in> set (columns td)" "computed_expression col = Some e \<or> default_value col = Some e"
  shows "size e \<le> size_list size methods"
  using const_item_size [OF assms(1)] column_size [OF assms(2,3)] by simp

lemma impl_system_size:
  assumes "SConstDecl attrs name tps ty (CSystemDef sd) vis \<in> set methods"
    and "PRegular x pname pty (Some e) \<in> set (sd_parameters sd)"
  shows "size e \<le> size_list size methods"
  using const_item_size [OF assms(1)] parameter_default_size [OF assms(2)] by simp

termination infer_expression_type
proof (relation "measure (case_sum (\<lambda>(_, e). size e) (\<lambda>(_, s). size s))", goal_cases)
qed (auto simp: less_Suc_eq_le trans_le_add1 trans_le_add2 part_sizes intro: le_SucI impl_table_size impl_system_size
    dest: element_size [of _ _ size] column_size parameter_default_size body_size
    split: option.splits)

declare infer_expression_type.simps [simp del] analyze_statement.simps [simp del]

end
