(* ===== verification/Semantic_Program.thy ===== *)
theory Semantic_Program
  imports Semantic
begin

text \<open>
  The two passes of \<open>analyze_program\<close> in \<open>src/semantic.rs\<close>: \<open>collect_definitions\<close>, with the types
  of computed columns, and the analysis of the statements. The analyser has its own copy of the
  extraction of column references and of Kahn's sort; the sort is line by line the one of
  \<open>src/computed_columns.rs\<close> and is not defined again.
\<close>

section \<open>The order of computed columns\<close>

function reference_expr :: "hash_order \<Rightarrow> string hset \<Rightarrow> expression \<Rightarrow> string hset \<Rightarrow> string hset"
  and reference_stmt :: "hash_order \<Rightarrow> string hset \<Rightarrow> statement \<Rightarrow> string hset \<Rightarrow> string hset" where
  "reference_expr \<pi> cols (EIdentifier name) refs =
     (if name \<in> set cols then List.insert name refs else refs)"
| "reference_expr \<pi> cols (EBinaryOp left op right) refs =
     reference_expr \<pi> cols right (reference_expr \<pi> cols left refs)"
| "reference_expr \<pi> cols (EUnaryOp op operand) refs = reference_expr \<pi> cols operand refs"
| "reference_expr \<pi> cols (ECall f targs args) refs =
     fold (\<lambda>a. reference_expr \<pi> cols (arg_value a)) args refs"
| "reference_expr \<pi> cols (EFieldAccess object fld) refs = reference_expr \<pi> cols object refs"
| "reference_expr \<pi> cols (EIndex object indices) refs =
     fold (reference_expr \<pi> cols) indices (reference_expr \<pi> cols object refs)"
| "reference_expr \<pi> cols (EIf condition then_branch else_branch) refs =
     (let refs' = fold (reference_stmt \<pi> cols) then_branch (reference_expr \<pi> cols condition refs) in
      case else_branch of None \<Rightarrow> refs' | Some ss \<Rightarrow> fold (reference_stmt \<pi> cols) ss refs')"
| "reference_expr \<pi> cols (EIfExpr condition then_expr else_expr) refs =
     (let refs' = reference_expr \<pi> cols then_expr (reference_expr \<pi> cols condition refs) in
      case else_expr of None \<Rightarrow> refs' | Some e \<Rightarrow> reference_expr \<pi> cols e refs')"
| "reference_expr \<pi> cols (EBlock statements) refs = fold (reference_stmt \<pi> cols) statements refs"
| "reference_expr \<pi> cols (EUnsafeBlock statements) refs = fold (reference_stmt \<pi> cols) statements refs"
| "reference_expr \<pi> cols (ETuple exprs) refs = fold (reference_expr \<pi> cols) exprs refs"
| "reference_expr \<pi> cols (EMatch v arms) refs =
     fold (\<lambda>arm r. reference_expr \<pi> cols (arm_body arm) (reference_expr \<pi> cols (arm_pattern arm) r))
       arms (reference_expr \<pi> cols v refs)"
| "reference_expr \<pi> cols (EStructLiteral tn flds) refs =
     fold (\<lambda>(_, e). reference_expr \<pi> cols e) (hm_iter \<pi> flds) refs"
| "reference_expr \<pi> cols (EVecNew ty len filler dims) refs =
     (let refs1 = (case len of None \<Rightarrow> refs | Some e \<Rightarrow> reference_expr \<pi> cols e refs);
          refs2 = (case filler of None \<Rightarrow> refs1 | Some e \<Rightarrow> reference_expr \<pi> cols e refs1)
      in fold (reference_expr \<pi> cols) dims refs2)"
| "reference_expr \<pi> cols (EVecLiteral elements) refs = fold (reference_expr \<pi> cols) elements refs"
| "reference_expr \<pi> cols (EMatrix rows) refs = fold (reference_expr \<pi> cols) (concat rows) refs"
| "reference_expr \<pi> cols (ERange start stop step) refs =
     (let refs' = reference_expr \<pi> cols stop (reference_expr \<pi> cols start refs) in
      case step of None \<Rightarrow> refs' | Some e \<Rightarrow> reference_expr \<pi> cols e refs')"
| "reference_expr \<pi> cols (EQuestion e) refs = reference_expr \<pi> cols e refs"
| "reference_expr \<pi> cols (EUnwrap e) refs = reference_expr \<pi> cols e refs"
| "reference_expr \<pi> cols (ECast v ty) refs = refs"
| "reference_expr \<pi> cols (EQuery q) refs = refs"
| "reference_expr \<pi> cols (ELiteral l) refs = refs"
| "reference_expr \<pi> cols (ELoop body) refs = refs"
| "reference_expr \<pi> cols (EFunction asy tps ps rt body attrs) refs = refs"
| "reference_expr \<pi> cols (EShader st sfs body) refs = refs"
| "reference_expr \<pi> cols (EStaticPath path targs) refs = refs"
| "reference_stmt \<pi> cols (SVariableDecl pat ty v) refs = reference_expr \<pi> cols v refs"
| "reference_stmt \<pi> cols (SConstDecl attrs name tps ty cv vis) refs =
     (case cv of CExpression e \<Rightarrow> reference_expr \<pi> cols e refs | _ \<Rightarrow> refs)"
| "reference_stmt \<pi> cols (SAssignment target op v) refs =
     reference_expr \<pi> cols v (reference_expr \<pi> cols target refs)"
| "reference_stmt \<pi> cols (SExpression e) refs = reference_expr \<pi> cols e refs"
| "reference_stmt \<pi> cols (SReturn r) refs = (case r of None \<Rightarrow> refs | Some e \<Rightarrow> reference_expr \<pi> cols e refs)"
| "reference_stmt \<pi> cols (SBreak r) refs = (case r of None \<Rightarrow> refs | Some e \<Rightarrow> reference_expr \<pi> cols e refs)"
| "reference_stmt \<pi> cols (SForLoop var ty iterable body) refs =
     fold (reference_stmt \<pi> cols) body (reference_expr \<pi> cols iterable refs)"
| "reference_stmt \<pi> cols SContinue refs = refs"
| "reference_stmt \<pi> cols (SUse b path alias) refs = refs"
| "reference_stmt \<pi> cols (SImplBlock tps tr tn target body) refs = refs"
| "reference_stmt \<pi> cols (SImplMethod name tps ps rt body) refs = refs"
| "reference_stmt \<pi> cols (SModuleDecl b name body) refs = refs"
| "reference_stmt \<pi> cols (SIfDef cond body els) refs = refs"
  by pat_completeness auto
termination reference_expr
proof (relation "measure (case_sum (\<lambda>(_, _, e, _). size e) (\<lambda>(_, _, s, _). size s))", goal_cases)
qed (auto simp: less_Suc_eq_le trans_le_add1 trans_le_add2 part_sizes dest: element_size [of _ _ size])

declare reference_expr.simps [simp del] reference_stmt.simps [simp del]

definition extract_column_references :: "hash_order \<Rightarrow> string hset \<Rightarrow> expression \<Rightarrow> string hset" where
  "extract_column_references \<pi> cols e = reference_expr \<pi> cols e []"

text \<open>The map of dependencies, in the graph record the sort of \<open>Dependencies\<close> works on.\<close>

definition reference_graph :: "hash_order \<Rightarrow> tabledef \<Rightarrow> dependency_graph" where
  "reference_graph \<pi> td =
     (let all_columns = remdups (map col_name (columns td)) in
      \<lparr>dependencies = fold (\<lambda>col m.
          case computed_expression col of
            Some e \<Rightarrow>
              if is_computed col then
                AList.update (col_name col)
                  \<lparr>cd_column = col_name col, depends_on = extract_column_references \<pi> all_columns e, cd_expression = e\<rparr> m
              else m
          | None \<Rightarrow> m) (columns td) [],
       evaluation_order = []\<rparr>)"

definition compute_column_evaluation_order :: "hash_order \<Rightarrow> tabledef \<Rightarrow> semantic_panic + semantic_error + string list" where
  "compute_column_evaluation_order \<pi> td =
     (case topological_sort \<pi> (reference_graph \<pi> td) of
        None \<Rightarrow> Inl (ExplicitPanic ''unwrap or index in the topological sort'')
      | Some (Inl _) \<Rightarrow> Inr (Inl (UndefinedVariable ''Circular dependency detected in computed columns''))
      | Some (Inr order) \<Rightarrow> Inr (Inr order))"

section \<open>The types of computed columns\<close>

definition set_column_type :: "type \<Rightarrow> tablecol \<Rightarrow> tablecol" where
  "set_column_type ty col =
     (case col of TableColumn n _ annotations dflt computed e \<Rightarrow> TableColumn n ty annotations dflt computed e)"

text \<open>One column, in the clone of the context that holds the columns.\<close>

definition infer_column :: "check_env \<Rightarrow> tablecol \<Rightarrow> tablecol checker" where
  "infer_column env col =
     (case computed_expression col of
        None \<Rightarrow> missing_expression col
      | Some e \<Rightarrow>
          cbind (infer_expression_type env e) (\<lambda>inferred.
          let ty = (if column_type col = TNone then inferred else column_type col) in
          cbind (if column_type col = TNone then creturn () else cexpect (column_type col) inferred) (\<lambda>_.
          cbind (cupdate (define_variable (col_name col) ty)) (\<lambda>_.
          creturn (set_column_type ty col)))))"

fun infer_first_named :: "check_env \<Rightarrow> string \<Rightarrow> tablecol list \<Rightarrow> tablecol list checker" where
  "infer_first_named env name [] = creturn []"
| "infer_first_named env name (col # cols) =
     (if col_name col = name then cbind (infer_column env col) (\<lambda>col'. creturn (col' # cols))
      else cbind (infer_first_named env name cols) (\<lambda>cols'. creturn (col # cols')))"

definition placeholder_columns :: "tablecol list \<Rightarrow> semantic_context \<Rightarrow> semantic_context" where
  "placeholder_columns cols c =
     fold (\<lambda>col. if is_computed col then
          define_variable (col_name col) (if column_type col \<noteq> TNone then column_type col else ident ''unknown'')
        else id) cols
       (fold (\<lambda>col. if is_computed col then id else define_variable (col_name col) (column_type col)) cols c)"

text \<open>The clone is dropped at the end; the typed definition is the result.\<close>

definition infer_computed_column_types :: "check_env \<Rightarrow> tabledef \<Rightarrow> tabledef checker" where
  "infer_computed_column_types env td =
     cbind (cpanics (compute_column_evaluation_order (env_order env) td)) (\<lambda>sorted.
     cbind (cresult sorted) (\<lambda>order.
     cclone (placeholder_columns (columns td))
       (cbind (cfold (infer_first_named env) order (columns td)) (\<lambda>cols.
        cbind (cmap (\<lambda>col. if is_computed col \<and> col_name col \<notin> set order then infer_column env col else creturn col) cols) (\<lambda>cols'.
        creturn (TableDef (table_name td) cols'))))))"

section \<open>Collecting definitions\<close>

definition collect_type :: "string \<Rightarrow> type_param list \<Rightarrow> type \<Rightarrow> semantic_context \<Rightarrow> semantic_context" where
  "collect_type name tps ty c =
     (let c' = c\<lparr>sc_types := AList.update name ty (sc_types c),
                sc_type_generics := AList.update name (map tp_name tps) (sc_type_generics c)\<rparr> in
      case ty of
        TTrait assoc methods \<Rightarrow>
          c'\<lparr>sc_traits := AList.update name \<lparr>ti_associated_types = assoc, ti_methods = methods\<rparr> (sc_traits c')\<rparr>
      | _ \<Rightarrow> c')"

definition collect_function ::
    "string \<Rightarrow> type_param list \<Rightarrow> type_param list \<Rightarrow> expression parameter list \<Rightarrow> type option \<Rightarrow>
       semantic_context \<Rightarrow> semantic_context" where
  "collect_function name tps fn_tps ps ret c =
     (let sig = declared_signature ps ret;
          generics = map tp_name (if fn_tps \<noteq> [] then fn_tps else tps);
          c' = define_function name sig c;
          c'' = (if generics \<noteq> [] then c'\<lparr>sc_function_generics := AList.update name generics (sc_function_generics c')\<rparr>
                 else c')
      in define_variable name (TFunction (fs_parameters sig) (fs_return_type sig)) c'')"

definition system_signature :: "sysdef \<Rightarrow> function_signature" where
  "system_signature sd =
     \<lparr>fs_parameters = map system_parameter_type (sd_parameters sd),
      fs_return_type = unwrap_or (sd_return_type sd) TNone, fs_is_async = sd_is_async sd\<rparr>"

text \<open>A method of an inherent implementation gets the receiver as an additional first parameter.\<close>

definition collect_method ::
    "string option \<Rightarrow> string \<Rightarrow> type \<Rightarrow> string \<Rightarrow> expression parameter list \<Rightarrow> type option \<Rightarrow>
       semantic_context \<Rightarrow> semantic_context" where
  "collect_method trait_name tname self_type mname ps ret =
     (let sig = declared_signature ps ret in
      define_function (mangle_method_name trait_name tname mname)
        (if trait_name = None \<and> ps \<noteq> []
         then sig\<lparr>fs_parameters := TPointer False self_type # fs_parameters sig\<rparr> else sig))"

definition collect_impl_header :: "string option \<Rightarrow> string \<Rightarrow> semantic_context \<Rightarrow> semantic_context" where
  "collect_impl_header trait_name tname c =
     (case trait_name of
        Some tn \<Rightarrow>
          c\<lparr>sc_trait_impls :=
              AList.update tn (AList.update tname impl_default (unwrap_or (map_of (sc_trait_impls c) tn) []))
                (sc_trait_impls c)\<rparr>
      | None \<Rightarrow> c\<lparr>sc_inherent_impls := AList.update tname impl_default (sc_inherent_impls c)\<rparr>)"

definition collect_impl_item :: "check_env \<Rightarrow> string option \<Rightarrow> string \<Rightarrow> type \<Rightarrow> statement \<Rightarrow> unit checker" where
  "collect_impl_item env trait_name tname self_type item =
     (case item of
        SConstDecl _ mname _ _ v _ \<Rightarrow>
          (case v of
             CExpression (EFunction _ _ ps ret _ _) \<Rightarrow> cupdate (collect_method trait_name tname self_type mname ps ret)
           | CTableDef td \<Rightarrow> validate_table_definition env (infer_expression_type env) td
           | CSystemDef sd \<Rightarrow> validate_system_definition (infer_expression_type env) sd
           | _ \<Rightarrow> creturn ())
      | SImplMethod mname _ ps ret _ \<Rightarrow>
          cupdate (define_function (mangle_method_name trait_name tname mname) (declared_signature ps ret))
      | _ \<Rightarrow> creturn ())"

definition collect_table :: "check_env \<Rightarrow> string \<Rightarrow> tabledef \<Rightarrow> unit checker" where
  "collect_table env name td =
     cbind (infer_computed_column_types env td) (\<lambda>typed.
     cbind (validate_table_definition env (infer_expression_type env) typed) (\<lambda>_.
     cupdate (\<lambda>c. c\<lparr>sc_tables := AList.update name typed (sc_tables c)\<rparr>)))"

function collect_definitions :: "check_env \<Rightarrow> statement \<Rightarrow> unit checker" where
  "collect_definitions env s =
     (case s of
        SModuleDecl _ name items \<Rightarrow>
          cbind (cupdate (enter_module name)) (\<lambda>_.
          cbind (case items of Some ss \<Rightarrow> cfor (collect_definitions env) ss | None \<Rightarrow> creturn ()) (\<lambda>_.
          cupdate exit_module))
      | SConstDecl _ name tps _ v _ \<Rightarrow>
          (case v of
             CType ty \<Rightarrow> cupdate (collect_type name tps ty)
           | CExpression e \<Rightarrow>
               (case e of
                  EFunction _ fn_tps ps ret _ _ \<Rightarrow> cupdate (collect_function name tps fn_tps ps ret)
                | _ \<Rightarrow> cbind (infer_expression_type env e) (\<lambda>t. cupdate (define_variable name t)))
           | CTableDef td \<Rightarrow> collect_table env name td
           | CSystemDef sd \<Rightarrow> cupdate (define_function name (system_signature sd))
           | _ \<Rightarrow> creturn ())
      | SImplBlock _ trait_name tname self_type methods \<Rightarrow>
          cbind (cupdate (collect_impl_header trait_name tname)) (\<lambda>_.
          cfor (collect_impl_item env trait_name tname self_type) methods)
      | _ \<Rightarrow> creturn ())"
  by pat_completeness auto
termination
proof (relation "measure (\<lambda>(_, s). size s)", goal_cases)
qed (auto simp: less_Suc_eq_le dest: element_size [of _ _ size])

declare collect_definitions.simps [simp del]

section \<open>The program\<close>

text \<open>
  A type mismatch ends the statement it occurs in and nothing else: the next statement is analysed in
  the context that is left.
\<close>

definition analyze_leniently :: "check_env \<Rightarrow> statement \<Rightarrow> unit checker" where
  "analyze_leniently env s c =
     (case analyze_statement env s c of
        (Failed (TypeMismatch _ _), c') \<Rightarrow> (Done (), c')
      | r \<Rightarrow> r)"

definition analyze_program :: "check_env \<Rightarrow> program \<Rightarrow> semantic_context analysis" where
  "analyze_program env prog =
     fst (cbind (cfor (collect_definitions env) prog) (\<lambda>_.
          cbind (cfor (analyze_leniently env) prog) (\<lambda>_. cget)) context_new)"

end
