(* ===== verification/Semantic_Properties.thy ===== *)
theory Semantic_Properties
  imports Semantic_Program Table_Invariant
begin

text \<open>
  What the semantic analysis promises. The context it threads only grows outside the scope it works
  in; an accepted table definition is well formed and an accepted implementation block provides its
  trait; numeric promotion is a join; compatibility of types is reflexive; computed columns are
  ordered after the columns they read. The last section shows programs the analysis treats wrongly.
\<close>

section \<open>Relations the analysis respects\<close>

text \<open>A checker keeps a relation when it relates the context it gets and the one it leaves, whatever the outcome.\<close>

type_synonym context_relation = "semantic_context \<Rightarrow> semantic_context \<Rightarrow> bool"

definition keeps :: "context_relation \<Rightarrow> 'a checker \<Rightarrow> bool" where
  "keeps R m \<longleftrightarrow> (\<forall>c. R c (snd (m c)))"

text \<open>A block that opens a scope, a loop or a module, and closes it.\<close>

definition opens ::
    "context_relation \<Rightarrow> (semantic_context \<Rightarrow> semantic_context) \<Rightarrow> (semantic_context \<Rightarrow> semantic_context) \<Rightarrow> bool" where
  "opens R enter leave \<longleftrightarrow> (\<forall>c. R c (enter c)) \<and> (\<forall>c c'. R (enter c) c' \<longrightarrow> R c (leave c'))"

lemma cbind_assoc: "cbind (cbind m f) g = cbind m (\<lambda>x. cbind (f x) g)"
  by (rule ext) (simp add: cbind_def split: prod.splits analysis.splits)

definition same_frame :: context_relation where
  "same_frame c c' \<longleftrightarrow>
     sc_var_scopes c' = sc_var_scopes c \<and> sc_loop_depth c' = sc_loop_depth c \<and>
     sc_module_path c' = sc_module_path c \<and> sc_tables c' = sc_tables c"

definition enter_for :: "string \<Rightarrow> type \<Rightarrow> semantic_context \<Rightarrow> semantic_context" where
  "enter_for var ty c = (define_variable var ty (enter_scope c))\<lparr>sc_loop_depth := sc_loop_depth c + 1\<rparr>"

named_theorems keep_rules

text \<open>
  What a relation has to allow for the analysis of expressions and statements to keep it: variables
  enter the innermost scope, scopes, loops and modules are opened and closed, and the maps of
  names may change in any way.
\<close>

locale analysis_relation =
  fixes R :: context_relation
  assumes R_refl: "R c c"
    and R_trans: "R a b \<Longrightarrow> R b c \<Longrightarrow> R a c"
    and R_define: "R c (define_variable name ty c)"
    and R_same_frame: "same_frame c c' \<Longrightarrow> R c c'"
    and opens_scope: "opens R enter_scope exit_scope"
    and opens_loop: "opens R enter_loop exit_loop"
    and opens_for: "opens R (enter_for var ty) exit_loop"
    and opens_module: "opens R (enter_module name) exit_module"
begin

lemma R_fold: "(\<And>x c. R c (f x c)) \<Longrightarrow> R c (fold f xs c)"
  by (induction xs arbitrary: c) (auto intro: R_refl R_trans)

lemma keeps_return [keep_rules]: "keeps R (creturn x)"
  by (simp add: keeps_def creturn_def R_refl)

lemma keeps_fail [keep_rules]: "keeps R (cfail err)"
  by (simp add: keeps_def cfail_def R_refl)

lemma keeps_stuck [keep_rules]: "keeps R (cstuck p)"
  by (simp add: keeps_def cstuck_def R_refl)

lemma keeps_get [keep_rules]: "keeps R cget"
  by (simp add: keeps_def cget_def R_refl)

lemma keeps_bind [keep_rules]:
  assumes "keeps R m" and "\<And>x. keeps R (f x)"
  shows "keeps R (cbind m f)"
  unfolding keeps_def
proof
  fix c
  obtain r c' where m: "m c = (r, c')" by (cases "m c")
  with assms(1) have "R c c'" unfolding keeps_def by (metis snd_conv)
  moreover have "R c' (snd (f x c'))" for x using assms(2) by (simp add: keeps_def)
  ultimately show "R c (snd (cbind m f c))"
    using m by (cases r) (auto simp: cbind_def intro: R_trans)
qed

lemma keeps_update: "(\<And>c. R c (g c)) \<Longrightarrow> keeps R (cupdate g)"
  by (simp add: keeps_def cupdate_def)

lemma keeps_try [keep_rules]: "keeps R m \<Longrightarrow> keeps R (ctry m)"
  unfolding keeps_def ctry_def by (auto split: prod.splits analysis.splits) (metis snd_conv)+

lemma keeps_clone [keep_rules]: "keeps R (cclone g m)"
  by (simp add: keeps_def cclone_def R_refl)

lemma keeps_result [keep_rules]: "keeps R (cresult r)"
  by (cases r) (simp_all add: keep_rules)

lemma keeps_panics [keep_rules]: "keeps R (cpanics r)"
  by (cases r) (simp_all add: keep_rules)

lemma keeps_cmap [keep_rules]: "(\<And>x. x \<in> set xs \<Longrightarrow> keeps R (f x)) \<Longrightarrow> keeps R (cmap f xs)"
  by (induction xs) (auto intro!: keep_rules)

lemma keeps_cfor [keep_rules]: "(\<And>x. x \<in> set xs \<Longrightarrow> keeps R (f x)) \<Longrightarrow> keeps R (cfor f xs)"
  by (induction xs) (auto intro!: keep_rules)

lemma keeps_cfold [keep_rules]: "(\<And>x s. x \<in> set xs \<Longrightarrow> keeps R (f x s)) \<Longrightarrow> keeps R (cfold f xs s)"
  by (induction xs arbitrary: s) (auto intro!: keep_rules)

lemma keeps_expect [keep_rules]: "keeps R (cexpect a b)"
  by (simp add: cexpect_def keep_rules)

lemma keeps_block:
  assumes "opens R enter leave" and "keeps R m" and "\<And>x. keeps R (f x)"
  shows "keeps R (cbind (cupdate enter) (\<lambda>_. cbind m (\<lambda>x. cbind (cupdate leave) (\<lambda>_. f x))))"
  unfolding keeps_def
proof
  fix c
  obtain r c' where m: "m (enter c) = (r, c')" by (cases "m (enter c)")
  have "R (enter c) c'" using assms(2) m unfolding keeps_def by (metis snd_conv)
  then have "R c c'" "R c (leave c')"
    using assms(1) by (auto simp: opens_def intro: R_trans)
  moreover have "R (leave c') (snd (f x (leave c')))" for x using assms(3) by (simp add: keeps_def)
  ultimately show "R c (snd (cbind (cupdate enter) (\<lambda>_. cbind m (\<lambda>x. cbind (cupdate leave) (\<lambda>_. f x))) c))"
    using m by (cases r) (auto simp: cbind_def cupdate_def intro: R_trans)
qed

lemma keeps_block_last:
  assumes "opens R enter leave" and "keeps R m"
  shows "keeps R (cbind (cupdate enter) (\<lambda>_. cbind m (\<lambda>_. cupdate leave)))"
proof -
  have "cbind (cupdate leave) creturn = cupdate leave"
    by (rule ext) (simp add: cbind_def cupdate_def creturn_def)
  with keeps_block [OF assms keeps_return, of "\<lambda>_. ()"] show ?thesis by simp
qed

lemma keeps_block_steps:
  assumes "opens R enter leave" and "keeps R a" and "keeps R b" and "\<And>x. keeps R (f x)"
  shows "keeps R (cbind (cupdate enter) (\<lambda>_. cbind a (\<lambda>_. cbind b (\<lambda>x. cbind (cupdate leave) (\<lambda>_. f x)))))"
  using keeps_block [OF assms(1) keeps_bind [OF assms(2,3)] assms(4)] by (simp add: cbind_assoc)

lemma keeps_define [keep_rules]: "keeps R (cupdate (define_variable name ty))"
  by (simp add: keeps_update R_define)

text \<open>A case distinction keeps what each of its cases keeps.\<close>

lemmas keeps_cases [keep_rules] =
  option.split [of "keeps R", THEN iffD2] prod.split [of "keeps R", THEN iffD2] list.split [of "keeps R", THEN iffD2]
  if_split [of "keeps R", THEN iffD2] type.split [of "keeps R", THEN iffD2] expression.split [of "keeps R", THEN iffD2]
  statement.split [of "keeps R", THEN iffD2] const_value.split [of "keeps R", THEN iffD2]
  function_body.split [of "keeps R", THEN iffD2] system_parameter.split [of "keeps R", THEN iffD2]

lemmas [keep_rules] = conjI allI impI

lemma keeps_binding [keep_rules]: "keeps R (bind_binding_pattern p ty)"
proof (induction p ty rule: bind_binding_pattern.induct)
  case (3 elements ty)
  then show ?case by (cases ty) (auto intro!: keep_rules)
qed (simp_all add: keep_rules)

lemma keeps_global [keep_rules]: "keeps R (cupdate (bind_global name ty))"
  by (intro keeps_update R_same_frame) (simp add: same_frame_def bind_global_def)

lemma keeps_invalid_pattern [keep_rules]: "keeps R invalid_pattern"
  by (simp add: invalid_pattern_def keep_rules)

lemma keeps_pattern_argument:
  assumes "\<And>name ty. keeps R (cupdate (bind name ty))"
  shows "keeps R (bind_pattern_argument bind ty v)"
proof -
  have "keeps R (bind_unless_wildcard bind name ty')" for name ty'
    by (simp add: bind_unless_wildcard_def keep_rules assms)
  then show ?thesis
    by (auto simp: bind_pattern_argument_def intro: keep_rules split: expression.splits)
qed

lemma keeps_argument_by_define [keep_rules]: "keeps R (bind_pattern_argument define_variable ty v)"
  by (intro keeps_pattern_argument keeps_define)

lemma keeps_payload [keep_rules]: "keeps R (bind_payload ty a)"
  by (simp add: bind_payload_def keep_rules keeps_pattern_argument)

lemma keeps_single_argument [keep_rules]: "keeps R (single_argument targs args)"
  by (simp add: single_argument_def keep_rules)

lemma keeps_constructor_pattern [keep_rules]: "keeps R (constructor_pattern resolved scrutinee f args)"
  unfolding constructor_pattern_def by (intro keep_rules)

lemma keeps_static_pattern [keep_rules]: "keeps R (static_pattern resolved scrutinee segments args)"
  unfolding static_pattern_def by (intro keep_rules)

lemma keeps_identifier_pattern [keep_rules]: "keeps R (identifier_pattern resolved scrutinee name)"
  unfolding identifier_pattern_def by (intro keep_rules)

lemma keeps_pattern [keep_rules]: "keeps R (analyze_pattern env pattern scrutinee)"
proof (induction env pattern scrutinee rule: analyze_pattern.induct)
  case (1 env pattern scrutinee)
  show ?case
    unfolding analyze_pattern.simps [of env pattern] Let_def
    by (intro keep_rules) (auto intro: 1)
qed

lemma keeps_arguments [keep_rules]:
  "(\<And>a. a \<in> set args \<Longrightarrow> keeps R (infer (arg_value a))) \<Longrightarrow> keeps R (check_arguments infer args tys)"
  unfolding check_arguments_def by (auto intro!: keep_rules dest: set_zip_leftD)

lemma keeps_calls [keep_rules]:
  assumes "\<And>a. a \<in> set args \<Longrightarrow> keeps R (infer (arg_value a))"
  shows "keeps R (check_call infer args sig)" "keeps R (check_method_call infer args sig)" "keeps R (infer_single infer args)"
    "keeps R (enum_constructor infer payload t args)" "keeps R (trait_dispatch infer tn method args)"
    "keeps R (plain_call env infer name args)"
proof -
  show "keeps R (infer_single infer args)" unfolding infer_single_def by (intro keep_rules assms) auto
  then show "keeps R (enum_constructor infer payload t args)"
    unfolding enum_constructor_def by (intro keep_rules)
  show c: "keeps R (check_call infer args s)" for s
    unfolding check_call_def using assms by (intro keep_rules)
  show "keeps R (check_method_call infer args sig)"
    unfolding check_method_call_def using assms by (intro keep_rules)
  show "keeps R (trait_dispatch infer tn method args)"
    unfolding trait_dispatch_def using assms by (intro keep_rules) auto
  show "keeps R (plain_call env infer name args)"
    unfolding plain_call_def by (intro keep_rules c)
qed

lemma keeps_named_call [keep_rules]:
  "(\<And>a. a \<in> set args \<Longrightarrow> keeps R (infer (arg_value a))) \<Longrightarrow> keeps R (named_call env infer name args)"
  unfolding named_call_def by (intro keep_rules)

lemma keeps_method_call [keep_rules]:
  "(\<And>a. a \<in> set args \<Longrightarrow> keeps R (infer (arg_value a))) \<Longrightarrow> keeps R (method_call env infer recv method args)"
  unfolding method_call_def by (intro keep_rules)

lemma keeps_static_call [keep_rules]:
  "(\<And>a. a \<in> set args \<Longrightarrow> keeps R (infer (arg_value a))) \<Longrightarrow> keeps R (static_call env infer segments args)"
  unfolding static_call_def Let_def by (intro keep_rules)

lemma keeps_default [keep_rules]:
  "(\<And>e. dflt = Some e \<Longrightarrow> keeps R (infer e)) \<Longrightarrow> keeps R (validate_default infer ty dflt)"
  unfolding validate_default_def by (intro keep_rules)

lemma keeps_undefined [keep_rules]: "keeps R (undefined_error text)"
  by (simp add: undefined_error_def keep_rules)

lemma keeps_columns:
  "(\<And>col e. col \<in> set cols \<Longrightarrow> default_value col = Some e \<Longrightarrow> keeps R (infer e)) \<Longrightarrow>
     keeps R (validate_columns env infer td seen keys cols)"
proof (induction cols arbitrary: seen keys)
  case (Cons col cols)
  have "keeps R (validate_column_type env infer td col)"
    unfolding validate_column_type_def missing_expression_def by (intro keep_rules)
  with Cons show ?case by (auto intro!: keep_rules)
qed (simp add: keep_rules)

lemma keeps_table [keep_rules]:
  "(\<And>col e. col \<in> set (columns td) \<Longrightarrow> default_value col = Some e \<Longrightarrow> keeps R (infer e)) \<Longrightarrow>
     keeps R (validate_table_definition env infer td)"
  unfolding validate_table_definition_def by (rule keeps_columns)

lemma keeps_system [keep_rules]:
  "(\<And>x name ty e. PRegular x name ty (Some e) \<in> set (sd_parameters sd) \<Longrightarrow> keeps R (infer e)) \<Longrightarrow>
     keeps R (validate_system_definition infer sd)"
  unfolding validate_system_definition_def by (intro keep_rules) auto

lemma keeps_use [keep_rules]: "keeps R (cupdate (add_use_import path alias))"
  by (intro keeps_update R_same_frame) (simp_all add: same_frame_def add_use_import_def Let_def)

lemma keeps_leaves [keep_rules]:
  "keeps R (expect_condition is_str t)" "keeps R (infer_identifier env name)" "keeps R (infer_static_path env segments)"
  "keeps R (merge_if_branches t u)" "keeps R (expect_assignable t u)" "keeps R (merge_arm result t)"
  unfolding expect_condition_def infer_identifier_def infer_static_path_def merge_if_branches_def
    expect_assignable_def merge_arm_def
  by (intro keep_rules)+

lemma R_return_type: "R c c' \<Longrightarrow> R c (c'\<lparr>sc_return_type := r\<rparr>)"
  by (rule R_trans, assumption, rule R_same_frame) (simp add: same_frame_def)

lemma R_restore: "R c (restore_function saved c)"
  by (rule R_same_frame) (simp add: same_frame_def restore_function_def)

lemma keeps_function:
  assumes "keeps R m" and "\<And>x c. R c (f x c)"
  shows "keeps R (cbind cget (\<lambda>saved. cbind (cupdate (\<lambda>c. (fold f xs c)\<lparr>sc_return_type := r\<rparr>)) (\<lambda>_.
     cbind m (\<lambda>_. cupdate (restore_function saved)))))"
  using assms by (intro keep_rules keeps_update R_return_type R_fold R_restore)

lemma keeps_definition:
  assumes "\<And>e. v = CExpression e \<Longrightarrow> keeps R (infer_expression_type env e)"
    and "\<And>asy tps ps ret body attrs. v = CExpression (EFunction asy tps ps ret body attrs) \<Longrightarrow>
      keeps R (case body of
               FBlock ss \<Rightarrow> cfor (analyze_statement env) ss
             | FExpression b \<Rightarrow>
                 (case b of
                    EBlock ss \<Rightarrow> cfor (analyze_statement env) ss
                  | _ \<Rightarrow> cbind (infer_expression_type env b) (\<lambda>_. creturn ())))"
    and "\<And>td. v = CTableDef td \<Longrightarrow> keeps R (validate_table_definition env (infer_expression_type env) td)"
    and "\<And>sd. v = CSystemDef sd \<Longrightarrow> keeps R (validate_system_definition (infer_expression_type env) sd)"
    and "\<And>sd. v = CSystemDef sd \<Longrightarrow> keeps R (cfor (analyze_statement env) (sd_body sd))"
  shows "keeps R (analyze_statement env (SConstDecl attrs name tps annotation v vis))"
proof -
  have start: "keeps R (cupdate (enter_function_type name v \<circ> enter_generics name tps))"
    by (intro keeps_update R_same_frame)
      (auto simp: same_frame_def enter_function_type_def enter_generics_def split: const_value.splits type.splits)
  show ?thesis
  proof (cases v)
    case (CExpression e)
    show ?thesis
    proof (cases e)
      case (EFunction asy ftps ps ret body fattrs)
      with CExpression start assms(2) show ?thesis
        unfolding analyze_statement.simps bind_parameters_def
        by (simp only: const_value.case expression.case) (intro keeps_bind start keeps_function; simp add: R_define)
    qed (use CExpression start assms(1) in \<open>simp add: analyze_statement.simps; intro keep_rules; simp\<close>)+
  next
    case (CSystemDef sd)
    with start assms(4,5) show ?thesis
      unfolding analyze_statement.simps bind_system_parameters_def
      by (simp only: const_value.case) (intro keeps_bind start keeps_function; simp add: R_define)
  qed (use start assms(3) in \<open>simp_all add: analyze_statement.simps keep_rules\<close>)
qed

lemma keeps_analysis:
  "keeps R (infer_expression_type env e)" "keeps R (analyze_statement env s)"
proof (induction env e and env s rule: infer_expression_type_analyze_statement.induct)
  case (28 env attrs name tps annotation v vis)
  show ?case
  proof (rule keeps_definition)
    fix e assume "v = CExpression e"
    then show "keeps R (infer_expression_type env e)"
      by (cases e) ((simp add: infer_expression_type.simps(16) keeps_return; fail) | (rule 28, assumption, assumption))+
  next
    fix asy ftps ps ret body attrs assume v: "v = CExpression (EFunction asy ftps ps ret body attrs)"
    show "keeps R (case body of
               FBlock ss \<Rightarrow> cfor (analyze_statement env) ss
             | FExpression b \<Rightarrow>
                 (case b of
                    EBlock ss \<Rightarrow> cfor (analyze_statement env) ss
                  | _ \<Rightarrow> cbind (infer_expression_type env b) (\<lambda>_. creturn ())))"
    proof (cases body)
      case (FBlock ss)
      then show ?thesis by (simp only: function_body.case) (intro keep_rules, rule 28, rule v, rule refl, rule FBlock)
    next
      case (FExpression b)
      then show ?thesis
        by (simp only: function_body.case, cases b; simp only: expression.case)
          ((rule keeps_bind, rule 28, rule v, rule refl, assumption, rule refl, rule keeps_return)
            | (intro keep_rules, rule 28, rule v, rule refl, assumption, rule refl, assumption))+
    qed
  next
    fix td assume "v = CTableDef td"
    then show "keeps R (validate_table_definition env (infer_expression_type env) td)"
      by (intro keeps_table) (rule 28, assumption, assumption, simp)
  next
    fix sd assume v: "v = CSystemDef sd"
    show "keeps R (validate_system_definition (infer_expression_type env) sd)"
      by (intro keeps_system) (rule 28, rule v)
    show "keeps R (cfor (analyze_statement env) (sd_body sd))"
      by (intro keeps_cfor) (rule 28, rule v)
  qed
next
  case (7 env v arms)
  then show ?case
    unfolding infer_expression_type.simps by (intro keeps_bind keeps_cfold keeps_block_steps opens_scope keep_rules)
next
  case (13 env body)
  then show ?case
    unfolding infer_expression_type.simps by (intro keeps_block opens_loop keep_rules)
next
  case (27 env is_public name items)
  then show ?case
    unfolding analyze_statement.simps by (intro keeps_block_last opens_module) (intro keep_rules)
next
  case (35 env var annotation iterable body)
  show ?case
    unfolding analyze_statement.simps enter_for_def [symmetric]
    by (rule keeps_bind) (intro keeps_block_last opens_for keep_rules 35)+
next
  case (36 env tps trait_name tname self_type methods)
  have inherent: "keeps R (cupdate (record_inherent_impl tname methods))"
    by (intro keeps_update R_same_frame) (simp_all add: same_frame_def record_inherent_impl_def)
  have trait_impl: "keeps R (cupdate (record_trait_impl tn tname provided))" for tn provided
    by (intro keeps_update R_same_frame) (simp_all add: same_frame_def record_trait_impl_def)
  show ?case
    unfolding analyze_statement.simps
    by (intro keep_rules)
      (rule inherent trait_impl | (rule 36(2), assumption, assumption, assumption, assumption, assumption, assumption)
        | (rule 36(1), assumption, assumption, assumption, assumption, assumption, assumption, rule disjI2, assumption))+
qed (unfold infer_expression_type.simps analyze_statement.simps, (intro keep_rules; (assumption | simp))+)

end

section \<open>The context only grows\<close>

text \<open>
  \<open>grows c c'\<close>: the scopes outside the innermost one are as they were and none was closed, the
  loop depth and the module path are not shorter.
\<close>

definition grows :: context_relation where
  "grows c c' \<longleftrightarrow>
     length (sc_var_scopes c) \<le> length (sc_var_scopes c') \<and>
     take (length (sc_var_scopes c) - 1) (sc_var_scopes c') = butlast (sc_var_scopes c) \<and>
     sc_loop_depth c \<le> sc_loop_depth c' \<and>
     take (length (sc_module_path c)) (sc_module_path c') = sc_module_path c"

lemma grows_refl [simp]: "grows c c"
  by (simp add: grows_def butlast_conv_take)

lemma take_take_eq: "take n ys = xs \<Longrightarrow> k \<le> n \<Longrightarrow> take k ys = take k xs"
  by (metis min.absorb1 take_take)

lemma grows_trans:
  assumes "grows a b" and "grows b c"
  shows "grows a c"
proof -
  have "take (length (sc_var_scopes a) - 1) (sc_var_scopes c) = take (length (sc_var_scopes a) - 1) (sc_var_scopes b)"
    using assms take_take_eq [of "length (sc_var_scopes b) - 1" "sc_var_scopes c" "butlast (sc_var_scopes b)" "length (sc_var_scopes a) - 1"]
    by (auto simp: grows_def butlast_conv_take min_def)
  moreover have "length (sc_module_path a) \<le> length (sc_module_path b)"
    using assms(1) unfolding grows_def by (metis length_take min.cobounded1)
  then have "take (length (sc_module_path a)) (sc_module_path c) = take (length (sc_module_path a)) (sc_module_path b)"
    using assms(2) take_take_eq [of "length (sc_module_path b)" "sc_module_path c" "sc_module_path b"] by (auto simp: grows_def)
  ultimately show ?thesis using assms by (auto simp: grows_def)
qed

lemma grows_frame:
  "sc_var_scopes c' = sc_var_scopes c \<Longrightarrow> sc_loop_depth c' = sc_loop_depth c \<Longrightarrow> sc_module_path c' = sc_module_path c \<Longrightarrow>
     grows c c'"
  by (simp add: grows_def butlast_conv_take)

lemma grows_define [simp]: "grows c (define_variable name ty c)"
  by (auto simp: grows_def define_variable_def butlast_conv_take)

lemma opens_scopeI:
  assumes enter: "\<And>c. \<exists>x. sc_var_scopes (enter c) = sc_var_scopes c @ [x]" "\<And>c. sc_loop_depth c \<le> sc_loop_depth (enter c)"
      "\<And>c. sc_module_path (enter c) = sc_module_path c"
    and leave: "\<And>c. sc_var_scopes (leave c) = butlast (sc_var_scopes c)" "\<And>c. sc_module_path (leave c) = sc_module_path c"
      "\<And>c c'. sc_loop_depth (enter c) \<le> sc_loop_depth c' \<Longrightarrow> sc_loop_depth c \<le> sc_loop_depth (leave c')"
  shows "opens grows enter leave"
  unfolding opens_def
proof (intro conjI allI impI)
  fix c
  obtain x where x: "sc_var_scopes (enter c) = sc_var_scopes c @ [x]" using enter(1) by blast
  show "grows c (enter c)" using x enter(2,3) by (simp add: grows_def butlast_conv_take)
  fix c'
  assume g: "grows (enter c) c'"
  have "take (length (sc_var_scopes c)) (sc_var_scopes c') = sc_var_scopes c" "length (sc_var_scopes c) < length (sc_var_scopes c')"
    using g x by (simp_all add: grows_def butlast_append)
  moreover from this have "take (length (sc_var_scopes c) - 1) (sc_var_scopes c') = butlast (sc_var_scopes c)"
    by (metis butlast_conv_take diff_le_self take_take_eq)
  moreover have "sc_loop_depth c \<le> sc_loop_depth (leave c')" using g leave(3) by (simp add: grows_def)
  moreover have "take (length (sc_module_path c)) (sc_module_path c') = sc_module_path c"
    using g enter(3) by (simp add: grows_def)
  moreover have "length (sc_var_scopes c) - 1 < length (sc_var_scopes c')"
    using calculation(2) by linarith
  ultimately show "grows c (leave c')"
    using leave(1,2) take_butlast [of "length (sc_var_scopes c) - 1" "sc_var_scopes c'"] by (simp add: grows_def)
qed

lemma grows_scope: "opens grows enter_scope exit_scope"
  by (rule opens_scopeI) (simp_all add: enter_scope_def exit_scope_def)

lemma grows_loop: "opens grows enter_loop exit_loop"
  by (rule opens_scopeI) (simp_all add: enter_loop_def exit_loop_def enter_scope_def exit_scope_def)

lemma define_in_scope:
  "sc_var_scopes (define_variable name ty (enter_scope c)) = sc_var_scopes c @ [[(name, ty)]]"
  "sc_loop_depth (define_variable name ty (enter_scope c)) = sc_loop_depth c"
  "sc_module_path (define_variable name ty (enter_scope c)) = sc_module_path c"
  by (simp_all add: define_variable_def enter_scope_def)

lemma grows_for: "opens grows (enter_for var ty) exit_loop"
  by (rule opens_scopeI) (simp_all add: enter_for_def define_in_scope exit_loop_def exit_scope_def)

lemma grows_module: "opens grows (enter_module name) exit_module"
  unfolding opens_def
proof (intro conjI allI impI)
  fix c
  have e: "sc_var_scopes (enter_module name c) = sc_var_scopes c" "sc_loop_depth (enter_module name c) = sc_loop_depth c"
    "sc_module_path (enter_module name c) = sc_module_path c @ [name]"
    by (simp_all add: enter_module_def Let_def)
  then show "grows c (enter_module name c)" by (simp add: grows_def butlast_conv_take)
  fix c'
  assume g: "grows (enter_module name c) c'"
  then have p: "take (Suc (length (sc_module_path c))) (sc_module_path c') = sc_module_path c @ [name]"
    using e by (simp add: grows_def)
  then have "length (sc_module_path c) < length (sc_module_path c')"
    by (metis Suc_le_lessD length_append_singleton length_take min.cobounded1)
  moreover have "take (length (sc_module_path c)) (sc_module_path c') = sc_module_path c"
    using take_take_eq [OF p, of "length (sc_module_path c)"] by simp
  ultimately have "take (length (sc_module_path c)) (butlast (sc_module_path c')) = sc_module_path c"
    using take_butlast [of "length (sc_module_path c)" "sc_module_path c'"] by simp
  then show "grows c (exit_module c')"
    using g e by (simp add: grows_def exit_module_def)
qed

interpretation growing: analysis_relation grows
  by unfold_locales
    (auto simp: same_frame_def intro: grows_trans grows_frame grows_scope grows_loop grows_for grows_module)

section \<open>Accepted table definitions\<close>

text \<open>The form of a table definition that the runtime of tables relies on.\<close>

definition primary_annotations :: "tabledef \<Rightarrow> expression table_annotation list" where
  "primary_annotations td = filter (\<lambda>a. ann_name a = ''primary'') (concat (map col_annotations (columns td)))"

definition known_annotations :: "string set" where
  "known_annotations = {''primary'', ''autoincrement'', ''indexed'', ''nullable'', ''size'', ''precision''}"

definition table_well_formed :: "tabledef \<Rightarrow> bool" where
  "table_well_formed td \<longleftrightarrow>
     schema_ok td \<and> length (primary_annotations td) \<le> 1 \<and>
     (\<forall>col \<in> set (columns td).
        (is_computed col \<longrightarrow> computed_expression col \<noteq> None) \<and> ann_name ` set (col_annotations col) \<subseteq> known_annotations)"

lemma check_annotations_ok:
  "check_annotations tname as keys = Inr keys' \<Longrightarrow>
     keys' = keys + length (filter (\<lambda>a. ann_name a = ''primary'') as) \<and> (keys \<le> 1 \<longrightarrow> keys' \<le> 1) \<and>
     ann_name ` set as \<subseteq> known_annotations"
  by (induction tname as keys rule: check_annotations.induct) (auto simp: known_annotations_def split: if_splits)

lemma cbind_Done: "cbind m f c = (Done y, c'') \<longleftrightarrow> (\<exists>x c'. m c = (Done x, c') \<and> f x c' = (Done y, c''))"
  by (auto simp: cbind_def split: prod.splits analysis.splits)

lemma outcome_simps [simp]:
  "creturn x c = (Done y, c') \<longleftrightarrow> y = x \<and> c' = c" "cfail err c \<noteq> (Done y, c')" "cstuck p c \<noteq> (Done y, c')"
  "cupdate g c = (Done u, c') \<longleftrightarrow> c' = g c" "cget c = (Done v, c') \<longleftrightarrow> v = c \<and> c' = c"
  "undefined_error text c \<noteq> (Done y, c')"
  by (auto simp: creturn_def cfail_def cstuck_def cupdate_def cget_def undefined_error_def)

lemma cresult_Done [simp]: "cresult r c = (Done y, c') \<longleftrightarrow> r = Inr y \<and> c' = c"
  by (cases r) auto

lemma validate_columns_ok:
  assumes "validate_columns env infer td seen keys cols c = (Done (), c')" and "keys \<le> 1"
  shows "distinct (map col_name cols) \<and> set seen \<inter> set (map col_name cols) = {} \<and>
     keys + length (filter (\<lambda>a. ann_name a = ''primary'') (concat (map col_annotations cols))) \<le> 1 \<and>
     (\<forall>col \<in> set cols. (is_computed col \<longrightarrow> computed_expression col \<noteq> None) \<and>
        ann_name ` set (col_annotations col) \<subseteq> known_annotations)"
  using assms
proof (induction cols arbitrary: seen keys c)
  case (Cons col cols)
  from Cons.prems(1) obtain c1 c2 keys' where col: "col_name col \<notin> set seen"
    and typed: "validate_column_type env infer td col c = (Done (), c1)"
    and ann: "check_annotations (table_name td) (col_annotations col) keys = Inr keys'"
    and rest: "validate_columns env infer td (List.insert (col_name col) seen) keys' cols c2 = (Done (), c')"
    by (auto simp: cbind_Done split: if_splits)
  from check_annotations_ok [OF ann] Cons.prems(2)
  have k: "keys' = keys + length (filter (\<lambda>a. ann_name a = ''primary'') (col_annotations col))" "keys' \<le> 1"
    "ann_name ` set (col_annotations col) \<subseteq> known_annotations" by auto
  have "is_computed col \<longrightarrow> computed_expression col \<noteq> None"
    using typed by (auto simp: validate_column_type_def missing_expression_def split: option.splits)
  with Cons.IH [OF rest k(2)] k col show ?case by auto
qed simp

lemma validate_table_ok:
  "validate_table_definition env infer td c = (Done (), c') \<Longrightarrow> table_well_formed td"
  using validate_columns_ok [of env infer td "[]" 0 "columns td" c c']
  by (simp add: validate_table_definition_def table_well_formed_def schema_ok_def primary_annotations_def)

text \<open>The tables of a context are those that were accepted.\<close>

definition tables_well_formed :: "semantic_context \<Rightarrow> bool" where
  "tables_well_formed c \<longleftrightarrow> (\<forall>name td. map_of (sc_tables c) name = Some td \<longrightarrow> table_well_formed td)"

definition keeps_tables :: context_relation where
  "keeps_tables c c' \<longleftrightarrow> (tables_well_formed c \<longrightarrow> tables_well_formed c')"

lemma same_tables: "sc_tables c' = sc_tables c \<Longrightarrow> keeps_tables c c'"
  by (simp add: keeps_tables_def tables_well_formed_def)

lemma tables_of_update:
  "sc_tables (define_variable name ty c) = sc_tables c" "sc_tables (enter_scope c) = sc_tables c"
  "sc_tables (exit_scope c) = sc_tables c" "sc_tables (enter_loop c) = sc_tables c" "sc_tables (exit_loop c) = sc_tables c"
  "sc_tables (enter_module name c) = sc_tables c" "sc_tables (exit_module c) = sc_tables c"
  "sc_tables (enter_for name ty c) = sc_tables c" "sc_tables (define_function name sig c) = sc_tables c"
  by (simp_all add: define_variable_def enter_scope_def exit_scope_def enter_loop_def exit_loop_def enter_module_def
      exit_module_def enter_for_def define_function_def Let_def)

lemma opens_tables:
  "(\<And>c. sc_tables (enter c) = sc_tables c) \<Longrightarrow> (\<And>c. sc_tables (leave c) = sc_tables c) \<Longrightarrow> opens keeps_tables enter leave"
  by (simp add: opens_def keeps_tables_def tables_well_formed_def)

interpretation table_keeping: analysis_relation keeps_tables
  by unfold_locales
    (auto simp: same_frame_def tables_of_update intro: same_tables opens_tables, auto simp: keeps_tables_def)

lemma keeps_infer_column: "keeps keeps_tables (infer_column env col)"
  unfolding infer_column_def missing_expression_def Let_def by (intro keep_rules table_keeping.keeps_analysis)

lemma keeps_infer_first: "keeps keeps_tables (infer_first_named env name cols)"
  by (induction cols) (auto intro!: keep_rules keeps_infer_column)

lemma keeps_computed_types: "keeps keeps_tables (infer_computed_column_types env td)"
  unfolding infer_computed_column_types_def by (intro keep_rules)

lemma keeps_collect_table: "keeps keeps_tables (collect_table env name td)"
  unfolding keeps_def
proof
  fix c
  let ?step = "\<lambda>typed. cbind (validate_table_definition env (infer_expression_type env) typed) (\<lambda>_.
    cupdate (\<lambda>c. c\<lparr>sc_tables := AList.update name typed (sc_tables c)\<rparr>))"
  have "keeps keeps_tables (?step typed)" for typed
    unfolding keeps_def
  proof
    fix c
    obtain r c' where v: "validate_table_definition env (infer_expression_type env) typed c = (r, c')" by fastforce
    have "keeps keeps_tables (validate_table_definition env (infer_expression_type env) typed)"
      by (intro keep_rules table_keeping.keeps_analysis)
    with v have k: "keeps_tables c c'" unfolding keeps_def by (metis snd_conv)
    have "table_well_formed typed" if "r = Done ()" using v that validate_table_ok by blast
    with k v show "keeps_tables c (snd (?step typed c))"
      by (cases r) (auto simp: cbind_def cupdate_def keeps_tables_def tables_well_formed_def hash_simps)
  qed
  then have "keeps keeps_tables (collect_table env name td)"
    unfolding collect_table_def by (rule table_keeping.keeps_bind [OF keeps_computed_types])
  then show "keeps_tables c (snd (collect_table env name td c))" by (simp add: keeps_def)
qed

lemma keeps_same_tables: "(\<And>c. sc_tables (g c) = sc_tables c) \<Longrightarrow> keeps keeps_tables (cupdate g)"
  by (intro table_keeping.keeps_update same_tables) simp

lemma keeps_collect_item: "keeps keeps_tables (collect_impl_item env trait_name tname self_type item)"
  unfolding collect_impl_item_def
  by (intro keep_rules keeps_same_tables table_keeping.keeps_analysis)
    (simp_all add: collect_method_def tables_of_update Let_def)

lemma keeps_collect: "keeps keeps_tables (collect_definitions env s)"
proof (induction env s rule: collect_definitions.induct)
  case (1 env s)
  have module: "opens keeps_tables (enter_module name) exit_module" for name by (simp add: opens_tables tables_of_update)
  show ?case
    unfolding collect_definitions.simps [of env s]
    by (intro conjI allI impI statement.split [of "keeps keeps_tables", THEN iffD2] table_keeping.keeps_block_last [OF module] keep_rules 1
        keeps_same_tables keeps_collect_table keeps_collect_item table_keeping.keeps_analysis)
      (auto simp: collect_type_def collect_function_def collect_impl_header_def tables_of_update Let_def split: type.splits option.splits)
qed

section \<open>Programs\<close>

lemma keeps_leniently: "keeps keeps_tables (analyze_leniently env s)"
  unfolding keeps_def
proof
  fix c
  have "keeps_tables c (snd (analyze_statement env s c))"
    using table_keeping.keeps_analysis(2) [of env s] by (simp add: keeps_def)
  then show "keeps_tables c (snd (analyze_leniently env s c))"
    by (auto simp: analyze_leniently_def split: prod.splits analysis.splits semantic_error.splits)
qed

lemma program_tables_result:
  assumes "analyze_program env prog = Done c"
  shows "tables_well_formed c"
proof -
  let ?m = "cbind (cfor (collect_definitions env) prog) (\<lambda>_. cbind (cfor (analyze_leniently env) prog) (\<lambda>_. cget))"
  have "keeps keeps_tables ?m"
    by (intro table_keeping.keeps_bind table_keeping.keeps_cfor keeps_collect keeps_leniently table_keeping.keeps_get)
  then have k: "keeps_tables context_new (snd (?m context_new))" by (simp add: keeps_def)
  obtain r c' where m: "?m context_new = (r, c')" by (cases "?m context_new")
  with assms have "r = Done c" by (simp add: analyze_program_def)
  with m have "c = c'" by (auto simp: cbind_Done)
  with k m show ?thesis
    by (simp add: keeps_tables_def tables_well_formed_def context_new_def)
qed

section \<open>The order of computed columns\<close>

text \<open>
  The analyser and the engine of computed columns extract references separately; the analyser finds
  no more of them (it does not look into casts), and puts each in the result once.
\<close>

definition within :: "string hset \<Rightarrow> string hset \<Rightarrow> bool" where
  "within refs deps \<longleftrightarrow> distinct refs \<and> set refs \<subseteq> set deps"

lemma within_fold:
  "(\<And>x r d. x \<in> set xs \<Longrightarrow> within r d \<Longrightarrow> within (f x r) (g x d)) \<Longrightarrow> within r d \<Longrightarrow> within (fold f xs r) (fold g xs d)"
  by (induction xs arbitrary: r d) auto

lemma within_extends: "within r d \<Longrightarrow> extends cols d d' \<Longrightarrow> within r d'"
  by (auto simp: within_def extends_def)

lemma references_within:
  assumes "set cols \<subseteq> set cols'"
  shows "within refs deps \<Longrightarrow> within (reference_expr \<pi> cols e refs) (extract_expr \<pi> cols' e deps)"
    and "within refs deps \<Longrightarrow> within (reference_stmt \<pi> cols s refs) (extract_stmt \<pi> cols' s deps)"
  using assms
proof (induction \<pi> cols e refs and \<pi> cols s refs arbitrary: deps and deps rule: reference_expr_reference_stmt.induct)
  case (1 \<pi> cols name refs)
  then show ?case by (auto simp: reference_expr.simps extract_expr.simps within_def)
next
  case (7 \<pi> cols condition then_branch else_branch refs)
  have "within (fold (reference_stmt \<pi> cols) then_branch (reference_expr \<pi> cols condition refs))
     (fold (extract_stmt \<pi> cols') then_branch (extract_expr \<pi> cols' condition deps))"
    using 7 by (intro within_fold) auto
  with 7(3,5) show ?case
    by (cases else_branch) (auto simp: reference_expr.simps extract_expr.simps Let_def intro!: within_fold)
next
  case (14 \<pi> cols ty len filler dims refs)
  let ?r1 = "case len of None \<Rightarrow> refs | Some e \<Rightarrow> reference_expr \<pi> cols e refs"
  let ?d1 = "case len of None \<Rightarrow> deps | Some e \<Rightarrow> extract_expr \<pi> cols' e deps"
  have w1: "within ?r1 ?d1" using 14(1,4,5) by (cases len) auto
  have "within (case filler of None \<Rightarrow> ?r1 | Some e \<Rightarrow> reference_expr \<pi> cols e ?r1)
     (case filler of None \<Rightarrow> ?d1 | Some e \<Rightarrow> extract_expr \<pi> cols' e ?d1)"
    using 14(2) [OF refl _ w1] 14(5) w1 by (cases filler) auto
  then show ?case
    using 14(3) [OF refl refl] 14(5) by (auto simp: reference_expr.simps extract_expr.simps Let_def intro!: within_fold)
next
  case (20 \<pi> cols v ty refs)
  then show ?case 
    using within_extends [OF _ extract_extends(1)] by (simp add: reference_expr.simps extract_expr.simps)
qed (auto simp: reference_expr.simps extract_expr.simps reference_stmt.simps extract_stmt.simps Let_def 
   split: option.splits prod.splits const_value.splits intro!: within_fold)


text \<open>Both graphs have the same columns, and the one of the analyser reads less.\<close>

definition reads_less :: "column_dependency \<Rightarrow> column_dependency \<Rightarrow> bool" where
  "reads_less a b \<longleftrightarrow> within (depends_on a) (depends_on b)"

definition graph_within :: "(string, column_dependency) hmap \<Rightarrow> (string, column_dependency) hmap \<Rightarrow> bool" where
  "graph_within m m' \<longleftrightarrow> hm_wf m \<and> (\<forall>c. rel_option reads_less (map_of m c) (map_of m' c))"

lemma graph_within_fold:
  assumes "set names \<subseteq> set names'" and "graph_within m m'"
  shows "graph_within
     (fold (\<lambda>col m. case computed_expression col of
            Some e \<Rightarrow>
              if is_computed col then
                AList.update (col_name col)
                  \<lparr>cd_column = col_name col, depends_on = extract_column_references \<pi> names e, cd_expression = e\<rparr> m
              else m
          | None \<Rightarrow> m) cols m)
     (analyze_columns \<pi> names' cols m')"
  using assms(2)
proof (induction cols arbitrary: m m')
  case (Cons col cols)
  have "within (extract_column_references \<pi> names e) (extract_column_dependencies \<pi> names' e)" for e
    unfolding extract_column_references_def extract_column_dependencies_def
    by (rule references_within(1) [OF assms(1)]) (simp add: within_def)
  with Cons.prems have "graph_within
     (case computed_expression col of
        Some e \<Rightarrow>
          if is_computed col then
            AList.update (col_name col)
              \<lparr>cd_column = col_name col, depends_on = extract_column_references \<pi> names e, cd_expression = e\<rparr> m
          else m
      | None \<Rightarrow> m)
     (if is_computed col then
        (case computed_expression col of
           Some e \<Rightarrow>
             AList.update (col_name col)
               \<lparr>cd_column = col_name col, depends_on = extract_column_dependencies \<pi> names' e, cd_expression = e\<rparr> m'
         | None \<Rightarrow> m')
      else m')"
    by (auto simp: graph_within_def reads_less_def map_of_update split: option.splits)
  from Cons.IH [OF this] show ?case by simp
qed simp

lemma column_names_of: "set (column_names td) = col_name ` set (columns td)"
proof -
  have "set (fold List.insert xs ys) = set xs \<union> set ys" for xs ys :: "string list"
    by (induction xs arbitrary: ys) auto
  then show ?thesis by (simp add: column_names_def)
qed

lemma reference_graph_within:
  "graph_within (dependencies (reference_graph \<pi> td)) (dependencies (unordered_graph \<pi> td))"
proof -
  have "graph_within [] []" by (simp add: graph_within_def)
  from graph_within_fold [OF _ this, of "remdups (map col_name (columns td))" "column_names td" \<pi> "columns td"]
  show ?thesis by (simp add: reference_graph_def unordered_graph_def Let_def column_names_of)
qed

lemma graph_withinD:
  assumes "graph_within m m'"
  shows "map_of m c = Some a \<Longrightarrow> \<exists>b. map_of m' c = Some b \<and> distinct (depends_on a) \<and> set (depends_on a) \<subseteq> set (depends_on b)"
    and "map_of m c = None \<longleftrightarrow> map_of m' c = None"
proof -
  from assms have "rel_option reads_less (map_of m c) (map_of m' c)" by (simp add: graph_within_def)
  then show "map_of m c = Some a \<Longrightarrow> \<exists>b. map_of m' c = Some b \<and> distinct (depends_on a) \<and> set (depends_on a) \<subseteq> set (depends_on b)"
    and "map_of m c = None \<longleftrightarrow> map_of m' c = None"
    by (auto elim!: option.rel_cases simp: reads_less_def within_def)
qed

lemma graph_within_keys: "graph_within m m' \<Longrightarrow> set (hm_keys m) = set (hm_keys m')"
  using graph_withinD(2) [of m m'] by (auto simp: hm_keys_def map_of_eq_None_iff)

lemma reference_graph_wf: "dependency_graph_wf (reference_graph \<pi> td)"
proof -
  have wf: "hm_wf (dependencies (reference_graph \<pi> td))"
    using reference_graph_within by (simp add: graph_within_def)
  have "distinct (depends_on deps)" if "(c, deps) \<in> set (dependencies (reference_graph \<pi> td))" for c deps
    using graph_withinD(1) [OF reference_graph_within hm_wf_map_of [OF wf that]] by blast
  with wf show ?thesis by (auto simp: dependency_graph_wf_def)
qed

lemma reference_reads:
  "computed_reads (reference_graph \<pi> td) c \<subseteq> computed_reads (unordered_graph \<pi> td) c"
proof (cases "map_of (dependencies (reference_graph \<pi> td)) c")
  case (Some a)
  with graph_withinD(1) [OF reference_graph_within Some] graph_within_keys [OF reference_graph_within [of \<pi> td]]
  show ?thesis by (auto simp: computed_reads_def)
qed (simp add: computed_reads_def)

lemma compile_time_order_result:
  assumes "is_hash_order \<pi>"
  shows "\<exists>res. compute_column_evaluation_order \<pi> td = Inr res \<and>
     (is_ok res \<longleftrightarrow> acyclic {(d, c). d \<in> computed_reads (reference_graph \<pi> td) c}) \<and>
     (\<forall>order. res = Inr order \<longrightarrow> distinct order \<and> set order = set (hm_keys (dependencies (reference_graph \<pi> td))) \<and>
        (\<forall>c \<in> set order. \<forall>d \<in> computed_reads (reference_graph \<pi> td) c. index_of order d < index_of order c))"
proof -
  let ?g = "reference_graph \<pi> td"
  from topological_sort_result [OF assms reference_graph_wf [of \<pi> td]] obtain res where
    res: "topological_sort \<pi> ?g = Some res"
    "is_ok res \<longleftrightarrow> acyclic (read_edges (set (hm_keys (dependencies ?g))) (computed_reads ?g))"
    "case res of
        Inr order \<Rightarrow> distinct order \<and> set order = set (hm_keys (dependencies ?g)) \<and> placed_in_order (computed_reads ?g) order
      | Inl e \<Rightarrow> \<exists>stuck. e = CircularDependency stuck \<and> stuck \<noteq> [] \<and> set stuck \<subseteq> set (hm_keys (dependencies ?g)) \<and>
          (\<forall>c \<in> set stuck. computed_reads ?g c \<inter> set stuck \<noteq> {})"
    by blast
  have "c \<in> set (hm_keys (dependencies ?g))" if "d \<in> computed_reads ?g c" for c d
    using that by (cases "map_of (dependencies ?g) c") (auto simp: computed_reads_def present_key)
  then have "read_edges (set (hm_keys (dependencies ?g))) (computed_reads ?g) = {(d, c). d \<in> computed_reads ?g c}"
    by (auto simp: read_edges_def)
  with res show ?thesis
    by (cases res) (auto simp: compute_column_evaluation_order_def placed_before(1))
qed

lemma runtime_order_implies_compile_time_order:
  assumes "is_hash_order \<pi>" and "build_from_table \<pi> td = Some (Inr g)"
  shows "\<exists>order. compute_column_evaluation_order \<pi> td = Inr (Inr order)"
proof -
  from evaluation_order_result [OF assms(1), of td] assms(2)
  have "acyclic {(d, c). d \<in> computed_reads (unordered_graph \<pi> td) c}" by auto
  then have "acyclic {(d, c). d \<in> computed_reads (reference_graph \<pi> td) c}"
    by (rule acyclic_subset) (use reference_reads in auto)
  with compile_time_order_result [OF assms(1), of td] show ?thesis by (auto simp: is_ok_iff)
qed

section \<open>Numeric promotion\<close>

text \<open>The values of the integer types, least and greatest.\<close>

definition int_bounds :: "(string \<times> int \<times> int) list" where
  "int_bounds =
     [(''u8'', 0, 255), (''u16'', 0, 65535), (''u32'', 0, 4294967295), (''u64'', 0, 18446744073709551615),
      (''i8'', -128, 127), (''i16'', -32768, 32767), (''i32'', -2147483648, 2147483647),
      (''i64'', -9223372036854775808, 9223372036854775807)]"

definition type_values :: "string \<Rightarrow> int set" where
  "type_values n = (case map_of int_bounds n of Some (lo, hi) \<Rightarrow> {lo..hi} | None \<Rightarrow> {})"

definition integer_types :: "string list" where
  "integer_types = map fst int_bounds"

definition float_types :: "string list" where
  "float_types = [''f32'', ''f64'']"

text \<open>What the promoted type \<open>p\<close> of two integer types is, by the bounds of the three.\<close>

definition promotes_to :: "int \<times> int \<Rightarrow> int \<times> int \<Rightarrow> int \<times> int \<Rightarrow> bool" where
  "promotes_to a b p =
     (case (a, b, p) of ((la, ha), (lb, hb), (lp, hp)) \<Rightarrow>
        if lb \<le> la \<and> ha \<le> hb then p = b
        else if la \<le> lb \<and> hb \<le> ha then p = a
        else lp < 0 \<and> hp - lp = max (ha - la) (hb - lb) \<and>
          \<not> (lp \<le> min la lb \<and> max ha hb \<le> hp) \<and>
          (la < 0 \<longrightarrow> lp \<le> la \<and> ha \<le> hp) \<and> (lb < 0 \<longrightarrow> lp \<le> lb \<and> hb \<le> hp))"

lemma integer_promotion:
  "list_all (\<lambda>(a, x). list_all (\<lambda>(b, y). list_ex (\<lambda>(p, z).
     promote_numeric_names a b = ident p \<and> promotes_to x y z) int_bounds) int_bounds) int_bounds"
  by code_simp

lemma float_promotion:
  "list_all (\<lambda>a. list_all (\<lambda>b. a \<in> set float_types \<or> b \<in> set float_types \<longrightarrow>
     promote_numeric_names a b = ident (if ''f64'' \<in> {a, b} then ''f64'' else ''f32''))
     (integer_types @ float_types)) (integer_types @ float_types)"
  by code_simp

lemma int_bounds_proper: "list_all (\<lambda>(_, lo, hi). lo \<le> hi) int_bounds \<and> distinct (map fst int_bounds)"
  by code_simp

lemma type_valuesI: "(n, lo, hi) \<in> set int_bounds \<Longrightarrow> type_values n = {lo..hi} \<and> lo \<le> hi"
  using int_bounds_proper by (force simp: type_values_def list_all_iff)

lemma promoted_integer:
  assumes "a \<in> set integer_types" and "b \<in> set integer_types"
  shows "\<exists>p \<in> set integer_types. promote_numeric_names a b = ident p \<and>
    (if type_values a \<subseteq> type_values b then type_values p = type_values b
     else if type_values b \<subseteq> type_values a then type_values p = type_values a
     else (\<exists>v \<in> type_values p. v < 0) \<and> card (type_values p) = max (card (type_values a)) (card (type_values b)) \<and>
       \<not> type_values a \<union> type_values b \<subseteq> type_values p \<and>
       (\<forall>c \<in> {a, b}. (\<exists>v \<in> type_values c. v < 0) \<longrightarrow> type_values c \<subseteq> type_values p))"
proof -
  from assms obtain la ha lb hb where ab: "(a, la, ha) \<in> set int_bounds" "(b, lb, hb) \<in> set int_bounds"
    by (auto simp: integer_types_def)
  with integer_promotion obtain p lp hp where p: "(p, lp, hp) \<in> set int_bounds" "promote_numeric_names a b = ident p"
    and to: "promotes_to (la, ha) (lb, hb) (lp, hp)"
    by (fastforce simp: list_all_iff list_ex_iff)
  from type_valuesI [OF ab(1)] type_valuesI [OF ab(2)] type_valuesI [OF p(1)] have
    v: "type_values a = {la..ha}" "type_values b = {lb..hb}" "type_values p = {lp..hp}" and
    le: "la \<le> ha" "lb \<le> hb" "lp \<le> hp" by blast+
  have neg: "(\<exists>v \<in> {l..h}. v < 0) \<longleftrightarrow> l < 0" if "l \<le> h" for l h :: int using that by force
  have "p \<in> set integer_types" using p(1) by (force simp: integer_types_def)
  with p(2) to le show ?thesis
    by (intro bexI [of _ p]) (auto simp: v neg promotes_to_def max_def split: if_splits)
qed

lemma numeric_type_names: "set numeric_promotion_order = set (integer_types @ float_types)"
  by (auto simp: numeric_promotion_order_def integer_types_def float_types_def int_bounds_def)

lemma numeric_compatible:
  "a \<in> set numeric_promotion_order \<Longrightarrow> b \<in> set numeric_promotion_order \<Longrightarrow> types_compatible (ident a) (ident b)"
  by (simp add: is_numeric_identifier_name_def)

lemma numeric_names:
  assumes "a \<in> set numeric_promotion_order"
  shows "is_numeric_type (ident a)" "numeric_type_name (ident a) = Some a" "\<not> is_string_type (ident a)"
  using assms
  by (auto simp: is_numeric_type_def numeric_type_name_def is_numeric_identifier_name_def is_string_type_def numeric_promotion_order_def)

lemma numeric_arithmetic:
  assumes "a \<in> set numeric_promotion_order" and "b \<in> set numeric_promotion_order" and "op \<in> {Add, Sub, Mul, Div}"
  shows "infer_binary_op_type (ident a) op (ident b) = Inr (promote_numeric_names a b)"
  using assms numeric_compatible [OF assms(1,2)] numeric_names [OF assms(1)] numeric_names [OF assms(2)]
  by (auto simp: infer_binary_op_type_def arithmetic_type_def promote_numeric_types_def)

section \<open>Implementations of traits\<close>

lemma first_error_ok: "first_error rs = Inr () \<longleftrightarrow> (\<forall>r \<in> set rs. is_ok r)"
  by (induction rs) (auto split: sum.splits)

lemma check_signature_ok:
  "check_signature tys assoc self_type = Inr () \<longleftrightarrow> (\<forall>(a, b) \<in> set tys. types_match_with_assoc_and_self a b assoc self_type)"
  by (induction tys assoc self_type rule: check_signature.induct) auto

definition signature_matches :: "(string, type) hmap \<Rightarrow> type \<Rightarrow> type list \<Rightarrow> type \<Rightarrow> function_signature \<Rightarrow> bool" where
  "signature_matches assoc self_type ps r sig \<longleftrightarrow>
     length (fs_parameters sig) = length ps \<and>
     list_all2 (\<lambda>a b. types_match_with_assoc_and_self a b assoc self_type) ps (fs_parameters sig) \<and>
     types_match_with_assoc_and_self r (fs_return_type sig) assoc self_type"

lemma check_method_ok:
  "check_trait_method tn tname provided self_type (mname, TFunction ps r) = Inr () \<longleftrightarrow>
     (\<exists>sig. map_of (fst provided) mname = Some sig \<and> signature_matches (snd provided) self_type ps r sig)"
  by (auto simp: check_trait_method_def signature_matches_def check_signature_ok list_all2_iff split: option.splits)

text \<open>
  What a block gives, item by item: a constant that is a type, and a function, written as a method or
  as a constant. Of two items with one name the later counts.
\<close>

fun type_item :: "statement \<Rightarrow> (string \<times> type) option" where
  "type_item (SConstDecl _ name _ _ (CType ty) _) = Some (name, ty)"
| "type_item _ = None"

fun method_item :: "statement \<Rightarrow> (string \<times> function_signature) option" where
  "method_item (SConstDecl _ name _ _ (CExpression (EFunction _ _ ps ret _ _)) _) = Some (name, declared_signature ps ret)"
| "method_item (SImplMethod name _ ps ret _) = Some (name, declared_signature ps ret)"
| "method_item _ = None"

definition given_types :: "statement list \<Rightarrow> string \<Rightarrow> type option" where
  "given_types items = map_of (rev (List.map_filter type_item items))"

definition given_methods :: "statement list \<Rightarrow> string \<Rightarrow> function_signature option" where
  "given_methods items = map_of (rev (List.map_filter method_item items))"

definition provide_item :: "statement \<Rightarrow> provided \<Rightarrow> provided" where
  "provide_item item provided =
     ((case method_item item of Some (n, sig) \<Rightarrow> AList.update n sig (fst provided) | None \<Rightarrow> fst provided),
      (case type_item item of Some (n, ty) \<Rightarrow> AList.update n ty (snd provided) | None \<Rightarrow> snd provided))"

lemma provide_items:
  "map_of (fst (fold provide_item items provided)) = map_of (fst provided) ++ given_methods items \<and>
   map_of (snd (fold provide_item items provided)) = map_of (snd provided) ++ given_types items"
proof (induction items arbitrary: provided)
  case (Cons item items)
  have upd: "map_of (AList.update k v m) = (map_of m)(k \<mapsto> v)" for k :: string and v :: 'v and m
    by (rule update_conv')
  note IH = Cons.IH [of "provide_item item provided"]
  have methods: "given_methods (item # items) =
      (case method_item item of Some (n, sig) \<Rightarrow> [n \<mapsto> sig] | None \<Rightarrow> Map.empty) ++ given_methods items"
    by (cases "method_item item") (auto simp: given_methods_def map_filter_simps)
  have types: "given_types (item # items) =
      (case type_item item of Some (n, ty) \<Rightarrow> [n \<mapsto> ty] | None \<Rightarrow> Map.empty) ++ given_types items"
    by (cases "type_item item") (auto simp: given_types_def map_filter_simps)
  have "map_of (fst (provide_item item provided)) = map_of (fst provided) ++
      (case method_item item of Some (n, sig) \<Rightarrow> [n \<mapsto> sig] | None \<Rightarrow> Map.empty)"
    by (cases "method_item item") (auto simp: provide_item_def upd)
  moreover have "map_of (snd (provide_item item provided)) = map_of (snd provided) ++
      (case type_item item of Some (n, ty) \<Rightarrow> [n \<mapsto> ty] | None \<Rightarrow> Map.empty)"
    by (cases "type_item item") (auto simp: provide_item_def upd)
  ultimately show ?case using IH by (simp add: methods types map_add_assoc)
qed (simp add: given_methods_def given_types_def map_filter_simps)

lemma cfold_fold:
  assumes "\<And>x s c t c'. f x s c = (Done t, c') \<Longrightarrow> t = g x s" and "cfold f xs s c = (Done t, c')"
  shows "t = fold g xs s"
  using assms(2)
proof (induction xs arbitrary: s c)
  case (Cons x xs)
  then obtain s1 c1 where "f x s c = (Done s1, c1)" "cfold f xs s1 c1 = (Done t, c')" by (auto simp: cbind_Done)
  with assms(1) [OF this(1)] Cons.IH [OF this(2)] show ?case by simp
qed simp

lemma impl_item:
  assumes "(case item of
        SConstDecl _ name _ _ v _ \<Rightarrow>
          (case v of
             CType ty \<Rightarrow> creturn (fst provided, AList.update name ty (snd provided))
           | CExpression e \<Rightarrow>
               (case e of
                  EFunction _ _ ps ret _ _ \<Rightarrow>
                    creturn (AList.update name (declared_signature ps ret) (fst provided), snd provided)
                | _ \<Rightarrow> creturn provided)
           | CTableDef td \<Rightarrow>
               cbind (validate_table_definition env (infer_expression_type env) td) (\<lambda>_. creturn provided)
           | CSystemDef sd \<Rightarrow>
               cbind (validate_system_definition (infer_expression_type env) sd) (\<lambda>_. creturn provided)
           | _ \<Rightarrow> creturn provided)
      | SImplMethod name _ ps ret _ \<Rightarrow>
          creturn (AList.update name (declared_signature ps ret) (fst provided), snd provided)
      | _ \<Rightarrow> creturn provided) c = (Done t, c')"
  shows "t = provide_item item provided"
proof (cases item)
  case (SConstDecl annotations name tps ty v doc)
  with assms show ?thesis
  proof (cases v)
    case (CExpression e)
    with assms SConstDecl show ?thesis by (cases e) (auto simp: provide_item_def)
  qed (auto simp: provide_item_def cbind_Done)
qed (use assms in \<open>auto simp: provide_item_def\<close>)

lemma impl_items:
  assumes "cfold (\<lambda>item provided.
      case item of
        SConstDecl _ name _ _ v _ \<Rightarrow>
          (case v of
             CType ty \<Rightarrow> creturn (fst provided, AList.update name ty (snd provided))
           | CExpression e \<Rightarrow>
               (case e of
                  EFunction _ _ ps ret _ _ \<Rightarrow>
                    creturn (AList.update name (declared_signature ps ret) (fst provided), snd provided)
                | _ \<Rightarrow> creturn provided)
           | CTableDef td \<Rightarrow>
               cbind (validate_table_definition env (infer_expression_type env) td) (\<lambda>_. creturn provided)
           | CSystemDef sd \<Rightarrow>
               cbind (validate_system_definition (infer_expression_type env) sd) (\<lambda>_. creturn provided)
           | _ \<Rightarrow> creturn provided)
      | SImplMethod name _ ps ret _ \<Rightarrow>
          creturn (AList.update name (declared_signature ps ret) (fst provided), snd provided)
      | _ \<Rightarrow> creturn provided) items provided c = (Done t, c')"
  shows "t = fold provide_item items provided"
  using assms by (rule cfold_fold [rotated]) (rule impl_item)

lemma accepted_impl_result:
  assumes "analyze_statement env (SImplBlock tps (Some tn) tname self_type methods) c = (Done (), c')"
    and "is_hash_order (env_order env)"
  shows "\<exists>info impls impl. map_of (sc_traits c) tn = Some info \<and>
     map_of (sc_trait_impls c') tn = Some impls \<and> map_of impls tname = Some impl \<and>
     map_of (ii_associated_types impl) = given_types methods \<and>
     (\<forall>a \<in> set (ti_associated_types info). given_types methods a \<noteq> None) \<and>
     (\<forall>m. trait_method c' tn tname m = given_methods methods m) \<and>
     (\<forall>m ps r. map_of (ti_methods info) m = Some (TFunction ps r) \<longrightarrow>
        (\<exists>sig. given_methods methods m = Some sig \<and> signature_matches (ii_associated_types impl) self_type ps r sig))"
proof -
  from assms(1) obtain info provided c0 c1 where info: "map_of (sc_traits c) tn = Some info"
    and ok: "check_trait_impl (env_order env) tn tname info provided self_type = Inr ()"
    and c': "c' = record_trait_impl tn tname provided c1"
    and "provided = fold provide_item methods ([], [])"
    by (auto simp: analyze_statement.simps cbind_Done split: option.splits dest!: impl_items)
  let ?impl = "\<lparr>ii_associated_types = snd provided, ii_methods = fst provided\<rparr>"
  from provide_items [of methods "([], [])"] have given: "map_of (fst provided) = given_methods methods"
    "map_of (snd provided) = given_types methods" by (simp_all add: \<open>provided = _\<close>)
  have m: "trait_method c' tn tname m = given_methods methods m" for m
    by (simp add: c' trait_method_def record_trait_impl_def hash_simps given)
  have "is_ok (check_trait_method tn tname provided self_type (m, TFunction ps r))"
    if "map_of (ti_methods info) m = Some (TFunction ps r)" for m ps r
    using ok that hm_iter_mem [OF assms(2)] by (force simp: check_trait_impl_def first_error_ok)
  then have methods: "\<exists>sig. given_methods methods m = Some sig \<and> signature_matches (snd provided) self_type ps r sig"
    if "map_of (ti_methods info) m = Some (TFunction ps r)" for m ps r
    using that check_method_ok given(1) by (fastforce simp: is_ok_iff)
  have gives: "is_ok (if hm_contains (snd provided) a then Inr ()
     else Inl (UndefinedVariable (''impl '' @ tn @ '' for '' @ tname @ '' missing associated type '' @ a)))"
    if "a \<in> set (ti_associated_types info)" for a
    using ok that unfolding check_trait_impl_def first_error_ok set_append set_map by blast
  have types: "\<forall>a \<in> set (ti_associated_types info). given_types methods a \<noteq> None"
  proof
    fix a
    assume "a \<in> set (ti_associated_types info)"
    from gives [OF this] show "given_types methods a \<noteq> None"
      by (cases "given_types methods a") (simp_all add: hm_contains_def given)
  qed
  have "\<exists>impls. map_of (sc_trait_impls c') tn = Some impls \<and> map_of impls tname = Some ?impl"
    by (simp add: c' record_trait_impl_def hash_simps)
  then obtain impls where "map_of (sc_trait_impls c') tn = Some impls" "map_of impls tname = Some ?impl" by blast
  with info types m methods given(2) show ?thesis
    by (intro exI [of _ info] exI [of _ impls] exI [of _ ?impl]) simp
qed

section \<open>Properties\<close>

text \<open>Small programs, and the environment the examples are analysed in.\<close>

definition demo_env :: check_env where
  "demo_env = \<lparr>env_order = rev, env_string = (\<lambda>s. s), env_type = (\<lambda>_. ''''), env_expression = (\<lambda>_. '''')\<rparr>"

fun accepted :: "'a analysis \<Rightarrow> bool" where
  "accepted (Done _) = True" | "accepted _ = False"

definition int_literal :: expression where
  "int_literal = ELiteral integer_zero"

definition bool_from_string :: statement where
  "bool_from_string = SVariableDecl (BIdentifier ''x'') (Some bool_type) (ELiteral (LString ''s''))"

definition function_decl :: "string \<Rightarrow> type \<Rightarrow> statement list \<Rightarrow> statement" where
  "function_decl name ret body = SConstDecl [] name [] None (CExpression (EFunction False [] [] (Some ret) (FBlock body) [])) None"

definition type_decl :: "string \<Rightarrow> type \<Rightarrow> statement" where
  "type_decl name ty = SConstDecl [] name [] None (CType ty) None"

definition shape_trait :: "statement list" where
  "shape_trait =
     [type_decl ''Area'' (TTrait [''Unit''] [(''area'', TFunction [ident ''self''] (ident ''f64''))]),
      type_decl ''Square'' (TStruct [(''side'', ident ''f64'')])]"

definition shape_methods :: "statement list" where
  "shape_methods =
     [SConstDecl [] ''Unit'' [] None (CType (ident ''f64'')) None,
      SImplMethod ''area'' [] [Parameter ''this'' (Some (ident ''Square'')) None] (Some (ident ''f64'')) (FBlock [])]"

definition parts_table :: tabledef where
  "parts_table = TableDef ''Parts''
     [TableColumn ''price'' (ident ''f64'') [TableAnnotation ''primary'' []] None False None,
      TableColumn ''square'' TNone [] None True (Some (EBinaryOp (EIdentifier ''price'') Mul (EIdentifier ''price'')))]"

definition orders_table :: tabledef where
  "orders_table = TableDef ''Orders''
     [TableColumn ''price'' (ident ''f64'') [] None False None,
      TableColumn ''gross'' TNone [] None True (Some (EBinaryOp (EIdentifier ''net'') Add (EIdentifier ''net''))),
      TableColumn ''net'' TNone [] None True (Some (EBinaryOp (EIdentifier ''price'') Mul (EIdentifier ''price'')))]"

text \<open>
  C37: Whatever the outcome of analysing an expression or a statement, every scope outside the
  innermost one is left as it was, no scope is closed that was not opened, the loop depth does not
  fall and the path of the current module is not shortened.
\<close>

theorem analysis_grows_context:
  "grows c (snd (infer_expression_type env e c)) \<and> grows c (snd (analyze_statement env s c))"
  using growing.keeps_analysis [of env] by (simp add: keeps_def)

text \<open>
  C34: When a program is accepted, each table definition in the resulting context has distinct
  column names, as the table runtime requires, at most one primary key, an expression for every
  computed column, and only known annotations.
\<close>

theorem accepted_tables_well_formed:
  assumes "analyze_program env prog = Done c" and "map_of (sc_tables c) name = Some td"
  shows "schema_ok td \<and> length (primary_annotations td) \<le> 1 \<and>
     (\<forall>col \<in> set (columns td).
        (is_computed col \<longrightarrow> computed_expression col \<noteq> None) \<and> ann_name ` set (col_annotations col) \<subseteq> known_annotations)"
  using program_tables_result [OF assms(1)] assms(2)
  by (auto simp: tables_well_formed_def table_well_formed_def)

lemma parts_accepted:
  "\<exists>c td. analyze_program demo_env [SConstDecl [] ''Parts'' [] None (CTableDef parts_table) None] = Done c \<and>
     map_of (sc_tables c) ''Parts'' = Some td \<and> map column_type (columns td) = [ident ''f64'', ident ''f64'']"
proof -
  have "case analyze_program demo_env [SConstDecl [] ''Parts'' [] None (CTableDef parts_table) None] of
      Done c \<Rightarrow> (case map_of (sc_tables c) ''Parts'' of
          Some td \<Rightarrow> map column_type (columns td) = [ident ''f64'', ident ''f64''] | None \<Rightarrow> False)
    | _ \<Rightarrow> False" by code_simp
  then show ?thesis by (simp split: analysis.splits option.splits)
qed

theorem accepted_tables_well_formed_witness:
  "\<exists>c td. analyze_program demo_env [SConstDecl [] ''Parts'' [] None (CTableDef parts_table) None] = Done c \<and>
     map_of (sc_tables c) ''Parts'' = Some td \<and> schema_ok td \<and> map column_type (columns td) = [ident ''f64'', ident ''f64'']"
proof -
  obtain c td where run: "analyze_program demo_env [SConstDecl [] ''Parts'' [] None (CTableDef parts_table) None] = Done c"
    and td: "map_of (sc_tables c) ''Parts'' = Some td" "map column_type (columns td) = [ident ''f64'', ident ''f64'']"
    using parts_accepted by (elim exE conjE)
  from accepted_tables_well_formed [OF run td(1)] have "schema_ok td" by (rule conjunct1)
  with run td show ?thesis by (intro exI conjI)
qed

text \<open>
  C35: An accepted implementation block of a trait provides it. The block gives each associated type
  of the trait, and what is recorded for the type are the types that the block gives. The lookup that
  method calls use finds the functions of the block, and each method of the trait is one of them, with
  the number of parameters, the parameter types and the result type of the trait after the recorded
  associated types and \<open>self\<close> are replaced.
\<close>

theorem accepted_impl_provides_trait:
  assumes "analyze_statement env (SImplBlock tps (Some tn) tname self_type methods) c = (Done (), c')"
    and "is_hash_order (env_order env)"
  shows "\<exists>info impls impl. map_of (sc_traits c) tn = Some info \<and>
     map_of (sc_trait_impls c') tn = Some impls \<and> map_of impls tname = Some impl \<and>
     map_of (ii_associated_types impl) = given_types methods \<and>
     (\<forall>a \<in> set (ti_associated_types info). given_types methods a \<noteq> None) \<and>
     (\<forall>m. trait_method c' tn tname m = given_methods methods m) \<and>
     (\<forall>m ps r. map_of (ti_methods info) m = Some (TFunction ps r) \<longrightarrow>
        (\<exists>sig. given_methods methods m = Some sig \<and> signature_matches (ii_associated_types impl) self_type ps r sig))"
  using assms by (rule accepted_impl_result)

lemma shape_impl_accepted:
  "\<exists>c c'. analyze_program demo_env shape_trait = Done c \<and>
     analyze_statement demo_env (SImplBlock [] (Some ''Area'') ''Square'' (ident ''Square'') shape_methods) c = (Done (), c') \<and>
     map_of (sc_traits c) ''Area'' = Some \<lparr>ti_associated_types = [''Unit''], ti_methods = [(''area'', TFunction [ident ''self''] (ident ''f64''))]\<rparr>"
proof -
  have "case analyze_program demo_env shape_trait of
      Done c \<Rightarrow> fst (analyze_statement demo_env (SImplBlock [] (Some ''Area'') ''Square'' (ident ''Square'') shape_methods) c) = Done () \<and>
        map_of (sc_traits c) ''Area'' = Some \<lparr>ti_associated_types = [''Unit''], ti_methods = [(''area'', TFunction [ident ''self''] (ident ''f64''))]\<rparr>
    | _ \<Rightarrow> False" by code_simp
  then show ?thesis by (auto split: analysis.splits) (metis prod.collapse)
qed

theorem accepted_impl_provides_trait_witness:
  "\<exists>c c' sig impls impl. analyze_statement demo_env (SImplBlock [] (Some ''Area'') ''Square'' (ident ''Square'') shape_methods) c = (Done (), c') \<and>
     trait_method c' ''Area'' ''Square'' ''area'' = Some sig \<and> length (fs_parameters sig) = 1 \<and>
     map_of (sc_trait_impls c') ''Area'' = Some impls \<and> map_of impls ''Square'' = Some impl \<and>
     map_of (ii_associated_types impl) ''Unit'' = Some (ident ''f64'')"
proof -
  obtain c c' where run: "analyze_statement demo_env (SImplBlock [] (Some ''Area'') ''Square'' (ident ''Square'') shape_methods) c = (Done (), c')"
    and info: "map_of (sc_traits c) ''Area'' = Some \<lparr>ti_associated_types = [''Unit''], ti_methods = [(''area'', TFunction [ident ''self''] (ident ''f64''))]\<rparr>"
    using shape_impl_accepted by blast
  have "is_hash_order (env_order demo_env)" by (simp add: demo_env_def hash_order_rev)
  from accepted_impl_provides_trait [OF run this] obtain tr impls impl where tr: "map_of (sc_traits c) ''Area'' = Some tr"
    and impl: "map_of (sc_trait_impls c') ''Area'' = Some impls" "map_of impls ''Square'' = Some impl"
      "map_of (ii_associated_types impl) = given_types shape_methods"
    and found: "\<And>m. trait_method c' ''Area'' ''Square'' m = given_methods shape_methods m"
    and methods: "\<And>m ps r. map_of (ti_methods tr) m = Some (TFunction ps r) \<Longrightarrow>
      \<exists>sig. given_methods shape_methods m = Some sig \<and> signature_matches (ii_associated_types impl) (ident ''Square'') ps r sig" by blast
  have "\<exists>sig. given_methods shape_methods ''area'' = Some sig \<and>
     signature_matches (ii_associated_types impl) (ident ''Square'') [ident ''self''] (ident ''f64'') sig"
    by (rule methods) (use tr info in auto)
  then obtain sig where sig: "trait_method c' ''Area'' ''Square'' ''area'' = Some sig" "length (fs_parameters sig) = 1"
    by (auto simp: signature_matches_def found)
  have "given_types shape_methods ''Unit'' = Some (ident ''f64'')" by code_simp
  then have "map_of (ii_associated_types impl) ''Unit'' = Some (ident ''f64'')" by (simp only: impl(3))
  with run sig impl(1,2) show ?thesis by (intro exI conjI)
qed

text \<open>
  C36: The analyser never panics on the order of computed columns, accepts it exactly when the
  columns do not read each other in a cycle, as far as it sees references, and then orders every
  computed column after those it reads. A table whose dependency graph the engine builds at run time
  is always accepted.
\<close>

theorem compile_time_order_correct:
  assumes "is_hash_order \<pi>"
  shows "\<exists>res. compute_column_evaluation_order \<pi> td = Inr res \<and>
     (is_ok res \<longleftrightarrow> acyclic {(d, c). d \<in> computed_reads (reference_graph \<pi> td) c}) \<and>
     (\<forall>order. res = Inr order \<longrightarrow> distinct order \<and> set order = set (hm_keys (dependencies (reference_graph \<pi> td))) \<and>
        (\<forall>c \<in> set order. \<forall>d \<in> computed_reads (reference_graph \<pi> td) c. index_of order d < index_of order c)) \<and>
     (\<forall>g. build_from_table \<pi> td = Some (Inr g) \<longrightarrow> is_ok res)"
  using compile_time_order_result [OF assms, of td] runtime_order_implies_compile_time_order [OF assms, of td]
  by (fastforce simp: is_ok_iff)

theorem compile_time_order_correct_witness:
  "\<exists>order. compute_column_evaluation_order rev orders_table = Inr (Inr order) \<and>
     set order = {''gross'', ''net''} \<and> index_of order ''net'' < index_of order ''gross''"
proof -
  have "compute_column_evaluation_order rev orders_table = Inr (Inr [''net'', ''gross''])"
    "computed_reads (reference_graph rev orders_table) ''gross'' = {''net''}" by code_simp+
  with compile_time_order_correct [OF hash_order_rev, of orders_table] show ?thesis by fastforce
qed

text \<open>
  C38: \<open>+\<close>, \<open>-\<close>, \<open>*\<close> and \<open>/\<close> on two numeric types are accepted. Of two integer types of which one
  has all the values of the other, the result has the values of that one. Where neither has all the
  values of the other, which happens when an unsigned type meets a signed one that is not wider, the
  result is the signed type of the greater width: it has every value of the signed operand, and some
  values of the unsigned one are lost. With a float the result is a float, \<open>f64\<close> if one of the
  types is. (The remainder is not among these: on floats it is refused.)
\<close>

theorem arithmetic_type_exact:
  assumes "a \<in> set (integer_types @ float_types)" and "b \<in> set (integer_types @ float_types)"
    and "op \<in> {Add, Sub, Mul, Div}"
  shows "\<exists>p. infer_binary_op_type (ident a) op (ident b) = Inr (ident p) \<and>
    (if a \<in> set float_types \<or> b \<in> set float_types then p = (if ''f64'' \<in> {a, b} then ''f64'' else ''f32'')
     else p \<in> set integer_types \<and>
       (if type_values a \<subseteq> type_values b then type_values p = type_values b
        else if type_values b \<subseteq> type_values a then type_values p = type_values a
        else (\<exists>v \<in> type_values p. v < 0) \<and> card (type_values p) = max (card (type_values a)) (card (type_values b)) \<and>
          \<not> type_values a \<union> type_values b \<subseteq> type_values p \<and>
          (\<forall>c \<in> {a, b}. (\<exists>v \<in> type_values c. v < 0) \<longrightarrow> type_values c \<subseteq> type_values p)))"
proof -
  from assms have infer: "infer_binary_op_type (ident a) op (ident b) = Inr (promote_numeric_names a b)"
    by (intro numeric_arithmetic) (simp_all only: numeric_type_names)
  show ?thesis
  proof (cases "a \<in> set float_types \<or> b \<in> set float_types")
    case True
    with float_promotion assms(1,2) have
      "promote_numeric_names a b = ident (if ''f64'' \<in> {a, b} then ''f64'' else ''f32'')"
      unfolding list_all_iff by blast
    with infer True show ?thesis by (intro exI conjI) simp_all
  next
    case False
    with assms have "a \<in> set integer_types" "b \<in> set integer_types" by auto
    from promoted_integer [OF this] infer show ?thesis unfolding if_not_P [OF False] by fastforce
  qed
qed

text \<open>Signed and unsigned bytes: accepted, and the result has no value above 127.\<close>

theorem arithmetic_type_exact_witness:
  "\<exists>p. infer_binary_op_type (ident ''u8'') Add (ident ''i8'') = Inr (ident p) \<and> type_values ''i8'' \<subseteq> type_values p \<and>
     \<not> type_values ''u8'' \<subseteq> type_values p"
proof -
  have v: "type_values ''u8'' = {0..255}" "type_values ''i8'' = {-128..127}"
    by (simp_all add: type_values_def int_bounds_def)
  have names: "''u8'' \<in> set (integer_types @ float_types)" "''i8'' \<in> set (integer_types @ float_types)"
    "\<not> (''u8'' \<in> set float_types \<or> ''i8'' \<in> set float_types)"
    by (simp_all add: integer_types_def float_types_def int_bounds_def)
  have apart: "\<not> type_values ''u8'' \<subseteq> type_values ''i8''" "\<not> type_values ''i8'' \<subseteq> type_values ''u8''" by (simp_all add: v)
  have "-1 \<in> type_values ''i8''" by (simp add: v)
  then have "\<exists>v \<in> type_values ''i8''. v < 0" by (intro bexI [of _ "-1"]) simp_all
  moreover from arithmetic_type_exact [OF names(1,2), of Add, unfolded if_not_P [OF names(3)] if_not_P [OF apart(1)] if_not_P [OF apart(2)]]
  obtain p where p: "infer_binary_op_type (ident ''u8'') Add (ident ''i8'') = Inr (ident p)"
    "\<not> type_values ''u8'' \<union> type_values ''i8'' \<subseteq> type_values p"
    "\<forall>c \<in> {''u8'', ''i8''}. (\<exists>v \<in> type_values c. v < 0) \<longrightarrow> type_values c \<subseteq> type_values p" by blast
  ultimately have "type_values ''i8'' \<subseteq> type_values p" by blast
  with p(1,2) show ?thesis by (intro exI [of _ p] conjI) blast+
qed

section \<open>What the analysis misses\<close>

text \<open>
  A type mismatch ends only its statement, and the loop or function it occurred in is never left: a
  \<open>break\<close> or \<open>return\<close> after it is accepted anywhere.
\<close>

lemma break_after_type_error:
  "analyze_program demo_env [SBreak None] = Failed BreakOutsideLoop"
  "accepted (analyze_program demo_env [SExpression (ELoop [bool_from_string]), SBreak None])"
  by code_simp+

lemma return_after_type_error:
  "analyze_program demo_env [SReturn None] = Failed ReturnOutsideFunction"
  "accepted (analyze_program demo_env [function_decl ''f'' (ident ''i64'') [bool_from_string], SReturn None])"
  by code_simp+

text \<open>Errors in elements of vectors are dropped, and the bodies of \<open>if\<close> and of blocks are not analysed.\<close>

lemma unchecked_parts:
  "analyze_program demo_env [SExpression (EIdentifier ''nope'')] = Failed (UndefinedVariable ''nope'')"
  "accepted (analyze_program demo_env [SExpression (EVecLiteral [EIdentifier ''nope''])])"
  "accepted (analyze_program demo_env [SExpression (EIf (ELiteral (LBoolean True)) [SExpression (EIdentifier ''nope'')] None)])"
  "accepted (analyze_program demo_env [SExpression (EBlock [SBreak None])])"
  by code_simp+

text \<open>The payload of a variant is still a variable after the match.\<close>

definition shape_match :: "statement list" where
  "shape_match =
     [type_decl ''Shape'' (TEnum [(''circle'', Some (ident ''f64''))] [''circle'']),
      SVariableDecl (BIdentifier ''s'') (Some (ident ''Shape'')) int_literal,
      SExpression (EMatch (EIdentifier ''s'')
        [MatchArm (ECall (EIdentifier ''Shape_circle'') [] [Argument None (EIdentifier ''r'')]) (EIdentifier ''r'')])]"

lemma payload_leaves_its_arm:
  "accepted (analyze_program demo_env (shape_match @ [SExpression (EIdentifier ''r'')]))"
  by code_simp

text \<open>A method declared without parameters, called on a value, underflows the count of parameters.\<close>

lemma method_without_receiver:
  "analyze_program demo_env
     [type_decl ''T'' (TStruct []), SImplBlock [] None ''T'' (ident ''T'') [SImplMethod ''make'' [] [] (Some (ident ''T'')) (FBlock [])],
      SVariableDecl (BIdentifier ''t'') None (ECall (EStaticPath [''T'', ''make''] []) [] []),
      SExpression (ECall (EFieldAccess (EIdentifier ''t'') ''make'') [] [])] = Stuck SubtractOverflow"
  by code_simp

text \<open>A cycle through a cast is accepted at compile time and reported by the engine at run time.\<close>

definition cast_cycle :: tabledef where
  "cast_cycle = TableDef ''C''
     [TableColumn ''a'' (ident ''f64'') [] None True (Some (ECast (EIdentifier ''b'') (ident ''f64''))),
      TableColumn ''b'' (ident ''f64'') [] None True (Some (EIdentifier ''a''))]"

lemma cast_cycle_accepted:
  "compute_column_evaluation_order rev cast_cycle = Inr (Inr [''a'', ''b''])"
  "build_from_table rev cast_cycle = Some (Inl (CircularDependency [''a'', ''b''])) \<or> build_from_table rev cast_cycle = Some (Inl (CircularDependency [''b'', ''a'']))"
  "accepted (analyze_program demo_env [SConstDecl [] ''C'' [] None (CTableDef cast_cycle) None])"
  by code_simp+

text \<open>Two aliases of each other are followed for ever.\<close>

lemma alias_cycle:
  assumes "map_of types ''A'' = Some (ident ''B'')" and "map_of types ''B'' = Some (ident ''A'')"
  shows "follow_aliases types (ident ''A'') = None"
proof -
  have "ts = types \<longrightarrow> t \<in> {ident ''A'', ident ''B''} \<longrightarrow> False" if "follow_aliases ts t = Some r" for ts t r
    by (rule follow_aliases.raw_induct [OF _ that, of "\<lambda>ts t r. ts = types \<longrightarrow> t \<in> {ident ''A'', ident ''B''} \<longrightarrow> False"])
      (use assms in \<open>fastforce split: if_splits\<close>)
  then show ?thesis by (metis insertI1 not_None_eq)
qed

end
