(* ===== verification/Async_Runtime.thy ===== *)
theory Async_Runtime
  imports Executor
begin

text \<open>
  \<open>AsyncSystemRuntime\<close> of \<open>src/async_runtime.rs\<close> as it is built by default, without the
  \<open>tri-runtime\<close> feature: tasks, their queue, the resources they take and the ticks that drive their
  machines. The clock is an argument of each operation. \<open>TaskId::new\<close> draws from one counter for
  the whole process, which is passed along. Shared fields are fields of one record, because every
  operation takes the locks it needs in turn; the one that waits for a lock it holds itself,
  \<open>fail_task\<close>, has the outcome \<open>Blocked\<close>.
\<close>

section \<open>Tasks\<close>

datatype task_priority = Low | Normal | High | Critical

datatype task_state =
    TPending
  | TRunning instant
  | TSuspended yield_point instant
  | TCompleted execution_result instant
  | TFailed async_error instant
  | TCancelled instant

record resource_handle =
  rh_resource_name :: string
  rh_access_type :: resource_access
  rh_acquired_at :: instant
  rh_lease_duration :: "duration option"

record async_task =
  at_task_id :: task_id
  at_system_def :: sysdef
  at_parameters :: "(string, column_value) hmap"
  at_state :: task_state
  at_resource_handles :: "(string, resource_handle) hmap"
  at_priority :: task_priority
  at_timeout :: "duration option"
  at_created_at :: instant
  at_dependencies :: "task_id list"

type_synonym task_result = "async_error + execution_result"

record completed_task_info =
  ct_task_id :: task_id
  ct_system_def :: "sysdef option"
  ct_parameters :: "(string, column_value) hmap option"
  ct_priority :: task_priority
  ct_result :: task_result

record execution_handle =
  eh_state_machine :: state_machine
  eh_executor :: executor_tables

datatype task_step_outcome =
    NeedsContinuation
  | StepCompleted execution_result
  | Waiting "yield_point option"

record runtime_config =
  rc_max_concurrent_systems :: usize
  rc_default_task_timeout :: duration
  rc_resource_lease_timeout :: duration
  rc_scheduling_quantum :: duration
  rc_enable_preemption :: bool

definition millis :: "nat \<Rightarrow> duration" where
  "millis n = n * 1000000"

definition default_runtime_config :: runtime_config where
  "default_runtime_config =
     \<lparr>rc_max_concurrent_systems = 100, rc_default_task_timeout = millis 30000,
      rc_resource_lease_timeout = millis 5000, rc_scheduling_quantum = millis 10, rc_enable_preemption = True\<rparr>"

text \<open>\<open>rt_wakers\<close> are the tasks whose future waits for a call of its waker.\<close>

record async_runtime =
  rt_task_queue :: "task_id list"
  rt_active_tasks :: "(task_id, async_task) hmap"
  rt_resource_tracker :: resource_tracker
  rt_table_runtimes :: executor_tables
  rt_completed_tasks :: "(task_id, task_result) hmap"
  rt_wakers :: "task_id hset"
  rt_execution_handles :: "(task_id, execution_handle) hmap"
  rt_config :: runtime_config

definition runtime_new :: "runtime_config \<Rightarrow> async_runtime" where
  "runtime_new config =
     \<lparr>rt_task_queue = [], rt_active_tasks = [], rt_resource_tracker = tracker_new, rt_table_runtimes = [],
      rt_completed_tasks = [], rt_wakers = [], rt_execution_handles = [], rt_config = config\<rparr>"

text \<open>\<open>Clone\<close> keeps the configuration only.\<close>

definition runtime_clone :: "async_runtime \<Rightarrow> async_runtime" where
  "runtime_clone rt = runtime_new (rt_config rt)"

definition task_id_debug :: "task_id \<Rightarrow> string" where
  "task_id_debug t = ''TaskId('' @ show_nat (unat t) @ '')''"

section \<open>Outcomes\<close>

text \<open>
  An operation returns a \<open>Result\<close>, waits for ever, or panics; the state is what other threads see
  then.
\<close>

datatype 'a outcome = Returns "async_error + 'a" | Blocked | Panics abort

type_synonym 'a operation = "async_runtime \<Rightarrow> 'a outcome \<times> async_runtime"

definition and_then :: "'a operation \<Rightarrow> ('a \<Rightarrow> 'b operation) \<Rightarrow> 'b operation" where
  "and_then m f rt =
     (case m rt of
        (Returns (Inr x), rt') \<Rightarrow> f x rt'
      | (Returns (Inl err), rt') \<Rightarrow> (Returns (Inl err), rt')
      | (Blocked, rt') \<Rightarrow> (Blocked, rt')
      | (Panics a, rt') \<Rightarrow> (Panics a, rt'))"

definition succeed :: "'a \<Rightarrow> 'a operation" where
  "succeed x rt = (Returns (Inr x), rt)"

section \<open>Futures\<close>

record system_future =
  sf_task_id :: task_id
  sf_priority :: task_priority

datatype 'a poll = Ready 'a | PollPending

definition future_is_completed :: "async_runtime \<Rightarrow> system_future \<Rightarrow> bool" where
  "future_is_completed rt f = hm_contains (rt_completed_tasks rt) (sf_task_id f)"

definition try_get_result :: "async_runtime \<Rightarrow> system_future \<Rightarrow> task_result option" where
  "try_get_result rt f = map_of (rt_completed_tasks rt) (sf_task_id f)"

text \<open>The second look at the results, after the waker is stored, sees what the first one saw: no other operation runs in between.\<close>

definition future_poll :: "async_runtime \<Rightarrow> system_future \<Rightarrow> task_result poll \<times> async_runtime" where
  "future_poll rt f =
     (case try_get_result rt f of
        Some r \<Rightarrow> (Ready r, rt)
      | None \<Rightarrow> (PollPending, rt\<lparr>rt_wakers := List.insert (sf_task_id f) (rt_wakers rt)\<rparr>))"

section \<open>Submitting\<close>

definition register_runtime_table :: "string \<Rightarrow> table_runtime \<Rightarrow> async_runtime \<Rightarrow> async_runtime" where
  "register_runtime_table name t rt = rt\<lparr>rt_table_runtimes := AList.update name t (rt_table_runtimes rt)\<rparr>"

definition enqueue_local_task :: "task_id \<Rightarrow> async_runtime \<Rightarrow> async_runtime" where
  "enqueue_local_task t rt = rt\<lparr>rt_task_queue := rt_task_queue rt @ [t]\<rparr>"

definition attach_execution_plan :: "task_id \<Rightarrow> state_machine \<Rightarrow> executor_tables \<Rightarrow> async_runtime \<Rightarrow>
     (async_error + unit) \<times> async_runtime" where
  "attach_execution_plan t m tables rt =
     (if hm_contains (rt_execution_handles rt) t then
        (Inl (ASystemError ''async_runtime''
           (''Execution plan already registered for task '' @ task_id_debug t)), rt)
      else
        (Inr (),
         rt\<lparr>rt_execution_handles :=
           AList.update t \<lparr>eh_state_machine = m, eh_executor = tables\<rparr> (rt_execution_handles rt)\<rparr>))"

fun validate_parameters :: "string \<Rightarrow> (string, column_value) hmap \<Rightarrow> sysparam list \<Rightarrow> async_error + unit" where
  "validate_parameters system parameters [] = Inr ()"
| "validate_parameters system parameters (PRegular x name ty d # ps) =
     (if hm_contains parameters name then validate_parameters system parameters ps
      else Inl (ASystemError system (''Missing required parameter: '' @ name)))"
| "validate_parameters system parameters (PResource x name ty access # ps) = validate_parameters system parameters ps"
| "validate_parameters system parameters (PQuery name q # ps) =
     (if hm_contains parameters name then validate_parameters system parameters ps
      else Inl (ASystemError system (''Missing required query parameter: '' @ name)))"

definition validate_system_execution :: "sysdef \<Rightarrow> (string, column_value) hmap \<Rightarrow> async_error + unit" where
  "validate_system_execution s parameters = validate_parameters (sd_name s) parameters (sd_parameters s)"

definition unwrap_or_else :: "'a option \<Rightarrow> 'a \<Rightarrow> 'a" where
  "unwrap_or_else x d = (case x of Some y \<Rightarrow> y | None \<Rightarrow> d)"

text \<open>The identifier is drawn before the parameters are checked; the counter afterwards is the last component.\<close>

definition submit_system ::
    "instant \<Rightarrow> sysdef \<Rightarrow> (string, column_value) hmap \<Rightarrow> task_priority \<Rightarrow> duration option \<Rightarrow> task_id \<Rightarrow>
       async_runtime \<Rightarrow> (async_error + system_future) \<times> async_runtime \<times> task_id" where
  "submit_system now s parameters priority timeout n rt =
     (case validate_system_execution s parameters of
        Inl err \<Rightarrow> (Inl err, rt, n + 1)
      | Inr _ \<Rightarrow>
          (let task = \<lparr>at_task_id = n, at_system_def = s, at_parameters = parameters, at_state = TPending,
                 at_resource_handles = [], at_priority = priority,
                 at_timeout = Some (unwrap_or_else timeout (rc_default_task_timeout (rt_config rt))),
                 at_created_at = now, at_dependencies = []\<rparr>
           in (Inr \<lparr>sf_task_id = n, sf_priority = priority\<rparr>,
               enqueue_local_task n (rt\<lparr>rt_active_tasks := AList.update n task (rt_active_tasks rt)\<rparr>), n + 1)))"

section \<open>Resources of a task\<close>

text \<open>The parameters before the one that is refused stay acquired.\<close>

fun acquire_parameters ::
    "hash_order \<Rightarrow> instant \<Rightarrow> duration \<Rightarrow> string \<Rightarrow> sysparam list \<Rightarrow> (string, resource_handle) hmap \<Rightarrow> resource_tracker \<Rightarrow>
       (async_error + unit) \<times> (string, resource_handle) hmap \<times> resource_tracker" where
  "acquire_parameters \<pi> now lease system [] handles t = (Inr (), handles, t)"
| "acquire_parameters \<pi> now lease system (p # ps) handles t =
     (case p of
        PResource _ name _ access \<Rightarrow>
          (case can_access_resource \<pi> t name system access of
             Inl err \<Rightarrow> (Inl (ASchedulingError err), handles, t)
           | Inr _ \<Rightarrow>
               (let handles' = AList.update name
                      \<lparr>rh_resource_name = name, rh_access_type = access, rh_acquired_at = now, rh_lease_duration = Some lease\<rparr>
                      handles
                in case add_access \<pi> t name system access of
                     Inl err \<Rightarrow> (Inl (ASchedulingError err), handles', t)
                   | Inr t' \<Rightarrow> acquire_parameters \<pi> now lease system ps handles' t'))
      | _ \<Rightarrow> acquire_parameters \<pi> now lease system ps handles t)"

definition acquire_task_resources ::
    "hash_order \<Rightarrow> instant \<Rightarrow> async_task \<Rightarrow> async_runtime \<Rightarrow> (async_error + unit) \<times> async_task \<times> async_runtime" where
  "acquire_task_resources \<pi> now task rt =
     (case acquire_parameters \<pi> now (rc_resource_lease_timeout (rt_config rt)) (sd_name (at_system_def task))
             (sd_parameters (at_system_def task)) (at_resource_handles task) (rt_resource_tracker rt) of
        (r, handles, t) \<Rightarrow> (r, task\<lparr>at_resource_handles := handles\<rparr>, rt\<lparr>rt_resource_tracker := t\<rparr>))"

definition release_task_resources :: "hash_order \<Rightarrow> async_task \<Rightarrow> async_runtime \<Rightarrow> async_runtime" where
  "release_task_resources \<pi> task rt =
     rt\<lparr>rt_resource_tracker :=
         fold (\<lambda>(name, handle) t. remove_access t name (sd_name (at_system_def task)) (rh_access_type handle))
           (hm_iter \<pi> (at_resource_handles task)) (rt_resource_tracker rt)\<rparr>"

definition can_resume_from_yield_point :: "hash_order \<Rightarrow> instant \<Rightarrow> yield_point \<Rightarrow> async_runtime \<Rightarrow> bool" where
  "can_resume_from_yield_point \<pi> now yp rt =
     (case yp of
        AwaitingResource name access \<Rightarrow> is_ok (can_access_resource \<pi> (rt_resource_tracker rt) name ''temp'' access)
      | AwaitingTableQuery _ _ \<Rightarrow> True
      | AwaitingSystemCompletion _ t \<Rightarrow> hm_contains (rt_completed_tasks rt) t
      | Sleeping d started \<Rightarrow> d \<le> now - started
      | _ \<Rightarrow> True)"

section \<open>Ending a task\<close>

definition record_result :: "task_id \<Rightarrow> task_result \<Rightarrow> async_runtime \<Rightarrow> async_runtime" where
  "record_result t r rt =
     rt\<lparr>rt_completed_tasks := AList.update t r (rt_completed_tasks rt), rt_wakers := removeAll t (rt_wakers rt)\<rparr>"

text \<open>
  \<open>locked\<close>: the caller holds the write lock of the active tasks. The read lock taken here is then
  never granted.
\<close>

definition complete_task :: "hash_order \<Rightarrow> bool \<Rightarrow> task_id \<Rightarrow> task_result \<Rightarrow> unit operation" where
  "complete_task \<pi> locked t r rt =
     (let rt1 = record_result t r rt in
      if locked then (Blocked, rt1)
      else
        (let rt2 = (case map_of (rt_active_tasks rt1) t of
                      Some task \<Rightarrow> release_task_resources \<pi> task rt1
                    | None \<Rightarrow> rt1)
         in (Returns (Inr ()), rt2\<lparr>rt_execution_handles := AList.delete t (rt_execution_handles rt2)\<rparr>)))"

definition fail_task :: "hash_order \<Rightarrow> instant \<Rightarrow> task_id \<Rightarrow> async_error \<Rightarrow> unit operation" where
  "fail_task \<pi> now t err rt =
     (let rt1 = (case map_of (rt_active_tasks rt) t of
                   Some task \<Rightarrow>
                     release_task_resources \<pi> task
                       (rt\<lparr>rt_active_tasks := AList.update t (task\<lparr>at_state := TFailed err now\<rparr>) (rt_active_tasks rt)\<rparr>)
                 | None \<Rightarrow> rt)
      in complete_task \<pi> True t (Inl err) rt1)"

definition cancel_task :: "hash_order \<Rightarrow> instant \<Rightarrow> task_id \<Rightarrow> async_runtime \<Rightarrow> (async_error + unit) \<times> async_runtime" where
  "cancel_task \<pi> now t rt =
     (case map_of (rt_active_tasks rt) t of
        Some task \<Rightarrow>
          (let rt1 = release_task_resources \<pi> task rt;
               rt2 = rt1\<lparr>rt_active_tasks := AList.update t (task\<lparr>at_state := TCancelled now\<rparr>) (rt_active_tasks rt1)\<rparr>
           in (Inr (), record_result t (Inl (ACancelled (sd_name (at_system_def task)))) rt2))
      | None \<Rightarrow> (Inl (ASystemError ''unknown'' (''Task '' @ task_id_debug t @ '' not found'')), rt))"

section \<open>Running\<close>

definition set_task_state :: "async_task \<Rightarrow> task_state \<Rightarrow> async_runtime \<Rightarrow> async_runtime" where
  "set_task_state task st rt =
     rt\<lparr>rt_active_tasks := AList.update (at_task_id task) (task\<lparr>at_state := st\<rparr>) (rt_active_tasks rt)\<rparr>"

definition task_timed_out :: "instant \<Rightarrow> async_task \<Rightarrow> duration option" where
  "task_timed_out now task =
     (case at_timeout task of Some d \<Rightarrow> if d < now - at_created_at task then Some d else None | None \<Rightarrow> None)"

text \<open>A step of the machine of a running task.\<close>

definition execute_running_step ::
    "(string \<Rightarrow> string) \<Rightarrow> hash_order \<Rightarrow> instant \<Rightarrow> task_id \<Rightarrow> async_task \<Rightarrow> task_step_outcome operation" where
  "execute_running_step \<delta> \<pi> now t task rt =
     (case map_of (rt_execution_handles rt) t of
        None \<Rightarrow>
          (Returns (Inl (ASystemError (sd_name (at_system_def task))
             (''No execution plan registered for task '' @ task_id_debug t))), rt)
      | Some h \<Rightarrow>
          (case execute_step \<delta> \<pi> now (eh_executor h) (eh_state_machine h) of
             Inl a \<Rightarrow> (Panics a, rt)
           | Inr (res, m, tables) \<Rightarrow>
               (let rt1 = rt\<lparr>rt_execution_handles :=
                      AList.update t \<lparr>eh_state_machine = m, eh_executor = tables\<rparr> (rt_execution_handles rt)\<rparr>
                in case res of
                     Inl err \<Rightarrow> (Returns (Inl err), rt1)
                   | Inr RContinue \<Rightarrow> (Returns (Inr NeedsContinuation), rt1)
                   | Inr (RYield yp) \<Rightarrow> (Returns (Inr (Waiting (Some yp))), set_task_state task (TSuspended yp now) rt1)
                   | Inr (RCompleted r) \<Rightarrow>
                       and_then (complete_task \<pi> False t (Inr r)) (\<lambda>_. succeed (StepCompleted r))
                         (set_task_state task (TCompleted r now) rt1))))"

definition execute_task_step ::
    "(string \<Rightarrow> string) \<Rightarrow> hash_order \<Rightarrow> instant \<Rightarrow> task_id \<Rightarrow> task_step_outcome operation" where
  "execute_task_step \<delta> \<pi> now t rt =
     (case map_of (rt_active_tasks rt) t of
        None \<Rightarrow> (Returns (Inl (ASystemError ''async_runtime'' (''Task '' @ task_id_debug t @ '' not found''))), rt)
      | Some task \<Rightarrow>
          (case task_timed_out now task of
             Some d \<Rightarrow> (Returns (Inl (ATimeout (sd_name (at_system_def task)) d)), rt)
           | None \<Rightarrow>
               (case at_state task of
                  TPending \<Rightarrow>
                    (case acquire_task_resources \<pi> now task rt of
                       (Inl err, task', rt') \<Rightarrow> (Returns (Inl err), set_task_state task' (at_state task') rt')
                     | (Inr _, task', rt') \<Rightarrow> (Returns (Inr NeedsContinuation), set_task_state task' (TRunning now) rt'))
                | TRunning _ \<Rightarrow> execute_running_step \<delta> \<pi> now t task rt
                | TSuspended yp _ \<Rightarrow>
                    if can_resume_from_yield_point \<pi> now yp rt
                    then (Returns (Inr NeedsContinuation), set_task_state task (TRunning now) rt)
                    else (Returns (Inr (Waiting (Some yp))), rt)
                | TCompleted r _ \<Rightarrow> (Returns (Inr (StepCompleted r)), rt)
                | TFailed _ _ \<Rightarrow> (Returns (Inr (Waiting None)), rt)
                | TCancelled _ \<Rightarrow> (Returns (Inr (Waiting None)), rt))))"

definition tick :: "(string \<Rightarrow> string) \<Rightarrow> hash_order \<Rightarrow> instant \<Rightarrow> bool operation" where
  "tick \<delta> \<pi> now rt =
     (case rt_task_queue rt of
        [] \<Rightarrow> (Returns (Inr False), rt)
      | t # rest \<Rightarrow>
          (case execute_task_step \<delta> \<pi> now t (rt\<lparr>rt_task_queue := rest\<rparr>) of
             (Returns (Inr NeedsContinuation), rt') \<Rightarrow> (Returns (Inr True), enqueue_local_task t rt')
           | (Returns (Inr _), rt') \<Rightarrow> (Returns (Inr True), rt')
           | (Returns (Inl err), rt') \<Rightarrow> and_then (fail_task \<pi> now t err) (\<lambda>_. succeed True) rt'
           | (Blocked, rt') \<Rightarrow> (Blocked, rt')
           | (Panics a, rt') \<Rightarrow> (Panics a, rt')))"

section \<open>Results and statistics\<close>

text \<open>\<open>\<sigma>\<close> is the order in which the map of results is drained.\<close>

definition completed_info :: "(task_id, async_task) hmap \<Rightarrow> task_id \<Rightarrow> task_result \<Rightarrow> completed_task_info" where
  "completed_info active t r =
     (case map_of active t of
        Some task \<Rightarrow>
          \<lparr>ct_task_id = t, ct_system_def = Some (at_system_def task), ct_parameters = Some (at_parameters task),
           ct_priority = at_priority task, ct_result = r\<rparr>
      | None \<Rightarrow> \<lparr>ct_task_id = t, ct_system_def = None, ct_parameters = None, ct_priority = Normal, ct_result = r\<rparr>)"

definition drain_completed_tasks ::
    "(task_id list \<Rightarrow> task_id list) \<Rightarrow> async_runtime \<Rightarrow> completed_task_info list \<times> async_runtime" where
  "drain_completed_tasks \<sigma> rt =
     (let order = \<sigma> (hm_keys (rt_completed_tasks rt)) in
      (List.map_filter (\<lambda>t. map_option (completed_info (rt_active_tasks rt) t) (map_of (rt_completed_tasks rt) t)) order,
       rt\<lparr>rt_completed_tasks := [], rt_active_tasks := fold AList.delete order (rt_active_tasks rt)\<rparr>))"

record runtime_stats =
  rs_total_tasks_created :: usize
  rs_active_tasks :: usize
  rs_queued_tasks :: usize
  rs_completed_tasks :: usize
  rs_failed_tasks :: usize
  rs_cancelled_tasks :: usize
  rs_resource_contentions :: usize

fun task_failed :: "task_state \<Rightarrow> bool" where
  "task_failed (TFailed _ _) = True" | "task_failed _ = False"

fun task_cancelled :: "task_state \<Rightarrow> bool" where
  "task_cancelled (TCancelled _) = True" | "task_cancelled _ = False"

definition get_runtime_stats :: "async_runtime \<Rightarrow> runtime_stats" where
  "get_runtime_stats rt =
     \<lparr>rs_total_tasks_created = length (rt_active_tasks rt) + length (rt_completed_tasks rt),
      rs_active_tasks = length (rt_active_tasks rt), rs_queued_tasks = length (rt_task_queue rt),
      rs_completed_tasks = length (rt_completed_tasks rt),
      rs_failed_tasks = length (filter (\<lambda>(_, task). task_failed (at_state task)) (rt_active_tasks rt)),
      rs_cancelled_tasks = length (filter (\<lambda>(_, task). task_cancelled (at_state task)) (rt_active_tasks rt)),
      rs_resource_contentions = 0\<rparr>"

end
