(* ===== verification/Async_Scheduler.thy ===== *)
theory Async_Scheduler
  imports Async_Runtime Scheduler
begin

text \<open>
  \<open>AsyncSystemScheduler\<close> of \<open>src/async_scheduler_integration.rs\<close>: the conflict matrix of a list of
  requests, the batches it is split into, the submission of every request to the safety scheduler and
  to the runtime, and the bookkeeping of completions. Its \<open>async\<close> functions await only one
  another, so they run like ordinary calls. The clock is an argument, one reading for each call.
\<close>

section \<open>Data\<close>

record resource_usage_info =
  ru_resource_name :: string
  ru_current_readers :: "task_id hset"
  ru_current_writer :: "task_id option"
  ru_pending_readers :: "task_id list"
  ru_pending_writers :: "task_id list"
  ru_access_history :: "resource_access list"

datatype constraint_type = DataDependency string | CausalDependency | MutualExclusion

record ordering_constraint =
  oc_before_task :: task_id
  oc_after_task :: task_id
  oc_constraint_type :: constraint_type

record task_graph =
  tg_system_tasks :: "(string, task_id list) hmap"
  tg_task_dependencies :: "(task_id, task_id hset) hmap"
  tg_resource_usage :: "(string, resource_usage_info) hmap"
  tg_ordering_constraints :: "ordering_constraint list"

record time_slot =
  ts_start_time :: instant
  ts_duration :: duration
  ts_task_id :: task_id
  ts_access_type :: resource_access

datatype access_pattern = Sequential | Concurrent | Batched usize

record resource_schedule =
  sch_resource_name :: string
  sch_time_slots :: "time_slot list"
  sch_access_pattern :: access_pattern

record conflict_resolution =
  cr_can_execute_concurrently :: bool
  cr_execution_order :: "task_id list"
  cr_resource_scheduling :: "(string, resource_schedule) hmap"
  cr_estimated_completion_time :: duration

record async_stats =
  st_total_systems_scheduled :: usize
  st_concurrent_executions :: usize
  st_resource_conflicts_resolved :: usize
  st_average_scheduling_time :: duration
  st_successful_executions :: usize
  st_failed_executions :: usize
  st_preempted_executions :: usize

record execution_request =
  er_system_def :: sysdef
  er_parameters :: "(string, column_value) hmap"
  er_priority :: task_priority
  er_timeout :: "duration option"
  er_table_runtimes :: "(string, table_runtime) hmap"

record execution_batch =
  eb_systems :: "execution_request list"
  eb_wait_for_completion :: bool
  eb_estimated_duration :: duration

record execution_schedule =
  es_execution_batches :: "execution_batch list"
  es_total_estimated_time :: duration

record conflict_matrix =
  cm_size :: usize
  cm_conflicts :: "conflict_type list list"

text \<open>\<open>as_next_task\<close> is the counter of \<open>TaskId::new\<close>; of the builder see \<open>Executor\<close>.\<close>

record async_scheduler =
  as_runtime :: async_runtime
  as_safety :: system_scheduler
  as_graph :: task_graph
  as_cache :: "(string, conflict_resolution) hmap"
  as_stats :: async_stats
  as_next_task :: task_id

definition task_graph_new :: task_graph where
  "task_graph_new =
     \<lparr>tg_system_tasks = [], tg_task_dependencies = [], tg_resource_usage = [], tg_ordering_constraints = []\<rparr>"

definition default_stats :: async_stats where
  "default_stats =
     \<lparr>st_total_systems_scheduled = 0, st_concurrent_executions = 0, st_resource_conflicts_resolved = 0,
      st_average_scheduling_time = 0, st_successful_executions = 0, st_failed_executions = 0,
      st_preempted_executions = 0\<rparr>"

definition async_scheduler_new :: "usize option \<Rightarrow> runtime_config \<Rightarrow> task_id \<Rightarrow> async_scheduler" where
  "async_scheduler_new parallelism config n =
     \<lparr>as_runtime = runtime_new config, as_safety = scheduler_new parallelism, as_graph = task_graph_new,
      as_cache = [], as_stats = default_stats, as_next_task = n\<rparr>"

fun convert_priority :: "task_priority \<Rightarrow> system_priority" where
  "convert_priority Async_Runtime.Low = Scheduler.Low"
| "convert_priority Async_Runtime.Normal = Scheduler.Normal"
| "convert_priority Async_Runtime.High = Scheduler.High"
| "convert_priority Async_Runtime.Critical = Scheduler.Critical"

section \<open>The conflict matrix\<close>

definition matrix_new :: "usize \<Rightarrow> conflict_matrix" where
  "matrix_new n = \<lparr>cm_size = n, cm_conflicts = replicate n (replicate n NoConflict)\<rparr>"

definition set_conflict :: "nat \<Rightarrow> nat \<Rightarrow> conflict_type \<Rightarrow> conflict_matrix \<Rightarrow> conflict_matrix" where
  "set_conflict i j c m =
     (if i < cm_size m \<and> j < cm_size m then
        (let m1 = (cm_conflicts m)[i := (cm_conflicts m ! i)[j := c]]
         in m\<lparr>cm_conflicts := m1[j := (m1 ! j)[i := c]]\<rparr>)
      else m)"

definition conflict_between :: "conflict_matrix \<Rightarrow> nat \<Rightarrow> nat \<Rightarrow> conflict_type" where
  "conflict_between m i j =
     (if i < cm_size m \<and> j < cm_size m then cm_conflicts m ! i ! j else NoConflict)"

fun determine_conflict_type :: "resource_access \<Rightarrow> resource_access \<Rightarrow> conflict_type option" where
  "determine_conflict_type Immutable Immutable = None"
| "determine_conflict_type Immutable Mutable = Some ReadWrite"
| "determine_conflict_type Immutable Owned = Some ReadWrite"
| "determine_conflict_type Mutable Immutable = Some WriteRead"
| "determine_conflict_type Owned Immutable = Some WriteRead"
| "determine_conflict_type Mutable Mutable = Some WriteWrite"
| "determine_conflict_type Mutable Owned = Some WriteWrite"
| "determine_conflict_type Owned Mutable = Some WriteWrite"
| "determine_conflict_type Owned Owned = Some WriteWrite"

definition resource_accesses_conflict :: "resource_access \<Rightarrow> resource_access \<Rightarrow> bool" where
  "resource_accesses_conflict a b = (determine_conflict_type a b \<noteq> None)"

definition extract_system_resources :: "execution_request \<Rightarrow> (string, resource_access) hmap" where
  "extract_system_resources request =
     fold (\<lambda>p resources. case p of PResource _ name _ access \<Rightarrow> AList.update name access resources | _ \<Rightarrow> resources)
       (sd_parameters (er_system_def request)) []"

fun first_shared_conflict ::
    "(string, resource_access) hmap \<Rightarrow> (string \<times> resource_access) list \<Rightarrow> conflict_type option" where
  "first_shared_conflict resources2 [] = None"
| "first_shared_conflict resources2 ((r, access1) # rest) =
     (case map_of resources2 r of
        Some access2 \<Rightarrow>
          (case determine_conflict_type access1 access2 of
             Some c \<Rightarrow> Some c
           | None \<Rightarrow> first_shared_conflict resources2 rest)
      | None \<Rightarrow> first_shared_conflict resources2 rest)"

definition record_resource_conflict :: "async_stats \<Rightarrow> async_stats" where
  "record_resource_conflict st = st\<lparr>st_resource_conflicts_resolved := st_resource_conflicts_resolved st + 1\<rparr>"

definition analyze_system_conflict ::
    "hash_order \<Rightarrow> execution_request \<Rightarrow> execution_request \<Rightarrow> async_stats \<Rightarrow> conflict_type \<times> async_stats" where
  "analyze_system_conflict \<pi> system1 system2 st =
     (case first_shared_conflict (extract_system_resources system2) (hm_iter \<pi> (extract_system_resources system1)) of
        Some c \<Rightarrow> (c, record_resource_conflict st)
      | None \<Rightarrow> (NoConflict, st))"

definition index_pairs :: "nat \<Rightarrow> (nat \<times> nat) list" where
  "index_pairs n = concat (map (\<lambda>i. map (Pair i) [i + 1..<n]) [0..<n])"

definition build_conflict_matrix ::
    "hash_order \<Rightarrow> execution_request list \<Rightarrow> async_stats \<Rightarrow> conflict_matrix \<times> async_stats" where
  "build_conflict_matrix \<pi> requests st =
     fold (\<lambda>(i, j) (m, st). case analyze_system_conflict \<pi> (requests ! i) (requests ! j) st of
             (c, st') \<Rightarrow> (set_conflict i j c m, st'))
       (index_pairs (length requests)) (matrix_new (length requests), st)"

section \<open>Batches\<close>

definition batch_accesses_conflict ::
    "(string, resource_access list) hmap \<Rightarrow> (string \<times> resource_access) list \<Rightarrow> bool" where
  "batch_accesses_conflict accesses resources \<longleftrightarrow>
     (\<exists>(r, access) \<in> set resources.
        case map_of accesses r of
          Some existing \<Rightarrow> \<exists>e \<in> set existing. resource_accesses_conflict e access
        | None \<Rightarrow> False)"

definition push_accesses ::
    "(string \<times> resource_access) list \<Rightarrow> (string, resource_access list) hmap \<Rightarrow> (string, resource_access list) hmap" where
  "push_accesses resources accesses =
     fold (\<lambda>(r, access) m. AList.update r ((case map_of m r of Some xs \<Rightarrow> xs | None \<Rightarrow> []) @ [access]) m) resources accesses"

text \<open>One pass over the systems that are left.\<close>

fun select_batch ::
    "hash_order \<Rightarrow> execution_request list \<Rightarrow> conflict_matrix \<Rightarrow> nat list \<Rightarrow> nat list \<Rightarrow>
       (string, resource_access list) hmap \<Rightarrow> nat list" where
  "select_batch \<pi> requests m [] current_batch accesses = current_batch"
| "select_batch \<pi> requests m (i # is) current_batch accesses =
     (let resources = hm_iter \<pi> (extract_system_resources (requests ! i));
          has_conflict = ((\<exists>j \<in> set current_batch. conflict_between m i j \<noteq> NoConflict) \<or>
            batch_accesses_conflict accesses resources)
      in if has_conflict then select_batch \<pi> requests m is current_batch accesses
         else select_batch \<pi> requests m is (current_batch @ [i]) (push_accesses resources accesses))"

text \<open>
  The loop ends when every system has its batch. \<open>\<omega>\<close> is the order in which the set of the systems
  left is visited; that the loop ends for every such order is a property (\<open>Async_Scheduler_Properties\<close>).
\<close>

partial_function (option) batch_rounds ::
    "(nat list \<Rightarrow> nat list) \<Rightarrow> hash_order \<Rightarrow> execution_request list \<Rightarrow> conflict_matrix \<Rightarrow> nat list \<Rightarrow>
       nat list list option" where
  "batch_rounds \<omega> \<pi> requests m unscheduled =
     (if unscheduled = [] then Some []
      else
        (let batch = select_batch \<pi> requests m (\<omega> unscheduled) [] []
         in Option.bind (batch_rounds \<omega> \<pi> requests m (filter (\<lambda>i. i \<notin> set batch) unscheduled))
              (\<lambda>batches. Some (batch # batches))))"

declare batch_rounds.simps [code]

definition seconds :: "nat \<Rightarrow> duration" where
  "seconds n = n * 1000000000"

definition make_batch :: "execution_request list \<Rightarrow> nat list \<Rightarrow> execution_batch" where
  "make_batch requests batch =
     \<lparr>eb_systems = map (\<lambda>i. requests ! i) batch, eb_wait_for_completion = True, eb_estimated_duration = seconds 5\<rparr>"

definition resolve_conflicts_and_batch ::
    "(nat list \<Rightarrow> nat list) \<Rightarrow> hash_order \<Rightarrow> execution_request list \<Rightarrow> conflict_matrix \<Rightarrow> execution_batch list option" where
  "resolve_conflicts_and_batch \<omega> \<pi> requests m =
     map_option (map (make_batch requests)) (batch_rounds \<omega> \<pi> requests m [0..<length requests])"

definition estimate_total_execution_time :: "execution_batch list \<Rightarrow> duration" where
  "estimate_total_execution_time batches = sum_list (map eb_estimated_duration batches)"

definition resolution_of :: "execution_batch \<Rightarrow> conflict_resolution" where
  "resolution_of batch =
     \<lparr>cr_can_execute_concurrently = 1 < length (eb_systems batch), cr_execution_order = [],
      cr_resource_scheduling = [], cr_estimated_completion_time = eb_estimated_duration batch\<rparr>"

definition fill_cache :: "execution_batch list \<Rightarrow> (string, conflict_resolution) hmap" where
  "fill_cache batches =
     fold (\<lambda>batch cache. fold (\<lambda>request. AList.update (sd_name (er_system_def request)) (resolution_of batch))
             (eb_systems batch) cache) batches []"

definition analyze_and_schedule ::
    "(nat list \<Rightarrow> nat list) \<Rightarrow> hash_order \<Rightarrow> duration \<Rightarrow> execution_request list \<Rightarrow> async_scheduler \<Rightarrow>
       (execution_schedule \<times> async_scheduler) option" where
  "analyze_and_schedule \<omega> \<pi> elapsed requests s =
     (case build_conflict_matrix \<pi> requests (as_stats s) of
        (m, st) \<Rightarrow>
          map_option (\<lambda>batches.
              (\<lparr>es_execution_batches = batches, es_total_estimated_time = estimate_total_execution_time batches\<rparr>,
               s\<lparr>as_stats := st\<lparr>st_average_scheduling_time := elapsed\<rparr>, as_cache := fill_cache batches\<rparr>))
            (resolve_conflicts_and_batch \<omega> \<pi> requests m))"

section \<open>Submitting the requests\<close>

definition check_resource_conflicts ::
    "hash_order \<Rightarrow> execution_request \<Rightarrow> async_scheduler \<Rightarrow> (async_error + unit) \<times> async_scheduler" where
  "check_resource_conflicts \<pi> request s =
     (case add_system \<pi> (as_safety s) (er_system_def request) of
        Inl err \<Rightarrow> (Inl (ASchedulingError err), s)
      | Inr safety \<Rightarrow>
          (Inr (), s\<lparr>as_safety := set_system_priority safety (sd_name (er_system_def request))
                      (convert_priority (er_priority request))\<rparr>))"

fun use_resource :: "task_id \<Rightarrow> sysparam \<Rightarrow> (string, resource_usage_info) hmap \<Rightarrow> (string, resource_usage_info) hmap" where
  "use_resource t (PResource _ name _ access) usage =
     (let info = (case map_of usage name of
                    Some info \<Rightarrow> info
                  | None \<Rightarrow> \<lparr>ru_resource_name = name, ru_current_readers = [], ru_current_writer = None,
                              ru_pending_readers = [], ru_pending_writers = [], ru_access_history = []\<rparr>);
          info' = (case access of
                     Immutable \<Rightarrow>
                       if ru_current_writer info = None then info\<lparr>ru_current_readers := List.insert t (ru_current_readers info)\<rparr>
                       else info\<lparr>ru_pending_readers := ru_pending_readers info @ [t]\<rparr>
                   | _ \<Rightarrow>
                       if ru_current_writer info = None \<and> ru_current_readers info = [] then info\<lparr>ru_current_writer := Some t\<rparr>
                       else info\<lparr>ru_pending_writers := ru_pending_writers info @ [t]\<rparr>)
      in AList.update name (info'\<lparr>ru_access_history := ru_access_history info' @ [access]\<rparr>) usage)"
| "use_resource t _ usage = usage"

definition update_dependency_graph :: "task_id \<Rightarrow> execution_request \<Rightarrow> task_graph \<Rightarrow> task_graph" where
  "update_dependency_graph t request g =
     (let name = sd_name (er_system_def request);
          tasks = (case map_of (tg_system_tasks g) name of Some ts \<Rightarrow> ts | None \<Rightarrow> []) @ [t];
          constraints = (if 2 \<le> length tasks then
              [\<lparr>oc_before_task = rev tasks ! 1, oc_after_task = t, oc_constraint_type = CausalDependency\<rparr>] else [])
      in g\<lparr>tg_system_tasks := AList.update name tasks (tg_system_tasks g),
           tg_ordering_constraints := tg_ordering_constraints g @ constraints,
           tg_task_dependencies := AList.update t [] (tg_task_dependencies g),
           tg_resource_usage := fold (use_resource t) (sd_parameters (er_system_def request)) (tg_resource_usage g)\<rparr>)"

text \<open>A request that fails stops the call; what was done for it and for the requests before stays.\<close>

definition schedule_single_system ::
    "(string, bool) hmap \<Rightarrow> (expression \<Rightarrow> string) \<Rightarrow> hash_order \<Rightarrow> instant \<Rightarrow> execution_request \<Rightarrow> async_scheduler \<Rightarrow>
       (async_error + system_future) \<times> async_scheduler" where
  "schedule_single_system functions show_expr \<pi> now request s =
     (let s1 = s\<lparr>as_stats := (as_stats s)\<lparr>st_total_systems_scheduled := st_total_systems_scheduled (as_stats s) + 1\<rparr>\<rparr>
      in case check_resource_conflicts \<pi> request s1 of
           (Inl err, s2) \<Rightarrow> (Inl err, s2)
         | (Inr _, s2) \<Rightarrow>
             (case build_state_machine functions show_expr now (er_system_def request) (er_parameters request) (as_next_task s2) of
                Inl err \<Rightarrow> (Inl err, s2)
              | Inr (machine, n) \<Rightarrow>
                  (let executor = fold (\<lambda>(name, t) tables. register_table tables name t) (hm_iter \<pi> (er_table_runtimes request)) []
                   in case submit_system now (er_system_def request) (er_parameters request) (er_priority request)
                             (er_timeout request) n (as_runtime s2) of
                        (Inl err, rt, n') \<Rightarrow> (Inl err, s2\<lparr>as_runtime := rt, as_next_task := n'\<rparr>)
                      | (Inr f, rt, n') \<Rightarrow>
                          (case attach_execution_plan (sf_task_id f) machine executor rt of
                             (Inl err, rt') \<Rightarrow> (Inl err, s2\<lparr>as_runtime := rt', as_next_task := n'\<rparr>)
                           | (Inr _, rt') \<Rightarrow>
                               (Inr f, s2\<lparr>as_runtime := rt', as_next_task := n',
                                          as_graph := update_dependency_graph (sf_task_id f) request (as_graph s2)\<rparr>)))))"

fun schedule_requests ::
    "(execution_request \<Rightarrow> async_scheduler \<Rightarrow> (async_error + system_future) \<times> async_scheduler) \<Rightarrow> execution_request list \<Rightarrow>
       async_scheduler \<Rightarrow> (async_error + system_future list) \<times> async_scheduler" where
  "schedule_requests single [] s = (Inr [], s)"
| "schedule_requests single (r # rs) s =
     (case single r s of
        (Inl err, s') \<Rightarrow> (Inl err, s')
      | (Inr f, s') \<Rightarrow>
          (case schedule_requests single rs s' of
             (Inl err, s'') \<Rightarrow> (Inl err, s'')
           | (Inr fs, s'') \<Rightarrow> (Inr (f # fs), s'')))"

text \<open>\<open>wait_for_batch_completion\<close> counts the futures that are complete, forgets the count and returns.\<close>

definition wait_for_batch_completion :: "system_future list \<Rightarrow> async_scheduler \<Rightarrow> async_scheduler" where
  "wait_for_batch_completion futures s =
     (if futures = [] then s
      else s\<lparr>as_stats := (as_stats s)\<lparr>st_concurrent_executions := max (st_concurrent_executions (as_stats s)) (length futures)\<rparr>\<rparr>)"

fun schedule_batches ::
    "(execution_request \<Rightarrow> async_scheduler \<Rightarrow> (async_error + system_future) \<times> async_scheduler) \<Rightarrow> execution_batch list \<Rightarrow>
       async_scheduler \<Rightarrow> (async_error + system_future list) \<times> async_scheduler" where
  "schedule_batches single [] s = (Inr [], s)"
| "schedule_batches single (b # bs) s =
     (case schedule_requests single (eb_systems b) s of
        (Inl err, s') \<Rightarrow> (Inl err, s')
      | (Inr fs, s') \<Rightarrow>
          (case schedule_batches single bs (if eb_wait_for_completion b then wait_for_batch_completion fs s' else s') of
             (Inl err, s'') \<Rightarrow> (Inl err, s'')
           | (Inr gs, s'') \<Rightarrow> (Inr (fs @ gs), s'')))"

definition schedule_systems ::
    "(string, bool) hmap \<Rightarrow> (expression \<Rightarrow> string) \<Rightarrow> (nat list \<Rightarrow> nat list) \<Rightarrow> hash_order \<Rightarrow> instant \<Rightarrow> duration \<Rightarrow>
       execution_request list \<Rightarrow> async_scheduler \<Rightarrow>
       ((async_error + system_future list) \<times> async_scheduler) option" where
  "schedule_systems functions show_expr \<omega> \<pi> now elapsed requests s =
     map_option (\<lambda>(schedule, s').
         schedule_batches (schedule_single_system functions show_expr \<pi> now) (es_execution_batches schedule) s')
       (analyze_and_schedule \<omega> \<pi> elapsed requests s)"

section \<open>Ticks and completions\<close>

definition record_task_completion :: "completed_task_info \<Rightarrow> async_scheduler \<Rightarrow> async_scheduler" where
  "record_task_completion c s =
     (let st = as_stats s; g = as_graph s;
          st' = (if is_ok (ct_result c) then st\<lparr>st_successful_executions := st_successful_executions st + 1\<rparr>
                 else st\<lparr>st_failed_executions := st_failed_executions st + 1\<rparr>);
          tasks' = (case ct_system_def c of
              None \<Rightarrow> tg_system_tasks g
            | Some d \<Rightarrow>
                (case map_of (tg_system_tasks g) (sd_name d) of
                   None \<Rightarrow> tg_system_tasks g
                 | Some ts \<Rightarrow>
                     (let ts' = removeAll (ct_task_id c) ts
                      in if ts' = [] then AList.delete (sd_name d) (tg_system_tasks g)
                         else AList.update (sd_name d) ts' (tg_system_tasks g))))
      in s\<lparr>as_stats := st',
           as_graph := g\<lparr>tg_task_dependencies := AList.delete (ct_task_id c) (tg_task_dependencies g),
                         tg_system_tasks := tasks'\<rparr>\<rparr>)"

definition update_completed_tasks :: "(task_id list \<Rightarrow> task_id list) \<Rightarrow> async_scheduler \<Rightarrow> async_scheduler" where
  "update_completed_tasks \<sigma> s =
     (case drain_completed_tasks \<sigma> (as_runtime s) of
        (completions, rt) \<Rightarrow> fold record_task_completion completions (s\<lparr>as_runtime := rt\<rparr>))"

definition tick_runtime :: "(string \<Rightarrow> string) \<Rightarrow> hash_order \<Rightarrow> instant \<Rightarrow> async_scheduler \<Rightarrow> bool outcome \<times> async_scheduler" where
  "tick_runtime \<delta> \<pi> now s =
     (case tick \<delta> \<pi> now (as_runtime s) of (r, rt) \<Rightarrow> (r, s\<lparr>as_runtime := rt\<rparr>))"

text \<open>One iteration of \<open>run_scheduler_loop\<close>; the pause when there was no work has no effect on the state.\<close>

definition scheduler_iteration ::
    "(string \<Rightarrow> string) \<Rightarrow> hash_order \<Rightarrow> (task_id list \<Rightarrow> task_id list) \<Rightarrow> instant \<Rightarrow> async_scheduler \<Rightarrow>
       unit outcome \<times> async_scheduler" where
  "scheduler_iteration \<delta> \<pi> \<sigma> now s =
     (case tick_runtime \<delta> \<pi> now s of
        (Returns (Inr has_work), s') \<Rightarrow> (Returns (Inr ()), update_completed_tasks \<sigma> s')
      | (Returns (Inl err), s') \<Rightarrow> (Returns (Inl err), s')
      | (Blocked, s') \<Rightarrow> (Blocked, s')
      | (Panics a, s') \<Rightarrow> (Panics a, s'))"

end
