(* ===== verification/Async_Properties.thy ===== *)
theory Async_Properties
  imports Async_Runtime Executor_Properties
begin

text \<open>
  The life of a task: the invariant of every state the runtime reaches through its public operations,
  what the ticks make of a machine, and the tasks that no tick brings to an end. The steps carry a
  label, so that a statement can leave out the cancellation of one task.
\<close>

section \<open>Steps of the runtime\<close>

datatype runtime_event = ESubmit | EAttach task_id | ECancel task_id | ETick | EDrain | EPoll task_id | ERegister

text \<open>
  \<open>TaskId::new\<close> is taken not to have drawn all of its numbers. A tick that waits for ever or panics
  has no successor.
\<close>

inductive runtime_step ::
    "(string \<Rightarrow> string) \<Rightarrow> hash_order \<Rightarrow> async_runtime \<times> task_id \<Rightarrow> runtime_event \<Rightarrow> async_runtime \<times> task_id \<Rightarrow> bool"
  for \<delta> \<pi> where
  submitted: "submit_system now s parameters priority timeout n rt = (r, rt', n') \<Longrightarrow> n < n' \<Longrightarrow>
     runtime_step \<delta> \<pi> (rt, n) ESubmit (rt', n')"
| attached: "attach_execution_plan t m tables rt = (r, rt') \<Longrightarrow> runtime_step \<delta> \<pi> (rt, n) (EAttach t) (rt', n)"
| cancelled: "cancel_task \<pi> now t rt = (r, rt') \<Longrightarrow> runtime_step \<delta> \<pi> (rt, n) (ECancel t) (rt', n)"
| ticked: "tick \<delta> \<pi> now rt = (Returns r, rt') \<Longrightarrow> runtime_step \<delta> \<pi> (rt, n) ETick (rt', n)"
| drained: "drain_completed_tasks \<sigma> rt = (infos, rt') \<Longrightarrow> (\<And>xs. mset (\<sigma> xs) = mset xs) \<Longrightarrow>
     runtime_step \<delta> \<pi> (rt, n) EDrain (rt', n)"
| polled: "future_poll rt f = (r, rt') \<Longrightarrow> runtime_step \<delta> \<pi> (rt, n) (EPoll (sf_task_id f)) (rt', n)"
| registered: "runtime_step \<delta> \<pi> (rt, n) ERegister (register_runtime_table name table rt, n)"

inductive_cases runtime_stepE
  [consumes 1, case_names submitted attached cancelled ticked drained polled registered]: "runtime_step \<delta> \<pi> (rt, n) e (rt', n')"

inductive runtime_run ::
    "(string \<Rightarrow> string) \<Rightarrow> hash_order \<Rightarrow> async_runtime \<times> task_id \<Rightarrow> runtime_event list \<Rightarrow> async_runtime \<times> task_id \<Rightarrow> bool"
  for \<delta> \<pi> where
  none: "runtime_run \<delta> \<pi> s [] s"
| more: "runtime_run \<delta> \<pi> s es s' \<Longrightarrow> runtime_step \<delta> \<pi> s' e s'' \<Longrightarrow> runtime_run \<delta> \<pi> s (es @ [e]) s''"

section \<open>The invariant\<close>

fun result_recorded :: "async_task \<Rightarrow> task_result \<Rightarrow> bool" where
  "result_recorded task r =
     (case at_state task of
        TCompleted res _ \<Rightarrow> r = Inr res
      | TCancelled _ \<Rightarrow> r = Inl (ACancelled (sd_name (at_system_def task)))
      | _ \<Rightarrow> False)"

text \<open>A task waits in the queue as long as it is pending or runs; it has a result once it has ended.\<close>

definition task_ok :: "async_runtime \<Rightarrow> task_id \<Rightarrow> async_task \<Rightarrow> bool" where
  "task_ok rt t task \<longleftrightarrow>
     at_task_id task = t \<and>
     (case at_state task of
        TPending \<Rightarrow> t \<in> set (rt_task_queue rt) \<and> map_of (rt_completed_tasks rt) t = None
      | TRunning _ \<Rightarrow> t \<in> set (rt_task_queue rt) \<and> map_of (rt_completed_tasks rt) t = None
      | TSuspended _ _ \<Rightarrow> t \<notin> set (rt_task_queue rt) \<and> map_of (rt_completed_tasks rt) t = None
      | TCompleted _ _ \<Rightarrow> t \<notin> set (rt_task_queue rt) \<and> (\<exists>r. map_of (rt_completed_tasks rt) t = Some r \<and> result_recorded task r)
      | TFailed _ _ \<Rightarrow> False
      | TCancelled _ \<Rightarrow> \<exists>r. map_of (rt_completed_tasks rt) t = Some r \<and> result_recorded task r)"

definition runtime_ok :: "async_runtime \<Rightarrow> task_id \<Rightarrow> bool" where
  "runtime_ok rt n \<longleftrightarrow>
     distinct (map fst (rt_active_tasks rt)) \<and> distinct (rt_task_queue rt) \<and>
     (\<forall>t \<in> set (rt_task_queue rt). t < n) \<and>
     (\<forall>t task. map_of (rt_active_tasks rt) t = Some task \<longrightarrow> t < n \<and> task_ok rt t task) \<and>
     (\<forall>t r. map_of (rt_completed_tasks rt) t = Some r \<longrightarrow> map_of (rt_active_tasks rt) t \<noteq> None) \<and>
     (\<forall>t \<in> set (rt_wakers rt). map_of (rt_completed_tasks rt) t = None)"

lemma runtime_okD:
  assumes "runtime_ok rt n"
  shows "distinct (map fst (rt_active_tasks rt))" "distinct (rt_task_queue rt)"
    and "t \<in> set (rt_task_queue rt) \<Longrightarrow> t < n"
    and "map_of (rt_active_tasks rt) t = Some task \<Longrightarrow> t < n"
    and "map_of (rt_active_tasks rt) t = Some task \<Longrightarrow> task_ok rt t task"
    and "map_of (rt_completed_tasks rt) t = Some r \<Longrightarrow> \<exists>task. map_of (rt_active_tasks rt) t = Some task"
    and "t \<in> set (rt_wakers rt) \<Longrightarrow> map_of (rt_completed_tasks rt) t = None"
  using assms by (auto simp: runtime_ok_def)

lemma runtime_okI:
  assumes "distinct (map fst (rt_active_tasks rt))" "distinct (rt_task_queue rt)"
    and "\<And>t. t \<in> set (rt_task_queue rt) \<Longrightarrow> t < n"
    and "\<And>t task. map_of (rt_active_tasks rt) t = Some task \<Longrightarrow> t < n \<and> task_ok rt t task"
    and "\<And>t r. map_of (rt_completed_tasks rt) t = Some r \<Longrightarrow> \<exists>task. map_of (rt_active_tasks rt) t = Some task"
    and "\<And>t. t \<in> set (rt_wakers rt) \<Longrightarrow> map_of (rt_completed_tasks rt) t = None"
  shows "runtime_ok rt n"
  unfolding runtime_ok_def using assms by (blast intro: option.distinct)

lemma task_ok_frame:
  "task_ok rt t task \<Longrightarrow> (t \<in> set (rt_task_queue rt') \<longleftrightarrow> t \<in> set (rt_task_queue rt)) \<Longrightarrow>
     map_of (rt_completed_tasks rt') t = map_of (rt_completed_tasks rt) t \<Longrightarrow> task_ok rt' t task"
  by (simp add: task_ok_def split: task_state.splits)

lemma runtime_ok_same:
  "runtime_ok rt n \<Longrightarrow> rt_task_queue rt' = rt_task_queue rt \<Longrightarrow> rt_active_tasks rt' = rt_active_tasks rt \<Longrightarrow>
     rt_completed_tasks rt' = rt_completed_tasks rt \<Longrightarrow> rt_wakers rt' = rt_wakers rt \<Longrightarrow> runtime_ok rt' n"
  by (simp add: runtime_ok_def task_ok_def cong: task_state.case_cong del: map_of_eq_Some_iff)

text \<open>A step changes one task, its place in the queue and its result.\<close>

lemma runtime_ok_update:
  assumes ok: "runtime_ok rt n" and t: "map_of (rt_active_tasks rt) t = Some task"
    and keys: "distinct (map fst (rt_active_tasks rt'))"
    and active: "\<And>u. map_of (rt_active_tasks rt') u = (if u = t then Some task' else map_of (rt_active_tasks rt) u)"
    and queue: "distinct (rt_task_queue rt')"
      "\<And>u. u \<noteq> t \<Longrightarrow> u \<in> set (rt_task_queue rt') \<longleftrightarrow> u \<in> set (rt_task_queue rt)"
    and results: "\<And>u. u \<noteq> t \<Longrightarrow> map_of (rt_completed_tasks rt') u = map_of (rt_completed_tasks rt) u"
    and wakers: "set (rt_wakers rt') \<subseteq> set (rt_wakers rt)"
      "map_of (rt_completed_tasks rt') t \<noteq> None \<Longrightarrow> t \<notin> set (rt_wakers rt')"
    and task': "task_ok rt' t task'"
  shows "runtime_ok rt' n"
  unfolding runtime_ok_def
proof (intro conjI ballI allI impI)
  show "distinct (map fst (rt_active_tasks rt'))" by (rule keys)
  show "distinct (rt_task_queue rt')" by (rule queue)
next
  fix u assume "u \<in> set (rt_task_queue rt')"
  with queue(2) [of u] runtime_okD(3) [OF ok, of u] runtime_okD(4) [OF ok t] show "u < n" by (cases "u = t") auto
next
  fix u v assume "map_of (rt_active_tasks rt') u = Some v"
  then show "u < n" using runtime_okD(4) [OF ok] t by (auto simp: active map_of_update split: if_splits)
next
  fix u v assume u: "map_of (rt_active_tasks rt') u = Some v"
  show "task_ok rt' u v"
  proof (cases "u = t")
    case False
    with u have "task_ok rt u v" by (auto simp: active map_of_update intro: runtime_okD(5) [OF ok])
    with False queue(2) results show ?thesis by (blast intro: task_ok_frame)
  qed (use u task' in \<open>auto simp: active map_of_update\<close>)
next
  fix u r assume "map_of (rt_completed_tasks rt') u = Some r"
  with results [of u] runtime_okD(6) [OF ok, of u r] t show "map_of (rt_active_tasks rt') u \<noteq> None"
    by (cases "u = t") (auto simp: active map_of_update)
next
  fix u assume "u \<in> set (rt_wakers rt')"
  with wakers results [of u] runtime_okD(7) [OF ok, of u] show "map_of (rt_completed_tasks rt') u = None"
    by (cases "u = t") (blast, auto)
qed

section \<open>Every operation keeps the invariant\<close>

text \<open>Waiting tasks are queued exactly once and lose their place only by ending, yielding or waiting for ever.\<close>

lemma runtime_ok_new: "runtime_ok (runtime_new config) n"
  by (simp add: runtime_ok_def runtime_new_def)

lemma submitted_task:
  assumes "validate_system_execution s parameters = Inr u"
    and "submit_system now s parameters priority timeout n rt = (r, rt', n')"
  shows "\<exists>task. at_task_id task = n \<and> at_state task = TPending \<and> at_system_def task = s \<and> at_created_at task = now \<and>
      at_timeout task = Some (unwrap_or_else timeout (rc_default_task_timeout (rt_config rt))) \<and> at_resource_handles task = [] \<and>
      rt' = enqueue_local_task n (rt\<lparr>rt_active_tasks := AList.update n task (rt_active_tasks rt)\<rparr>) \<and>
      r = Inr \<lparr>sf_task_id = n, sf_priority = priority\<rparr> \<and> n' = n + 1"
  using assms unfolding submit_system_def Let_def
  by (intro exI [of _ "\<lparr>at_task_id = n, at_system_def = s, at_parameters = parameters, at_state = TPending,
        at_resource_handles = [], at_priority = priority,
        at_timeout = Some (unwrap_or_else timeout (rc_default_task_timeout (rt_config rt))),
        at_created_at = now, at_dependencies = []\<rparr>"]) simp

lemma submit_ok:
  assumes ok: "runtime_ok rt n" and n: "n < n'"
    and run: "submit_system now s parameters priority timeout n rt = (r, rt', n')"
  shows "runtime_ok rt' n'"
proof (cases "validate_system_execution s parameters")
  case (Inl err)
  have mono: "u < n'" if "u < n" for u using that n by (rule order.strict_trans)
  from Inl run have "rt' = rt" by (simp add: submit_system_def)
  with ok mono show ?thesis unfolding runtime_ok_def by (simp del: map_of_eq_Some_iff)
next
  case (Inr u)
  have mono: "u < n'" if "u < n" for u using that n by (rule order.strict_trans)
  from submitted_task [OF Inr run] obtain task where task: "at_task_id task = n" "at_state task = TPending"
    and rt': "rt' = enqueue_local_task n (rt\<lparr>rt_active_tasks := AList.update n task (rt_active_tasks rt)\<rparr>)" by blast
  have fresh: "n \<notin> set (rt_task_queue rt)" "map_of (rt_active_tasks rt) n = None"
    using runtime_okD(3,4) [OF ok] by (blast, cases "map_of (rt_active_tasks rt) n") auto
  then have pending: "map_of (rt_completed_tasks rt) n = None"
    using runtime_okD(6) [OF ok, of n] by (cases "map_of (rt_completed_tasks rt) n") auto
  have old: "task_ok rt' v w" if "v \<noteq> n" "map_of (rt_active_tasks rt) v = Some w" for v w
    using runtime_okD(5) [OF ok that(2)] that(1) task_ok_frame [of rt v w rt'] by (simp add: rt' enqueue_local_task_def)
  have new: "task_ok rt' n task" using task pending by (simp add: task_ok_def rt' enqueue_local_task_def)
  have active: "map_of (rt_active_tasks rt') v = (if v = n then Some task else map_of (rt_active_tasks rt) v)" for v
    by (simp add: rt' enqueue_local_task_def map_of_update)
  show ?thesis
  proof (rule runtime_okI)
    show "distinct (map fst (rt_active_tasks rt'))" "distinct (rt_task_queue rt')"
      using runtime_okD(1,2) [OF ok] fresh by (simp_all add: rt' enqueue_local_task_def distinct_update)
  next
    fix v assume "v \<in> set (rt_task_queue rt')"
    with runtime_okD(3) [OF ok, of v] n mono show "v < n'" by (auto simp: rt' enqueue_local_task_def)
  next
    fix v w assume "map_of (rt_active_tasks rt') v = Some w"
    with active [of v] old [of v w] new runtime_okD(4) [OF ok, of v w] n mono show "v < n' \<and> task_ok rt' v w"
      by (cases "v = n") simp_all
  next
    fix v res assume "map_of (rt_completed_tasks rt') v = Some res"
    with active [of v] runtime_okD(6) [OF ok, of v res] show "\<exists>w. map_of (rt_active_tasks rt') v = Some w"
      by (simp add: rt' enqueue_local_task_def)
  qed (use runtime_okD(7) [OF ok] in \<open>simp add: rt' enqueue_local_task_def\<close>)
qed

lemma cancel_ok:
  assumes ok: "runtime_ok rt n" and run: "cancel_task \<pi> now t rt = (r, rt')"
  shows "runtime_ok rt' n"
proof (cases "map_of (rt_active_tasks rt) t")
  case None
  with run ok show ?thesis by (simp add: cancel_task_def)
next
  case (Some task)
  let ?task = "task\<lparr>at_state := TCancelled now\<rparr>"
  from run Some have rt': "rt_active_tasks rt' = AList.update t ?task (rt_active_tasks rt)" "rt_task_queue rt' = rt_task_queue rt"
    "rt_completed_tasks rt' = AList.update t (Inl (ACancelled (sd_name (at_system_def task)))) (rt_completed_tasks rt)"
    "rt_wakers rt' = removeAll t (rt_wakers rt)"
    by (auto simp: cancel_task_def Let_def record_result_def release_task_resources_def)
  from runtime_okD(5) [OF ok Some] have "at_task_id task = t" by (simp add: task_ok_def)
  then have "task_ok rt' t ?task" by (simp add: task_ok_def rt' map_of_update)
  then show ?thesis
    by (intro runtime_ok_update [OF ok Some]) (simp_all add: rt' map_of_update distinct_update runtime_okD(1,2) [OF ok])
qed

lemma drain_ok:
  assumes ok: "runtime_ok rt n" and \<sigma>: "\<And>xs. mset (\<sigma> xs) = mset xs"
    and run: "drain_completed_tasks \<sigma> rt = (infos, rt')"
  shows "runtime_ok rt' n"
proof -
  let ?order = "\<sigma> (hm_keys (rt_completed_tasks rt))"
  have gone: "map_of (fold AList.delete ks m) k = (if k \<in> set ks then None else map_of m k)" for ks k and m :: "(task_id, async_task) hmap"
    by (induction ks arbitrary: m) (auto simp: map_of_delete)
  have keys: "distinct (map fst m) \<Longrightarrow> distinct (map fst (fold AList.delete ks m))" for ks and m :: "(task_id, async_task) hmap"
    by (induction ks arbitrary: m) (simp_all add: distinct_delete)
  have set: "t \<in> set ?order \<longleftrightarrow> map_of (rt_completed_tasks rt) t \<noteq> None" for t
    using mset_eq_setD [OF \<sigma>, of "hm_keys (rt_completed_tasks rt)"]
    by (metis hm_keys_def map_of_eq_None_iff set_map)
  from run have rt': "rt' = rt\<lparr>rt_completed_tasks := [], rt_active_tasks := fold AList.delete ?order (rt_active_tasks rt)\<rparr>"
    by (simp add: drain_completed_tasks_def Let_def)
  have left: "map_of (rt_active_tasks rt') t = Some task \<longleftrightarrow>
      map_of (rt_active_tasks rt) t = Some task \<and> map_of (rt_completed_tasks rt) t = None" for t task
    by (simp add: rt' gone set del: map_of_eq_Some_iff)
  have kept: "task_ok rt' t task" if "map_of (rt_active_tasks rt') t = Some task" for t task
    using that runtime_okD(5) [OF ok, of t task] task_ok_frame [of rt t task rt'] unfolding left by (simp add: rt')
  show ?thesis
  proof (rule runtime_okI)
    show "distinct (map fst (rt_active_tasks rt'))" using keys runtime_okD(1) [OF ok] by (simp add: rt')
  next
    fix t task assume "map_of (rt_active_tasks rt') t = Some task"
    with kept left runtime_okD(4) [OF ok] show "t < n \<and> task_ok rt' t task" by blast
  qed (use runtime_okD(2,3) [OF ok] in \<open>simp_all add: rt'\<close>)
qed

lemma poll_ok:
  assumes ok: "runtime_ok rt n" and run: "future_poll rt f = (r, rt')"
  shows "runtime_ok rt' n"
proof (cases "map_of (rt_completed_tasks rt) (sf_task_id f)")
  case None
  with run have "rt' = rt\<lparr>rt_wakers := List.insert (sf_task_id f) (rt_wakers rt)\<rparr>"
    by (simp add: future_poll_def try_get_result_def)
  with None ok show ?thesis
    by (simp add: runtime_ok_def task_ok_def cong: task_state.case_cong del: map_of_eq_Some_iff)
next
  case (Some res)
  with run ok show ?thesis by (simp add: future_poll_def try_get_result_def)
qed

section \<open>Ticks\<close>

text \<open>What a step does to the task at hand: nothing, a new state, or its completion.\<close>

lemma acquire_frame:
  assumes "acquire_task_resources \<pi> now task rt = (r, task', rt')"
  obtains t handles where "rt' = rt\<lparr>rt_resource_tracker := t\<rparr>" "task' = task\<lparr>at_resource_handles := handles\<rparr>"
  using assms by (auto simp: acquire_task_resources_def split: prod.splits)

definition queue_outcome :: "async_runtime \<Rightarrow> async_runtime \<Rightarrow> bool" where
  "queue_outcome rt rt' \<longleftrightarrow>
     rt_task_queue rt' = rt_task_queue rt \<and> rt_completed_tasks rt' = rt_completed_tasks rt \<and> rt_wakers rt' = rt_wakers rt"

lemma execute_task_step_cases:
  assumes step: "execute_task_step \<delta> \<pi> now t rt = (Returns (Inr out), rt')"
    and t: "map_of (rt_active_tasks rt) t = Some task" and id: "at_task_id task = t"
  obtains
    (running) s where "at_state task = TPending \<or> (\<exists>u. at_state task = TRunning u) \<or> (\<exists>yp u. at_state task = TSuspended yp u)"
      "out = NeedsContinuation" "queue_outcome rt rt'"
      "\<exists>handles. rt_active_tasks rt' = AList.update t (task\<lparr>at_resource_handles := handles, at_state := TRunning s\<rparr>) (rt_active_tasks rt)"
  | (unchanged) "out = NeedsContinuation" "\<exists>u. at_state task = TRunning u" "queue_outcome rt rt'" "rt_active_tasks rt' = rt_active_tasks rt"
  | (suspended) yp u s where "out = Waiting (Some yp)" "at_state task = TRunning s" "queue_outcome rt rt'"
      "rt_active_tasks rt' = AList.update t (task\<lparr>at_state := TSuspended yp u\<rparr>) (rt_active_tasks rt)"
  | (finished) r u s where "out = StepCompleted r" "at_state task = TRunning s" "rt_task_queue rt' = rt_task_queue rt"
      "rt_completed_tasks rt' = AList.update t (Inr r) (rt_completed_tasks rt)" "rt_wakers rt' = removeAll t (rt_wakers rt)"
      "rt_active_tasks rt' = AList.update t (task\<lparr>at_state := TCompleted r u\<rparr>) (rt_active_tasks rt)"
  | (ended) "rt' = rt" "at_state task \<noteq> TPending" "\<And>u. at_state task \<noteq> TRunning u" "out \<noteq> NeedsContinuation"
proof (cases "at_state task")
  case TPending
  show thesis
  proof (cases "acquire_task_resources \<pi> now task rt")
    case (fields r task' rt2)
    from fields obtain tr handles where f: "rt2 = rt\<lparr>rt_resource_tracker := tr\<rparr>" "task' = task\<lparr>at_resource_handles := handles\<rparr>"
      by (rule acquire_frame)
    from step t TPending fields have "out = NeedsContinuation" "rt' = set_task_state task' (TRunning now) rt2"
      by (auto simp: execute_task_step_def split: option.splits sum.splits)
    with f id TPending show thesis by (intro running [of now]) (auto simp: set_task_state_def queue_outcome_def)
  qed
next
  case (TRunning s)
  from step t TRunning have run: "execute_running_step \<delta> \<pi> now t task rt = (Returns (Inr out), rt')"
    by (auto simp: execute_task_step_def split: option.splits)
  then obtain h res m tables where h: "map_of (rt_execution_handles rt) t = Some h"
    and res: "execute_step \<delta> \<pi> now (eh_executor h) (eh_state_machine h) = Inr (Inr res, m, tables)"
    by (auto simp: execute_running_step_def Let_def split: option.splits sum.splits prod.splits)
  show thesis
  proof (cases res)
    case RContinue
    with run h res TRunning show thesis by (intro unchanged) (auto simp: execute_running_step_def Let_def queue_outcome_def)
  next
    case (RYield yp)
    with run h res TRunning id show thesis
      by (intro suspended [of yp s now]) (auto simp: execute_running_step_def Let_def queue_outcome_def set_task_state_def)
  next
    case (RCompleted r)
    with run h res TRunning id show thesis
      by (intro finished [of r s now]) (auto simp: execute_running_step_def Let_def set_task_state_def and_then_def
          complete_task_def succeed_def record_result_def release_task_resources_def split: option.splits)
  qed
next
  case (TSuspended yp u)
  show thesis
  proof (cases "can_resume_from_yield_point \<pi> now yp rt")
    case True
    with step t TSuspended id have "out = NeedsContinuation"
      "rt_active_tasks rt' = AList.update t (task\<lparr>at_resource_handles := at_resource_handles task, at_state := TRunning now\<rparr>) (rt_active_tasks rt)"
      "queue_outcome rt rt'"
      by (auto simp: execute_task_step_def set_task_state_def queue_outcome_def split: option.splits)
    with TSuspended show thesis by (intro running [of now] exI [of _ "at_resource_handles task"]) auto
  next
    case False
    with step t TSuspended show thesis by (intro ended) (auto simp: execute_task_step_def split: option.splits)
  qed
qed (use step t ended in \<open>auto simp: execute_task_step_def split: option.splits\<close>)

text \<open>A tick that returns has stepped the head of the queue, which is a task.\<close>

lemma fail_task_blocks: "fst (fail_task \<pi> now t err rt) = Blocked"
  by (simp add: fail_task_def Let_def complete_task_def)

lemma tick_returns:
  assumes "tick \<delta> \<pi> now rt = (Returns r, rt')" and "rt_task_queue rt = t # rest"
  obtains task out rt1 where "map_of (rt_active_tasks rt) t = Some task" "r = Inr True"
    "execute_task_step \<delta> \<pi> now t (rt\<lparr>rt_task_queue := rest\<rparr>) = (Returns (Inr out), rt1)"
    "rt' = (if out = NeedsContinuation then enqueue_local_task t rt1 else rt1)"
proof -
  let ?rt = "rt\<lparr>rt_task_queue := rest\<rparr>"
  obtain res rt1 where step: "execute_task_step \<delta> \<pi> now t ?rt = (res, rt1)" by force
  have failed: "and_then (fail_task \<pi> now t err) (\<lambda>_. succeed True) rt1 \<noteq> (Returns r, rt')" for err
    using fail_task_blocks [of \<pi> now t err rt1] by (auto simp: and_then_def split: prod.splits)
  from assms step failed obtain out where out: "res = Returns (Inr out)"
    by (auto simp: tick_def split: outcome.splits sum.splits task_step_outcome.splits)
  from step out obtain task where "map_of (rt_active_tasks rt) t = Some task"
    by (cases "map_of (rt_active_tasks rt) t") (auto simp: execute_task_step_def)
  moreover from assms step out have "r = Inr True" "rt' = (if out = NeedsContinuation then enqueue_local_task t rt1 else rt1)"
    by (auto simp: tick_def split: task_step_outcome.splits)
  ultimately show thesis using step out that by blast
qed

lemma tick_ok:
  assumes ok: "runtime_ok rt n" and run: "tick \<delta> \<pi> now rt = (Returns r, rt')"
  shows "runtime_ok rt' n"
proof (cases "rt_task_queue rt")
  case Nil
  with run ok show ?thesis by (simp add: tick_def)
next
  case (Cons t rest)
  note queue = runtime_okD(2) [OF ok, unfolded Cons]
  from tick_returns [OF run Cons] obtain task out rt1 where t: "map_of (rt_active_tasks rt) t = Some task"
    and step: "execute_task_step \<delta> \<pi> now t (rt\<lparr>rt_task_queue := rest\<rparr>) = (Returns (Inr out), rt1)"
    and rt': "rt' = (if out = NeedsContinuation then enqueue_local_task t rt1 else rt1)" by metis
  have task: "task_ok rt t task" "t \<in> set (rt_task_queue rt)" "at_task_id task = t"
    using runtime_okD(5) [OF ok t] Cons by (simp_all add: task_ok_def)
  note changed = runtime_ok_update [OF ok t] runtime_okD(1) [OF ok] queue
  have t0: "map_of (rt_active_tasks (rt\<lparr>rt_task_queue := rest\<rparr>)) t = Some task" using t by simp
  from step t0 task(3) show ?thesis
  proof (cases rule: execute_task_step_cases)
    case (running s)
    with task have pending: "map_of (rt_completed_tasks rt) t = None" by (auto simp: task_ok_def)
    from running obtain handles where
      "rt_active_tasks rt' = AList.update t (task\<lparr>at_resource_handles := handles, at_state := TRunning s\<rparr>) (rt_active_tasks rt)"
      "rt_task_queue rt' = rest @ [t]" "rt_completed_tasks rt' = rt_completed_tasks rt" "rt_wakers rt' = rt_wakers rt"
      by (auto simp: rt' enqueue_local_task_def queue_outcome_def)
    then show ?thesis using pending task(3) queue
      by (intro runtime_ok_update [OF ok t, where task' = "task\<lparr>at_resource_handles := handles, at_state := TRunning s\<rparr>"])
        (auto simp: distinct_update map_of_update runtime_okD(1) [OF ok] Cons task_ok_def)
  next
    case unchanged
    with task have pending: "map_of (rt_completed_tasks rt) t = None" by (auto simp: task_ok_def)
    from unchanged have "rt_active_tasks rt' = rt_active_tasks rt"
      "rt_task_queue rt' = rest @ [t]" "rt_completed_tasks rt' = rt_completed_tasks rt" "rt_wakers rt' = rt_wakers rt"
      by (auto simp: rt' enqueue_local_task_def queue_outcome_def)
    then show ?thesis using pending task queue t unchanged
      by (intro runtime_ok_update [OF ok t, where task' = task])
        (auto simp: runtime_okD(1) [OF ok] Cons task_ok_def simp del: map_of_eq_Some_iff)
  next
    case (suspended yp u s)
    with task have pending: "map_of (rt_completed_tasks rt) t = None" by (auto simp: task_ok_def)
    from suspended have "rt_active_tasks rt' = AList.update t (task\<lparr>at_state := TSuspended yp u\<rparr>) (rt_active_tasks rt)"
      "rt_task_queue rt' = rest" "rt_completed_tasks rt' = rt_completed_tasks rt" "rt_wakers rt' = rt_wakers rt"
      by (auto simp: rt' queue_outcome_def)
    then show ?thesis using pending task(3) queue
      by (intro runtime_ok_update [OF ok t, where task' = "task\<lparr>at_state := TSuspended yp u\<rparr>"])
        (auto simp: distinct_update map_of_update runtime_okD(1) [OF ok] Cons task_ok_def)
  next
    case (finished res u s)
    then have "rt_active_tasks rt' = AList.update t (task\<lparr>at_state := TCompleted res u\<rparr>) (rt_active_tasks rt)"
      "rt_task_queue rt' = rest" "rt_completed_tasks rt' = AList.update t (Inr res) (rt_completed_tasks rt)"
      "rt_wakers rt' = removeAll t (rt_wakers rt)"
      by (auto simp: rt')
    then show ?thesis using task(3) queue
      by (intro runtime_ok_update [OF ok t, where task' = "task\<lparr>at_state := TCompleted res u\<rparr>"])
        (auto simp: distinct_update map_of_update runtime_okD(1) [OF ok] Cons task_ok_def)
  next
    case ended
    with task obtain u where cancelled: "at_state task = TCancelled u" by (cases "at_state task") (auto simp: task_ok_def)
    with task(1) runtime_okD(7) [OF ok, of t] have "t \<notin> set (rt_wakers rt)" by (auto simp: task_ok_def)
    moreover have "rt' = rt\<lparr>rt_task_queue := rest\<rparr>" using ended by (simp add: rt')
    ultimately show ?thesis using task queue cancelled t
      by (intro runtime_ok_update [OF ok t, where task' = task])
        (auto simp: runtime_okD(1) [OF ok] Cons task_ok_def simp del: map_of_eq_Some_iff)
  qed
qed

lemma attach_frame:
  assumes "attach_execution_plan t m tables rt = (r, rt')"
  shows "rt_task_queue rt' = rt_task_queue rt" "rt_active_tasks rt' = rt_active_tasks rt"
    "rt_completed_tasks rt' = rt_completed_tasks rt" "rt_wakers rt' = rt_wakers rt"
  using assms by (auto simp: attach_execution_plan_def split: if_splits)

lemma runtime_step_ok:
  assumes "runtime_step \<delta> \<pi> (rt, n) e (rt', n')" and "runtime_ok rt n"
  shows "runtime_ok rt' n'"
  using assms(1)
proof (cases rule: runtime_stepE)
  case (submitted now s parameters priority timeout r)
  with assms(2) show ?thesis by (metis submit_ok)
next
  case (attached t m tables r)
  with assms(2) attach_frame [OF attached(3)] show ?thesis by (metis runtime_ok_same)
next
  case (registered name table)
  with assms(2) show ?thesis by (auto simp: register_runtime_table_def intro: runtime_ok_same)
qed (use assms(2) in \<open>metis cancel_ok tick_ok drain_ok poll_ok\<close>)+

lemma runtime_run_ok:
  "runtime_run \<delta> \<pi> s es s' \<Longrightarrow> runtime_ok (fst s) (snd s) \<Longrightarrow> runtime_ok (fst s') (snd s')"
  by (induction rule: runtime_run.induct) (auto intro: runtime_step_ok)

text \<open>
  C8: In every state that submitting, attaching, cancelling, ticking, draining and polling reach from a
  new runtime, a task is queued once if it is pending or running and not at all if it is suspended or
  completed; a task has a result exactly when it was completed or cancelled, and then the result
  says so; a failed task is never left behind, and no future waits for a task that has its result.
\<close>

theorem runtime_invariant:
  assumes "runtime_run \<delta> \<pi> (runtime_new config, n) es (rt, n')"
  shows "distinct (rt_task_queue rt) \<and>
    (\<forall>t task. map_of (rt_active_tasks rt) t = Some task \<longrightarrow>
       (case at_state task of
          TPending \<Rightarrow> t \<in> set (rt_task_queue rt) \<and> map_of (rt_completed_tasks rt) t = None
        | TRunning _ \<Rightarrow> t \<in> set (rt_task_queue rt) \<and> map_of (rt_completed_tasks rt) t = None
        | TSuspended _ _ \<Rightarrow> t \<notin> set (rt_task_queue rt) \<and> map_of (rt_completed_tasks rt) t = None
        | TCompleted res _ \<Rightarrow> t \<notin> set (rt_task_queue rt) \<and> map_of (rt_completed_tasks rt) t = Some (Inr res)
        | TFailed _ _ \<Rightarrow> False
        | TCancelled _ \<Rightarrow> map_of (rt_completed_tasks rt) t = Some (Inl (ACancelled (sd_name (at_system_def task)))))) \<and>
    (\<forall>t. map_of (rt_active_tasks rt) t = None \<longrightarrow> map_of (rt_completed_tasks rt) t = None) \<and>
    (\<forall>t \<in> set (rt_wakers rt). map_of (rt_completed_tasks rt) t = None)"
proof -
  from runtime_run_ok [OF assms] runtime_ok_new have ok: "runtime_ok rt n'" by simp
  show ?thesis
  proof (intro conjI allI impI)
    fix t task assume "map_of (rt_active_tasks rt) t = Some task"
    from runtime_okD(5) [OF ok this] show "case at_state task of
          TPending \<Rightarrow> t \<in> set (rt_task_queue rt) \<and> map_of (rt_completed_tasks rt) t = None
        | TRunning _ \<Rightarrow> t \<in> set (rt_task_queue rt) \<and> map_of (rt_completed_tasks rt) t = None
        | TSuspended _ _ \<Rightarrow> t \<notin> set (rt_task_queue rt) \<and> map_of (rt_completed_tasks rt) t = None
        | TCompleted res _ \<Rightarrow> t \<notin> set (rt_task_queue rt) \<and> map_of (rt_completed_tasks rt) t = Some (Inr res)
        | TFailed _ _ \<Rightarrow> False
        | TCancelled _ \<Rightarrow> map_of (rt_completed_tasks rt) t = Some (Inl (ACancelled (sd_name (at_system_def task))))"
      by (simp add: task_ok_def split: task_state.splits)
  next
    fix t assume "map_of (rt_active_tasks rt) t = None"
    with runtime_okD(6) [OF ok, of t] show "map_of (rt_completed_tasks rt) t = None"
      by (cases "map_of (rt_completed_tasks rt) t") auto
  qed (use runtime_okD(2,7) [OF ok] in auto)
qed

section \<open>Tasks that never end\<close>

text \<open>\<open>suspended_in rt t yp u\<close>: the task was suspended at \<open>yp\<close> and has no result.\<close>

definition suspended_in :: "async_runtime \<Rightarrow> task_id \<Rightarrow> yield_point \<Rightarrow> instant \<Rightarrow> bool" where
  "suspended_in rt t yp u \<longleftrightarrow>
     (\<exists>task. map_of (rt_active_tasks rt) t = Some task \<and> at_state task = TSuspended yp u) \<and>
     map_of (rt_completed_tasks rt) t = None"

lemma cancel_other:
  assumes "cancel_task \<pi> now u rt = (r, rt')" and "u \<noteq> t"
  shows "map_of (rt_active_tasks rt') t = map_of (rt_active_tasks rt) t \<and>
    map_of (rt_completed_tasks rt') t = map_of (rt_completed_tasks rt) t"
  using assms by (auto simp: cancel_task_def Let_def record_result_def release_task_resources_def map_of_update split: option.splits)

lemma tick_other:
  assumes ok: "runtime_ok rt n" and run: "tick \<delta> \<pi> now rt = (Returns r, rt')" and t: "t \<notin> set (rt_task_queue rt)"
  shows "map_of (rt_active_tasks rt') t = map_of (rt_active_tasks rt) t \<and>
    map_of (rt_completed_tasks rt') t = map_of (rt_completed_tasks rt) t"
proof (cases "rt_task_queue rt")
  case Nil
  with run show ?thesis by (simp add: tick_def)
next
  case (Cons u rest)
  with t have other: "u \<noteq> t" by auto
  from tick_returns [OF run Cons] obtain task out rt1 where u: "map_of (rt_active_tasks rt) u = Some task"
    and step: "execute_task_step \<delta> \<pi> now u (rt\<lparr>rt_task_queue := rest\<rparr>) = (Returns (Inr out), rt1)"
    and rt': "rt' = (if out = NeedsContinuation then enqueue_local_task u rt1 else rt1)" by metis
  have u0: "map_of (rt_active_tasks (rt\<lparr>rt_task_queue := rest\<rparr>)) u = Some task" "at_task_id task = u"
    using u runtime_okD(5) [OF ok u] by (simp_all add: task_ok_def)
  from step u0 show ?thesis
    by (cases rule: execute_task_step_cases)
      (use other in \<open>auto simp: rt' enqueue_local_task_def queue_outcome_def map_of_update\<close>)
qed

lemma suspended_step:
  assumes "runtime_step \<delta> \<pi> (rt, n) e (rt', n')" and ok: "runtime_ok rt n" and e: "e \<noteq> ECancel t"
    and susp: "suspended_in rt t yp u"
  shows "suspended_in rt' t yp u"
proof -
  from susp obtain task where task: "map_of (rt_active_tasks rt) t = Some task" "at_state task = TSuspended yp u"
    "map_of (rt_completed_tasks rt) t = None" by (auto simp: suspended_in_def)
  with runtime_okD(5) [OF ok task(1)] have queue: "t \<notin> set (rt_task_queue rt)" by (simp add: task_ok_def)
  from runtime_okD(4) [OF ok task(1)] have t: "t \<noteq> n" by auto
  have keep: ?thesis if "map_of (rt_active_tasks rt') t = map_of (rt_active_tasks rt) t"
    "map_of (rt_completed_tasks rt') t = map_of (rt_completed_tasks rt) t"
    using that susp by (simp add: suspended_in_def)
  from assms(1) show ?thesis
  proof (cases rule: runtime_stepE)
    case (submitted now s parameters priority timeout r)
    then show ?thesis
      by (intro keep) (use t in \<open>auto simp: submit_system_def Let_def enqueue_local_task_def map_of_update split: sum.splits\<close>)
  next
    case (attached v m tables r)
    with attach_frame [OF attached(3)] show ?thesis by (intro keep) simp_all
  next
    case (cancelled now v r)
    with cancel_other [OF cancelled(3), of t] e show ?thesis by (intro keep) auto
  next
    case (ticked now r)
    with tick_other [OF ok ticked(3) queue] show ?thesis by (intro keep) simp_all
  next
    case (drained \<sigma> infos)
    have "map_of (fold AList.delete ks m) t = (if t \<in> set ks then None else map_of m t)" for ks and m :: "(task_id, async_task) hmap"
      by (induction ks arbitrary: m) (auto simp: map_of_delete)
    moreover have "t \<notin> set (\<sigma> (hm_keys (rt_completed_tasks rt)))"
      using task(3) mset_eq_setD [OF drained(4)] by (metis hm_keys_def map_of_eq_None_iff set_map)
    ultimately show ?thesis using drained task(3)
      by (intro keep) (auto simp: drain_completed_tasks_def Let_def)
  next
    case (polled f r)
    then show ?thesis by (intro keep) (auto simp: future_poll_def split: option.splits)
  qed (intro keep, simp_all add: register_runtime_table_def)
qed

lemma suspended_run:
  assumes "runtime_run \<delta> \<pi> s es s'" and "runtime_ok (fst s) (snd s)" and "ECancel t \<notin> set es"
    and "suspended_in (fst s) t yp u"
  shows "suspended_in (fst s') t yp u"
  using assms
proof (induction rule: runtime_run.induct)
  case (more s es s' e s'')
  from runtime_run_ok [OF more.hyps(1) more.prems(1)] have "runtime_ok (fst s') (snd s')" .
  with more suspended_step [of \<delta> \<pi> "fst s'" "snd s'" e "fst s''" "snd s''" t yp u] show ?case by auto
qed simp

text \<open>
  C10: A task that yields is taken from the queue and nothing puts it back: whatever is submitted,
  attached, ticked, drained or polled afterwards, and however long it only wanted to sleep, it stays
  suspended and its future has no result, unless it is cancelled.
\<close>

theorem suspended_never_resumes:
  assumes "runtime_run \<delta> \<pi> (runtime_new config, n) es (rt, k)" and "suspended_in rt t yp u"
    and "runtime_run \<delta> \<pi> (rt, k) es' (rt', k')" and "ECancel t \<notin> set es'"
  shows "suspended_in rt' t yp u \<and> t \<notin> set (rt_task_queue rt') \<and> try_get_result rt' \<lparr>sf_task_id = t, sf_priority = prio\<rparr> = None"
proof -
  from runtime_run_ok [OF assms(1)] runtime_ok_new have ok: "runtime_ok rt k" by simp
  with runtime_run_ok [OF assms(3)] have ok': "runtime_ok rt' k'" by simp
  from suspended_run [OF assms(3) _ assms(4), of yp u] ok assms(2) have susp: "suspended_in rt' t yp u" by simp
  then obtain task where task: "map_of (rt_active_tasks rt') t = Some task" "at_state task = TSuspended yp u"
    "map_of (rt_completed_tasks rt') t = None" by (auto simp: suspended_in_def)
  with runtime_okD(5) [OF ok' task(1)] susp show ?thesis by (simp add: task_ok_def try_get_result_def)
qed

section \<open>Steps that fail\<close>

lemma execute_task_step_not_blocked: "fst (execute_task_step \<delta> \<pi> now t rt) \<noteq> Blocked"
  by (auto simp: execute_task_step_def execute_running_step_def Let_def and_then_def complete_task_def succeed_def
      split: option.splits task_state.splits sum.splits prod.splits step_result.splits)

text \<open>
  C11: A tick reports no error: it fails to return exactly when the step of the task at the head of the
  queue fails, because the task is gone, has timed out, is refused a resource, has no machine or its
  machine fails. The runtime then waits for a lock it holds, after it has recorded the error as
  the result of that task.
\<close>

theorem tick_blocks_on_failure:
  "(fst (tick \<delta> \<pi> now rt) = Blocked \<longleftrightarrow>
     (\<exists>t rest err. rt_task_queue rt = t # rest \<and>
        fst (execute_task_step \<delta> \<pi> now t (rt\<lparr>rt_task_queue := rest\<rparr>)) = Returns (Inl err))) \<and>
   fst (tick \<delta> \<pi> now rt) \<noteq> Returns (Inl e) \<and>
   (\<forall>t rest err. rt_task_queue rt = t # rest \<longrightarrow>
      fst (execute_task_step \<delta> \<pi> now t (rt\<lparr>rt_task_queue := rest\<rparr>)) = Returns (Inl err) \<longrightarrow>
      map_of (rt_completed_tasks (snd (tick \<delta> \<pi> now rt))) t = Some (Inl err))"
proof (cases "rt_task_queue rt")
  case Nil
  then show ?thesis by (simp add: tick_def)
next
  case (Cons t rest)
  obtain res rt1 where step: "execute_task_step \<delta> \<pi> now t (rt\<lparr>rt_task_queue := rest\<rparr>) = (res, rt1)" by force
  with execute_task_step_not_blocked [of \<delta> \<pi> now t "rt\<lparr>rt_task_queue := rest\<rparr>"] have res: "res \<noteq> Blocked" by simp
  have failed: "and_then (fail_task \<pi> now t err) (\<lambda>_. succeed True) rt1 = (Blocked, snd (fail_task \<pi> now t err rt1))"
    "map_of (rt_completed_tasks (snd (fail_task \<pi> now t err rt1))) t = Some (Inl err)" for err
    by (simp_all add: and_then_def fail_task_def complete_task_def Let_def record_result_def map_of_update)
  show ?thesis
  proof (cases "\<exists>err. res = Returns (Inl err)")
    case True
    with Cons step failed show ?thesis by (auto simp: tick_def)
  next
    case False
    with res Cons step show ?thesis
      by (auto simp: tick_def split: outcome.splits sum.splits task_step_outcome.splits)
  qed
qed

section \<open>Ticks run the machine\<close>

text \<open>\<open>run_ticks\<close> repeats \<open>tick\<close> as a driver of the runtime does; without tasks a tick does nothing.\<close>

primrec run_ticks :: "(string \<Rightarrow> string) \<Rightarrow> hash_order \<Rightarrow> instant \<Rightarrow> nat \<Rightarrow> unit operation" where
  "run_ticks \<delta> \<pi> now 0 rt = (Returns (Inr ()), rt)"
| "run_ticks \<delta> \<pi> now (Suc k) rt = and_then (tick \<delta> \<pi> now) (\<lambda>_. run_ticks \<delta> \<pi> now k) rt"

lemma run_ticks_idle: "rt_task_queue rt = [] \<Longrightarrow> run_ticks \<delta> \<pi> now k rt = (Returns (Inr ()), rt)"
  by (induction k) (simp_all add: and_then_def tick_def)

text \<open>The only queued task is running, has time left and its machine is at \<open>m\<close>.\<close>

definition only_runs :: "instant \<Rightarrow> task_id \<Rightarrow> async_task \<Rightarrow> state_machine \<Rightarrow> executor_tables \<Rightarrow> async_runtime \<Rightarrow> bool" where
  "only_runs now t task m tables rt \<longleftrightarrow>
     rt_task_queue rt = [t] \<and> map_of (rt_active_tasks rt) t = Some task \<and> at_task_id task = t \<and>
     (\<exists>s. at_state task = TRunning s) \<and> task_timed_out now task = None \<and>
     map_of (rt_execution_handles rt) t = Some \<lparr>eh_state_machine = m, eh_executor = tables\<rparr>"

definition machine_outcome :: "instant \<Rightarrow> task_id \<Rightarrow> async_task \<Rightarrow>
     abort + (async_error + step_result) \<times> state_machine \<times> executor_tables \<Rightarrow> unit outcome \<Rightarrow> async_runtime \<Rightarrow> bool" where
  "machine_outcome now t task out r rt =
     (case out of
        Inl a \<Rightarrow> r = Panics a
      | Inr (Inl err, m, tables) \<Rightarrow> r = Blocked \<and> map_of (rt_completed_tasks rt) t = Some (Inl err)
      | Inr (Inr RContinue, m, tables) \<Rightarrow> False
      | Inr (Inr (RYield yp), m, tables) \<Rightarrow> r = Returns (Inr ()) \<and> rt_task_queue rt = [] \<and>
          map_of (rt_active_tasks rt) t = Some (task\<lparr>at_state := TSuspended yp now\<rparr>) \<and>
          map_of (rt_execution_handles rt) t = Some \<lparr>eh_state_machine = m, eh_executor = tables\<rparr>
      | Inr (Inr (RCompleted res), m, tables) \<Rightarrow> r = Returns (Inr ()) \<and> rt_task_queue rt = [] \<and>
          map_of (rt_active_tasks rt) t = Some (task\<lparr>at_state := TCompleted res now\<rparr>) \<and>
          map_of (rt_completed_tasks rt) t = Some (Inr res) \<and> map_of (rt_execution_handles rt) t = None)"

lemma only_runs_step:
  assumes "only_runs now t task m tables rt"
  shows "execute_task_step \<delta> \<pi> now t (rt\<lparr>rt_task_queue := []\<rparr>) = execute_running_step \<delta> \<pi> now t task (rt\<lparr>rt_task_queue := []\<rparr>)"
  using assms by (auto simp: only_runs_def execute_task_step_def)

lemma ticks_run_machine:
  assumes "only_runs now t task m tables rt" and "run_machine \<delta> \<pi> now fuel tables m = Some out"
  shows "machine_outcome now t task out (fst (run_ticks \<delta> \<pi> now fuel rt)) (snd (run_ticks \<delta> \<pi> now fuel rt))"
  using assms
proof (induction fuel arbitrary: m tables rt)
  case (Suc fuel)
  note runs = Suc.prems(1)
  let ?rt = "rt\<lparr>rt_task_queue := []\<rparr>"
  let ?rt1 = "\<lambda>m' tables'. ?rt\<lparr>rt_execution_handles :=
      AList.update t \<lparr>eh_state_machine = m', eh_executor = tables'\<rparr> (rt_execution_handles rt)\<rparr>"
  from runs have queue: "rt_task_queue rt = [t]"
    and h: "map_of (rt_execution_handles rt) t = Some \<lparr>eh_state_machine = m, eh_executor = tables\<rparr>"
    and id: "at_task_id task = t" "map_of (rt_active_tasks rt) t = Some task"
    by (simp_all add: only_runs_def)
  note step = only_runs_step [OF runs, of \<delta> \<pi>]
  show ?case
  proof (cases "execute_step \<delta> \<pi> now tables m")
    case (Inl a)
    then have "tick \<delta> \<pi> now rt = (Panics a, ?rt)" using queue h step by (simp add: tick_def execute_running_step_def)
    moreover have "out = Inl a" using Inl Suc.prems(2) by simp
    ultimately show ?thesis by (simp add: and_then_def machine_outcome_def)
  next
    case (Inr x)
    obtain res m' tables' where x: "x = (res, m', tables')" by (cases x)
    show ?thesis
    proof (cases res)
      case (Inl err)
      with queue h step Inr x have
        "tick \<delta> \<pi> now rt = and_then (fail_task \<pi> now t err) (\<lambda>_. succeed True) (?rt1 m' tables')"
        by (simp add: tick_def execute_running_step_def Let_def)
      moreover have "out = Inr (Inl err, m', tables')" using Suc.prems(2) Inr Inl x by simp
      ultimately show ?thesis
        by (simp add: and_then_def fail_task_def complete_task_def Let_def record_result_def map_of_update machine_outcome_def)
    next
      case next_step: (Inr y)
      show ?thesis
      proof (cases y)
        case RContinue
        with queue h step Inr x next_step have "tick \<delta> \<pi> now rt = (Returns (Inr True), enqueue_local_task t (?rt1 m' tables'))"
          by (simp add: tick_def execute_running_step_def Let_def)
        moreover from runs have "only_runs now t task m' tables' (enqueue_local_task t (?rt1 m' tables'))"
          by (simp add: only_runs_def enqueue_local_task_def map_of_update)
        ultimately show ?thesis using Suc.prems(2) Suc.IH Inr x next_step RContinue by (simp add: and_then_def)
      next
        case (RYield yp)
        then have "tick \<delta> \<pi> now rt = (Returns (Inr True), set_task_state task (TSuspended yp now) (?rt1 m' tables'))"
          using queue h step Inr x next_step by (simp add: tick_def execute_running_step_def Let_def)
        moreover have "out = Inr (Inr (RYield yp), m', tables')" using Suc.prems(2) Inr x next_step RYield by simp
        ultimately show ?thesis using id
          by (simp add: and_then_def run_ticks_idle set_task_state_def machine_outcome_def map_of_update)
      next
        case (RCompleted r)
        let ?rt2 = "set_task_state task (TCompleted r now) (?rt1 m' tables')"
        from RCompleted queue h step Inr x next_step have "tick \<delta> \<pi> now rt =
            (Returns (Inr True), snd (complete_task \<pi> False t (Inr r) ?rt2))"
          by (simp add: tick_def execute_running_step_def Let_def and_then_def succeed_def complete_task_def)
        moreover have "rt_task_queue (snd (complete_task \<pi> False t (Inr r) ?rt2)) = []"
          "map_of (rt_active_tasks (snd (complete_task \<pi> False t (Inr r) ?rt2))) t = Some (task\<lparr>at_state := TCompleted r now\<rparr>)"
          "map_of (rt_completed_tasks (snd (complete_task \<pi> False t (Inr r) ?rt2))) t = Some (Inr r)"
          "map_of (rt_execution_handles (snd (complete_task \<pi> False t (Inr r) ?rt2))) t = None"
          using id by (auto simp: complete_task_def Let_def release_task_resources_def record_result_def set_task_state_def
              map_of_update map_of_delete split: option.splits)
        moreover have "out = Inr (Inr (RCompleted r), m', tables')" using Suc.prems(2) Inr x next_step RCompleted by simp
        ultimately show ?thesis
          by (simp add: and_then_def run_ticks_idle machine_outcome_def)
      qed
    qed
  qed
qed simp

text \<open>When every resource is granted and the time limit is not passed, the statements decide.\<close>

lemma plain_system_runs:
  assumes "rt_task_queue rt = []"
    and "submit_system now s parameters priority timeout n rt = (Inr f, rt1, n')"
    and "\<forall>st \<in> set (sd_body s). plain_statement functions st"
    and "build_state_machine functions show_expr now s parameters k = Inr (m, k')"
    and "attach_execution_plan n m tables rt1 = (Inr (), rt2)"
    and "acquire_parameters \<pi> later (rc_resource_lease_timeout (rt_config rt)) (sd_name s) (sd_parameters s) []
           (rt_resource_tracker rt) = (Inr (), handles, tr)"
    and "later - now \<le> unwrap_or_else timeout (rc_default_task_timeout (rt_config rt))"
  shows "case run_statements (sd_body s) (holding (extract_required_resources s) (context_new now)) of
      Inl err \<Rightarrow> fst (run_ticks \<delta> \<pi> later (Suc (2 * length (sd_body s) + 2)) rt2) = Blocked
    | Inr _ \<Rightarrow> \<exists>rt3. run_ticks \<delta> \<pi> later (Suc (2 * length (sd_body s) + 2)) rt2 = (Returns (Inr ()), rt3) \<and>
        rt_task_queue rt3 = [] \<and> try_get_result rt3 f = Some (Inr (Success None [] [])) \<and>
        map_option at_state (map_of (rt_active_tasks rt3) n) = Some (TCompleted (Success None [] []) later) \<and>
        map_of (rt_execution_handles rt3) n = None"
proof -
  let ?fuel = "2 * length (sd_body s) + 2"
  obtain u where "validate_system_execution s parameters = Inr u"
    using assms(2) by (cases "validate_system_execution s parameters") (simp_all add: submit_system_def)
  from submitted_task [OF this assms(2)] obtain task where task: "at_task_id task = n" "at_state task = TPending"
    "at_system_def task = s" "at_created_at task = now" "at_resource_handles task = []"
    "at_timeout task = Some (unwrap_or_else timeout (rc_default_task_timeout (rt_config rt)))"
    and rt1: "rt1 = enqueue_local_task n (rt\<lparr>rt_active_tasks := AList.update n task (rt_active_tasks rt)\<rparr>)"
    and f: "f = \<lparr>sf_task_id = n, sf_priority = priority\<rparr>" by blast
  from assms(5) have rt2: "rt2 = rt1\<lparr>rt_execution_handles :=
      AList.update n \<lparr>eh_state_machine = m, eh_executor = tables\<rparr> (rt_execution_handles rt1)\<rparr>"
    by (simp add: attach_execution_plan_def split: if_splits)
  let ?task = "task\<lparr>at_resource_handles := handles, at_state := TRunning later\<rparr>"
  let ?rt = "enqueue_local_task n (set_task_state (task\<lparr>at_resource_handles := handles\<rparr>) (TRunning later)
      (rt2\<lparr>rt_task_queue := [], rt_resource_tracker := tr\<rparr>))"
  have first: "tick \<delta> \<pi> later rt2 = (Returns (Inr True), ?rt)"
    using task assms(1,6,7) by (simp add: tick_def rt2 rt1 enqueue_local_task_def execute_task_step_def map_of_update
        task_timed_out_def acquire_task_resources_def)
  have runs: "only_runs later n ?task m tables ?rt"
    using task assms(7) by (simp add: only_runs_def enqueue_local_task_def set_task_state_def rt2 map_of_update task_timed_out_def)
  have ticks: "run_ticks \<delta> \<pi> later (Suc ?fuel) rt2 = run_ticks \<delta> \<pi> later ?fuel ?rt"
    by (simp only: run_ticks.simps and_then_def first outcome.case sum.case prod.case)
  note outcome = ticks_run_machine [OF runs]
  note machine = plain_machine_run [OF assms(3,4), where \<delta> = \<delta> and \<pi> = \<pi> and tables = tables]
  show ?thesis
  proof (cases "run_statements (sd_body s) (holding (extract_required_resources s) (context_new now))")
    case (Inl err)
    with machine obtain m' where "run_machine \<delta> \<pi> later ?fuel tables m = Some (Inr (Inl err, m', tables))" by auto
    from outcome [OF this] Inl show ?thesis unfolding ticks by (simp add: machine_outcome_def)
  next
    case (Inr ctx)
    with machine obtain m' where
      "run_machine \<delta> \<pi> later ?fuel tables m = Some (Inr (Inr (RCompleted (Success None [] [])), m', tables))" by auto
    note outcome = outcome [OF this]
    obtain r rt3 where rt3: "run_ticks \<delta> \<pi> later ?fuel ?rt = (r, rt3)" by force
    with outcome have "r = Returns (Inr ()) \<and> rt_task_queue rt3 = [] \<and> try_get_result rt3 f = Some (Inr (Success None [] [])) \<and>
        map_option at_state (map_of (rt_active_tasks rt3) n) = Some (TCompleted (Success None [] []) later) \<and>
        map_of (rt_execution_handles rt3) n = None"
      unfolding rt3 fst_conv snd_conv by (simp add: machine_outcome_def f try_get_result_def)
    with Inr rt3 show ?thesis unfolding ticks by (simp only: sum.case) blast
  qed
qed

lemma tick_failing_step:
  assumes "rt_task_queue rt = t # rest" and "execute_task_step \<delta> \<pi> now t (rt\<lparr>rt_task_queue := rest\<rparr>) = (Returns (Inl err), rt')"
  shows "fst (run_ticks \<delta> \<pi> now (Suc k) rt) = Blocked"
proof -
  have "fst (tick \<delta> \<pi> now rt) = fst (and_then (fail_task \<pi> now t err) (\<lambda>_. succeed True) rt')"
    using assms by (simp add: tick_def)
  also have "\<dots> = Blocked" using fail_task_blocks [of \<pi> now t err rt'] by (auto simp: and_then_def split: prod.splits)
  finally show ?thesis by (auto simp: and_then_def split: prod.splits)
qed

text \<open>
  C9: A system without queries, loops and calls of asynchronous functions is submitted to a runtime whose
  queue is empty, and its machine is attached. When its time limit is not passed, all the resources it
  declares are granted and its statements succeed, it ends within as many ticks as its machine has steps,
  and one: its future is ready with its success, its task is completed, and its machine is gone. In every
  other case, a limit that has passed, a resource that is refused or a statement that fails, the runtime
  hangs in these ticks.
\<close>

theorem submitted_system_completes:
  assumes "rt_task_queue rt = []"
    and "submit_system now s parameters priority timeout n rt = (Inr f, rt1, n')"
    and "\<forall>st \<in> set (sd_body s). plain_statement functions st"
    and "build_state_machine functions show_expr now s parameters k = Inr (m, k')"
    and "attach_execution_plan n m tables rt1 = (Inr (), rt2)"
  shows "if later - now \<le> unwrap_or_else timeout (rc_default_task_timeout (rt_config rt)) \<and>
        is_ok (fst (acquire_parameters \<pi> later (rc_resource_lease_timeout (rt_config rt)) (sd_name s)
          (sd_parameters s) [] (rt_resource_tracker rt))) \<and>
        is_ok (run_statements (sd_body s) (holding (extract_required_resources s) (context_new now)))
    then \<exists>rt3. run_ticks \<delta> \<pi> later (Suc (2 * length (sd_body s) + 2)) rt2 = (Returns (Inr ()), rt3) \<and>
        rt_task_queue rt3 = [] \<and> try_get_result rt3 f = Some (Inr (Success None [] [])) \<and>
        map_option at_state (map_of (rt_active_tasks rt3) n) = Some (TCompleted (Success None [] []) later) \<and>
        map_of (rt_execution_handles rt3) n = None
    else fst (run_ticks \<delta> \<pi> later (Suc (2 * length (sd_body s) + 2)) rt2) = Blocked"
proof -
  let ?limit = "unwrap_or_else timeout (rc_default_task_timeout (rt_config rt))"
  obtain u where "validate_system_execution s parameters = Inr u"
    using assms(2) by (cases "validate_system_execution s parameters") (simp_all add: submit_system_def)
  from submitted_task [OF this assms(2)] obtain task where task: "at_task_id task = n" "at_state task = TPending"
    "at_system_def task = s" "at_created_at task = now" "at_resource_handles task = []" "at_timeout task = Some ?limit"
    and rt1: "rt1 = enqueue_local_task n (rt\<lparr>rt_active_tasks := AList.update n task (rt_active_tasks rt)\<rparr>)" by blast
  from assms(5) have rt2: "rt2 = rt1\<lparr>rt_execution_handles :=
      AList.update n \<lparr>eh_state_machine = m, eh_executor = tables\<rparr> (rt_execution_handles rt1)\<rparr>"
    by (simp add: attach_execution_plan_def split: if_splits)
  have queue: "rt_task_queue rt2 = n # []" using assms(1) by (simp add: rt2 rt1 enqueue_local_task_def)
  have found: "map_of (rt_active_tasks (rt2\<lparr>rt_task_queue := []\<rparr>)) n = Some task"
    by (simp add: rt2 rt1 enqueue_local_task_def map_of_update)
  obtain r handles tr where acq: "acquire_parameters \<pi> later (rc_resource_lease_timeout (rt_config rt)) (sd_name s)
      (sd_parameters s) [] (rt_resource_tracker rt) = (r, handles, tr)" by (rule prod_cases3)
  note hangs = tick_failing_step [OF queue, of \<delta> \<pi> later]
  consider "\<not> later - now \<le> ?limit" | err where "later - now \<le> ?limit" "r = Inl err" | "later - now \<le> ?limit" "r = Inr ()"
    by (cases r) auto
  then show ?thesis
  proof cases
    case 1
    then have "execute_task_step \<delta> \<pi> later n (rt2\<lparr>rt_task_queue := []\<rparr>) =
        (Returns (Inl (ATimeout (sd_name s) ?limit)), rt2\<lparr>rt_task_queue := []\<rparr>)"
      using found task by (simp add: execute_task_step_def task_timed_out_def)
    from hangs [OF this] 1 show ?thesis by (simp del: run_ticks.simps)
  next
    case 2
    then have "acquire_task_resources \<pi> later task (rt2\<lparr>rt_task_queue := []\<rparr>) = (Inl err, task\<lparr>at_resource_handles := handles\<rparr>,
        rt2\<lparr>rt_task_queue := [], rt_resource_tracker := tr\<rparr>)"
      using acq task by (simp add: acquire_task_resources_def rt2 rt1 enqueue_local_task_def)
    with 2 found task obtain rt' where "execute_task_step \<delta> \<pi> later n (rt2\<lparr>rt_task_queue := []\<rparr>) = (Returns (Inl err), rt')"
      by (simp add: execute_task_step_def task_timed_out_def)
    from hangs [OF this] 2 acq show ?thesis by (simp del: run_ticks.simps)
  next
    case 3
    from plain_system_runs [OF assms acq [unfolded 3(2)] 3(1), of \<delta>] 3 acq show ?thesis
      by (cases "run_statements (sd_body s) (holding (extract_required_resources s) (context_new now))")
        (simp_all del: run_ticks.simps)
  qed
qed

section \<open>Witnesses\<close>

definition demo_config :: runtime_config where
  "demo_config =
     \<lparr>rc_max_concurrent_systems = 1, rc_default_task_timeout = 5, rc_resource_lease_timeout = 5,
      rc_scheduling_quantum = 1, rc_enable_preemption = True\<rparr>"

definition demo_new :: async_runtime where
  "demo_new = runtime_new demo_config"

definition demo_submitted :: async_runtime where
  "demo_submitted = fst (snd (submit_system 0 demo_counter [] Normal None 0 demo_new))"

lemma demo_submit: "submit_system 0 demo_counter [] Normal None 0 demo_new =
    (Inr \<lparr>sf_task_id = 0, sf_priority = Normal\<rparr>, demo_submitted, 1)"
  by (simp add: demo_submitted_def submit_system_def validate_system_execution_def demo_counter_def Let_def)

text \<open>A machine that sleeps is attached, and two ticks are made.\<close>

definition demo_sleeper :: state_machine where
  "demo_sleeper = \<lparr>sm_system_name = ''counter'', states = [Sleep 3 1], current_state = 0,
     execution_context = context_new 0, sm_parameters = []\<rparr>"

definition demo_attached :: async_runtime where
  "demo_attached = snd (attach_execution_plan 0 demo_sleeper [] demo_submitted)"

definition demo_started :: async_runtime where
  "demo_started = snd (tick (\<lambda>s. s) rev 0 demo_attached)"

definition demo_asleep :: async_runtime where
  "demo_asleep = snd (tick (\<lambda>s. s) rev 0 demo_started)"

lemma demo_ticks:
  "tick (\<lambda>s. s) rev 0 demo_attached = (Returns (Inr True), demo_started)"
  "tick (\<lambda>s. s) rev 0 demo_started = (Returns (Inr True), demo_asleep)"
proof -
  have "fst (tick (\<lambda>s. s) rev 0 demo_attached) = Returns (Inr True)"
    "fst (tick (\<lambda>s. s) rev 0 demo_started) = Returns (Inr True)" by code_simp+
  then show "tick (\<lambda>s. s) rev 0 demo_attached = (Returns (Inr True), demo_started)"
    "tick (\<lambda>s. s) rev 0 demo_started = (Returns (Inr True), demo_asleep)"
    unfolding demo_started_def demo_asleep_def by (simp_all add: prod_eq_iff)
qed

lemma demo_asleep_run:
  "runtime_run (\<lambda>s. s) rev (runtime_new demo_config, 0) [ESubmit, EAttach 0, ETick, ETick] (demo_asleep, 1)"
proof -
  note new = runtime_run.none [of "\<lambda>s. s" rev "(runtime_new demo_config, 0)"]
  note a = runtime_run.more [OF new runtime_step.submitted [OF demo_submit [unfolded demo_new_def]]]
  have "attach_execution_plan 0 demo_sleeper [] demo_submitted = (fst (attach_execution_plan 0 demo_sleeper [] demo_submitted), demo_attached)"
    by (simp add: demo_attached_def)
  note b = runtime_run.more [OF a runtime_step.attached [OF this]]
  note c = runtime_run.more [OF b runtime_step.ticked [OF demo_ticks(1)]]
  note d = runtime_run.more [OF c runtime_step.ticked [OF demo_ticks(2)]]
  then show ?thesis by simp
qed

lemma demo_asleep_suspended: "suspended_in demo_asleep 0 (Sleeping 3 0) 0"
proof -
  have "map_option at_state (map_of (rt_active_tasks demo_asleep) 0) = Some (TSuspended (Sleeping 3 0) 0)"
    "map_of (rt_completed_tasks demo_asleep) 0 = None" by code_simp+
  then show ?thesis by (auto simp: suspended_in_def)
qed

lemma runtime_invariant_witness:
  "rt_task_queue demo_asleep = [] \<and> map_of (rt_completed_tasks demo_asleep) 0 = None"
proof -
  have "map_option at_state (map_of (rt_active_tasks demo_asleep) 0) = Some (TSuspended (Sleeping 3 0) 0)"
    "rt_task_queue demo_asleep = []" by code_simp+
  then obtain task where "map_of (rt_active_tasks demo_asleep) 0 = Some task" "at_state task = TSuspended (Sleeping 3 0) 0"
    "rt_task_queue demo_asleep = []" by auto
  then show ?thesis
    using runtime_invariant [OF demo_asleep_run, THEN conjunct2, THEN conjunct1, THEN spec, THEN spec, THEN mp, of 0 task] by simp
qed

text \<open>At time 9 the sleep of 3 is long over.\<close>

lemma suspended_never_resumes_witness:
  "\<exists>rt. tick (\<lambda>s. s) rev 9 demo_asleep = (Returns (Inr False), rt) \<and> suspended_in rt 0 (Sleeping 3 0) 0 \<and>
     try_get_result rt \<lparr>sf_task_id = 0, sf_priority = Normal\<rparr> = None"
proof -
  have "rt_task_queue demo_asleep = []" by code_simp
  then have idle: "tick (\<lambda>s. s) rev 9 demo_asleep = (Returns (Inr False), demo_asleep)" by (simp add: tick_def)
  from runtime_run.more [OF runtime_run.none runtime_step.ticked [OF idle]]
  have "runtime_run (\<lambda>s. s) rev (demo_asleep, 1) [ETick] (demo_asleep, 1)" by simp
  from suspended_never_resumes [OF demo_asleep_run demo_asleep_suspended this, of Normal] idle show ?thesis by simp
qed

text \<open>The task of a system without a machine hangs the runtime in its second tick.\<close>

lemma tick_blocks_on_failure_witness:
  "\<exists>rt. tick (\<lambda>s. s) rev 0 demo_submitted = (Returns (Inr True), rt) \<and> fst (tick (\<lambda>s. s) rev 0 rt) = Blocked"
proof -
  let ?rt = "snd (tick (\<lambda>s. s) rev 0 demo_submitted)"
  have first: "fst (tick (\<lambda>s. s) rev 0 demo_submitted) = Returns (Inr True)" by code_simp
  have queue: "rt_task_queue ?rt = [0]" by code_simp
  have "fst (execute_task_step (\<lambda>s. s) rev 0 0 (?rt\<lparr>rt_task_queue := []\<rparr>)) =
      Returns (Inl (ASystemError ''counter'' ''No execution plan registered for task TaskId(0)''))" by code_simp
  with queue tick_blocks_on_failure [of "\<lambda>s. s" rev 0 ?rt] have "fst (tick (\<lambda>s. s) rev 0 ?rt) = Blocked" by blast
  with first show ?thesis by (intro exI [of _ ?rt]) (simp add: prod_eq_iff)
qed

lemma submitted_system_completes_witness:
  "\<exists>rt2 rt3. run_ticks (\<lambda>s. s) rev 2 7 rt2 = (Returns (Inr ()), rt3) \<and> rt_task_queue rt2 = [0] \<and>
     try_get_result rt3 \<lparr>sf_task_id = 0, sf_priority = Normal\<rparr> = Some (Inr (Success None [] []))"
proof -
  have plain: "\<forall>st \<in> set (sd_body demo_counter). plain_statement [] st" by (simp add: demo_counter_def)
  obtain m where m: "build_state_machine [] (\<lambda>_. []) 0 demo_counter [] 0 = Inr (m, 0)" using build_plain [OF plain] by blast
  have free: "\<not> hm_contains (rt_execution_handles demo_submitted) 0" by code_simp
  then obtain rt2 where rt2: "attach_execution_plan 0 m [] demo_submitted = (Inr (), rt2)"
    "rt_task_queue rt2 = rt_task_queue demo_submitted" by (auto simp: attach_execution_plan_def)
  have acquired: "is_ok (fst (acquire_parameters rev 2 (rc_resource_lease_timeout (rt_config demo_new)) (sd_name demo_counter)
      (sd_parameters demo_counter) [] (rt_resource_tracker demo_new)))" by code_simp
  have time: "(2::nat) - 0 \<le> unwrap_or_else None (rc_default_task_timeout (rt_config demo_new))" by code_simp
  have idle: "rt_task_queue demo_new = []" "rt_task_queue demo_submitted = [0]" by code_simp+
  have "is_ok (run_statements (sd_body demo_counter) (holding (extract_required_resources demo_counter) (context_new 0)))"
    by code_simp
  with submitted_system_completes [OF idle(1) demo_submit plain m rt2(1), of 2 rev "\<lambda>s. s"] acquired time
  obtain rt3 where "run_ticks (\<lambda>s. s) rev 2 (Suc (2 * length (sd_body demo_counter) + 2)) rt2 = (Returns (Inr ()), rt3)"
    "try_get_result rt3 \<lparr>sf_task_id = 0, sf_priority = Normal\<rparr> = Some (Inr (Success None [] []))"
    by (auto simp del: run_ticks.simps)
  moreover have "Suc (2 * length (sd_body demo_counter) + 2) = 7" by (simp add: demo_counter_def)
  ultimately show ?thesis using rt2(2) idle(2) by (metis)
qed

end
