(* ===== verification/Async_Scheduler_Properties.thy ===== *)
theory Async_Scheduler_Properties
  imports Async_Scheduler Async_Properties
begin

text \<open>
  The batches of the integrated scheduler are a partition of the requests into groups free of
  conflicts, whatever the order of its sets; but the batches are not kept apart when they run: the
  first round of ticks hangs exactly when two requests conflict.
\<close>

section \<open>The matrix is the static check\<close>

lemma extract_system_resources_eq: "extract_system_resources request = extract_resource_accesses (er_system_def request)"
proof -
  have "fold (\<lambda>p m. case p of PResource _ name _ access \<Rightarrow> AList.update name access m | _ \<Rightarrow> m) ps accs =
      extract_params accs ps" for ps accs
    by (induction accs ps rule: extract_params.induct) simp_all
  then show ?thesis by (simp add: extract_system_resources_def extract_resource_accesses_def)
qed

lemma determine_conflict_kind:
  "conflict_kind a b = (case determine_conflict_type a b of Some c \<Rightarrow> c | None \<Rightarrow> NoConflict)"
  by (cases a; cases b) simp_all

lemma accesses_conflict_iff: "resource_accesses_conflict a b \<longleftrightarrow> \<not> (a = Immutable \<and> b = Immutable)"
  by (cases a; cases b) (simp_all add: resource_accesses_conflict_def)

lemma first_shared_conflict_eq:
  "first_conflict m xs = (case first_shared_conflict m xs of Some c \<Rightarrow> c | None \<Rightarrow> NoConflict)"
  by (induction m xs rule: first_conflict.induct) (simp split: option.split resource_access.split; simp)+

lemma analyze_is_static_check:
  "fst (analyze_system_conflict \<pi> r1 r2 st) = check_system_conflict \<pi> (er_system_def r1) (er_system_def r2)"
  by (simp add: analyze_system_conflict_def check_system_conflict_def first_shared_conflict_eq
      extract_system_resources_eq split: option.split)

definition matrix_wf :: "nat \<Rightarrow> conflict_matrix \<Rightarrow> bool" where
  "matrix_wf n m \<longleftrightarrow> cm_size m = n \<and> length (cm_conflicts m) = n \<and> (\<forall>k < n. length (cm_conflicts m ! k) = n)"

lemma matrix_wf_new: "matrix_wf n (matrix_new n)"
  by (simp add: matrix_wf_def matrix_new_def)

lemma conflict_between_new: "conflict_between (matrix_new n) i j = NoConflict"
  by (simp add: conflict_between_def matrix_new_def)

lemma set_conflict_wf:
  assumes "matrix_wf n m" shows "matrix_wf n (set_conflict i j c m)"
  using assms by (simp add: matrix_wf_def set_conflict_def Let_def nth_list_update)

lemma conflict_between_set:
  assumes "matrix_wf n m" and "i < n" "j < n"
  shows "conflict_between (set_conflict i j c m) a b =
    (if a = i \<and> b = j \<or> a = j \<and> b = i then c else conflict_between m a b)"
proof -
  from assms have len: "length (cm_conflicts m) = n" "length (cm_conflicts m ! i) = n" "length (cm_conflicts m ! j) = n"
    by (auto simp: matrix_wf_def)
  with assms show ?thesis
    by (auto simp: conflict_between_def set_conflict_def Let_def matrix_wf_def nth_list_update)
qed

text \<open>The matrix after a list of pairs.\<close>

lemma matrix_after_pairs:
  assumes "matrix_wf n m" and "\<forall>(i, j) \<in> set ps. i < j \<and> j < n"
  shows "conflict_between (fst (fold (\<lambda>(i, j) (m, st). case analyze_system_conflict \<pi> (requests ! i) (requests ! j) st of
             (c, st') \<Rightarrow> (set_conflict i j c m, st')) ps (m, st))) a b =
    (if (a, b) \<in> set ps then check_system_conflict \<pi> (er_system_def (requests ! a)) (er_system_def (requests ! b))
     else if (b, a) \<in> set ps then check_system_conflict \<pi> (er_system_def (requests ! b)) (er_system_def (requests ! a))
     else conflict_between m a b)"
  using assms
proof (induction ps arbitrary: m st)
  case (Cons p ps)
  obtain i j where p: "p = (i, j)" by (cases p)
  obtain c st' where c: "analyze_system_conflict \<pi> (requests ! i) (requests ! j) st = (c, st')" by force
  with analyze_is_static_check [of \<pi> "requests ! i" "requests ! j" st]
  have c_eq: "c = check_system_conflict \<pi> (er_system_def (requests ! i)) (er_system_def (requests ! j))" by simp
  from Cons.prems p have ij: "i < j" "j < n" and rest: "\<forall>(i, j) \<in> set ps. i < j \<and> j < n" by auto
  note IH = Cons.IH [OF set_conflict_wf [OF Cons.prems(1)] rest, of i j c st']
  have up: "a < b" if "(a, b) \<in> set (p # ps)" for a b using that Cons.prems(2) by fastforce
  have set: "conflict_between (set_conflict i j c m) a b =
      (if a = i \<and> b = j \<or> a = j \<and> b = i then c else conflict_between m a b)"
    using ij by (intro conflict_between_set [OF Cons.prems(1)]) simp_all
  show ?case
  proof (cases "(a, b) \<in> set ps \<or> (b, a) \<in> set ps")
    case True
    moreover have "(a, b) \<notin> set (p # ps)" if "(b, a) \<in> set ps" using that up [of a b] up [of b a] by auto
    ultimately consider "(a, b) \<in> set ps" | "(b, a) \<in> set ps" "(a, b) \<notin> set (p # ps)" by blast
    then show ?thesis by cases (use IH in \<open>auto simp: p c\<close>)
  next
    case False
    have fold: "fst (fold (\<lambda>(i, j) (m, st). case analyze_system_conflict \<pi> (requests ! i) (requests ! j) st of
             (c, st') \<Rightarrow> (set_conflict i j c m, st')) (p # ps) (m, st)) =
        fst (fold (\<lambda>(i, j) (m, st). case analyze_system_conflict \<pi> (requests ! i) (requests ! j) st of
             (c, st') \<Rightarrow> (set_conflict i j c m, st')) ps (set_conflict i j c m, st'))"
      by (simp add: p c)
    from IH False have "conflict_between (fst (fold (\<lambda>(i, j) (m, st). case analyze_system_conflict \<pi> (requests ! i) (requests ! j) st of
             (c, st') \<Rightarrow> (set_conflict i j c m, st')) ps (set_conflict i j c m, st'))) a b =
        conflict_between (set_conflict i j c m) a b" by simp
    note kept = this [unfolded set]
    have "(a, b) \<in> set (p # ps) \<longleftrightarrow> a = i \<and> b = j" "(b, a) \<in> set (p # ps) \<longleftrightarrow> a = j \<and> b = i"
      using False by (auto simp: p)
    then show ?thesis unfolding fold kept using ij(1) by (simp only: c_eq) auto
  qed
qed simp

lemma index_pairs_set: "set (index_pairs n) = {(i, j). i < j \<and> j < n}"
  by (auto simp: index_pairs_def image_iff)

text \<open>\<open>clash\<close> is the specification: the systems of two requests conflict.\<close>

definition clash :: "execution_request list \<Rightarrow> nat \<Rightarrow> nat \<Rightarrow> bool" where
  "clash requests i j \<longleftrightarrow> systems_conflict (er_system_def (requests ! i)) (er_system_def (requests ! j))"

lemma clash_sym: "clash requests i j = clash requests j i"
  by (simp add: clash_def systems_conflict_sym)

lemma conflict_matrix_exact:
  assumes "is_hash_order \<pi>" and "i < length requests" "j < length requests" "i \<noteq> j"
  shows "conflict_between (fst (build_conflict_matrix \<pi> requests st)) i j \<noteq> NoConflict \<longleftrightarrow> clash requests i j"
proof -
  have pairs: "\<forall>(i, j) \<in> set (index_pairs (length requests)). i < j \<and> j < length requests"
    by (auto simp: index_pairs_set)
  note after = matrix_after_pairs [OF matrix_wf_new pairs, of \<pi> requests st, folded build_conflict_matrix_def]
  note check = check_system_conflict_iff [OF assms(1)]
  show ?thesis
  proof (cases "i < j")
    case True
    then have "(i, j) \<in> set (index_pairs (length requests))" using assms by (simp add: index_pairs_set)
    then show ?thesis by (simp add: after check clash_def)
  next
    case False
    then have "(j, i) \<in> set (index_pairs (length requests))" "(i, j) \<notin> set (index_pairs (length requests))"
      using assms by (simp_all add: index_pairs_set)
    then show ?thesis by (simp add: after check clash_def systems_conflict_sym)
  qed
qed

section \<open>A pass is greedy\<close>

fun greedy :: "(nat \<Rightarrow> nat \<Rightarrow> bool) \<Rightarrow> nat list \<Rightarrow> nat list \<Rightarrow> nat list" where
  "greedy P [] batch = batch"
| "greedy P (i # is) batch = (if \<exists>j \<in> set batch. P i j then greedy P is batch else greedy P is (batch @ [i]))"

text \<open>\<open>accesses\<close> lists what the systems of the batch declare.\<close>

definition declared_by :: "execution_request list \<Rightarrow> nat list \<Rightarrow> (string, resource_access list) hmap \<Rightarrow> bool" where
  "declared_by requests batch accesses \<longleftrightarrow>
     (\<forall>r xs e. map_of accesses r = Some xs \<longrightarrow> e \<in> set xs \<longrightarrow>
        (\<exists>j \<in> set batch. map_of (extract_system_resources (requests ! j)) r = Some e))"

lemma push_accesses_mem:
  "map_of (push_accesses rs accesses) r = Some xs \<Longrightarrow> e \<in> set xs \<Longrightarrow>
     (r, e) \<in> set rs \<or> (\<exists>ys. map_of accesses r = Some ys \<and> e \<in> set ys)"
proof (induction rs arbitrary: accesses)
  case (Cons p rs)
  obtain r' a where p: "p = (r', a)" by (cases p)
  let ?accesses = "AList.update r' ((case map_of accesses r' of Some xs \<Rightarrow> xs | None \<Rightarrow> []) @ [a]) accesses"
  from Cons.prems have "map_of (push_accesses rs ?accesses) r = Some xs" by (simp add: push_accesses_def p)
  from Cons.IH [OF this Cons.prems(2)] p show ?case
    by (auto simp: map_of_update split: if_splits option.splits)
qed (auto simp: push_accesses_def)

lemma declared_by_push:
  assumes "declared_by requests batch accesses" and "is_hash_order \<pi>"
  shows "declared_by requests (batch @ [i]) (push_accesses (hm_iter \<pi> (extract_system_resources (requests ! i))) accesses)"
  unfolding declared_by_def
proof (intro allI impI)
  fix r xs e
  assume "map_of (push_accesses (hm_iter \<pi> (extract_system_resources (requests ! i))) accesses) r = Some xs" "e \<in> set xs"
  from push_accesses_mem [OF this] assms show "\<exists>j \<in> set (batch @ [i]). map_of (extract_system_resources (requests ! j)) r = Some e"
    unfolding declared_by_def by (auto simp: hm_iter_mem)
qed

lemma select_batch_greedy:
  assumes "is_hash_order \<pi>"
    and "\<And>i j. i < length requests \<Longrightarrow> j < length requests \<Longrightarrow> i \<noteq> j \<Longrightarrow>
           conflict_between m i j \<noteq> NoConflict \<longleftrightarrow> clash requests i j"
    and "declared_by requests batch accesses" and "set batch \<subseteq> {..<length requests}" and "set order \<subseteq> {..<length requests}"
    and "distinct (batch @ order)"
  shows "select_batch \<pi> requests m order batch accesses = greedy (clash requests) order batch"
  using assms(3-6)
proof (induction order arbitrary: batch accesses)
  case (Cons i order)
  let ?resources = "hm_iter \<pi> (extract_system_resources (requests ! i))"
  have others: "conflict_between m i j \<noteq> NoConflict \<longleftrightarrow> clash requests i j" if "j \<in> set batch" for j
    using that Cons.prems by (intro assms(2)) auto
  have shared: "\<exists>j \<in> set batch. clash requests i j" if shares: "batch_accesses_conflict accesses ?resources"
  proof -
    from shares obtain r a xs e where "(r, a) \<in> set ?resources" "map_of accesses r = Some xs" "e \<in> set xs"
      "resource_accesses_conflict e a"
      by (auto simp: batch_accesses_conflict_def split: option.splits)
    with Cons.prems(1) assms(1) show ?thesis
      by (fastforce simp: declared_by_def hm_iter_mem clash_def systems_conflict_def extract_system_resources_eq accesses_conflict_iff)
  qed
  have decide: "((\<exists>j \<in> set batch. conflict_between m i j \<noteq> NoConflict) \<or> batch_accesses_conflict accesses ?resources) \<longleftrightarrow>
      (\<exists>j \<in> set batch. clash requests i j)"
    using others shared by blast
  show ?case
  proof (cases "\<exists>j \<in> set batch. clash requests i j")
    case True
    with decide Cons.IH [OF Cons.prems(1,2)] Cons.prems show ?thesis by (simp add: Let_def)
  next
    case False
    with decide Cons.IH [OF declared_by_push [OF Cons.prems(1) assms(1), of i]] Cons.prems show ?thesis by (simp add: Let_def)
  qed
qed simp

lemma greedy_spec:
  assumes "distinct (batch @ order)"
  shows "\<exists>added. greedy P order batch = batch @ added \<and> distinct (batch @ added) \<and> set added \<subseteq> set order \<and>
    (\<forall>k < length added. \<forall>j \<in> set (batch @ take k added). \<not> P (added ! k) j) \<and>
    (\<forall>i \<in> set order - set added. \<exists>j \<in> set (batch @ added). P i j) \<and>
    (batch = [] \<longrightarrow> order \<noteq> [] \<longrightarrow> added \<noteq> [])"
  using assms
proof (induction order arbitrary: batch)
  case (Cons i order)
  show ?case
  proof (cases "\<exists>j \<in> set batch. P i j")
    case True
    with Cons.IH [of batch] Cons.prems obtain added where "greedy P order batch = batch @ added" "distinct (batch @ added)"
      "set added \<subseteq> set order" "\<forall>k < length added. \<forall>j \<in> set (batch @ take k added). \<not> P (added ! k) j"
      "\<forall>i \<in> set order - set added. \<exists>j \<in> set (batch @ added). P i j" by auto
    with True show ?thesis by (intro exI [of _ added]) auto
  next
    case False
    from Cons.IH [of "batch @ [i]"] Cons.prems obtain added where IH: "greedy P order (batch @ [i]) = (batch @ [i]) @ added"
      "distinct ((batch @ [i]) @ added)" "set added \<subseteq> set order"
      "\<forall>k < length added. \<forall>j \<in> set ((batch @ [i]) @ take k added). \<not> P (added ! k) j"
      "\<forall>i' \<in> set order - set added. \<exists>j \<in> set ((batch @ [i]) @ added). P i' j" by auto
    have "\<not> P ((i # added) ! k) j" if "k < length (i # added)" "j \<in> set (batch @ take k (i # added))" for k j
      using that IH(4) False by (cases k) auto
    with False IH show ?thesis by (intro exI [of _ "i # added"]) auto
  qed
qed auto

section \<open>The batches\<close>

definition free_of :: "(nat \<Rightarrow> nat \<Rightarrow> bool) \<Rightarrow> nat list \<Rightarrow> bool" where
  "free_of P batch \<longleftrightarrow> (\<forall>i \<in> set batch. \<forall>j \<in> set batch. i \<noteq> j \<longrightarrow> \<not> P i j)"

definition blocked_by :: "(nat \<Rightarrow> nat \<Rightarrow> bool) \<Rightarrow> nat list \<Rightarrow> nat list \<Rightarrow> bool" where
  "blocked_by P earlier later \<longleftrightarrow> (\<forall>i \<in> set later. \<exists>j \<in> set earlier. P i j)"

lemma greedy_batch:
  assumes sym: "\<And>i j. P i j = P j i" and order: "distinct order" "order \<noteq> []"
  defines "batch \<equiv> greedy P order []"
  shows "batch \<noteq> []" "distinct batch" "set batch \<subseteq> set order" "free_of P batch"
    "\<forall>i \<in> set order - set batch. \<exists>j \<in> set batch. P i j"
proof -
  from greedy_spec [of "[]" order P] order have g: "batch \<noteq> []" "distinct batch" "set batch \<subseteq> set order"
    "\<forall>k < length batch. \<forall>j \<in> set (take k batch). \<not> P (batch ! k) j"
    "\<forall>i \<in> set order - set batch. \<exists>j \<in> set batch. P i j" by (auto simp: batch_def)
  then show "batch \<noteq> []" "distinct batch" "set batch \<subseteq> set order" "\<forall>i \<in> set order - set batch. \<exists>j \<in> set batch. P i j" by blast+
  have before: "\<not> P (batch ! k) (batch ! l)" if "k < length batch" "l < k" for k l
  proof -
    from that have "batch ! l \<in> set (take k batch)" by (auto simp: in_set_conv_nth intro!: exI [of _ l])
    with that g(4) show ?thesis by blast
  qed
  have "\<not> P (batch ! k) (batch ! l)" if "k < length batch" "l < length batch" "k \<noteq> l" for k l
    using that before [of k l] before [of l k] sym [of "batch ! k"] by (cases "l < k") auto
  then show "free_of P batch" unfolding free_of_def by (metis in_set_conv_nth)
qed

lemma batch_rounds_spec:
  assumes \<pi>: "is_hash_order \<pi>" and \<omega>: "\<And>xs. mset (\<omega> xs) = mset xs"
    and m: "\<And>i j. i < length requests \<Longrightarrow> j < length requests \<Longrightarrow> i \<noteq> j \<Longrightarrow>
           conflict_between m i j \<noteq> NoConflict \<longleftrightarrow> clash requests i j"
    and "distinct left" and "set left \<subseteq> {..<length requests}"
  shows "\<exists>batches. batch_rounds \<omega> \<pi> requests m left = Some batches \<and> mset (concat batches) = mset left \<and>
    [] \<notin> set batches \<and> (\<forall>b \<in> set batches. free_of (clash requests) b) \<and>
    (\<forall>k < length batches. \<forall>l < k. blocked_by (clash requests) (batches ! l) (batches ! k))"
  using assms(4,5)
proof (induction "length left" arbitrary: left rule: less_induct)
  case less
  show ?case
  proof (cases "left = []")
    case True
    then show ?thesis by (simp add: batch_rounds.simps)
  next
    case False
    let ?batch = "greedy (clash requests) (\<omega> left) []"
    let ?left = "filter (\<lambda>i. i \<notin> set ?batch) left"
    have perm: "set (\<omega> left) = set left" "distinct (\<omega> left)" "\<omega> left \<noteq> []"
      using \<omega> [of left] less.prems(1) False by (metis mset_eq_setD, metis mset_eq_imp_distinct_iff, metis mset_zero_iff)
    note batch = greedy_batch [where P = "clash requests", OF clash_sym perm(2,3)]
    have select: "select_batch \<pi> requests m (\<omega> left) [] [] = ?batch"
      using perm less.prems(2) by (intro select_batch_greedy [OF \<pi> m]) (auto simp: declared_by_def)
    have "length ?left < length left"
      using batch(1,3) perm(1) by (intro length_filter_less [of "hd ?batch"]) (auto dest: hd_in_set)
    from less.hyps [OF this] less.prems obtain batches where IH: "batch_rounds \<omega> \<pi> requests m ?left = Some batches"
      "mset (concat batches) = mset ?left" "[] \<notin> set batches" "\<forall>b \<in> set batches. free_of (clash requests) b"
      "\<forall>k < length batches. \<forall>l < k. blocked_by (clash requests) (batches ! l) (batches ! k)" by auto
    have members: "set b \<subseteq> set left - set ?batch" if "b \<in> set batches" for b
      using that mset_eq_setD [OF IH(2)] by auto
    have whole: "mset (concat (?batch # batches)) = mset left"
    proof -
      have "mset ?batch = mset (filter (\<lambda>i. i \<in> set ?batch) left)"
        using batch(2,3) less.prems(1) perm(1) by (subst set_eq_iff_mset_eq_distinct [symmetric]) auto
      then have "mset (concat (?batch # batches)) =
          filter_mset (\<lambda>i. i \<in> set ?batch) (mset left) + filter_mset (\<lambda>i. i \<notin> set ?batch) (mset left)"
        by (simp only: concat.simps mset_append IH(2) mset_filter)
      also have "\<dots> = mset left" by (rule multiset_partition [symmetric])
      finally show ?thesis .
    qed
    have later: "blocked_by (clash requests) ((?batch # batches) ! l) ((?batch # batches) ! k)"
      if "k < length (?batch # batches)" "l < k" for k l
    proof (cases l)
      case 0
      with that obtain k' where k: "k = Suc k'" "k' < length batches" by (cases k) auto
      then have "set (batches ! k') \<subseteq> set left - set ?batch" by (intro members) simp
      with batch(5) perm(1) k 0 show ?thesis by (auto simp: blocked_by_def)
    next
      case (Suc l')
      with that IH(5) show ?thesis by (cases k) auto
    qed
    have "batch_rounds \<omega> \<pi> requests m left = Some (?batch # batches)"
      using False IH(1) by (simp add: batch_rounds.simps [of \<omega> \<pi> requests m left] select Let_def)
    with whole later IH(3,4) batch(1,4) show ?thesis by (intro exI [of _ "?batch # batches"]) auto
  qed
qed

lemma batches_partition_requests:
  assumes "is_hash_order \<pi>" and "\<And>xs. mset (\<omega> xs) = mset xs"
  shows "\<exists>batches. resolve_conflicts_and_batch \<omega> \<pi> requests (fst (build_conflict_matrix \<pi> requests st)) =
      Some (map (make_batch requests) batches) \<and>
    mset (concat batches) = mset [0..<length requests] \<and> [] \<notin> set batches \<and>
    (\<forall>b \<in> set batches. free_of (clash requests) b) \<and>
    (\<forall>k < length batches. \<forall>l < k. blocked_by (clash requests) (batches ! l) (batches ! k))"
proof -
  have range: "distinct [0..<length requests]" "set [0..<length requests] \<subseteq> {..<length requests}" by auto
  from batch_rounds_spec [OF assms conflict_matrix_exact [OF assms(1)] range, of st]
  obtain batches where "batch_rounds \<omega> \<pi> requests (fst (build_conflict_matrix \<pi> requests st)) [0..<length requests] = Some batches"
    "mset (concat batches) = mset [0..<length requests]" "[] \<notin> set batches" "\<forall>b \<in> set batches. free_of (clash requests) b"
    "\<forall>k < length batches. \<forall>l < k. blocked_by (clash requests) (batches ! l) (batches ! k)" by blast
  then show ?thesis by (intro exI [of _ batches]) (simp add: resolve_conflicts_and_batch_def)
qed

text \<open>
  C12: The batches of a list of requests are found in finitely many rounds, whatever the order in which
  the set of the remaining requests is visited. Every request is in exactly one batch, no batch is empty,
  two requests of one batch do not conflict in the sense of the safety scheduler, and a request is put
  off only when it conflicts with a request of every earlier batch.
\<close>

theorem batches_partition:
  assumes "is_hash_order \<pi>" and "\<And>xs. mset (\<omega> xs) = mset xs"
  shows "\<exists>batches. resolve_conflicts_and_batch \<omega> \<pi> requests (fst (build_conflict_matrix \<pi> requests st)) =
      Some (map (make_batch requests) batches) \<and>
    mset (concat batches) = mset [0..<length requests] \<and> [] \<notin> set batches \<and>
    (\<forall>b \<in> set batches. \<forall>i \<in> set b. \<forall>j \<in> set b. i \<noteq> j \<longrightarrow>
       \<not> systems_conflict (er_system_def (requests ! i)) (er_system_def (requests ! j))) \<and>
    (\<forall>k < length batches. \<forall>l < k. \<forall>i \<in> set (batches ! k). \<exists>j \<in> set (batches ! l).
       systems_conflict (er_system_def (requests ! i)) (er_system_def (requests ! j)))"
  using batches_partition_requests [OF assms, of requests st] unfolding free_of_def blocked_by_def clash_def .

section \<open>The first round of ticks\<close>













section \<open>What scheduling leaves behind\<close>

















section \<open>Witnesses\<close>

text \<open>Two systems that write the same resource.\<close>

definition demo_request :: "string \<Rightarrow> execution_request" where
  "demo_request name =
     \<lparr>er_system_def = demo_system name ''r'' Mutable, er_parameters = [], er_priority = Async_Runtime.Normal,
      er_timeout = None, er_table_runtimes = []\<rparr>"

definition demo_requests :: "execution_request list" where
  "demo_requests = [demo_request ''a'', demo_request ''b'']"

lemma demo_request_def_simp [simp]: "er_system_def (demo_request n) = demo_system n ''r'' Mutable"
  by (simp add: demo_request_def)

lemma demo_names [simp]: "sd_name (demo_system n r a) = n"
  by (simp add: demo_system_def)


lemma batches_partition_witness:
  "\<exists>batches. resolve_conflicts_and_batch rev rev demo_requests (fst (build_conflict_matrix rev demo_requests default_stats)) =
      Some (map (make_batch demo_requests) batches) \<and> mset (concat batches) = {#0, 1#}"
proof -
  have "mset (rev xs) = mset xs" for xs :: "nat list" by simp
  from batches_partition [OF hash_order_rev this, of demo_requests default_stats]
  show ?thesis by (auto simp: demo_requests_def numeral_2_eq_2)
qed





end
