(* ===== verification/Event_Loop.thy ===== *)
theory Event_Loop
  imports Async_Scheduler
begin

text \<open>
  \<open>EventLoopManager\<close> of \<open>src/event_loop_manager.rs\<close>: the queue of events, the timers, the handlers
  and the loop that drives the scheduler. A \<open>BinaryHeap\<close> is the list of its elements; \<open>pop\<close> takes the
  greatest in the order \<open>Ord\<close> gives, and which of several the parameter \<open>pick\<close> says
  (\<open>is_heap_choice\<close>). The clock is an argument. The threads of the executor pool receive no work from
  the manager; of them there is what a worker does with an item (\<open>process_work_item\<close>). The two \<open>u64\<close>
  counters are taken modulo \<open>2 ^ 64\<close>.
\<close>

section \<open>Data\<close>

datatype load_balancing_strategy = LBRoundRobin | LBLeastLoaded | LBPriority | LBResourceAware

record event_loop_config =
  ec_max_executor_threads :: usize
  ec_event_queue_capacity :: usize
  ec_timer_resolution :: duration
  ec_max_execution_time :: duration
  ec_preemption_enabled :: bool
  ec_load_balancing_strategy :: load_balancing_strategy

definition default_event_config :: "usize \<Rightarrow> event_loop_config" where
  "default_event_config cpus =
     \<lparr>ec_max_executor_threads = cpus, ec_event_queue_capacity = 10000, ec_timer_resolution = millis 10,
      ec_max_execution_time = millis 30000, ec_preemption_enabled = True,
      ec_load_balancing_strategy = LBLeastLoaded\<rparr>"

record event_loop_state =
  ls_is_running :: bool
  ls_active_systems :: usize
  ls_pending_events :: usize
  ls_scheduled_timers :: usize
  ls_total_processed_events :: u64
  ls_average_latency :: duration
  ls_last_activity :: instant

type_synonym timer_id = u64

datatype system_event =
    SystemStart task_id sysdef "(string, column_value) hmap" task_priority
  | SystemComplete task_id task_result
  | SystemYield task_id yield_point
  | SystemResume task_id
  | ResourceAvailable string "task_id list"
  | TimerExpired timer_id task_id
  | SystemCancellation task_id string
  | ShutdownRequest

record priority_event =
  pe_event :: system_event
  pe_priority :: task_priority
  pe_timestamp :: instant

record event_queue =
  eq_events :: "system_event list"
  eq_capacity :: usize
  eq_priority_queue :: "priority_event list"

record scheduled_timer =
  tm_id :: timer_id
  tm_task_id :: task_id
  tm_fire_time :: instant
  tm_event :: system_event

record timer_manager =
  tmm_timers :: "scheduled_timer list"
  tmm_next_timer_id :: u64

datatype work_item =
    ExecuteStep task_id state_machine executor_tables
  | ProcessEvent system_event
  | Shutdown

record event_loop =
  el_scheduler :: async_scheduler
  el_event_queue :: event_queue
  el_timer_manager :: timer_manager
  el_config :: event_loop_config
  el_state :: event_loop_state
  el_shutdown :: bool

section \<open>Heaps\<close>

text \<open>\<open>le a b\<close> is \<open>a.cmp(&b) != Greater\<close>.\<close>

definition is_heap_choice :: "('a \<Rightarrow> 'a \<Rightarrow> bool) \<Rightarrow> ('a list \<Rightarrow> 'a) \<Rightarrow> bool" where
  "is_heap_choice le pick \<longleftrightarrow> (\<forall>xs. xs \<noteq> [] \<longrightarrow> pick xs \<in> set xs \<and> (\<forall>y \<in> set xs. le y (pick xs)))"

definition heap_pop :: "('a list \<Rightarrow> 'a) \<Rightarrow> 'a list \<Rightarrow> 'a option \<times> 'a list" where
  "heap_pop pick xs = (if xs = [] then (None, []) else (Some (pick xs), remove1 (pick xs) xs))"

fun task_rank :: "task_priority \<Rightarrow> nat" where
  "task_rank Async_Runtime.Low = 0"
| "task_rank Async_Runtime.Normal = 1"
| "task_rank Async_Runtime.High = 2"
| "task_rank Async_Runtime.Critical = 3"

text \<open>\<open>cmp\<close> compares the priority of the other event with its own, then the timestamps.\<close>

definition event_le :: "priority_event \<Rightarrow> priority_event \<Rightarrow> bool" where
  "event_le a b \<longleftrightarrow>
     task_rank (pe_priority b) < task_rank (pe_priority a) \<or>
     pe_priority b = pe_priority a \<and> pe_timestamp a \<le> pe_timestamp b"

definition timer_le :: "scheduled_timer \<Rightarrow> scheduled_timer \<Rightarrow> bool" where
  "timer_le a b \<longleftrightarrow> tm_fire_time b \<le> tm_fire_time a"

section \<open>The event queue\<close>

definition queue_new :: "usize \<Rightarrow> event_queue" where
  "queue_new capacity = \<lparr>eq_events = [], eq_capacity = capacity, eq_priority_queue = []\<rparr>"

definition enqueue :: "instant \<Rightarrow> system_event \<Rightarrow> task_priority \<Rightarrow> event_queue \<Rightarrow> (async_error + unit) \<times> event_queue" where
  "enqueue now event prio q =
     (if eq_capacity q \<le> length (eq_events q) then
        (Inl (ASystemError ''event_queue'' ''Event queue capacity exceeded''), q)
      else
        (Inr (), q\<lparr>eq_priority_queue := eq_priority_queue q @
           [\<lparr>pe_event = event, pe_priority = prio, pe_timestamp = now\<rparr>]\<rparr>))"

definition dequeue :: "(priority_event list \<Rightarrow> priority_event) \<Rightarrow> event_queue \<Rightarrow> system_event option \<times> event_queue" where
  "dequeue pick q =
     (case heap_pop pick (eq_priority_queue q) of
        (pe, heap) \<Rightarrow> (map_option pe_event pe, q\<lparr>eq_priority_queue := heap\<rparr>))"

definition queue_clear :: "event_queue \<Rightarrow> event_queue" where
  "queue_clear q = q\<lparr>eq_events := [], eq_priority_queue := []\<rparr>"

section \<open>Timers\<close>

definition timers_new :: timer_manager where
  "timers_new = \<lparr>tmm_timers = [], tmm_next_timer_id = 0\<rparr>"

definition timer_schedule ::
    "instant \<Rightarrow> task_id \<Rightarrow> duration \<Rightarrow> system_event \<Rightarrow> timer_manager \<Rightarrow> timer_id \<times> timer_manager" where
  "timer_schedule now task delay event m =
     (let n = tmm_next_timer_id m in
      (n, m\<lparr>tmm_next_timer_id := n + 1,
            tmm_timers := tmm_timers m @
              [\<lparr>tm_id = n, tm_task_id = task, tm_fire_time = now + delay, tm_event = event\<rparr>]\<rparr>))"

definition timer_cancel :: "timer_id \<Rightarrow> timer_manager \<Rightarrow> timer_manager" where
  "timer_cancel n m = m\<lparr>tmm_timers := filter (\<lambda>t. tm_id t \<noteq> n) (tmm_timers m)\<rparr>"

definition timer_cancel_all :: "timer_manager \<Rightarrow> timer_manager" where
  "timer_cancel_all m = m\<lparr>tmm_timers := []\<rparr>"

text \<open>Each round pops one timer, so as many rounds as there are timers empty the heap.\<close>

fun fired_loop ::
    "(scheduled_timer list \<Rightarrow> scheduled_timer) \<Rightarrow> instant \<Rightarrow> nat \<Rightarrow> scheduled_timer list \<Rightarrow>
       scheduled_timer list \<times> scheduled_timer list" where
  "fired_loop pick now 0 timers = ([], timers)"
| "fired_loop pick now (Suc k) timers =
     (if timers \<noteq> [] \<and> tm_fire_time (pick timers) \<le> now then
        (case fired_loop pick now k (remove1 (pick timers) timers) of
           (fired, rest) \<Rightarrow> (pick timers # fired, rest))
      else ([], timers))"

definition get_fired_timers ::
    "(scheduled_timer list \<Rightarrow> scheduled_timer) \<Rightarrow> instant \<Rightarrow> timer_manager \<Rightarrow> scheduled_timer list \<times> timer_manager" where
  "get_fired_timers pick now m =
     (case fired_loop pick now (length (tmm_timers m)) (tmm_timers m) of
        (fired, rest) \<Rightarrow> (fired, m\<lparr>tmm_timers := rest\<rparr>))"

section \<open>The manager\<close>

definition event_loop_new :: "instant \<Rightarrow> usize option \<Rightarrow> runtime_config \<Rightarrow> event_loop_config \<Rightarrow> task_id \<Rightarrow> event_loop" where
  "event_loop_new now parallelism rconfig config n =
     \<lparr>el_scheduler = async_scheduler_new parallelism rconfig n,
      el_event_queue = queue_new (ec_event_queue_capacity config), el_timer_manager = timers_new, el_config = config,
      el_state = \<lparr>ls_is_running = False, ls_active_systems = 0, ls_pending_events = 0, ls_scheduled_timers = 0,
        ls_total_processed_events = 0, ls_average_latency = 0, ls_last_activity = now\<rparr>,
      el_shutdown = False\<rparr>"

definition update_state :: "(event_loop_state \<Rightarrow> event_loop_state) \<Rightarrow> event_loop \<Rightarrow> event_loop" where
  "update_state f l = l\<lparr>el_state := f (el_state l)\<rparr>"

definition enqueue_event ::
    "instant \<Rightarrow> system_event \<Rightarrow> task_priority \<Rightarrow> event_loop \<Rightarrow> (async_error + unit) \<times> event_loop" where
  "enqueue_event now event prio l =
     (case enqueue now event prio (el_event_queue l) of
        (Inl err, q) \<Rightarrow> (Inl err, l\<lparr>el_event_queue := q\<rparr>)
      | (Inr _, q) \<Rightarrow>
          (Inr (), update_state (\<lambda>st. st\<lparr>ls_pending_events := ls_pending_events st + 1, ls_last_activity := now\<rparr>)
             (l\<lparr>el_event_queue := q\<rparr>)))"

definition dequeue_event ::
    "(priority_event list \<Rightarrow> priority_event) \<Rightarrow> event_loop \<Rightarrow> system_event option \<times> event_loop" where
  "dequeue_event pick l =
     (case dequeue pick (el_event_queue l) of
        (None, q) \<Rightarrow> (None, l\<lparr>el_event_queue := q\<rparr>)
      | (Some e, q) \<Rightarrow>
          (Some e, update_state (\<lambda>st. st\<lparr>ls_pending_events := ls_pending_events st - 1,
               ls_total_processed_events := ls_total_processed_events st + 1\<rparr>) (l\<lparr>el_event_queue := q\<rparr>)))"

definition schedule_timer ::
    "instant \<Rightarrow> task_id \<Rightarrow> duration \<Rightarrow> system_event \<Rightarrow> event_loop \<Rightarrow> timer_id \<times> event_loop" where
  "schedule_timer now task delay event l =
     (case timer_schedule now task delay event (el_timer_manager l) of
        (n, m) \<Rightarrow>
          (n, update_state (\<lambda>st. st\<lparr>ls_scheduled_timers := ls_scheduled_timers st + 1\<rparr>) (l\<lparr>el_timer_manager := m\<rparr>)))"

definition cancel_timer :: "timer_id \<Rightarrow> event_loop \<Rightarrow> event_loop" where
  "cancel_timer n l =
     update_state (\<lambda>st. st\<lparr>ls_scheduled_timers := ls_scheduled_timers st - 1\<rparr>)
       (l\<lparr>el_timer_manager := timer_cancel n (el_timer_manager l)\<rparr>)"

text \<open>Enqueue one after the other; the first refusal stops the loop.\<close>

fun enqueue_events ::
    "instant \<Rightarrow> (system_event \<times> task_priority) list \<Rightarrow> event_loop \<Rightarrow> (async_error + unit) \<times> event_loop" where
  "enqueue_events now [] l = (Inr (), l)"
| "enqueue_events now ((e, p) # es) l =
     (case enqueue_event now e p l of
        (Inl err, l') \<Rightarrow> (Inl err, l')
      | (Inr _, l') \<Rightarrow> enqueue_events now es l')"

definition process_timer_events ::
    "(scheduled_timer list \<Rightarrow> scheduled_timer) \<Rightarrow> instant \<Rightarrow> event_loop \<Rightarrow> (async_error + unit) \<times> event_loop" where
  "process_timer_events pick now l =
     (case get_fired_timers pick now (el_timer_manager l) of
        (fired, m) \<Rightarrow>
          enqueue_events now (map (\<lambda>t. (tm_event t, Async_Runtime.Normal)) fired) (l\<lparr>el_timer_manager := m\<rparr>))"

definition submit_event_system ::
    "(string, bool) hmap \<Rightarrow> (expression \<Rightarrow> string) \<Rightarrow> hash_order \<Rightarrow> instant \<Rightarrow> execution_request \<Rightarrow> event_loop \<Rightarrow>
       (async_error + system_future) \<times> event_loop" where
  "submit_event_system functions show_expr \<pi> now request l =
     (case schedule_single_system functions show_expr \<pi> now request (el_scheduler l) of
        (Inl err, s) \<Rightarrow> (Inl err, l\<lparr>el_scheduler := s\<rparr>)
      | (Inr f, s) \<Rightarrow>
          (case enqueue_event now (SystemStart (sf_task_id f) (er_system_def request) (er_parameters request) (er_priority request))
                  (er_priority request) (l\<lparr>el_scheduler := s\<rparr>) of
             (Inl err, l') \<Rightarrow> (Inl err, l')
           | (Inr _, l') \<Rightarrow> (Inr f, l')))"

section \<open>Handlers\<close>

definition handle_system_start :: "event_loop \<Rightarrow> event_loop" where
  "handle_system_start = update_state (\<lambda>st. st\<lparr>ls_active_systems := ls_active_systems st + 1\<rparr>)"

definition handle_system_complete :: "event_loop \<Rightarrow> event_loop" where
  "handle_system_complete = update_state (\<lambda>st. st\<lparr>ls_active_systems := ls_active_systems st - 1\<rparr>)"

definition handle_system_yield :: "instant \<Rightarrow> task_id \<Rightarrow> yield_point \<Rightarrow> event_loop \<Rightarrow> event_loop" where
  "handle_system_yield now t yp l =
     (case yp of
        Sleeping d _ \<Rightarrow> snd (schedule_timer now t d (SystemResume t) l)
      | _ \<Rightarrow> l)"

definition handle_system_resume :: "task_id \<Rightarrow> event_loop \<Rightarrow> event_loop" where
  "handle_system_resume t l = l"

definition handle_resource_available ::
    "instant \<Rightarrow> task_id list \<Rightarrow> event_loop \<Rightarrow> (async_error + unit) \<times> event_loop" where
  "handle_resource_available now ts l = enqueue_events now (map (\<lambda>t. (SystemResume t, Async_Runtime.Normal)) ts) l"

definition handle_timer_expired :: "event_loop \<Rightarrow> event_loop" where
  "handle_timer_expired l = l"

definition handle_system_cancellation :: "event_loop \<Rightarrow> event_loop" where
  "handle_system_cancellation = update_state (\<lambda>st. st\<lparr>ls_active_systems := ls_active_systems st - 1\<rparr>)"

definition handle_event :: "instant \<Rightarrow> system_event \<Rightarrow> event_loop \<Rightarrow> (async_error + unit) \<times> event_loop" where
  "handle_event now event l =
     (case event of
        SystemStart _ _ _ _ \<Rightarrow> (Inr (), handle_system_start l)
      | SystemComplete _ _ \<Rightarrow> (Inr (), handle_system_complete l)
      | SystemYield t yp \<Rightarrow> (Inr (), handle_system_yield now t yp l)
      | SystemResume t \<Rightarrow> (Inr (), handle_system_resume t l)
      | ResourceAvailable _ ts \<Rightarrow> handle_resource_available now ts l
      | TimerExpired _ _ \<Rightarrow> (Inr (), handle_timer_expired l)
      | SystemCancellation _ _ \<Rightarrow> (Inr (), handle_system_cancellation l)
      | ShutdownRequest \<Rightarrow> (Inr (), l))"

text \<open>The running average is a double, cut to whole nanoseconds.\<close>

definition f64_to_u64 :: "f64 \<Rightarrow> nat" where
  "f64_to_u64 x =
     (if f64_is_nan x then 0
      else if f64_is_inf x then (if f64_sign x then 0 else 2 ^ 64 - 1)
      else min (nat (f64_scaled x div 2 ^ 1074)) (2 ^ 64 - 1))"

definition average_latency :: "u64 \<Rightarrow> duration \<Rightarrow> duration \<Rightarrow> duration" where
  "average_latency total_events current latency =
     (let n = f64_of_u64 total_events
      in f64_to_u64 (f64_div (f64_add (f64_mul (f64_of_int (int current)) (f64_sub n (f64_of_int 1))) (f64_of_int (int latency))) n))"

definition process_event ::
    "instant \<Rightarrow> duration \<Rightarrow> system_event \<Rightarrow> event_loop \<Rightarrow> (async_error + unit) \<times> event_loop" where
  "process_event now latency event l =
     (case handle_event now event l of
        (Inl err, l') \<Rightarrow> (Inl err, l')
      | (Inr _, l') \<Rightarrow>
          (Inr (), if event = ShutdownRequest then l'
                   else update_state (\<lambda>st. st\<lparr>ls_average_latency :=
                          average_latency (ls_total_processed_events st) (ls_average_latency st) latency\<rparr>) l'))"

section \<open>The loop\<close>

definition poll_async_runtime ::
    "(string \<Rightarrow> string) \<Rightarrow> hash_order \<Rightarrow> (task_id list \<Rightarrow> task_id list) \<Rightarrow> instant \<Rightarrow> event_loop \<Rightarrow> unit outcome \<times> event_loop" where
  "poll_async_runtime \<delta> \<pi> \<sigma> now l =
     (case tick_runtime \<delta> \<pi> now (el_scheduler l) of
        (Returns (Inr has_work), s) \<Rightarrow>
          (case drain_completed_tasks \<sigma> (as_runtime s) of
             (completions, rt) \<Rightarrow>
               (case fold (\<lambda>c (r, l). case r of
                          Inl err \<Rightarrow> (Inl err, l)
                        | Inr _ \<Rightarrow>
                            enqueue_event now (SystemComplete (ct_task_id c) (ct_result c)) (ct_priority c)
                              (l\<lparr>el_scheduler := record_task_completion c (el_scheduler l)\<rparr>))
                       completions (Inr (), l\<lparr>el_scheduler := s\<lparr>as_runtime := rt\<rparr>\<rparr>) of
                  (Inl err, l') \<Rightarrow> (Returns (Inl err), l')
                | (Inr _, l') \<Rightarrow>
                    (Returns (Inr ()), if has_work then update_state (\<lambda>st. st\<lparr>ls_last_activity := now\<rparr>) l' else l')))
      | (Returns (Inl err), s) \<Rightarrow> (Returns (Inl err), l\<lparr>el_scheduler := s\<rparr>)
      | (Blocked, s) \<Rightarrow> (Blocked, l\<lparr>el_scheduler := s\<rparr>)
      | (Panics a, s) \<Rightarrow> (Panics a, l\<lparr>el_scheduler := s\<rparr>))"

definition shutdown_cleanup :: "event_loop \<Rightarrow> event_loop" where
  "shutdown_cleanup l =
     l\<lparr>el_timer_manager := timer_cancel_all (el_timer_manager l), el_event_queue := queue_clear (el_event_queue l)\<rparr>"

text \<open>
  One round of \<open>run_event_loop\<close>. The result says whether the loop goes on and when the timers were
  last looked at; a round that ends the loop has cleaned up.
\<close>

definition loop_round ::
    "(string \<Rightarrow> string) \<Rightarrow> hash_order \<Rightarrow> (task_id list \<Rightarrow> task_id list) \<Rightarrow> (priority_event list \<Rightarrow> priority_event) \<Rightarrow>
       (scheduled_timer list \<Rightarrow> scheduled_timer) \<Rightarrow> instant \<Rightarrow> duration \<Rightarrow> instant \<Rightarrow> event_loop \<Rightarrow>
       (bool \<times> instant) outcome \<times> event_loop" where
  "loop_round \<delta> \<pi> \<sigma> pick pick_timer now latency last_check l =
     (case poll_async_runtime \<delta> \<pi> \<sigma> now l of
        (Returns (Inl err), l1) \<Rightarrow> (Returns (Inl err), l1)
      | (Blocked, l1) \<Rightarrow> (Blocked, l1)
      | (Panics a, l1) \<Rightarrow> (Panics a, l1)
      | (Returns (Inr _), l1) \<Rightarrow>
          if el_shutdown l1 then
            (Returns (Inr (False, last_check)),
             (update_state (\<lambda>st. st\<lparr>ls_is_running := False\<rparr>) (shutdown_cleanup l1))\<lparr>el_shutdown := False\<rparr>)
          else
            (let due = ec_timer_resolution (el_config l1) \<le> now - last_check in
             case (if due then process_timer_events pick_timer now l1 else (Inr (), l1)) of
               (Inl err, l2) \<Rightarrow> (Returns (Inl err), l2)
             | (Inr _, l2) \<Rightarrow>
                 (case dequeue_event pick l2 of
                    (None, l3) \<Rightarrow> (Returns (Inr (True, if due then now else last_check)), l3)
                  | (Some e, l3) \<Rightarrow>
                      (case process_event now latency e l3 of
                         (Inl err, l4) \<Rightarrow> (Returns (Inl err), l4)
                       | (Inr _, l4) \<Rightarrow> (Returns (Inr (True, if due then now else last_check)), l4)))))"

definition start :: "event_loop \<Rightarrow> (async_error + unit) \<times> event_loop" where
  "start l =
     (if ls_is_running (el_state l) then (Inl (ASystemError ''event_loop'' ''Event loop is already running''), l)
      else (Inr (), update_state (\<lambda>st. st\<lparr>ls_is_running := True\<rparr>) l))"

text \<open>What \<open>stop\<close> does before it waits for the loop to end.\<close>

definition request_stop :: "instant \<Rightarrow> event_loop \<Rightarrow> (async_error + unit) \<times> event_loop" where
  "request_stop now l = enqueue_event now ShutdownRequest Async_Runtime.Critical (l\<lparr>el_shutdown := True\<rparr>)"

text \<open>A worker makes the step and drops the machine, its tables and the result.\<close>

definition process_work_item ::
    "(string \<Rightarrow> string) \<Rightarrow> hash_order \<Rightarrow> instant \<Rightarrow> work_item \<Rightarrow> abort + (async_error + unit)" where
  "process_work_item \<delta> \<pi> now work =
     (case work of
        ExecuteStep _ m tables \<Rightarrow>
          map_sum id (\<lambda>(r, _, _). map_sum id (\<lambda>_. ()) r) (execute_step \<delta> \<pi> now tables m)
      | ProcessEvent _ \<Rightarrow> Inr (Inr ())
      | Shutdown \<Rightarrow> Inr (Inr ()))"

end
