(* ===== verification/Event_Properties.thy ===== *)
theory Event_Properties
  imports Event_Loop
begin

text \<open>
  What the event loop takes from its two heaps: timers in the order they are due, and events from the
  lowest priority up, latest first. The counter of pending events is exact while the loop runs, and the
  capacity of the queue is never reached.
\<close>

section \<open>The interface of a heap\<close>

text \<open>\<open>pop_all\<close> pops until the heap is empty.\<close>

fun pop_all :: "('a list \<Rightarrow> 'a) \<Rightarrow> nat \<Rightarrow> 'a list \<Rightarrow> 'a list" where
  "pop_all pick 0 xs = []"
| "pop_all pick (Suc k) xs =
     (case heap_pop pick xs of
        (None, _) \<Rightarrow> []
      | (Some x, ys) \<Rightarrow> x # pop_all pick k ys)"

locale priority_heap =
  fixes le :: "'a \<Rightarrow> 'a \<Rightarrow> bool" and pick :: "'a list \<Rightarrow> 'a"
  assumes pick_mem: "xs \<noteq> [] \<Longrightarrow> pick xs \<in> set xs"
    and pick_max: "y \<in> set xs \<Longrightarrow> le y (pick xs)"
begin

lemma pop_spec:
  assumes "xs \<noteq> []"
  obtains ys where "heap_pop pick xs = (Some (pick xs), ys)" "mset xs = add_mset (pick xs) (mset ys)"
    "\<forall>y \<in> set xs. le y (pick xs)"
proof -
  have "mset xs = add_mset (pick xs) (mset (remove1 (pick xs) xs))" using pick_mem [OF assms] by simp
  with assms pick_max that show thesis by (auto simp: heap_pop_def)
qed

lemma pop_all_sorted:
  "length xs \<le> k \<Longrightarrow> mset (pop_all pick k xs) = mset xs \<and> sorted_wrt (\<lambda>x y. le y x) (pop_all pick k xs)"
proof (induction k arbitrary: xs)
  case (Suc k)
  show ?case
  proof (cases "xs = []")
    case False
    from pop_spec [OF this] obtain ys where ys: "heap_pop pick xs = (Some (pick xs), ys)"
      "mset xs = add_mset (pick xs) (mset ys)" "\<forall>y \<in> set xs. le y (pick xs)" .
    from mset_eq_length [of xs "pick xs # ys"] ys(2) have "length ys < length xs" by simp
    with Suc.IH [of ys] Suc.prems have IH: "mset (pop_all pick k ys) = mset ys" "sorted_wrt (\<lambda>x y. le y x) (pop_all pick k ys)"
      by simp_all
    have "set ys \<subseteq> set xs" using mset_eq_setD [of xs "pick xs # ys"] ys(2) by auto
    with IH ys mset_eq_setD [OF IH(1)] show ?thesis by auto
  qed (simp add: heap_pop_def)
qed simp

end

lemma heap_choice: "is_heap_choice le pick \<longleftrightarrow> priority_heap le pick"
proof
  assume c: "is_heap_choice le pick"
  show "priority_heap le pick"
  proof
    show "pick xs \<in> set xs" if "xs \<noteq> []" for xs using c that unfolding is_heap_choice_def by blast
    show "le y (pick xs)" if "y \<in> set xs" for y xs
    proof -
      from that have "xs \<noteq> []" by (cases xs) simp_all
      with c that show ?thesis unfolding is_heap_choice_def by blast
    qed
  qed
qed (simp add: is_heap_choice_def priority_heap_def)

text \<open>A choice for any order that compares all elements: the first of the greatest.\<close>

fun best :: "('a \<Rightarrow> 'a \<Rightarrow> bool) \<Rightarrow> 'a list \<Rightarrow> 'a" where
  "best le [] = undefined"
| "best le [x] = x"
| "best le (x # y # ys) = (let b = best le (y # ys) in if le b x then x else b)"

lemma best_heap:
  assumes total: "\<forall>x y. le x y \<or> le y x" and trans: "\<forall>x y z. le x y \<longrightarrow> le y z \<longrightarrow> le x z"
  shows "priority_heap le (best le)"
proof -
  have refl: "le x x" for x using total by blast
  have best: "best le xs \<in> set xs \<and> (\<forall>y \<in> set xs. le y (best le xs))" if "xs \<noteq> []" for xs
    using that
  proof (induction xs rule: induct_list012)
    case (2 x)
    show ?case by (simp add: refl)
  next
    case (3 x y ys)
    let ?b = "best le (y # ys)"
    from 3 have b: "?b \<in> set (y # ys)" "\<forall>z \<in> set (y # ys). le z ?b" by simp_all
    show ?case
    proof (cases "le ?b x")
      case True
      with b(2) trans have "\<forall>z \<in> set (y # ys). le z x" by blast
      with True show ?thesis by (simp add: Let_def refl)
    next
      case False
      with total have "le x ?b" by blast
      with False b show ?thesis by (simp add: Let_def)
    qed
  qed simp
  show ?thesis
  proof
    show "best le xs \<in> set xs" if "xs \<noteq> []" for xs using best [OF that] by blast
    show "le y (best le xs)" if "y \<in> set xs" for y xs using best [of xs] that by (cases xs) auto
  qed
qed

lemma task_rank_inj: "task_rank p = task_rank q \<longleftrightarrow> p = q"
  by (cases p; cases q) simp_all

lemma event_le_total: "event_le x y \<or> event_le y x"
  using task_rank_inj [of "pe_priority x" "pe_priority y"] by (auto simp: event_le_def)

lemma event_le_trans: "event_le x y \<Longrightarrow> event_le y z \<Longrightarrow> event_le x z"
  by (auto simp: event_le_def)

interpretation events: priority_heap event_le "best event_le"
  by (rule best_heap; intro allI impI) (rule event_le_total, rule event_le_trans)

interpretation timers: priority_heap timer_le "best timer_le"
  by (rule best_heap) (auto simp: timer_le_def)


section \<open>What comes out of the heaps\<close>

text \<open>
  Taking an event from a queue that is not empty takes out one event of the lowest priority there is,
  and of those the one that was enqueued last.
\<close>

theorem dequeue_takes_lowest:
  assumes "is_heap_choice event_le pick" and "eq_priority_queue q \<noteq> []" and "dequeue pick q = (e, q')"
  shows "\<exists>pe. e = Some (pe_event pe) \<and> mset (eq_priority_queue q) = add_mset pe (mset (eq_priority_queue q')) \<and>
    (\<forall>other \<in> set (eq_priority_queue q).
       task_rank (pe_priority pe) \<le> task_rank (pe_priority other) \<and>
       (pe_priority other = pe_priority pe \<longrightarrow> pe_timestamp other \<le> pe_timestamp pe))"
proof -
  from priority_heap.pop_spec [OF assms(1) [unfolded heap_choice] assms(2)] obtain ys where
    ys: "heap_pop pick (eq_priority_queue q) = (Some (pick (eq_priority_queue q)), ys)"
    "mset (eq_priority_queue q) = add_mset (pick (eq_priority_queue q)) (mset ys)"
    "\<forall>y \<in> set (eq_priority_queue q). event_le y (pick (eq_priority_queue q))" .
  with assms(3) show ?thesis
    by (intro exI [of _ "pick (eq_priority_queue q)"]) (fastforce simp: dequeue_def event_le_def)
qed

lemma fired_loop_spec:
  assumes "is_heap_choice timer_le pick"
  shows "length ts \<le> k \<Longrightarrow> fired_loop pick now k ts = (fired, rest) \<Longrightarrow>
    mset fired = filter_mset (\<lambda>t. tm_fire_time t \<le> now) (mset ts) \<and>
    mset rest = filter_mset (\<lambda>t. \<not> tm_fire_time t \<le> now) (mset ts) \<and>
    sorted (map tm_fire_time fired)"
proof (induction k arbitrary: ts fired rest)
  case (Suc k)
  show ?case
  proof (cases "ts \<noteq> [] \<and> tm_fire_time (pick ts) \<le> now")
    case True
    from assms True have pick: "pick ts \<in> set ts" "\<forall>t \<in> set ts. tm_fire_time (pick ts) \<le> tm_fire_time t"
      by (auto simp: is_heap_choice_def timer_le_def)
    from Suc.prems(2) True obtain fired' where f: "fired_loop pick now k (remove1 (pick ts) ts) = (fired', rest)"
      "fired = pick ts # fired'" by (auto split: prod.splits)
    have "length (remove1 (pick ts) ts) \<le> k" using pick(1) Suc.prems(1) by (simp add: length_remove1)
    from Suc.IH [OF this f(1)] have IH: "mset fired' = filter_mset (\<lambda>t. tm_fire_time t \<le> now) (mset (remove1 (pick ts) ts))"
      "mset rest = filter_mset (\<lambda>t. \<not> tm_fire_time t \<le> now) (mset (remove1 (pick ts) ts))"
      "sorted (map tm_fire_time fired')" by simp_all
    have whole: "mset ts = add_mset (pick ts) (mset (remove1 (pick ts) ts))" using pick(1) by simp
    have "set fired' \<subseteq> set ts"
    proof -
      have "set fired' = {t \<in> set (remove1 (pick ts) ts). tm_fire_time t \<le> now}"
        using arg_cong [OF IH(1), of set_mset] by (simp only: set_mset_mset set_mset_filter)
      then show ?thesis using set_remove1_subset [of "pick ts" ts] by blast
    qed
    with pick(2) IH(3) have "sorted (map tm_fire_time fired)" by (auto simp: f(2))
    moreover have "mset fired = filter_mset (\<lambda>t. tm_fire_time t \<le> now) (mset ts)"
      unfolding whole f(2) using True by (simp only: mset.simps IH(1) filter_mset_add_mset if_True)
    moreover have "mset rest = filter_mset (\<lambda>t. \<not> tm_fire_time t \<le> now) (mset ts)"
      unfolding whole using True by (simp only: IH(2) filter_mset_add_mset) simp
    ultimately show ?thesis by blast
  next
    case False
    have late: "\<not> tm_fire_time t \<le> now" if "t \<in> set ts" for t
    proof -
      from that have "ts \<noteq> []" by (cases ts) simp_all
      with False assms that have "tm_fire_time (pick ts) \<le> tm_fire_time t" "\<not> tm_fire_time (pick ts) \<le> now"
        by (auto simp: is_heap_choice_def timer_le_def)
      then show ?thesis by simp
    qed
    from False Suc.prems(2) have "fired = []" "rest = ts" by auto
    moreover have "filter (\<lambda>t. tm_fire_time t \<le> now) ts = []" using late by (simp add: filter_empty_conv)
    moreover have "filter (\<lambda>t. \<not> tm_fire_time t \<le> now) ts = ts" using late by (simp add: filter_id_conv)
    ultimately show ?thesis by (simp flip: mset_filter)
  qed
qed simp

text \<open>
  C39: The timers taken out at a time are exactly those that are due, in the order they fall due, and the
  others stay.
\<close>

theorem fired_timers_exact:
  assumes "is_heap_choice timer_le pick" and "get_fired_timers pick now m = (fired, m')"
  shows "mset fired = filter_mset (\<lambda>t. tm_fire_time t \<le> now) (mset (tmm_timers m)) \<and>
    mset (tmm_timers m') = filter_mset (\<lambda>t. \<not> tm_fire_time t \<le> now) (mset (tmm_timers m)) \<and>
    sorted (map tm_fire_time fired) \<and> tmm_next_timer_id m' = tmm_next_timer_id m"
proof -
  obtain rest where rest: "fired_loop pick now (length (tmm_timers m)) (tmm_timers m) = (fired, rest)"
    and m': "m' = m\<lparr>tmm_timers := rest\<rparr>"
    using assms(2) by (auto simp: get_fired_timers_def split: prod.splits)
  from fired_loop_spec [OF assms(1) order_refl rest] show ?thesis by (simp add: m')
qed


section \<open>The counter of pending events\<close>

definition queue_counted :: "event_loop \<Rightarrow> bool" where
  "queue_counted l \<longleftrightarrow>
     eq_events (el_event_queue l) = [] \<and>
     eq_capacity (el_event_queue l) = ec_event_queue_capacity (el_config l) \<and>
     ls_pending_events (el_state l) = length (eq_priority_queue (el_event_queue l))"

lemma queue_counted_frame:
  "queue_counted l \<Longrightarrow> el_event_queue l' = el_event_queue l \<Longrightarrow> el_config l' = el_config l \<Longrightarrow>
     ls_pending_events (el_state l') = ls_pending_events (el_state l) \<Longrightarrow> queue_counted l'"
  by (simp add: queue_counted_def)

lemma queue_counted_activity [simp]:
  "queue_counted (l\<lparr>el_state := (el_state l)\<lparr>ls_last_activity := n\<rparr>\<rparr>) = queue_counted l"
  by (simp add: queue_counted_def)

lemma enqueue_event_counted:
  "queue_counted l \<Longrightarrow> enqueue_event now e p l = (r, l') \<Longrightarrow>
     queue_counted l' \<and> (is_ok r \<longleftrightarrow> 0 < ec_event_queue_capacity (el_config l)) \<and> el_config l' = el_config l"
  by (auto simp: queue_counted_def enqueue_event_def enqueue_def update_state_def split: if_splits)

lemma enqueue_events_counted:
  "queue_counted l \<Longrightarrow> enqueue_events now es l = (r, l') \<Longrightarrow> queue_counted l'"
proof (induction now es l rule: enqueue_events.induct)
  case (2 now e p es l)
  obtain r1 l1 where one: "enqueue_event now e p l = (r1, l1)" by force
  note counted = enqueue_event_counted [OF 2(2) one]
  with one 2 show ?case by (cases r1) auto
qed simp

lemma dequeue_event_counted:
  assumes "queue_counted l" and "is_heap_choice event_le pick" and "dequeue_event pick l = (e, l')"
  shows "queue_counted l'"
proof (cases "eq_priority_queue (el_event_queue l) = []")
  case True
  with assms show ?thesis by (auto simp: queue_counted_def dequeue_event_def dequeue_def heap_pop_def)
next
  case False
  with assms(2) have "pick (eq_priority_queue (el_event_queue l)) \<in> set (eq_priority_queue (el_event_queue l))"
    by (simp add: is_heap_choice_def)
  with False assms(1,3) show ?thesis
    by (auto simp: queue_counted_def dequeue_event_def dequeue_def heap_pop_def update_state_def length_remove1)
qed

lemma process_timer_counted:
  "queue_counted l \<Longrightarrow> process_timer_events pick now l = (r, l') \<Longrightarrow> queue_counted l'"
  by (auto simp: process_timer_events_def split: prod.splits intro: queue_counted_frame dest!: enqueue_events_counted [rotated])

lemma process_event_counted:
  assumes "queue_counted l" and "process_event now latency e l = (r, l')"
  shows "queue_counted l'"
proof -
  obtain r1 l1 where h: "handle_event now e l = (r1, l1)" by force
  have "queue_counted l1"
  proof (cases e)
    case (ResourceAvailable n ts)
    with h assms(1) show ?thesis by (auto simp: handle_event_def handle_resource_available_def intro: enqueue_events_counted)
  qed (use h assms(1) in \<open>auto simp: handle_event_def handle_system_start_def handle_system_complete_def handle_system_yield_def
      handle_system_resume_def handle_timer_expired_def handle_system_cancellation_def update_state_def schedule_timer_def
      split: yield_point.splits prod.splits intro: queue_counted_frame\<close>)
  with h assms(2) show ?thesis
    by (auto simp: process_event_def update_state_def split: sum.splits if_splits intro: queue_counted_frame)
qed

lemma poll_counted:
  assumes "queue_counted l" and "poll_async_runtime \<delta> \<pi> \<sigma> now l = (r, l')"
  shows "queue_counted l'"
proof -
  let ?step = "\<lambda>c (r, l). case r of
      Inl err \<Rightarrow> (Inl err, l)
    | Inr _ \<Rightarrow> enqueue_event now (SystemComplete (ct_task_id c) (ct_result c)) (ct_priority c)
        (l\<lparr>el_scheduler := record_task_completion c (el_scheduler l)\<rparr>)"
  have loop: "queue_counted (snd (fold ?step cs (r, l)))" if "queue_counted l" for cs r l
    using that
  proof (induction cs arbitrary: r l)
    case (Cons c cs)
    obtain r1 l1 where one: "?step c (r, l) = (r1, l1)" by force
    have "queue_counted l1"
    proof (cases r)
      case (Inr u)
      have "queue_counted (l\<lparr>el_scheduler := record_task_completion c (el_scheduler l)\<rparr>)"
        using Cons.prems by (rule queue_counted_frame) simp_all
      with one Inr show ?thesis by (auto dest!: enqueue_event_counted [rotated])
    qed (use one Cons.prems in simp)
    with Cons.IH one show ?case by simp
  qed simp
  obtain res s where tick: "tick_runtime \<delta> \<pi> now (el_scheduler l) = (res, s)" by force
  obtain cs rt where cs: "drain_completed_tasks \<sigma> (as_runtime s) = (cs, rt)" by force
  have "queue_counted (l\<lparr>el_scheduler := s\<lparr>as_runtime := rt\<rparr>\<rparr>)" using assms(1) by (rule queue_counted_frame) simp_all
  note finished = loop [OF this, of cs "Inr ()"]
  have kept: "queue_counted (l\<lparr>el_scheduler := s\<rparr>)" using assms(1) by (rule queue_counted_frame) simp_all
  show ?thesis
  proof (cases "\<exists>b. res = Returns (Inr b)")
    case True
    with assms(2) tick cs finished show ?thesis
      by (auto simp: poll_async_runtime_def update_state_def split: prod.splits sum.splits if_splits intro: queue_counted_frame)
  next
    case False
    with assms(2) tick kept show ?thesis
      by (auto simp: poll_async_runtime_def split: outcome.splits sum.splits)
  qed
qed


text \<open>The steps of a loop that goes on, and what other threads do to it meanwhile.\<close>

inductive event_step ::
    "(string \<Rightarrow> string) \<Rightarrow> hash_order \<Rightarrow> (priority_event list \<Rightarrow> priority_event) \<Rightarrow> event_loop \<Rightarrow> event_loop \<Rightarrow> bool"
  for \<delta> \<pi> pick where
  round: "loop_round \<delta> \<pi> \<sigma> pick pick_timer now latency checked l = (Returns (Inr (True, checked')), l') \<Longrightarrow> event_step \<delta> \<pi> pick l l'"
| submitted: "submit_event_system functions show_expr \<pi> now request l = (r, l') \<Longrightarrow> event_step \<delta> \<pi> pick l l'"
| timer_set: "schedule_timer now t d e l = (n, l') \<Longrightarrow> event_step \<delta> \<pi> pick l l'"
| timer_cancelled: "event_step \<delta> \<pi> pick l (cancel_timer n l)"
| started: "start l = (r, l') \<Longrightarrow> event_step \<delta> \<pi> pick l l'"
| stopping: "request_stop now l = (r, l') \<Longrightarrow> event_step \<delta> \<pi> pick l l'"

inductive_cases event_stepE [consumes 1, case_names round submitted timer_set timer_cancelled started stopping]:
  "event_step \<delta> \<pi> pick l l'"

inductive event_run ::
    "(string \<Rightarrow> string) \<Rightarrow> hash_order \<Rightarrow> (priority_event list \<Rightarrow> priority_event) \<Rightarrow> event_loop \<Rightarrow> event_loop \<Rightarrow> bool"
  for \<delta> \<pi> pick where
  none: "event_run \<delta> \<pi> pick l l"
| more: "event_run \<delta> \<pi> pick l l' \<Longrightarrow> event_step \<delta> \<pi> pick l' l'' \<Longrightarrow> event_run \<delta> \<pi> pick l l''"

lemma loop_round_counted:
  assumes "queue_counted l" and "is_heap_choice event_le pick"
    and "loop_round \<delta> \<pi> \<sigma> pick pick_timer now latency checked l = (Returns (Inr (True, checked')), l')"
  shows "queue_counted l'"
proof -
  obtain r1 l1 where poll: "poll_async_runtime \<delta> \<pi> \<sigma> now l = (r1, l1)" by force
  obtain r2 l2 where timers: "(if ec_timer_resolution (el_config l1) \<le> now - checked then process_timer_events pick_timer now l1
      else (Inr (), l1)) = (r2, l2)" by force
  obtain e l3 where event: "dequeue_event pick l2 = (e, l3)" by force
  from poll_counted [OF assms(1) poll] have l1: "queue_counted l1" .
  then have l2: "queue_counted l2" using timers by (auto split: if_splits dest: process_timer_counted)
  from dequeue_event_counted [OF this assms(2) event] have l3: "queue_counted l3" .
  from assms(3) poll have going: "\<exists>u. r1 = Returns (Inr u)" "\<not> el_shutdown l1"
    by (auto simp: loop_round_def split: outcome.splits sum.splits if_splits)
  with assms(3) poll timers have "\<exists>u. r2 = Inr u" by (cases r2) (auto simp: loop_round_def Let_def)
  with assms(3) poll going timers event have "l' = l3 \<or> (\<exists>ev r. process_event now latency ev l3 = (r, l'))"
    by (cases e) (auto simp: loop_round_def Let_def split: sum.splits prod.splits)
  with l3 show ?thesis by (auto dest: process_event_counted)
qed

lemma event_step_counted:
  assumes "event_step \<delta> \<pi> pick l l'" and "queue_counted l" and "is_heap_choice event_le pick"
  shows "queue_counted l'"
  using assms(1)
proof (cases rule: event_stepE)
  case (round \<sigma> pick_timer now latency checked checked')
  with loop_round_counted assms(2,3) show ?thesis by blast
next
  case (submitted funs show_expr now request r)
  obtain r1 s where one: "schedule_single_system funs show_expr \<pi> now request (el_scheduler l) = (r1, s)" by force
  have "queue_counted (l\<lparr>el_scheduler := s\<rparr>)" using assms(2) by (rule queue_counted_frame) simp_all
  with submitted one show ?thesis
    by (auto simp: submit_event_system_def split: sum.splits prod.splits dest: enqueue_event_counted)
next
  case (stopping now r)
  have "queue_counted (l\<lparr>el_shutdown := True\<rparr>)" using assms(2) by (rule queue_counted_frame) simp_all
  with stopping show ?thesis by (auto simp: request_stop_def dest: enqueue_event_counted)
qed (use assms(2) in \<open>auto simp: queue_counted_def schedule_timer_def cancel_timer_def start_def update_state_def split: prod.splits if_splits\<close>)

lemma event_run_counted:
  "event_run \<delta> \<pi> pick l l' \<Longrightarrow> queue_counted l \<Longrightarrow> is_heap_choice event_le pick \<Longrightarrow> queue_counted l'"
  by (induction rule: event_run.induct) (auto intro: event_step_counted)

lemma event_loop_new_counted: "queue_counted (event_loop_new now parallelism rconfig config n)"
  by (simp add: queue_counted_def event_loop_new_def queue_new_def)

text \<open>
  C40: As long as the loop goes on, the number of pending events it reports is the number of events in its
  queue, and the capacity of the queue has no effect: an event is refused only when the capacity is
  zero, and then always, however many events are waiting.
\<close>

theorem pending_events_counted:
  assumes "event_run \<delta> \<pi> pick (event_loop_new now parallelism rconfig config n) l" and "is_heap_choice event_le pick"
  shows "ls_pending_events (el_state l) = length (eq_priority_queue (el_event_queue l)) \<and>
    (is_ok (fst (enqueue_event later e p l)) \<longleftrightarrow> 0 < ec_event_queue_capacity (el_config l))"
proof -
  from event_run_counted [OF assms(1) event_loop_new_counted assms(2)] have counted: "queue_counted l" .
  obtain r l' where "enqueue_event later e p l = (r, l')" by force
  with enqueue_event_counted [OF counted] counted show ?thesis by (auto simp: queue_counted_def)
qed


section \<open>Witnesses\<close>

lemma event_choice: "is_heap_choice event_le (best event_le)"
  using events.priority_heap_axioms by (simp add: heap_choice)

lemma timer_choice: "is_heap_choice timer_le (best timer_le)"
  using timers.priority_heap_axioms by (simp add: heap_choice)

text \<open>The shutdown request of \<open>stop\<close> waits behind every event of a lower priority.\<close>

definition demo_queue :: event_queue where
  "demo_queue = \<lparr>eq_events = [], eq_capacity = 2, eq_priority_queue =
     [\<lparr>pe_event = ShutdownRequest, pe_priority = Async_Runtime.Critical, pe_timestamp = 1\<rparr>,
      \<lparr>pe_event = SystemResume 7, pe_priority = Async_Runtime.Low, pe_timestamp = 2\<rparr>]\<rparr>"

lemma dequeue_takes_lowest_witness: "fst (dequeue (best event_le) demo_queue) = Some (SystemResume 7)"
proof -
  obtain e q' where d: "dequeue (best event_le) demo_queue = (e, q')" by force
  from dequeue_takes_lowest [OF event_choice _ d] obtain pe where pe: "e = Some (pe_event pe)"
    "mset (eq_priority_queue demo_queue) = add_mset pe (mset (eq_priority_queue q'))"
    "\<forall>other \<in> set (eq_priority_queue demo_queue). task_rank (pe_priority pe) \<le> task_rank (pe_priority other)"
    by (auto simp: demo_queue_def)
  from mset_eq_setD [of "eq_priority_queue demo_queue" "pe # eq_priority_queue q'"] pe(2)
  have "pe \<in> set (eq_priority_queue demo_queue)" by simp
  with pe(1,3) d show ?thesis by (auto simp: demo_queue_def)
qed

definition demo_timers :: timer_manager where
  "demo_timers = \<lparr>tmm_timers =
     [\<lparr>tm_id = 0, tm_task_id = 1, tm_fire_time = 9, tm_event = SystemResume 1\<rparr>,
      \<lparr>tm_id = 1, tm_task_id = 2, tm_fire_time = 3, tm_event = SystemResume 2\<rparr>], tmm_next_timer_id = 2\<rparr>"

lemma fired_timers_exact_witness:
  "\<exists>fired m'. get_fired_timers (best timer_le) 5 demo_timers = (fired, m') \<and> map tm_id fired = [1] \<and> map tm_id (tmm_timers m') = [0]"
proof -
  obtain fired m' where f: "get_fired_timers (best timer_le) 5 demo_timers = (fired, m')" by force
  have "mset fired = {#\<lparr>tm_id = 1, tm_task_id = 2, tm_fire_time = 3, tm_event = SystemResume 2\<rparr>#}"
    "mset (tmm_timers m') = {#\<lparr>tm_id = 0, tm_task_id = 1, tm_fire_time = 9, tm_event = SystemResume 1\<rparr>#}"
    using fired_timers_exact [OF timer_choice f] by (simp_all add: demo_timers_def)
  with f show ?thesis by auto
qed

definition demo_event_config :: event_loop_config where
  "demo_event_config =
     \<lparr>ec_max_executor_threads = 1, ec_event_queue_capacity = 1, ec_timer_resolution = 1, ec_max_execution_time = 1,
      ec_preemption_enabled = True, ec_load_balancing_strategy = LBPriority\<rparr>"

text \<open>A queue of capacity one takes a second event.\<close>

lemma pending_events_counted_witness:
  "\<exists>l. ls_pending_events (el_state l) = 2 \<and> length (eq_priority_queue (el_event_queue l)) = 2 \<and>
     ec_event_queue_capacity (el_config l) = 1 \<and> is_ok (fst (enqueue_event 3 ShutdownRequest Async_Runtime.Normal l))"
proof -
  let ?new = "event_loop_new 0 None \<lparr>rc_max_concurrent_systems = 1, rc_default_task_timeout = 5, rc_resource_lease_timeout = 5,
      rc_scheduling_quantum = 1, rc_enable_preemption = True\<rparr> demo_event_config 0"
  obtain r1 l1 where one: "request_stop 1 ?new = (r1, l1)" by force
  obtain r2 l2 where two: "request_stop 2 l1 = (r2, l2)" by force
  from event_run.more [OF event_run.more [OF event_run.none event_step.stopping [OF one]] event_step.stopping [OF two]]
  have run: "event_run (\<lambda>s. s) rev (best event_le) ?new l2" .
  have new: "eq_events (el_event_queue ?new) = []" "eq_priority_queue (el_event_queue ?new) = []"
    "eq_capacity (el_event_queue ?new) = 1" "ec_event_queue_capacity (el_config ?new) = 1"
    by (simp_all add: event_loop_new_def queue_new_def demo_event_config_def)
  from one new have "eq_events (el_event_queue l1) = []" "length (eq_priority_queue (el_event_queue l1)) = 1"
    "eq_capacity (el_event_queue l1) = 1" "ec_event_queue_capacity (el_config l1) = 1"
    by (auto simp: request_stop_def enqueue_event_def enqueue_def update_state_def)
  with two have "length (eq_priority_queue (el_event_queue l2)) = 2" "ec_event_queue_capacity (el_config l2) = 1"
    by (auto simp: request_stop_def enqueue_event_def enqueue_def update_state_def)
  with pending_events_counted [OF run event_choice, of 3 ShutdownRequest Async_Runtime.Normal] show ?thesis
    by (intro exI [of _ l2]) simp
qed

end
