(* ===== verification/Spec2Isabelle.thy ===== *)
theory Spec2Isabelle
  imports Scheduler_Properties Predicate_Properties Executor_Properties Query_Legacy Lifecycle_Properties
    Semantic_Properties Async_Scheduler_Properties Event_Properties
begin

text \<open>
  Verification of the analyser and the runtime of TriCTI, the Rust crate under \<open>src/\<close> (all paths below are relative
  to \<open>src/src\<close> in the repository).

  A TriCTI program declares tables, systems and resources. It is checked before code is generated
  (\<open>semantic.rs\<close>). At run time a scheduler
  (\<open>scheduler.rs\<close>) decides which systems may execute together, so that no two of them use a resource
  in conflicting ways; the statements of a system are lowered into a state machine that an executor
  runs step by step (\<open>system_executor.rs\<close>) against columnar tables (\<open>table_runtime.rs\<close>), whose
  computed columns are evaluated lazily and cached (\<open>computed_columns.rs\<close>). These parts are modelled
  here operation by operation, each definition after the function of the same name.

  \<^bold>\<open>Theories and sources.\<close>
  \<^item> \<open>Prelude\<close>: hash maps as association lists with distinct keys (\<open>hm_wf\<close>), hash sets as lists
    without duplicates, the iteration order of both as a parameter \<open>\<pi>\<close> with \<open>is_hash_order \<pi>\<close>,
    \<open>Result\<close> as a sum with the error on the left.
  \<^item> \<open>Ast\<close>: the syntax tree of \<open>ast.rs\<close>.
  \<^item> \<open>Tracker\<close>, \<open>Conflict\<close>, \<open>Scheduler\<close>, \<open>Scheduler_Properties\<close>: \<open>scheduler.rs\<close>. The
    resource tracker and its borrow rule, the conflict graph and its cycle search, then the scheduler
    with its queue, dependencies, strategies, batches and statistics. Runs of the scheduler are the
    step relation \<open>sched_step\<close>, over the whole interface, and its reachable states; the runs of a careful
    client (\<open>careful_reachable\<close>) leave out one thing that the scheduler permits, registering another
    declaration under the name of a system that executes.
  \<^item> \<open>Floats\<close>, \<open>Values\<close>, \<open>Bitmap\<close>: doubles computed on their bits, the column values, the column
    storage and the row bitmaps of \<open>table_runtime.rs\<close>.
  \<^item> \<open>Dependencies\<close>, \<open>Computed\<close>, \<open>Computed_Reference\<close>: \<open>computed_columns.rs\<close>. Dependency
    extraction and Kahn's sort, the evaluator with its cache and dirty marks, and the evaluation
    without a cache it is compared with.
  \<^item> \<open>Table\<close>, \<open>Table_Invariant\<close>, \<open>Table_Properties\<close>: the rows, the primary key and the scans of
    \<open>TableRuntime\<close>, and the finite map from row numbers to rows they implement (\<open>table_rows\<close>).
  \<^item> \<open>Predicates\<close>, \<open>Predicate_Properties\<close>: secondary indexes, predicate evaluation on columns,
    iterators and statistics of \<open>TableRuntime\<close>.
  \<^item> \<open>Query_Plan\<close>: the planner of \<open>query.rs\<close>, pass by pass, with its cost estimates.
    \<open>Query_Exec\<close>, \<open>Query_Properties\<close>: the nodes of a plan in \<open>query_executor.rs\<close> and what they
    return; the interface \<open>join_method\<close> is what the nested loop and both hash joins have in common.
    \<open>Query_Legacy\<close>: the older entry points of the same file.
  \<^item> \<open>Executor\<close>, \<open>Executor_Properties\<close>: \<open>system_executor.rs\<close>, with the types it shares with
    \<open>async_runtime.rs\<close>.
  \<^item> \<open>Async_Runtime\<close>, \<open>Async_Properties\<close>: \<open>async_runtime.rs\<close> as built by default: tasks, futures, ticks and
    results, with a tick that waits for a lock of its own as the outcome \<open>Blocked\<close>, and runs of the
    runtime as \<open>runtime_step\<close>. \<open>Async_Scheduler\<close>, \<open>Async_Scheduler_Properties\<close>:
    \<open>async_scheduler_integration.rs\<close>, the conflict matrix, the batches and the submission of requests.
    \<open>Event_Loop\<close>, \<open>Event_Properties\<close>: \<open>event_loop_manager.rs\<close>, the event queue, the timers, the handlers and
    the rounds of the loop; a \<open>BinaryHeap\<close> is a parameter that picks a greatest element, with the
    interface \<open>priority_heap\<close>.
  \<^item> \<open>Resource_Graph\<close>, \<open>Lifecycle\<close>, \<open>Lifecycle_Properties\<close>: \<open>resource_lifecycle.rs\<close>. The
    dependency graph with its two cycle searches, the lease manager with its timeout queue, and its runs
    as the step relations \<open>lifecycle_step\<close> (any client) and \<open>disciplined_step\<close>.
  \<^item> \<open>Semantic_Types\<close>, \<open>Semantic_Patterns\<close>, \<open>Semantic\<close>, \<open>Semantic_Program\<close>,
    \<open>Semantic_Properties\<close>: \<open>semantic.rs\<close>. The context with its scopes and modules, compatibility and
    promotion of types; the checker (\<open>checker\<close>, a function of the context with a result or an error),
    patterns, expressions and statements; the order of computed columns and the two passes over a
    program. \<open>analysis_relation\<close> is the interface of the relations that every checker keeps.

  \<^bold>\<open>How code becomes definitions.\<close> A struct is a record or a datatype, an enum a datatype. A method
  on \<open>&mut self\<close> returns the state it leaves behind, next to its result, also where it fails. A panic
  of the Rust code (an overflow, a division by zero, an index out of range) is a value: the left side
  of an outer sum, or \<open>None\<close> of an outer option. Integers have the width of the source; \<open>usize\<close>
  counters of rows are natural numbers, because they count objects in memory. The clock, counters that
  are shared by all threads, and the text that \<open>{:?}\<close> prints are arguments.

  \<^bold>\<open>What the lemmas show.\<close> For the scheduler, with any client: the tracker never records conflicting
  accesses, a start either takes everything or changes nothing, dependencies stay acyclic and batches
  keep their limit; with a careful client: executing systems never conflict, the tracker records
  exactly what they declare, completion undoes a start, and an idle scheduler can always go on. What
  goes wrong with another client is \<open>reregistration_leaks_access\<close> and \<open>reregistration_conflicts\<close>. For computed columns: the order of evaluation is
  correct, and the cache does not change a result. For tables: every reachable table represents a map
  from row numbers to typed rows with an exact key index, and insertion, update and deletion refine the
  operations on that map; scans and indexes return the rows they promise. For queries: every result fits
  its schema, the join methods agree with the relational join, and a selection returns the rows that
  satisfy its predicate whichever scan the planner chose. For systems: a machine of
  plain statements computes what its statements compute, and no step leaves a table in a bad state. For
  the asynchronous runtime: tasks, queue, results and futures fit together in every reachable state, a
  plain system ends after a known number of ticks, and the batches of the scheduler are free of
  conflicts; but a task that yields never resumes, and a step that fails hangs the runtime. For the event
  loop: timers fire exactly when they are due and in order, and the count of pending events is right.
  For the analyser: the context only grows outside the scope at work, accepted tables have the form the
  table runtime relies on, accepted implementation blocks provide their trait, computed columns are
  ordered as the engine will order them, and the type of \<open>+\<close>, \<open>-\<close>, \<open>*\<close> and \<open>/\<close> is given by the values of
  the operand types. For leases: the manager keeps its invariant whatever its clients do, and with
  disciplined clients expiry releases exactly what is due, if the policies ask for it.

  \<^bold>\<open>Bounds and fuel.\<close> Recursion in the models ends by a measure, with two kinds of exceptions that take fuel.
  \<open>evaluate_expression\<close> recurses through the columns an expression reads; its fuel \<open>engine_depth\<close> is
  the number of computed columns, and \<open>evaluation_depth_bounded\<close> proves that it suffices for any table
  that could be created. The drivers \<open>run_machine\<close> and \<open>run_ticks\<close> are not in the code:
  \<open>plain_system_completes\<close> and \<open>submitted_system_completes\<close> state the number of steps and ticks that
  suffices. The rounds of \<open>batch_rounds\<close> are proved to end for every order of its set (\<open>batches_partition\<close>). The execution of a plan ends because
  a materialized plan has no high-level node (\<open>high_nodes\<close>).

  \<^bold>\<open>Where the code does not do what it means to.\<close> The properties state what the code does, so several of
  them have a side condition that excludes a defect; each defect is a theorem on a concrete input, for
  instance \<open>key_inequality_returns_the_equal_row\<close>, \<open>mixed_condition_returns_every_row\<close>,
  \<open>update_leaves_stale_values\<close>, \<open>other_conjuncts_are_dropped\<close>, \<open>hash_join_ignores_operator\<close>,
  \<open>work_stealing_skips_a_system\<close>, \<open>suspended_never_resumes\<close>, \<open>break_after_type_error\<close>, \<open>cast_cycle_accepted\<close> and
  \<open>query_after_statement_never_ends\<close>.

  \<^bold>\<open>Not modelled.\<close> The parser (\<open>parser/mod.rs\<close>) walks the parse tree of rules that the pest generator
  derives from the grammar. Code generation (\<open>codegen.rs\<close>) emits LLVM IR through the inkwell bindings
  and has its meaning there. The command line, the
  package manager and the standard library wrappers do input and output. The threads of the event
  loop's executor pool, which are given no work, the asynchronous tables (\<open>async_table_integration.rs\<close>), the records of errors
  (\<open>error_propagation.rs\<close>) and the code of the feature \<open>tri-runtime\<close> were left out: they drive or
  observe the components that are modelled, and none of those reads what they keep.
\<close>

end
